(* ===== verification/Prelude.thy ===== *)
theory Prelude
  imports Complex_Main "HOL-Library.Word" "HOL-Library.Monad_Syntax" "HOL-Library.Signed_Division" "HOL-Library.Sublist"
begin

text \<open>
  What every component shares: the names of the machine types, byte buffers with checked
  access, vectors with checked access, the subtraction of \<open>size_t\<close>, C's remainder, and a small
  theory of reachable states.

  Undefined behaviour is the value \<^const>\<open>None\<close>: an access outside a \<open>std::vector\<close>, a null
  dereference or a loop that does not return makes the operation that performs it return
  \<^const>\<open>None\<close>, and an operation that cannot do any of these is an ordinary function. Multi-byte
  values are little endian, as on every platform the library is built for.
\<close>

unbundle bit_operations_syntax

type_synonym u8 = "8 word"
type_synonym u16 = "16 word"
type_synonym i32 = "32 word"
type_synonym i64 = "64 word"
type_synonym bytes = "u8 list"

named_theorems buf_simps \<open>evaluation of buffer reads and writes\<close>
named_theorems packet_simps \<open>headers of packets\<close>
named_theorems chan_defs \<open>operations of the channels\<close>
named_theorems peer_defs \<open>operations of a peer\<close>

section \<open>Little-endian words\<close>

primrec le_word :: "bytes \<Rightarrow> 'a::len word" where
  "le_word [] = 0"
| "le_word (b # bs) = (ucast b OR push_bit 8 (le_word bs))"

primrec le_bytes :: "nat \<Rightarrow> 'a::len word \<Rightarrow> bytes" where
  "le_bytes 0 w = []"
| "le_bytes (Suc n) w = ucast w # le_bytes n (drop_bit 8 w)"

lemma length_le_bytes [simp]: "length (le_bytes n w) = n"
  by (induction n arbitrary: w) auto

lemma le_word_le_bytes: "le_word (le_bytes n w) = take_bit (8 * n) w"
proof (induction n arbitrary: w)
  case (Suc n)
  show ?case
    by (rule bit_word_eqI) (auto simp: Suc bit_simps not_le less_diff_conv2)
qed simp

lemma le_word_le_bytes_full [simp]:
  "LENGTH('a) \<le> 8 * n \<Longrightarrow> le_word (le_bytes n (w :: 'a::len word)) = w"
  by (simp add: le_word_le_bytes take_bit_word_eq_self)

lemma le_bytes_inject:
  "LENGTH('a) \<le> 8 * n \<Longrightarrow> le_bytes n (v :: 'a::len word) = le_bytes n w \<longleftrightarrow> v = w"
  by (metis le_word_le_bytes_full)

lemma bit_u8_out [simp]: "8 \<le> n \<Longrightarrow> \<not> bit (v :: u8) n"
  using bit_imp_le_length [of v n] by auto

lemma le_bytes_4_of_u8: "le_bytes 4 (ucast (v :: u8) :: i32) = [v, 0, 0, 0]"
  by (simp add: numeral_nat) (auto simp: bit_eq_iff bit_simps)

section \<open>Checked access to byte buffers\<close>

definition rd_bytes :: "bytes \<Rightarrow> nat \<Rightarrow> nat \<Rightarrow> bytes option" where
  "rd_bytes bs i n = (if i + n \<le> length bs then Some (take n (drop i bs)) else None)"

definition wr_bytes :: "bytes \<Rightarrow> nat \<Rightarrow> bytes \<Rightarrow> bytes option" where
  "wr_bytes bs i xs =
     (if i + length xs \<le> length bs then Some (take i bs @ xs @ drop (i + length xs) bs) else None)"

definition rd8 :: "bytes \<Rightarrow> nat \<Rightarrow> u8 option" where
  "rd8 bs i = (if i < length bs then Some (bs ! i) else None)"

definition wr8 :: "bytes \<Rightarrow> nat \<Rightarrow> u8 \<Rightarrow> bytes option" where
  "wr8 bs i b = (if i < length bs then Some (bs[i := b]) else None)"

definition rd16 :: "bytes \<Rightarrow> nat \<Rightarrow> u16 option" where
  "rd16 bs i = map_option le_word (rd_bytes bs i 2)"

definition rd32 :: "bytes \<Rightarrow> nat \<Rightarrow> i32 option" where
  "rd32 bs i = map_option le_word (rd_bytes bs i 4)"

definition rd64 :: "bytes \<Rightarrow> nat \<Rightarrow> i64 option" where
  "rd64 bs i = map_option le_word (rd_bytes bs i 8)"

definition wr16 :: "bytes \<Rightarrow> nat \<Rightarrow> u16 \<Rightarrow> bytes option" where
  "wr16 bs i v = wr_bytes bs i (le_bytes 2 v)"

definition wr32 :: "bytes \<Rightarrow> nat \<Rightarrow> i32 \<Rightarrow> bytes option" where
  "wr32 bs i v = wr_bytes bs i (le_bytes 4 v)"

definition wr64 :: "bytes \<Rightarrow> nat \<Rightarrow> i64 \<Rightarrow> bytes option" where
  "wr64 bs i v = wr_bytes bs i (le_bytes 8 v)"

lemmas rd_defs = rd_bytes_def rd8_def rd16_def rd32_def rd64_def
lemmas wr_defs = wr_bytes_def wr8_def wr16_def wr32_def wr64_def

lemma rd_bytes_SomeI [buf_simps]: "i + n \<le> length bs \<Longrightarrow> rd_bytes bs i n = Some (take n (drop i bs))"
  by (simp add: rd_bytes_def)

lemma rd_bytes_None [buf_simps]: "\<not> i + n \<le> length bs \<Longrightarrow> rd_bytes bs i n = None"
  by (simp add: rd_bytes_def)

lemma wr_bytes_length: "wr_bytes bs i xs = Some bs' \<Longrightarrow> length bs' = length bs"
  by (auto simp: wr_bytes_def split: if_splits)

lemma wr16_length: "wr16 bs i v = Some bs' \<Longrightarrow> length bs' = length bs"
  by (simp add: wr16_def wr_bytes_length)

lemma wr8_length: "wr8 bs i v = Some bs' \<Longrightarrow> length bs' = length bs"
  by (auto simp: wr8_def split: if_splits)

lemma wr_bytes_ok: "i + length xs \<le> length bs \<Longrightarrow> \<exists>bs'. wr_bytes bs i xs = Some bs'"
  by (simp add: wr_bytes_def)

text \<open>Reading back what was written, and reading beside it.\<close>

lemma rd_wr_same: "wr_bytes bs i xs = Some bs' \<Longrightarrow> rd_bytes bs' i (length xs) = Some xs"
  by (auto simp: wr_bytes_def rd_bytes_def split: if_splits)

lemma wr_bytes_nth:
  assumes "wr_bytes bs i xs = Some bs'" and "k < length bs"
  shows "bs' ! k = (if i \<le> k \<and> k < i + length xs then xs ! (k - i) else bs ! k)"
  using assms by (auto simp: wr_bytes_def nth_append split: if_splits)

lemma rd_bytes_cong:
  assumes "length bs' = length bs" and "\<And>k. \<lbrakk>j \<le> k; k < j + n; k < length bs\<rbrakk> \<Longrightarrow> bs' ! k = bs ! k"
  shows "rd_bytes bs' j n = rd_bytes bs j n"
  using assms by (auto simp: rd_bytes_def intro!: nth_equalityI)

lemma rd_wr_other:
  assumes "wr_bytes bs i xs = Some bs'" and "j + n \<le> i \<or> i + length xs \<le> j"
  shows "rd_bytes bs' j n = rd_bytes bs j n"
proof (rule rd_bytes_cong)
  show "length bs' = length bs" using assms(1) by (rule wr_bytes_length)
  show "bs' ! k = bs ! k" if "j \<le> k" "k < j + n" "k < length bs" for k
    using wr_bytes_nth [OF assms(1) that(3)] that assms(2) by auto
qed

lemma rd16_wr16_same: "wr16 bs i v = Some bs' \<Longrightarrow> rd16 bs' i = Some v"
  unfolding wr16_def rd16_def by (drule rd_wr_same) simp

lemma rd32_wr32_same: "wr32 bs i v = Some bs' \<Longrightarrow> rd32 bs' i = Some v"
  unfolding wr32_def rd32_def by (drule rd_wr_same) simp

lemma rd64_wr64_same: "wr64 bs i v = Some bs' \<Longrightarrow> rd64 bs' i = Some v"
  unfolding wr64_def rd64_def by (drule rd_wr_same) simp

text \<open>Filling a buffer from the front: the bytes written so far are a prefix of it.\<close>

lemma wr_bytes_prefix:
  assumes "prefix pre bs" and "length pre + length xs \<le> length bs"
  shows "\<exists>bs'. wr_bytes bs (length pre) xs = Some bs' \<and> length bs' = length bs \<and> prefix (pre @ xs) bs'"
proof -
  from assms(1) obtain zs where bs: "bs = pre @ zs" by (auto elim: prefixE)
  with assms(2) show ?thesis by (simp add: wr_bytes_def prefix_def)
qed

lemma wr8_prefix:
  assumes "prefix pre bs" and "length pre < length bs"
  shows "\<exists>bs'. wr8 bs (length pre) b = Some bs' \<and> length bs' = length bs \<and> prefix (pre @ [b]) bs'"
proof -
  from assms(1) obtain zs where bs: "bs = pre @ zs" by (auto elim: prefixE)
  with assms(2) obtain z zs' where "zs = z # zs'" by (cases zs) auto
  with bs show ?thesis by (simp add: wr8_def prefix_def list_update_append)
qed

lemma prefix_rd_bytes:
  "prefix pre bs \<Longrightarrow> i + n \<le> length pre \<Longrightarrow> rd_bytes bs i n = Some (take n (drop i pre))"
  by (auto simp: rd_bytes_def prefix_def)

lemma prefix_rd8: "prefix pre bs \<Longrightarrow> i < length pre \<Longrightarrow> rd8 bs i = Some (pre ! i)"
  by (auto simp: rd8_def prefix_def nth_append)

section \<open>Vectors with checked access, and machine arithmetic\<close>

text \<open>\<open>v[i]\<close> for an index of type \<open>int32_t\<close>.\<close>

definition vget :: "'a list \<Rightarrow> int \<Rightarrow> 'a option" where
  "vget xs i = (if 0 \<le> i \<and> nat i < length xs then Some (xs ! nat i) else None)"

definition vset :: "'a list \<Rightarrow> int \<Rightarrow> 'a \<Rightarrow> 'a list option" where
  "vset xs i x = (if 0 \<le> i \<and> nat i < length xs then Some (xs[nat i := x]) else None)"

lemma vget_SomeI [simp]: "0 \<le> i \<Longrightarrow> nat i < length xs \<Longrightarrow> vget xs i = Some (xs ! nat i)"
  by (simp add: vget_def)

lemma vset_SomeI [simp]: "0 \<le> i \<Longrightarrow> nat i < length xs \<Longrightarrow> vset xs i x = Some (xs[nat i := x])"
  by (simp add: vset_def)

lemma vget_Some_iff: "vget xs i = Some x \<longleftrightarrow> 0 \<le> i \<and> nat i < length xs \<and> x = xs ! nat i"
  by (auto simp: vget_def)

lemma vset_Some_iff: "vset xs i x = Some ys \<longleftrightarrow> 0 \<le> i \<and> nat i < length xs \<and> ys = xs[nat i := x]"
  by (auto simp: vset_def)

text \<open>\<open>a - b\<close> on \<open>size_t\<close>, which wraps around.\<close>

definition usub :: "nat \<Rightarrow> nat \<Rightarrow> nat" where
  "usub a b = (if b \<le> a then a - b else 2 ^ 64 + a - b)"

lemma usub_le [simp]: "b \<le> a \<Longrightarrow> usub a b = a - b"
  by (simp add: usub_def)

text \<open>C's \<open>%\<close> truncates towards zero; on non-negative values it is \<open>mod\<close>.\<close>

lemma smod_nonneg [simp]: "0 \<le> a \<Longrightarrow> 0 < b \<Longrightarrow> a smod b = a mod (b :: int)"
  by (cases "a = 0") (auto simp: signed_modulo_int_def signed_divide_int_def minus_div_mult_eq_mod)

section \<open>Reachable states\<close>

inductive reach :: "('s \<Rightarrow> bool) \<Rightarrow> ('s \<Rightarrow> 's \<Rightarrow> bool) \<Rightarrow> 's \<Rightarrow> bool" for I step where
  reach_init: "I s \<Longrightarrow> reach I step s"
| reach_step: "reach I step s \<Longrightarrow> step s t \<Longrightarrow> reach I step t"

text \<open>The contract between a step relation and an invariant of it.\<close>

locale inductive_invariant =
  fixes init :: "'s \<Rightarrow> bool" and step :: "'s \<Rightarrow> 's \<Rightarrow> bool" and inv :: "'s \<Rightarrow> bool"
  assumes inv_init: "init s \<Longrightarrow> inv s"
    and inv_step: "inv s \<Longrightarrow> step s t \<Longrightarrow> inv t"
begin

lemma reach_inv: "reach init step s \<Longrightarrow> inv s"
  by (induction rule: reach.induct) (auto intro: inv_init inv_step)

end

end
