(* ===== verification/Net_Utils.thy ===== *)
theory Net_Utils
  imports Prelude
begin

text \<open>
  The constants of \<open>net_constants.h\<close> and the helpers of \<open>net_utils.h\<close>: the comparison of
  16-bit sequence numbers on a circle of \<open>MAX_SEQUENCE\<close> values, the conversion of the system
  time to ticks of 100ns, the stopwatch of \<open>net_stopwatch.h\<close>, and the formatting loop.
  The operating system's clock and \<open>vsnprintf\<close> are arguments.
\<close>

section \<open>Constants\<close>

definition DEFAULT_WINDOW_SIZE :: int where "DEFAULT_WINDOW_SIZE = 64"
definition HEADER_SIZE :: nat where "HEADER_SIZE = 1"
definition CHANNELED_HEADER_SIZE :: nat where "CHANNELED_HEADER_SIZE = 4"
definition CONNECT_REQUEST_HEADER_SIZE :: nat where "CONNECT_REQUEST_HEADER_SIZE = 18"
definition CONNECT_ACCEPT_HEADER_SIZE :: nat where "CONNECT_ACCEPT_HEADER_SIZE = 15"
definition FRAGMENT_HEADER_SIZE :: nat where "FRAGMENT_HEADER_SIZE = 6"
definition FRAGMENTED_HEADER_TOTAL_SIZE :: nat where
  "FRAGMENTED_HEADER_TOTAL_SIZE = CHANNELED_HEADER_SIZE + FRAGMENT_HEADER_SIZE"
definition MAX_SEQUENCE :: int where "MAX_SEQUENCE = 32768"
definition HALF_MAX_SEQUENCE :: int where "HALF_MAX_SEQUENCE = MAX_SEQUENCE div 2"
definition PROTOCOL_ID :: i32 where "PROTOCOL_ID = 13"
definition MAX_UDP_HEADER_SIZE :: nat where "MAX_UDP_HEADER_SIZE = 68"
definition CHANNEL_TYPE_COUNT :: nat where "CHANNEL_TYPE_COUNT = 4"

definition POSSIBLE_MTU :: "nat list" where
  "POSSIBLE_MTU =
     [576 - MAX_UDP_HEADER_SIZE,
      1024,
      1232 - MAX_UDP_HEADER_SIZE,
      1460 - MAX_UDP_HEADER_SIZE,
      1472 - MAX_UDP_HEADER_SIZE,
      1492 - MAX_UDP_HEADER_SIZE,
      1500 - MAX_UDP_HEADER_SIZE]"

definition MAX_PACKET_SIZE :: nat where "MAX_PACKET_SIZE = last POSSIBLE_MTU"
definition MAX_CONNECTION_NUMBER :: u8 where "MAX_CONNECTION_NUMBER = 4"

lemmas size_consts [simp] =
  HEADER_SIZE_def CHANNELED_HEADER_SIZE_def CONNECT_REQUEST_HEADER_SIZE_def
  CONNECT_ACCEPT_HEADER_SIZE_def FRAGMENT_HEADER_SIZE_def FRAGMENTED_HEADER_TOTAL_SIZE_def
  CHANNEL_TYPE_COUNT_def MAX_UDP_HEADER_SIZE_def

lemmas seq_consts = MAX_SEQUENCE_def HALF_MAX_SEQUENCE_def DEFAULT_WINDOW_SIZE_def

lemma POSSIBLE_MTU_eq: "POSSIBLE_MTU = [508, 1024, 1164, 1392, 1404, 1424, 1432]"
  by (simp add: POSSIBLE_MTU_def)

lemma length_POSSIBLE_MTU [simp]: "length POSSIBLE_MTU = 7"
  by (simp add: POSSIBLE_MTU_def)

lemma MAX_PACKET_SIZE_eq [simp]: "MAX_PACKET_SIZE = 1432"
  by (simp add: MAX_PACKET_SIZE_def POSSIBLE_MTU_eq)

lemma POSSIBLE_MTU_sorted: "sorted POSSIBLE_MTU" "distinct POSSIBLE_MTU"
  by (simp_all add: POSSIBLE_MTU_eq)

lemma POSSIBLE_MTU_bounds: "i < 7 \<Longrightarrow> 508 \<le> POSSIBLE_MTU ! i \<and> POSSIBLE_MTU ! i \<le> 1432"
  by (auto simp: POSSIBLE_MTU_eq less_Suc_eq numeral_nat)

lemma POSSIBLE_MTU_strict_mono: "i < j \<Longrightarrow> j < 7 \<Longrightarrow> POSSIBLE_MTU ! i < POSSIBLE_MTU ! j"
  using sorted_nth_mono [OF POSSIBLE_MTU_sorted(1), of i j]
    nth_eq_iff_index_eq [OF POSSIBLE_MTU_sorted(2), of i j]
  by (auto simp: order_less_le)

section \<open>Sequence numbers\<close>

definition relative_sequence_number :: "int \<Rightarrow> int \<Rightarrow> int" where
  "relative_sequence_number number expected =
     (number - expected + MAX_SEQUENCE + HALF_MAX_SEQUENCE) smod MAX_SEQUENCE - HALF_MAX_SEQUENCE"

lemma relative_sequence_number_mod:
  "-(MAX_SEQUENCE + HALF_MAX_SEQUENCE) \<le> n - e \<Longrightarrow>
   relative_sequence_number n e = (n - e + HALF_MAX_SEQUENCE) mod MAX_SEQUENCE - HALF_MAX_SEQUENCE"
proof -
  assume "-(MAX_SEQUENCE + HALF_MAX_SEQUENCE) \<le> n - e"
  then have "(n - e + 32768 + 16384) smod 32768 = (n - e + 32768 + 16384) mod 32768"
    by (subst smod_nonneg) (simp_all add: seq_consts)
  also have "\<dots> = ((n - e + 16384) + 32768) mod 32768"
    by (rule arg_cong [where f = "\<lambda>x. x mod 32768"]) simp
  also have "\<dots> = (n - e + 16384) mod 32768"
    by (rule mod_add_self2)
  finally show ?thesis
    unfolding relative_sequence_number_def seq_consts by simp
qed

lemma relative_sequence_number_range:
  assumes "0 \<le> n" "n < MAX_SEQUENCE" "0 \<le> e" "e < MAX_SEQUENCE"
  shows "-HALF_MAX_SEQUENCE \<le> relative_sequence_number n e"
    and "relative_sequence_number n e < HALF_MAX_SEQUENCE"
  using assms by (simp_all add: relative_sequence_number_mod seq_consts)

text \<open>
  The interface the channels rely on: numbers on the wire are taken modulo \<open>M\<close>, and the
  distance of two of them is the true distance as long as that is below \<open>H\<close>.
\<close>

locale wire_sequence =
  fixes rel :: "int \<Rightarrow> int \<Rightarrow> int" and M H :: int
  assumes M_pos: "0 < M"
    and rel_true: "-H \<le> a - b \<Longrightarrow> a - b < H \<Longrightarrow> rel (a mod M) (b mod M) = a - b"
begin

lemma rel_self: "0 < H \<Longrightarrow> rel (a mod M) (a mod M) = 0"
  using rel_true [of a a] by simp

lemma rel_antisym:
  "-H < a - b \<Longrightarrow> a - b < H \<Longrightarrow> rel (a mod M) (b mod M) = - rel (b mod M) (a mod M)"
  using rel_true [of a b] rel_true [of b a] by simp

lemma rel_wire:
  "0 \<le> s \<Longrightarrow> s < M \<Longrightarrow> s = a mod M \<Longrightarrow> -H \<le> a - b \<Longrightarrow> a - b < H \<Longrightarrow> rel s (b mod M) = a - b"
  using rel_true by simp

lemma rel_newer_iff:
  "-H \<le> a - b \<Longrightarrow> a - b < H \<Longrightarrow> 0 < rel (a mod M) (b mod M) \<longleftrightarrow> b < a"
  by (simp add: rel_true)

end

lemma relative_sequence_number_true:
  assumes "-HALF_MAX_SEQUENCE \<le> a - b" and "a - b < HALF_MAX_SEQUENCE"
  shows "relative_sequence_number (a mod MAX_SEQUENCE) (b mod MAX_SEQUENCE) = a - b"
proof -
  have "-32768 \<le> a mod 32768 - b mod (32768::int)"
    using pos_mod_bound [of 32768 b] pos_mod_sign [of 32768 a] by linarith
  then have "relative_sequence_number (a mod MAX_SEQUENCE) (b mod MAX_SEQUENCE)
      = (a mod 32768 - b mod 32768 + 16384) mod 32768 - 16384"
    by (simp add: relative_sequence_number_mod seq_consts)
  also have "\<dots> = (a - b + 16384) mod 32768 - 16384"
    by (metis mod_add_left_eq mod_diff_eq)
  also have "\<dots> = a - b"
    using assms by (simp add: seq_consts)
  finally show ?thesis .
qed

interpretation seqno: wire_sequence relative_sequence_number MAX_SEQUENCE HALF_MAX_SEQUENCE
  by unfold_locales (auto simp: relative_sequence_number_true, simp add: seq_consts)

section \<open>Time\<close>

definition TICKS_PER_MILLISECOND :: int where "TICKS_PER_MILLISECOND = 10000"
definition SECS_TO_100NS :: int where "SECS_TO_100NS = 10000000"
definition MICROSECONDS_TO_100NS :: int where "MICROSECONDS_TO_100NS = 10"

text \<open>\<open>gettimeofday\<close> either fails or gives seconds and microseconds.\<close>

definition get_current_time :: "(int \<times> int) option \<Rightarrow> int" where
  "get_current_time tv =
     (case tv of None \<Rightarrow> 0
      | Some (tv_sec, tv_usec) \<Rightarrow> tv_sec * SECS_TO_100NS + tv_usec * MICROSECONDS_TO_100NS)"

lemma get_current_time_mono:
  assumes "0 \<le> us" "us < 1000000" "0 \<le> us'" "us' < 1000000" "s < s' \<or> s = s' \<and> us \<le> us'"
  shows "get_current_time (Some (s, us)) \<le> get_current_time (Some (s', us'))"
  using assms by (auto simp: get_current_time_def SECS_TO_100NS_def MICROSECONDS_TO_100NS_def)

section \<open>The stopwatch\<close>

text \<open>Times are nanoseconds of \<open>high_resolution_clock\<close>; \<open>now\<close> is the clock's reading.\<close>

record net_stopwatch =
  m_start :: int
  m_last_time :: int
  m_running_sw :: bool

definition new_stopwatch :: net_stopwatch where
  "new_stopwatch = \<lparr>m_start = 0, m_last_time = 0, m_running_sw = False\<rparr>"

definition sw_start :: "int \<Rightarrow> net_stopwatch \<Rightarrow> net_stopwatch" where
  "sw_start now sw = (if m_running_sw sw then sw else sw\<lparr>m_start := now, m_running_sw := True\<rparr>)"

definition sw_stop :: "int \<Rightarrow> net_stopwatch \<Rightarrow> net_stopwatch" where
  "sw_stop now sw =
     (if \<not> m_running_sw sw then sw
      else sw\<lparr>m_last_time := now - m_start sw, m_running_sw := False\<rparr>)"

definition sw_restart :: "int \<Rightarrow> net_stopwatch \<Rightarrow> net_stopwatch" where
  "sw_restart now sw = sw\<lparr>m_start := now, m_running_sw := True\<rparr>"

definition sw_reset :: "int \<Rightarrow> net_stopwatch \<Rightarrow> net_stopwatch" where
  "sw_reset now sw = sw\<lparr>m_start := now\<rparr>"

definition sw_milliseconds :: "int \<Rightarrow> net_stopwatch \<Rightarrow> int" where
  "sw_milliseconds now sw =
     (let duration = (if \<not> m_running_sw sw then m_last_time sw else now - m_start sw)
      in sint (word_of_int (duration sdiv 1000000) :: i32))"

lemma sint_word_of_int_i32: "-(2 ^ 31) \<le> x \<Longrightarrow> x < 2 ^ 31 \<Longrightarrow> sint (word_of_int x :: i32) = x"
  by (simp add: signed_of_int signed_take_bit_int_eq_self)

lemma sdiv_nonneg: "0 \<le> a \<Longrightarrow> 0 < b \<Longrightarrow> a sdiv b = a div (b :: int)"
  by (cases "a = 0") (auto simp: signed_divide_int_def)

text \<open>A stopped watch keeps showing the time between its start and its stop.\<close>

lemma stopwatch_measures:
  assumes "t0 \<le> t1" and "(t1 - t0) div 1000000 < 2 ^ 31"
  shows "sw_milliseconds t (sw_stop t1 (sw_restart t0 sw)) = (t1 - t0) div 1000000"
proof -
  have "0 \<le> (t1 - t0) div 1000000" using assms(1) by (simp add: pos_imp_zdiv_nonneg_iff)
  then show ?thesis
    using assms sint_word_of_int_i32 [of "(t1 - t0) div 1000000"]
    by (simp add: sw_milliseconds_def sw_stop_def sw_restart_def sdiv_nonneg)
qed

section \<open>Formatting\<close>

text \<open>
  \<open>vsnprintf\<close> is given the buffer size and returns a count, with the characters it wrote. The
  buffer starts at twice the length of the format plus 50.
\<close>

partial_function (option) string_format_loop ::
  "(int \<Rightarrow> int \<times> string) \<Rightarrow> int \<Rightarrow> string option" where
  "string_format_loop vsnprintf sz =
     (let (n, out) = vsnprintf sz
      in if n > -1 \<and> n < sz then Some (take (nat n) out)
         else if n > -1 then string_format_loop vsnprintf (n + 1)
         else string_format_loop vsnprintf (sz * 2))"

definition string_format :: "(int \<Rightarrow> int \<times> string) \<Rightarrow> string \<Rightarrow> string option" where
  "string_format vsnprintf fmt = string_format_loop vsnprintf (int (length fmt) * 2 + 50)"

lemma string_format_total:
  assumes conforming: "\<And>sz. 0 < sz \<Longrightarrow> vsnprintf sz = (int (length text0), take (nat sz - 1) text0)"
  shows "string_format vsnprintf fmt = Some text0"
proof -
  let ?n = "int (length text0)"
  have fits: "string_format_loop vsnprintf sz = Some text0" if "?n < sz" for sz
    using conforming [of sz] that by (subst string_format_loop.simps) simp
  have two: "string_format_loop vsnprintf sz = Some text0" if "0 < sz" for sz
    using conforming [of sz] that fits [of sz] fits [of "?n + 1"]
    by (cases "?n < sz") (simp, subst string_format_loop.simps, simp)
  show ?thesis unfolding string_format_def by (rule two) simp
qed

end
