(* ===== verification/Net_Packet.thy ===== *)
theory Net_Packet
  imports Net_Utils
begin

text \<open>
  The enumerations of \<open>net_enums.h\<close> and the class \<open>net_packet\<close> of \<open>net_packet.h\<close>: a growing
  buffer \<open>m_data\<close>, the logical size \<open>m_size\<close> and the user's pointer. The header lies in the
  first bytes: byte 0 holds the property (5 bits), the connection number (2 bits) and the
  fragment flag (1 bit); the other fields are little-endian words at fixed offsets. A read or
  write past the buffer is \<^const>\<open>None\<close>. Byte 0 always exists, because both constructors call
  \<open>ensure\<close> with a positive size and the buffer never shrinks (lemma \<open>new_packet_nonempty\<close>).
\<close>

section \<open>Enumerations\<close>

datatype delivery_method =
  UNRELIABLE_DELIVERY | RELIABLE_UNORDERED | SEQUENCED | RELIABLE_ORDERED | RELIABLE_SEQUENCED

fun delivery_code :: "delivery_method \<Rightarrow> nat" where
  "delivery_code UNRELIABLE_DELIVERY = 4"
| "delivery_code RELIABLE_UNORDERED = 0"
| "delivery_code SEQUENCED = 1"
| "delivery_code RELIABLE_ORDERED = 2"
| "delivery_code RELIABLE_SEQUENCED = 3"

datatype disconnect_reason =
  CONNECTION_FAILED | TIMEOUT | HOST_UNREACHABLE | NETWORK_UNREACHABLE | REMOTE_CONNECTION_CLOSE
| DISCONNECT_PEER_CALLED | CONNECTION_REJECTED | INVALID_PROTOCOL_REASON | UNKNOWN_HOST | RECONNECT
| PEER_TO_PEER_CONNECTION | PEER_NOT_FOUND_REASON

datatype connection_request_result = NO_RESULT | ACCEPT | REJECT | REJECT_FORCE

datatype shutdown_result = SHUTDOWN_NONE | SHUTDOWN_SUCCESS | WAS_CONNECTED

datatype connection_state =
  OUTGOING | CONNECTED | SHUTDOWN_REQUESTED | DISCONNECTED | ENDPOINT_CHANGE

datatype disconnect_result = DISCONNECT_NONE | DISCONNECT_REJECT | DISCONNECT_DISCONNECT

datatype connect_request_result = REQUEST_NONE | P2P_LOSE | RECONNECTION | NEW_CONNECTION

datatype unconnected_message_type = BASIC | BROADCAST_MESSAGE

text \<open>
  The properties in the order of the enumeration; \<open>RESERVED\<close> stands for the values that fit in
  the five bits but have no enumerator.
\<close>

datatype packet_property =
  UNRELIABLE | CHANNELED | ACK | PING | PONG | CONNECT_REQUEST | CONNECT_ACCEPT | DISCONNECT
| UNCONNECTED_MESSAGE | MTU_CHECK | MTU_OK | BROADCAST | MERGED | SHUTDOWN_OK | PEER_NOT_FOUND
| INVALID_PROTOCOL | NAT_MESSAGE | EMPTY | RESERVED u8

fun property_code :: "packet_property \<Rightarrow> u8" where
  "property_code UNRELIABLE = 0"
| "property_code CHANNELED = 1"
| "property_code ACK = 2"
| "property_code PING = 3"
| "property_code PONG = 4"
| "property_code CONNECT_REQUEST = 5"
| "property_code CONNECT_ACCEPT = 6"
| "property_code DISCONNECT = 7"
| "property_code UNCONNECTED_MESSAGE = 8"
| "property_code MTU_CHECK = 9"
| "property_code MTU_OK = 10"
| "property_code BROADCAST = 11"
| "property_code MERGED = 12"
| "property_code SHUTDOWN_OK = 13"
| "property_code PEER_NOT_FOUND = 14"
| "property_code INVALID_PROTOCOL = 15"
| "property_code NAT_MESSAGE = 16"
| "property_code EMPTY = 17"
| "property_code (RESERVED c) = c"

definition PROPERTY_COUNT :: nat where "PROPERTY_COUNT = 18"

definition property_of_code :: "u8 \<Rightarrow> packet_property" where
  "property_of_code c =
     (if c = 0 then UNRELIABLE else if c = 1 then CHANNELED else if c = 2 then ACK
      else if c = 3 then PING else if c = 4 then PONG else if c = 5 then CONNECT_REQUEST
      else if c = 6 then CONNECT_ACCEPT else if c = 7 then DISCONNECT
      else if c = 8 then UNCONNECTED_MESSAGE else if c = 9 then MTU_CHECK
      else if c = 10 then MTU_OK else if c = 11 then BROADCAST else if c = 12 then MERGED
      else if c = 13 then SHUTDOWN_OK else if c = 14 then PEER_NOT_FOUND
      else if c = 15 then INVALID_PROTOCOL else if c = 16 then NAT_MESSAGE
      else if c = 17 then EMPTY else RESERVED c)"

definition named_property :: "packet_property \<Rightarrow> bool" where
  "named_property p \<longleftrightarrow> (case p of RESERVED _ \<Rightarrow> False | _ \<Rightarrow> True)"

lemma property_of_code_code [simp]: "named_property p \<Longrightarrow> property_of_code (property_code p) = p"
  by (cases p) (simp_all add: property_of_code_def named_property_def)

lemma property_code_bound: "named_property p \<Longrightarrow> unat (property_code p) < PROPERTY_COUNT"
  by (cases p) (simp_all add: named_property_def PROPERTY_COUNT_def)

text \<open>
  The array has \<open>COUNT\<close> = 18 slots and 17 initialisers, so the last slot is zero: the entry for
  \<open>UNCONNECTED_MESSAGE\<close> is missing and \<open>EMPTY\<close> gets no header byte.
\<close>

definition HEADER_SIZES :: "nat list" where
  "HEADER_SIZES =
     [HEADER_SIZE, CHANNELED_HEADER_SIZE, CHANNELED_HEADER_SIZE, HEADER_SIZE + 2, HEADER_SIZE + 10,
      CONNECT_REQUEST_HEADER_SIZE, CONNECT_ACCEPT_HEADER_SIZE, HEADER_SIZE + 8,
      HEADER_SIZE, HEADER_SIZE, HEADER_SIZE, HEADER_SIZE, HEADER_SIZE, HEADER_SIZE, HEADER_SIZE,
      HEADER_SIZE, HEADER_SIZE, 0]"

definition static_header_size :: "packet_property \<Rightarrow> nat" where
  "static_header_size p = HEADER_SIZES ! unat (property_code p)"

lemma static_header_size_simps [simp]:
  "static_header_size UNRELIABLE = 1" "static_header_size CHANNELED = 4"
  "static_header_size ACK = 4" "static_header_size PING = 3" "static_header_size PONG = 11"
  "static_header_size CONNECT_REQUEST = 18" "static_header_size CONNECT_ACCEPT = 15"
  "static_header_size DISCONNECT = 9" "static_header_size UNCONNECTED_MESSAGE = 1"
  "static_header_size MTU_CHECK = 1" "static_header_size MTU_OK = 1"
  "static_header_size BROADCAST = 1" "static_header_size MERGED = 1"
  "static_header_size SHUTDOWN_OK = 1" "static_header_size PEER_NOT_FOUND = 1"
  "static_header_size INVALID_PROTOCOL = 1" "static_header_size NAT_MESSAGE = 1"
  "static_header_size EMPTY = 0"
  by (simp_all add: static_header_size_def HEADER_SIZES_def)

section \<open>The buffer\<close>

record net_packet =
  m_data :: bytes
  m_size :: nat
  user_data :: "nat option"

definition GROWTH_FACTOR :: nat where "GROWTH_FACTOR = 2"

function grow :: "nat \<Rightarrow> nat \<Rightarrow> nat" where
  "grow cur sz =
     (if cur < sz
      then grow (let new_size = cur * GROWTH_FACTOR in if new_size = 0 then GROWTH_FACTOR else new_size) sz
      else cur)"
  by pat_completeness auto
termination
  by (relation "measure (\<lambda>(cur, sz). sz - cur)") (auto simp: GROWTH_FACTOR_def Let_def)

declare grow.simps [simp del]

definition ensure :: "nat \<Rightarrow> bytes \<Rightarrow> bytes" where
  "ensure sz bs = bs @ replicate (grow (length bs) sz - length bs) 0"

lemma grow_bounds: "cur \<le> grow cur sz" "sz \<le> grow cur sz"
proof (induction cur sz rule: grow.induct)
  case (1 cur sz)
  { case 1
    show ?case
    proof (cases "cur < sz")
      case True
      have "cur \<le> (if cur * GROWTH_FACTOR = 0 then GROWTH_FACTOR else cur * GROWTH_FACTOR)"
        by (simp add: GROWTH_FACTOR_def)
      with "1.IH"(1) [OF True] True show ?thesis by (subst grow.simps) (simp add: Let_def)
    qed (simp add: grow.simps)
  }
  { case 2
    show ?case using "1.IH"(2) by (subst grow.simps) auto
  }
qed

lemma grow_power: "\<exists>k. grow (2 ^ m) sz = 2 ^ k"
proof (induction "sz - 2 ^ m" arbitrary: m rule: less_induct)
  case less
  show ?case
  proof (cases "2 ^ m < sz")
    case True
    have "sz - 2 ^ Suc m < sz - 2 ^ m"
      using True by (intro diff_less_mono2) auto
    then have "\<exists>k. grow (2 ^ Suc m) sz = 2 ^ k" by (rule less)
    with True show ?thesis
      by (subst grow.simps) (simp add: GROWTH_FACTOR_def Let_def mult.commute)
  qed (auto simp: grow.simps)
qed

lemma length_ensure: "length (ensure sz bs) = grow (length bs) sz"
  using grow_bounds(1) [of "length bs" sz] by (simp add: ensure_def)

lemma ensure_length: "sz \<le> length (ensure sz bs)" "length bs \<le> length (ensure sz bs)"
  by (simp_all add: length_ensure grow_bounds)

lemma ensure_id [simp]: "sz \<le> length bs \<Longrightarrow> ensure sz bs = bs"
  by (simp add: ensure_def grow.simps)

lemma ensure_nth: "i < length bs \<Longrightarrow> ensure sz bs ! i = bs ! i"
  by (simp add: ensure_def nth_append)

lemma ensure_nth_new: "length bs \<le> i \<Longrightarrow> i < length (ensure sz bs) \<Longrightarrow> ensure sz bs ! i = 0"
  by (simp add: ensure_def nth_append)

lemma ensure_Nil_nth: "i < length (ensure sz []) \<Longrightarrow> ensure sz [] ! i = 0"
  by (rule ensure_nth_new) simp_all

lemma set_ensure_Nil: "set (ensure sz []) \<subseteq> {0}"
  by (auto simp: ensure_def)

definition resize :: "nat \<Rightarrow> net_packet \<Rightarrow> net_packet" where
  "resize sz p = p\<lparr>m_data := ensure sz (m_data p), m_size := sz\<rparr>"

definition clear :: "net_packet \<Rightarrow> net_packet" where
  "clear p = p\<lparr>m_data := replicate (length (m_data p)) 0\<rparr>"

abbreviation buffer_size :: "net_packet \<Rightarrow> nat" where
  "buffer_size p \<equiv> length (m_data p)"

section \<open>The header\<close>

definition byte0 :: "net_packet \<Rightarrow> u8" where
  "byte0 p = (case m_data p of [] \<Rightarrow> 0 | b # _ \<Rightarrow> b)"

definition upd_byte0 :: "(u8 \<Rightarrow> u8) \<Rightarrow> net_packet \<Rightarrow> net_packet" where
  "upd_byte0 f p = p\<lparr>m_data := (m_data p)[0 := f (byte0 p)]\<rparr>"

definition property :: "net_packet \<Rightarrow> packet_property" where
  "property p = property_of_code (byte0 p AND 0x1F)"

definition set_property :: "packet_property \<Rightarrow> net_packet \<Rightarrow> net_packet" where
  "set_property pr = upd_byte0 (\<lambda>b. (b AND 0xE0) OR property_code pr)"

definition connection_number :: "net_packet \<Rightarrow> u8" where
  "connection_number p = drop_bit 5 (byte0 p AND 0x60)"

definition set_connection_number :: "u8 \<Rightarrow> net_packet \<Rightarrow> net_packet" where
  "set_connection_number v = upd_byte0 (\<lambda>b. (b AND 0x9F) OR push_bit 5 v)"

definition is_fragmented :: "net_packet \<Rightarrow> bool" where
  "is_fragmented p \<longleftrightarrow> byte0 p AND 0x80 \<noteq> 0"

definition mark_fragmented :: "net_packet \<Rightarrow> net_packet" where
  "mark_fragmented = upd_byte0 (\<lambda>b. b OR 0x80)"

definition packet_header_size :: "net_packet \<Rightarrow> nat option" where
  "packet_header_size p = vget HEADER_SIZES (uint (byte0 p AND 0x1F))"

definition verify :: "net_packet \<Rightarrow> bool" where
  "verify p =
     (let property = byte0 p AND 0x1F
      in if unat property \<ge> PROPERTY_COUNT then False
         else let headerSize = HEADER_SIZES ! unat property;
                  fragmented = (byte0 p AND 0x80 \<noteq> 0)
              in m_size p \<ge> headerSize \<and>
                 (\<not> fragmented \<or> m_size p \<ge> headerSize + FRAGMENT_HEADER_SIZE))"

definition set_data :: "net_packet \<Rightarrow> bytes option \<Rightarrow> net_packet option" where
  "set_data p bs = map_option (\<lambda>bs. p\<lparr>m_data := bs\<rparr>) bs"

definition sequence :: "net_packet \<Rightarrow> u16 option" where
  "sequence p = rd16 (m_data p) 1"

definition set_sequence :: "u16 \<Rightarrow> net_packet \<Rightarrow> net_packet option" where
  "set_sequence v p = set_data p (wr16 (m_data p) 1 v)"

definition channel_id :: "net_packet \<Rightarrow> u8 option" where
  "channel_id p = rd8 (m_data p) 3"

definition set_channel_id :: "u8 \<Rightarrow> net_packet \<Rightarrow> net_packet option" where
  "set_channel_id v p = set_data p (wr8 (m_data p) 3 v)"

definition fragment_id :: "net_packet \<Rightarrow> u16 option" where
  "fragment_id p = rd16 (m_data p) 4"

definition set_fragment_id :: "u16 \<Rightarrow> net_packet \<Rightarrow> net_packet option" where
  "set_fragment_id v p = set_data p (wr16 (m_data p) 4 v)"

definition fragment_part :: "net_packet \<Rightarrow> u16 option" where
  "fragment_part p = rd16 (m_data p) 6"

definition set_fragment_part :: "u16 \<Rightarrow> net_packet \<Rightarrow> net_packet option" where
  "set_fragment_part v p = set_data p (wr16 (m_data p) 6 v)"

definition total_fragments :: "net_packet \<Rightarrow> u16 option" where
  "total_fragments p = rd16 (m_data p) 8"

definition set_total_fragments :: "u16 \<Rightarrow> net_packet \<Rightarrow> net_packet option" where
  "set_total_fragments v p = set_data p (wr16 (m_data p) 8 v)"

definition get_i32_at :: "net_packet \<Rightarrow> nat \<Rightarrow> i32 option" where
  "get_i32_at p pos = rd32 (m_data p) pos"

definition set_i32_at :: "i32 \<Rightarrow> nat \<Rightarrow> net_packet \<Rightarrow> net_packet option" where
  "set_i32_at v pos p = set_data p (wr32 (m_data p) pos v)"

definition set_i64_at :: "i64 \<Rightarrow> nat \<Rightarrow> net_packet \<Rightarrow> net_packet option" where
  "set_i64_at v pos p = set_data p (wr64 (m_data p) pos v)"

definition set_u16_at :: "u16 \<Rightarrow> nat \<Rightarrow> net_packet \<Rightarrow> net_packet option" where
  "set_u16_at v pos p = set_data p (wr16 (m_data p) pos v)"

definition set_u8_at :: "u8 \<Rightarrow> nat \<Rightarrow> net_packet \<Rightarrow> net_packet option" where
  "set_u8_at v pos p = set_data p (wr8 (m_data p) pos v)"

definition copy_from :: "bytes \<Rightarrow> nat \<Rightarrow> nat \<Rightarrow> nat \<Rightarrow> net_packet \<Rightarrow> net_packet option" where
  "copy_from src srcOffset position sz p =
     (if sz = 0 then Some p
      else do {
        xs \<leftarrow> rd_bytes src srcOffset sz;
        set_data p (wr_bytes (m_data p) position xs)
      })"

section \<open>Constructors\<close>

definition blank_packet :: net_packet where
  "blank_packet = \<lparr>m_data = [], m_size = 0, user_data = None\<rparr>"

definition new_packet :: net_packet where
  "new_packet = resize MAX_PACKET_SIZE blank_packet"

definition new_packet_with :: "packet_property \<Rightarrow> nat \<Rightarrow> net_packet" where
  "new_packet_with pr sz = set_property pr (resize (sz + static_header_size pr) blank_packet)"

definition resize_with :: "packet_property \<Rightarrow> nat \<Rightarrow> net_packet \<Rightarrow> net_packet" where
  "resize_with pr sz p = set_property pr (resize (sz + static_header_size pr) p)"

section \<open>Facts about the header\<close>

lemma u8_eq_iff: "(x :: u8) = y \<longleftrightarrow> (\<forall>n \<in> {0, 1, 2, 3, 4, 5, 6, 7}. bit x n = bit y n)"
proof
  assume "\<forall>n \<in> {0, 1, 2, 3, 4, 5, 6, 7}. bit x n = bit y n"
  then show "x = y"
    by (intro bit_word_eqI) (auto simp: less_Suc_eq numeral_nat)
qed simp

lemma property_code_5: "named_property pr \<Longrightarrow> take_bit 5 (property_code pr) = property_code pr"
  by (cases pr) (simp_all add: named_property_def)

lemma byte0_nth: "m_data p \<noteq> [] \<Longrightarrow> byte0 p = m_data p ! 0"
  by (cases "m_data p") (simp_all add: byte0_def)

lemma byte0_cong: "m_data p \<noteq> [] \<Longrightarrow> m_data q \<noteq> [] \<Longrightarrow> m_data q ! 0 = m_data p ! 0 \<Longrightarrow> byte0 q = byte0 p"
  by (simp add: byte0_nth)

lemma byte0_upd [packet_simps]: "m_data p \<noteq> [] \<Longrightarrow> byte0 (upd_byte0 f p) = f (byte0 p)"
  by (cases "m_data p") (simp_all add: byte0_def upd_byte0_def)

lemma upd_byte0_frame [simp]:
  "m_size (upd_byte0 f p) = m_size p" "user_data (upd_byte0 f p) = user_data p"
  "length (m_data (upd_byte0 f p)) = length (m_data p)"
  "(m_data (upd_byte0 f p) = []) = (m_data p = [])"
  by (simp_all add: upd_byte0_def)

lemma upd_byte0_drop: "0 < n \<Longrightarrow> drop n (m_data (upd_byte0 f p)) = drop n (m_data p)"
  by (simp add: upd_byte0_def)

lemma upd_byte0_nth [simp]: "0 < n \<Longrightarrow> m_data (upd_byte0 f p) ! n = m_data p ! n"
  by (simp add: upd_byte0_def)

lemma rd_bytes_upd_byte0 [simp]: "0 < i \<Longrightarrow> rd_bytes (m_data (upd_byte0 f p)) i n = rd_bytes (m_data p) i n"
  by (simp add: rd_bytes_def upd_byte0_drop)

lemma rd8_upd_byte0 [simp]: "0 < i \<Longrightarrow> rd8 (m_data (upd_byte0 f p)) i = rd8 (m_data p) i"
  by (simp add: rd8_def)

lemmas header_accessors = sequence_def channel_id_def fragment_id_def fragment_part_def
  total_fragments_def rd16_def

lemma header_upd_byte0 [simp]:
  "sequence (upd_byte0 f p) = sequence p" "channel_id (upd_byte0 f p) = channel_id p"
  "fragment_id (upd_byte0 f p) = fragment_id p" "fragment_part (upd_byte0 f p) = fragment_part p"
  "total_fragments (upd_byte0 f p) = total_fragments p"
  by (simp_all add: header_accessors)

text \<open>\<open>set_connection_number\<close>, \<open>set_property\<close> and \<open>mark_fragmented\<close> touch byte 0 only.\<close>

lemmas byte0_setters = set_property_def set_connection_number_def mark_fragmented_def

lemma byte0_setters_frame [simp]:
  "m_size (set_property pr p) = m_size p" "m_size (set_connection_number v p) = m_size p"
  "m_size (mark_fragmented p) = m_size p"
  "user_data (set_property pr p) = user_data p" "user_data (set_connection_number v p) = user_data p"
  "user_data (mark_fragmented p) = user_data p"
  "length (m_data (set_property pr p)) = length (m_data p)"
  "length (m_data (set_connection_number v p)) = length (m_data p)"
  "length (m_data (mark_fragmented p)) = length (m_data p)"
  "(m_data (set_property pr p) = []) = (m_data p = [])"
  "(m_data (set_connection_number v p) = []) = (m_data p = [])"
  "(m_data (mark_fragmented p) = []) = (m_data p = [])"
  by (simp_all add: byte0_setters)

lemma byte0_setters_header [simp]:
  "sequence (set_property pr p) = sequence p" "channel_id (set_property pr p) = channel_id p"
  "sequence (set_connection_number v p) = sequence p"
  "channel_id (set_connection_number v p) = channel_id p"
  "sequence (mark_fragmented p) = sequence p" "channel_id (mark_fragmented p) = channel_id p"
  "fragment_id (set_connection_number v p) = fragment_id p"
  "fragment_part (set_connection_number v p) = fragment_part p"
  "total_fragments (set_connection_number v p) = total_fragments p"
  "fragment_id (mark_fragmented p) = fragment_id p"
  "fragment_part (mark_fragmented p) = fragment_part p"
  "total_fragments (mark_fragmented p) = total_fragments p"
  by (simp_all add: byte0_setters)

lemma property_set_property [packet_simps]:
  "m_data p \<noteq> [] \<Longrightarrow> named_property pr \<Longrightarrow> property (set_property pr p) = pr"
proof -
  assume "m_data p \<noteq> []" and pr: "named_property pr"
  moreover have "((byte0 p AND 0xE0) OR property_code pr) AND 0x1F = property_code pr"
    using property_code_5 [OF pr] by (simp add: u8_eq_iff bit_simps)
  ultimately show ?thesis
    by (simp add: property_def set_property_def byte0_upd)
qed

lemma property_set_connection_number [packet_simps]:
  "m_data p \<noteq> [] \<Longrightarrow> property (set_connection_number v p) = property p"
proof -
  have "((byte0 p AND 0x9F) OR push_bit 5 v) AND 0x1F = byte0 p AND 0x1F"
    by (simp add: u8_eq_iff bit_simps)
  then show "m_data p \<noteq> [] \<Longrightarrow> ?thesis"
    by (simp add: property_def set_connection_number_def byte0_upd)
qed

lemma property_mark_fragmented [packet_simps]:
  "m_data p \<noteq> [] \<Longrightarrow> property (mark_fragmented p) = property p"
proof -
  have "(byte0 p OR 0x80) AND 0x1F = byte0 p AND 0x1F"
    by (simp add: u8_eq_iff bit_simps)
  then show "m_data p \<noteq> [] \<Longrightarrow> ?thesis"
    by (simp add: property_def mark_fragmented_def byte0_upd)
qed

lemma connection_number_set [packet_simps]:
  "m_data p \<noteq> [] \<Longrightarrow> connection_number (set_connection_number v p) = v AND 3"
proof -
  have "drop_bit 5 (((byte0 p AND 0x9F) OR push_bit 5 v) AND 0x60) = v AND 3"
    by (simp add: u8_eq_iff bit_simps)
  then show "m_data p \<noteq> [] \<Longrightarrow> ?thesis"
    by (simp add: connection_number_def set_connection_number_def byte0_upd)
qed

lemma connection_number_set_property [packet_simps]:
  "m_data p \<noteq> [] \<Longrightarrow> named_property pr \<Longrightarrow> connection_number (set_property pr p) = connection_number p"
proof -
  assume "m_data p \<noteq> []" and pr: "named_property pr"
  moreover have "drop_bit 5 (((byte0 p AND 0xE0) OR property_code pr) AND 0x60) = drop_bit 5 (byte0 p AND 0x60)"
    using property_code_5 [OF pr] by (simp add: u8_eq_iff bit_simps)
  ultimately show ?thesis
    by (simp add: connection_number_def set_property_def byte0_upd)
qed

lemma connection_number_mark_fragmented [packet_simps]:
  "m_data p \<noteq> [] \<Longrightarrow> connection_number (mark_fragmented p) = connection_number p"
proof -
  have "drop_bit 5 ((byte0 p OR 0x80) AND 0x60) = drop_bit 5 (byte0 p AND 0x60)"
    by (simp add: u8_eq_iff bit_simps)
  then show "m_data p \<noteq> [] \<Longrightarrow> ?thesis"
    by (simp add: connection_number_def mark_fragmented_def byte0_upd)
qed

lemma connection_number_bound: "connection_number p < 4"
proof -
  have "connection_number p = take_bit 2 (drop_bit 5 (byte0 p))"
    by (simp add: connection_number_def u8_eq_iff bit_simps)
  then show ?thesis
    using take_bit_nat_less_exp [of 2 "unat (drop_bit 5 (byte0 p))"]
    by (simp add: word_less_nat_alt unsigned_take_bit_eq)
qed

lemma is_fragmented_iff: "is_fragmented p \<longleftrightarrow> bit (byte0 p) 7"
  by (simp add: is_fragmented_def u8_eq_iff bit_simps)

lemma is_fragmented_set_property [packet_simps]:
  "m_data p \<noteq> [] \<Longrightarrow> named_property pr \<Longrightarrow> is_fragmented (set_property pr p) = is_fragmented p"
proof -
  assume "m_data p \<noteq> []" and pr: "named_property pr"
  moreover have "bit ((byte0 p AND 0xE0) OR property_code pr) 7 = bit (byte0 p) 7"
    using property_code_5 [OF pr] by (simp add: u8_eq_iff bit_simps)
  ultimately show ?thesis
    by (simp add: is_fragmented_iff set_property_def byte0_upd)
qed

lemma is_fragmented_set_connection_number [packet_simps]:
  "m_data p \<noteq> [] \<Longrightarrow> is_fragmented (set_connection_number v p) = (is_fragmented p \<or> bit v 2)"
  by (simp add: is_fragmented_iff set_connection_number_def byte0_upd bit_simps)

lemma is_fragmented_mark [packet_simps]: "m_data p \<noteq> [] \<Longrightarrow> is_fragmented (mark_fragmented p)"
  by (simp add: is_fragmented_iff mark_fragmented_def byte0_upd bit_simps)

lemma small_connection_number: "v < 4 \<Longrightarrow> v AND 3 = v \<and> \<not> bit v 2" for v :: u8
proof -
  assume "v < 4"
  then have "take_bit 2 v = v"
    by (simp add: word_unat_eq_iff unsigned_take_bit_eq take_bit_nat_eq_self word_less_nat_alt)
  then show ?thesis
    by (simp add: u8_eq_iff bit_simps)
qed

text \<open>The setters of the multi-byte fields.\<close>

lemma set_data_Some_iff:
  "set_data p bs = Some q \<longleftrightarrow> (\<exists>b. bs = Some b \<and> q = p\<lparr>m_data := b\<rparr>)"
  by (auto simp: set_data_def)

lemma byte0_wr_bytes:
  "wr_bytes (m_data p) i xs = Some bs \<Longrightarrow> 0 < i \<Longrightarrow> byte0 (p\<lparr>m_data := bs\<rparr>) = byte0 p"
  by (auto simp: wr_bytes_def byte0_def split: if_splits list.splits) (auto simp: append_eq_Cons_conv take_Cons')

lemma byte0_wr8: "wr8 (m_data p) i x = Some bs \<Longrightarrow> 0 < i \<Longrightarrow> byte0 (p\<lparr>m_data := bs\<rparr>) = byte0 p"
  by (cases "m_data p"; cases i) (auto simp: wr8_def byte0_def split: if_splits)

lemma set_data_frame:
  "set_data p bs = Some q \<Longrightarrow> m_size q = m_size p \<and> user_data q = user_data p"
  by (auto simp: set_data_Some_iff)

text \<open>A packet as the library handles it: the logical size lies in a buffer that is not empty.\<close>

definition wf_packet :: "net_packet \<Rightarrow> bool" where
  "wf_packet p \<longleftrightarrow> m_data p \<noteq> [] \<and> m_size p \<le> buffer_size p"

lemma wf_upd_byte0 [simp]: "wf_packet (upd_byte0 f p) = wf_packet p"
  by (simp add: wf_packet_def)

lemma wf_byte0_setters [simp]:
  "wf_packet (set_property pr p) = wf_packet p"
  "wf_packet (set_connection_number v p) = wf_packet p"
  "wf_packet (mark_fragmented p) = wf_packet p"
  by (simp_all add: byte0_setters)

lemma wf_resize: "m_data p \<noteq> [] \<or> 0 < sz \<Longrightarrow> wf_packet (resize sz p)"
  using ensure_length [where sz = sz and bs = "m_data p"] by (auto simp: wf_packet_def resize_def)

lemma resize_frame [simp]:
  "m_size (resize sz p) = sz" "user_data (resize sz p) = user_data p"
  "m_data (resize sz p) = ensure sz (m_data p)"
  by (simp_all add: resize_def)

lemma new_packet_with_frame [simp]:
  "m_size (new_packet_with pr sz) = sz + static_header_size pr"
  "user_data (new_packet_with pr sz) = None"
  "length (m_data (new_packet_with pr sz)) = grow 0 (sz + static_header_size pr)"
  by (simp_all add: new_packet_with_def blank_packet_def length_ensure)

lemma new_packet_nonempty:
  "wf_packet new_packet" "0 < sz + static_header_size pr \<Longrightarrow> wf_packet (new_packet_with pr sz)"
  by (simp_all add: new_packet_def new_packet_with_def wf_resize)

lemma grow_eval:
  "grow 0 0 = 0" "0 < sz \<Longrightarrow> grow 0 sz = grow 2 sz"
  by (simp add: grow.simps) (subst grow.simps, simp add: GROWTH_FACTOR_def)

lemma new_packet_buffer: "buffer_size new_packet = 2048"
  by (simp add: new_packet_def blank_packet_def length_ensure grow_eval)
    (simp add: grow.simps GROWTH_FACTOR_def)

lemma new_packet_zero: "m_data new_packet = replicate 2048 0"
  using new_packet_buffer by (simp add: new_packet_def blank_packet_def ensure_def)

text \<open>The property of a packet, and what \<open>verify\<close> says of it.\<close>

lemma less_18_cases:
  "n < 18 \<longleftrightarrow> n \<in> {0,1,2,3,4,5,6,7,8,9,10,11,12,13,14,15,16,17}" for n :: nat
  by (simp add: less_Suc_eq numeral_nat)

lemma property_of_code_named: "named_property (property_of_code c) \<longleftrightarrow> unat c < 18"
proof -
  have "unat c < 18 \<longleftrightarrow> unat c \<in> unat ` {0,1,2,3,4,5,6,7,8,9,10,11,12,13,14,15,16,17 :: u8}"
    by (subst less_18_cases) simp
  also have "\<dots> \<longleftrightarrow> c \<in> {0,1,2,3,4,5,6,7,8,9,10,11,12,13,14,15,16,17}"
    by (rule inj_image_mem_iff [OF inj_unsigned])
  finally show ?thesis
    by (auto simp: property_of_code_def named_property_def)
qed

lemma property_code_of_code [simp]: "property_code (property_of_code c) = c"
  by (simp add: property_of_code_def)

lemma verify_iff:
  "verify p \<longleftrightarrow> named_property (property p) \<and> static_header_size (property p) \<le> m_size p \<and>
     (is_fragmented p \<longrightarrow> static_header_size (property p) + 6 \<le> m_size p)"
  by (auto simp: verify_def property_def property_of_code_named static_header_size_def
      PROPERTY_COUNT_def is_fragmented_def Let_def not_le)

lemma new_packet_with_head:
  assumes "0 < sz + static_header_size pr" and "named_property pr"
  shows "prefix [property_code pr] (m_data (new_packet_with pr sz))"
proof -
  let ?bs = "ensure (sz + static_header_size pr) []"
  have "?bs \<noteq> []" using ensure_length(1) [of "sz + static_header_size pr" "[]"] assms(1) by auto
  then obtain b bs where bs: "?bs = b # bs" by (cases ?bs) auto
  then have "b = 0" using set_ensure_Nil [of "sz + static_header_size pr"] by auto
  with bs show ?thesis
    by (simp add: new_packet_with_def set_property_def upd_byte0_def byte0_def blank_packet_def)
qed

text \<open>Writing a field right behind the prefix written so far.\<close>

lemma set_data_wr_prefix:
  assumes "prefix pre (m_data p)" and "length pre = i" and "i + length xs \<le> buffer_size p"
  obtains q where "set_data p (wr_bytes (m_data p) i xs) = Some q" "prefix (pre @ xs) (m_data q)"
    "m_size q = m_size p" "user_data q = user_data p" "buffer_size q = buffer_size p"
  using wr_bytes_prefix [OF assms(1), of xs] assms(2,3) by (auto simp: set_data_def)

lemma set_u8_at_prefix:
  assumes "prefix pre (m_data p)" and "length pre = i" and "i < buffer_size p"
  obtains q where "set_u8_at x i p = Some q" "prefix (pre @ [x]) (m_data q)"
    "m_size q = m_size p" "user_data q = user_data p" "buffer_size q = buffer_size p"
  using wr8_prefix [OF assms(1), of x] assms(2,3) by (auto simp: set_u8_at_def set_data_def)

lemma prefix_byte0: "prefix (b # pre) (m_data p) \<Longrightarrow> byte0 p = b"
  by (auto simp: byte0_def prefix_def)

end
