(* ===== verification/Containers.thy ===== *)
theory Containers
  imports Prelude
begin

text \<open>
  The two containers of the library: the mutex-protected queue \<open>net_queue\<close> and the delegate
  \<open>net_delegate\<close> of the event-based listener. Every operation of the queue holds the mutex for
  its whole body, so each is one atomic step on the list of its items, front first.
\<close>

section \<open>The queue\<close>

type_synonym 'a net_queue = "'a list"

definition q_push :: "'a \<Rightarrow> 'a net_queue \<Rightarrow> 'a net_queue" where
  "q_push item q = q @ [item]"

definition q_empty :: "'a net_queue \<Rightarrow> bool" where
  "q_empty q \<longleftrightarrow> q = []"

definition q_size :: "'a net_queue \<Rightarrow> nat" where
  "q_size q = length q"

definition q_dequeue :: "'a net_queue \<Rightarrow> 'a option \<times> 'a net_queue" where
  "q_dequeue q = (if q_empty q then (None, q) else (Some (hd q), tl q))"

lemma q_dequeue_simps [simp]: "q_dequeue [] = (None, [])" "q_dequeue (x # q) = (Some x, q)"
  by (simp_all add: q_dequeue_def q_empty_def)

text \<open>What the clients rely on: first in, first out.\<close>

locale fifo =
  fixes push :: "'a \<Rightarrow> 'q \<Rightarrow> 'q" and dequeue :: "'q \<Rightarrow> 'a option \<times> 'q" and items :: "'q \<Rightarrow> 'a list"
  assumes items_push: "items (push x q) = items q @ [x]"
    and dequeue_none: "fst (dequeue q) = None \<longleftrightarrow> items q = []"
    and dequeue_some: "dequeue q = (Some x, q') \<Longrightarrow> items q = x # items q'"
begin

lemma items_fold_push: "items (fold push xs q) = items q @ xs"
  by (induction xs arbitrary: q) (simp_all add: items_push)

lemma dequeue_after_pushes:
  assumes "items q = []" and "xs \<noteq> []"
  shows "\<exists>q'. dequeue (fold push xs q) = (Some (hd xs), q') \<and> items q' = tl xs"
proof -
  let ?q = "fold push xs q"
  have it: "items ?q = xs" using assms(1) by (simp add: items_fold_push)
  obtain x q' where d: "dequeue ?q = (Some x, q')"
    using dequeue_none [of ?q] it assms(2) by (cases "dequeue ?q") auto
  from dequeue_some [OF d] it d show ?thesis by auto
qed

end

interpretation queue: fifo q_push q_dequeue "\<lambda>q. q"
  by unfold_locales (auto simp: q_push_def q_dequeue_def q_empty_def split: if_splits)

section \<open>The delegate\<close>

record 'h net_delegate =
  m_id_counter :: nat
  m_subscriptions :: "nat \<rightharpoonup> 'h"

definition new_delegate :: "'h net_delegate" where
  "new_delegate = \<lparr>m_id_counter = 0, m_subscriptions = Map.empty\<rparr>"

text \<open>\<open>emplace\<close> leaves an existing entry as it is.\<close>

definition subscribe :: "'h \<Rightarrow> 'h net_delegate \<Rightarrow> nat \<times> 'h net_delegate" where
  "subscribe handler d =
     (let i = m_id_counter d
      in (i, d\<lparr>m_id_counter := i + 1,
               m_subscriptions :=
                 (if m_subscriptions d i = None then (m_subscriptions d)(i \<mapsto> handler)
                  else m_subscriptions d)\<rparr>))"

definition unsubscribe :: "nat \<Rightarrow> 'h net_delegate \<Rightarrow> bool \<times> 'h net_delegate" where
  "unsubscribe i d =
     (m_subscriptions d i \<noteq> None, d\<lparr>m_subscriptions := (m_subscriptions d)(i := None)\<rparr>)"

text \<open>
  A call runs every handler; the order in which an \<open>unordered_map\<close> is traversed is
  unspecified, so it is an argument.
\<close>

definition call_delegate :: "nat list \<Rightarrow> 'h net_delegate \<Rightarrow> 'h list" where
  "call_delegate order d = List.map_filter (m_subscriptions d) order"

definition delegate_ok :: "'h net_delegate \<Rightarrow> bool" where
  "delegate_ok d \<longleftrightarrow> (\<forall>i. m_subscriptions d i \<noteq> None \<longrightarrow> i < m_id_counter d)"

lemma delegate_ok_new: "delegate_ok new_delegate"
  by (simp add: delegate_ok_def new_delegate_def)

lemma delegate_ok_subscribe: "delegate_ok d \<Longrightarrow> subscribe h d = (i, d') \<Longrightarrow> delegate_ok d'"
  by (auto simp: delegate_ok_def subscribe_def Let_def less_Suc_eq split: if_splits)

lemma delegate_ok_unsubscribe: "delegate_ok d \<Longrightarrow> unsubscribe i d = (b, d') \<Longrightarrow> delegate_ok d'"
  by (auto simp: delegate_ok_def unsubscribe_def split: if_splits)

end
