(* ===== verification/Base_Channel.thy ===== *)
theory Base_Channel
  imports Net_Packet Containers
begin

text \<open>
  The base class of the channels (\<open>net_base_channel.h/.cpp\<close>): the outgoing queue, the flag that
  the channel is in the send queue of its peer, and the operations on them. A channel calls its
  peer and, through it, the manager; none of these calls returns a value the channel uses, so a
  channel operation gives the calls it makes, in order, as a list of actions, which the peer
  performs (theory \<open>Net_Peer\<close>).
\<close>

datatype chan_action =
    Add_to_reliable_channel_send_queue
  | Add_reliable_packet delivery_method net_packet
  | Create_receive_event net_packet delivery_method u8 nat
  | Send_user_data net_packet
  | Recycle_and_deliver net_packet
  | Pool_recycle net_packet

record net_base_channel =
  m_outgoing_queue :: "net_packet net_queue"
  m_can_enqueue :: bool
  m_is_added_to_peer_channel_send_queue :: bool

definition add_to_peer_channel_send_queue ::
  "'a net_base_channel_scheme \<Rightarrow> 'a net_base_channel_scheme \<times> chan_action list" where
  "add_to_peer_channel_send_queue ch =
     (if \<not> m_is_added_to_peer_channel_send_queue ch
      then (ch\<lparr>m_is_added_to_peer_channel_send_queue := True\<rparr>, [Add_to_reliable_channel_send_queue])
      else (ch, []))"

definition add_to_queue ::
  "net_packet \<Rightarrow> 'a net_base_channel_scheme \<Rightarrow> 'a net_base_channel_scheme \<times> chan_action list" where
  "add_to_queue packet ch =
     (if \<not> m_can_enqueue ch then (ch, [Pool_recycle packet])
      else add_to_peer_channel_send_queue (ch\<lparr>m_outgoing_queue := q_push packet (m_outgoing_queue ch)\<rparr>))"

text \<open>The destructor: no packet is enqueued any more, and the queue is given back to the pool.\<close>

fun drain_queue :: "net_packet net_queue \<Rightarrow> net_packet net_queue \<times> chan_action list" where
  "drain_queue q =
     (case q of
        [] \<Rightarrow> (q, [])
      | p # q' \<Rightarrow> (let (q'', acts) = drain_queue q' in (q'', Pool_recycle p # acts)))"

declare drain_queue.simps [simp del]

definition destroy_base_channel ::
  "'a net_base_channel_scheme \<Rightarrow> 'a net_base_channel_scheme \<times> chan_action list" where
  "destroy_base_channel ch =
     (let ch1 = ch\<lparr>m_can_enqueue := False\<rparr>
      in if q_empty (m_outgoing_queue ch1) then (ch1, [])
         else let (q, acts) = drain_queue (m_outgoing_queue ch1) in (ch1\<lparr>m_outgoing_queue := q\<rparr>, acts))"

text \<open>\<open>send_next_packets\<close> is the virtual function of the derived class.\<close>

definition send_and_check_queue ::
  "('a net_base_channel_scheme \<Rightarrow> (bool \<times> 'a net_base_channel_scheme \<times> chan_action list) option)
   \<Rightarrow> 'a net_base_channel_scheme \<Rightarrow> (bool \<times> 'a net_base_channel_scheme \<times> chan_action list) option" where
  "send_and_check_queue send_next_packets ch = do {
     (hasPacketsToSend, ch', acts) \<leftarrow> send_next_packets ch;
     Some (hasPacketsToSend,
           (if \<not> hasPacketsToSend then ch'\<lparr>m_is_added_to_peer_channel_send_queue := False\<rparr> else ch'),
           acts)
   }"

section \<open>Lemmas\<close>

lemma drain_queue_eq: "drain_queue q = ([], List.map Pool_recycle q)"
  by (induction q) (simp_all add: drain_queue.simps)

lemma add_to_queue_flag:
  "m_can_enqueue ch \<Longrightarrow> m_is_added_to_peer_channel_send_queue (fst (add_to_queue p ch))"
  by (simp add: add_to_queue_def add_to_peer_channel_send_queue_def)

lemma add_to_peer_frame [simp]:
  "m_outgoing_queue (fst (add_to_peer_channel_send_queue ch)) = m_outgoing_queue ch"
  "m_can_enqueue (fst (add_to_peer_channel_send_queue ch)) = m_can_enqueue ch"
  "m_is_added_to_peer_channel_send_queue (fst (add_to_peer_channel_send_queue ch))"
  "net_base_channel.more (fst (add_to_peer_channel_send_queue ch)) = net_base_channel.more ch"
  by (simp_all add: add_to_peer_channel_send_queue_def)

section \<open>The race between the sending thread and its producers\<close>

text \<open>
  \<open>send_and_check_queue\<close> runs on the logic thread; \<open>add_to_queue\<close> runs on any number of threads of the
  application, and the receiving thread calls \<open>add_to_peer_channel_send_queue\<close> when it has something to acknowledge.
  The mutex of the queue and the compare-and-swap make their single steps atomic, not the whole. A state holds
  the number of queued packets, the flag, how often the channel is in the send queue of its peer, where
  the logic thread is, how many producers are before their compare-and-swap (\<open>pushed\<close>), and how many
  have won it and are before the push to the send queue (\<open>adding\<close>).
\<close>

datatype logic_pc = Logic_idle | Logic_sending | Logic_sent bool

record race =
  queued :: nat
  flag :: bool
  in_send_queue :: nat
  logic_at :: logic_pc
  pushed :: nat
  adding :: nat

definition race_init :: "race \<Rightarrow> bool" where
  "race_init s \<longleftrightarrow> s = \<lparr>queued = 0, flag = False, in_send_queue = 0, logic_at = Logic_idle, pushed = 0, adding = 0\<rparr>"

text \<open>The push to the outgoing queue in \<open>add_to_queue\<close> (or an acknowledgement), and in \<open>add_to_peer_channel_send_queue\<close> the two
  outcomes of the compare-and-swap and the push to the send queue of the peer.\<close>

inductive producer_step :: "race \<Rightarrow> race \<Rightarrow> bool" where
  push: "producer_step s (s\<lparr>queued := queued s + 1, pushed := pushed s + 1\<rparr>)"
| must_ack: "producer_step s (s\<lparr>pushed := pushed s + 1\<rparr>)"
| cas_won: "0 < pushed s \<Longrightarrow> \<not> flag s \<Longrightarrow> producer_step s (s\<lparr>flag := True, pushed := pushed s - 1, adding := adding s + 1\<rparr>)"
| cas_lost: "0 < pushed s \<Longrightarrow> flag s \<Longrightarrow> producer_step s (s\<lparr>pushed := pushed s - 1\<rparr>)"
| add: "0 < adding s \<Longrightarrow> producer_step s (s\<lparr>adding := adding s - 1, in_send_queue := in_send_queue s + 1\<rparr>)"

text \<open>The logic thread, in the loop over the send queue in \<open>update\<close> of a peer, takes the channel from the send queue, takes packets from its queue, ends with the
  queue seen empty or with something left to send, and puts the channel back or clears the flag.\<close>

inductive sender_step :: "race \<Rightarrow> race \<Rightarrow> bool" where
  take_channel: "logic_at s = Logic_idle \<Longrightarrow> 0 < in_send_queue s \<Longrightarrow>
    sender_step s (s\<lparr>in_send_queue := in_send_queue s - 1, logic_at := Logic_sending\<rparr>)"
| take_packet: "logic_at s = Logic_sending \<Longrightarrow> 0 < queued s \<Longrightarrow> sender_step s (s\<lparr>queued := queued s - 1\<rparr>)"
| sent_all: "logic_at s = Logic_sending \<Longrightarrow> queued s = 0 \<Longrightarrow> sender_step s (s\<lparr>logic_at := Logic_sent False\<rparr>)"
| sent_some: "logic_at s = Logic_sending \<Longrightarrow> sender_step s (s\<lparr>logic_at := Logic_sent True\<rparr>)"
| put_back: "logic_at s = Logic_sent True \<Longrightarrow>
    sender_step s (s\<lparr>in_send_queue := in_send_queue s + 1, logic_at := Logic_idle\<rparr>)"
| clear_flag: "logic_at s = Logic_sent False \<Longrightarrow> sender_step s (s\<lparr>flag := False, logic_at := Logic_idle\<rparr>)"

definition race_step :: "race \<Rightarrow> race \<Rightarrow> bool" where
  "race_step s t \<longleftrightarrow> producer_step s t \<or> sender_step s t"

text \<open>The invariant of the flag that the interleavings do keep: it counts who has the channel.\<close>

definition race_inv :: "race \<Rightarrow> bool" where
  "race_inv s \<longleftrightarrow> in_send_queue s + adding s + (if logic_at s = Logic_idle then 0 else 1) = (if flag s then 1 else 0)"

lemma producer_inv: "producer_step s t \<Longrightarrow> race_inv s \<Longrightarrow> race_inv t"
  by (induction rule: producer_step.induct) (auto simp: race_inv_def split: if_splits)

lemma sender_inv_race: "sender_step s t \<Longrightarrow> race_inv s \<Longrightarrow> race_inv t"
  by (induction rule: sender_step.induct) (auto simp: race_inv_def split: if_splits)

interpretation race_flag: inductive_invariant race_init race_step race_inv
proof
  show "race_inv s" if "race_init s" for s
    using that by (simp add: race_init_def race_inv_def)
  show "race_inv t" if "race_inv s" "race_step s t" for s t
    using that producer_inv sender_inv_race unfolding race_step_def by blast
qed

text \<open>C39: In every interleaving of any number of producers with the sending thread, the channel has at most one owner:
  it is in the send queue once, or one producer that won the compare-and-swap is about to put it there, or
  the sending thread holds it; and the flag is set exactly while it has one. So the channel is never
  queued twice.\<close>

theorem send_queue_flag_exact:
  assumes "reach race_init race_step s"
  shows "in_send_queue s + adding s + (if logic_at s = Logic_idle then 0 else 1) = (if flag s then 1 else 0)"
  using race_flag.reach_inv [OF assms] by (simp add: race_inv_def)

lemma race_run_example:
  "reach race_init race_step
     \<lparr>queued = 1, flag = True, in_send_queue = 1, logic_at = Logic_idle, pushed = 0, adding = 0\<rparr>"
proof -
  let ?s = "\<lambda>q f i p a. \<lparr>queued = q, flag = f, in_send_queue = i, logic_at = Logic_idle, pushed = p, adding = a\<rparr>"
  have 0: "reach race_init race_step (?s 0 False 0 0 0)"
    by (rule reach_init) (simp add: race_init_def)
  have "producer_step (?s 0 False 0 0 0) (?s 1 False 0 1 0)" using producer_step.push [of "?s 0 False 0 0 0"] by simp
  moreover have "producer_step (?s 1 False 0 1 0) (?s 1 True 0 0 1)" using producer_step.cas_won [of "?s 1 False 0 1 0"] by simp
  moreover have "producer_step (?s 1 True 0 0 1) (?s 1 True 1 0 0)" using producer_step.add [of "?s 1 True 0 0 1"] by simp
  ultimately show ?thesis using 0 by (meson race_step_def reach_step)
qed

theorem send_queue_flag_exact_witness:
  "\<exists>s. reach race_init race_step s \<and> flag s \<and> in_send_queue s = 1 \<and> adding s = 0"
  using send_queue_flag_exact [OF race_run_example] race_run_example by (auto intro!: exI)

text \<open>The wakeup of a channel can be lost. There is an interleaving after which all threads are at
  rest, a packet is queued, the flag is clear and the channel is in no send queue: the packet stays
  there until another event enqueues the channel.\<close>

lemma lost_wakeup_reachable:
  "\<exists>s. reach race_init race_step s \<and> queued s > 0 \<and> \<not> flag s \<and> in_send_queue s = 0 \<and>
     logic_at s = Logic_idle \<and> pushed s = 0 \<and> adding s = 0"
proof -
  let ?s = "\<lambda>q f i l p. \<lparr>queued = q, flag = f, in_send_queue = i, logic_at = l, pushed = p, adding = 0\<rparr>"
  have 3: "reach race_init race_step (?s 1 True 0 Logic_sending 0)"
    using reach_step [OF race_run_example, of "?s 1 True 0 Logic_sending 0"] sender_step.take_channel [of "?s 1 True 1 Logic_idle 0"]
    by (simp add: race_step_def)
  have 4: "reach race_init race_step (?s 0 True 0 Logic_sending 0)"
    using reach_step [OF 3, of "?s 0 True 0 Logic_sending 0"] sender_step.take_packet [of "?s 1 True 0 Logic_sending 0"]
    by (simp add: race_step_def)
  have 5: "reach race_init race_step (?s 0 True 0 (Logic_sent False) 0)"
    using reach_step [OF 4, of "?s 0 True 0 (Logic_sent False) 0"] sender_step.sent_all [of "?s 0 True 0 Logic_sending 0"]
    by (simp add: race_step_def)
  have 6: "reach race_init race_step (?s 1 True 0 (Logic_sent False) 1)"
    using reach_step [OF 5, of "?s 1 True 0 (Logic_sent False) 1"] producer_step.push [of "?s 0 True 0 (Logic_sent False) 0"]
    by (simp add: race_step_def)
  have 7: "reach race_init race_step (?s 1 True 0 (Logic_sent False) 0)"
    using reach_step [OF 6, of "?s 1 True 0 (Logic_sent False) 0"] producer_step.cas_lost [of "?s 1 True 0 (Logic_sent False) 1"]
    by (simp add: race_step_def)
  have 8: "reach race_init race_step (?s 1 False 0 Logic_idle 0)"
    using reach_step [OF 7, of "?s 1 False 0 Logic_idle 0"] sender_step.clear_flag [of "?s 1 True 0 (Logic_sent False) 0"]
    by (simp add: race_step_def)
  then show ?thesis by (intro exI [of _ "?s 1 False 0 Logic_idle 0"]) simp
qed

end
