(* ===== verification/Reliable_Channel.thy ===== *)
theory Reliable_Channel
  imports Base_Channel
begin

text \<open>
  The reliable channel (\<open>net_reliable_channel.h/.cpp\<close>): a sliding window of 64 packets in each
  direction. The receiving side keeps the window in the bitmap of its ack packet, an array of
  held packets (ordered) or of flags (unordered); the sending side keeps the pending packets.
  Sequence fields are \<open>int32_t\<close> values in the range of 15 bits, modelled as \<^typ>\<open>int\<close> with C's
  remainder. The loops whose guard compares sequence numbers are \<^theory_text>\<open>partial_function\<close>s: a
  loop that would not return is \<^const>\<open>None\<close>, as an access outside an array is.
  The time of the call and the resend delay and connection number of the peer are arguments.
\<close>

section \<open>State\<close>

record pending_packet =
  m_packet :: "net_packet option"
  m_timestamp :: int
  m_is_sent :: bool

definition new_pending :: pending_packet where
  "new_pending = \<lparr>m_packet = None, m_timestamp = 0, m_is_sent = False\<rparr>"

record net_reliable_channel = net_base_channel +
  m_local_sequence :: int
  m_remote_sequence :: int
  m_local_window_start :: int
  m_remote_window_start :: int
  m_ordered :: bool
  m_id :: u8
  m_window_size :: int
  m_must_send_acks :: bool
  m_delivery_method :: delivery_method
  m_outgoing_acks :: net_packet
  m_pending_packets :: "pending_packet list"
  m_received_packets :: "net_packet option list"
  m_early_received :: "bool list"

definition BITS_IN_BYTE :: int where "BITS_IN_BYTE = 8"

definition new_reliable_channel :: "bool \<Rightarrow> u8 \<Rightarrow> net_reliable_channel option" where
  "new_reliable_channel ordered i = do {
     acks \<leftarrow> set_channel_id i (new_packet_with ACK (nat ((DEFAULT_WINDOW_SIZE - 1) sdiv BITS_IN_BYTE + 2)));
     Some \<lparr>m_outgoing_queue = [], m_can_enqueue = True, m_is_added_to_peer_channel_send_queue = False,
           m_local_sequence = 0, m_remote_sequence = 0,
           m_local_window_start = 0, m_remote_window_start = 0,
           m_ordered = ordered, m_id = i, m_window_size = DEFAULT_WINDOW_SIZE,
           m_must_send_acks = False,
           m_delivery_method = (if ordered then RELIABLE_ORDERED else RELIABLE_UNORDERED),
           m_outgoing_acks = acks,
           m_pending_packets = replicate (nat DEFAULT_WINDOW_SIZE) new_pending,
           m_received_packets = (if ordered then replicate (nat DEFAULT_WINDOW_SIZE) None else []),
           m_early_received = (if ordered then [] else replicate (nat DEFAULT_WINDOW_SIZE) False)\<rparr>
   }"

text \<open>The successor of a sequence number, and the place of a window index in the ack bitmap.\<close>

definition next_seq :: "int \<Rightarrow> int" where
  "next_seq s = (s + 1) smod MAX_SEQUENCE"

definition ack_byte :: "int \<Rightarrow> nat" where
  "ack_byte ackIdx = nat (int CHANNELED_HEADER_SIZE + ackIdx sdiv BITS_IN_BYTE)"

definition ack_bit :: "int \<Rightarrow> u8" where
  "ack_bit ackIdx = push_bit (nat (ackIdx smod BITS_IN_BYTE)) 1"

section \<open>Receiving\<close>

text \<open>\<open>while (m_remote_window_start != newWindowStart)\<close>: clear the bits the window leaves behind.\<close>

partial_function (option) clean_acks :: "int \<Rightarrow> int \<Rightarrow> int \<Rightarrow> bytes \<Rightarrow> bytes option" where
  "clean_acks W newWindowStart ws bs =
     (if ws = newWindowStart then Some bs
      else do {
        let ackIdx = ws smod W;
        b \<leftarrow> rd8 bs (ack_byte ackIdx);
        bs' \<leftarrow> wr8 bs (ack_byte ackIdx) (b AND NOT (ack_bit ackIdx));
        clean_acks W newWindowStart (next_seq ws) bs'
      })"

declare clean_acks.simps [code]

definition slide_window :: "int \<Rightarrow> net_reliable_channel \<Rightarrow> net_reliable_channel option" where
  "slide_window relate ch = do {
     let newWindowStart =
       (m_remote_window_start ch + relate - m_window_size ch + 1) smod MAX_SEQUENCE;
     acks \<leftarrow> set_sequence (word_of_int newWindowStart) (m_outgoing_acks ch);
     bs \<leftarrow> clean_acks (m_window_size ch) newWindowStart (m_remote_window_start ch) (m_data acks);
     Some (ch\<lparr>m_outgoing_acks := acks\<lparr>m_data := bs\<rparr>, m_remote_window_start := newWindowStart\<rparr>)
   }"

text \<open>The loop over the held packets of an ordered channel.\<close>

partial_function (option) deliver_held ::
  "int \<Rightarrow> delivery_method \<Rightarrow> net_packet option list \<Rightarrow> int
   \<Rightarrow> (net_packet option list \<times> int \<times> chan_action list) option" where
  "deliver_held W dm received remote_sequence = do {
     slot \<leftarrow> vget received (remote_sequence smod W);
     (case slot of
        None \<Rightarrow> Some (received, remote_sequence, [])
      | Some p \<Rightarrow> do {
          received' \<leftarrow> vset received (remote_sequence smod W) None;
          (received'', remote_sequence'', acts) \<leftarrow>
            deliver_held W dm received' (next_seq remote_sequence);
          Some (received'', remote_sequence'', Add_reliable_packet dm p # acts)
        })
   }"

declare deliver_held.simps [code]

text \<open>The loop over the packets an unordered channel delivered early.\<close>

partial_function (option) skip_early :: "int \<Rightarrow> bool list \<Rightarrow> int \<Rightarrow> (bool list \<times> int) option" where
  "skip_early W early remote_sequence = do {
     e \<leftarrow> vget early (remote_sequence smod W);
     if e then do {
       early' \<leftarrow> vset early (remote_sequence smod W) False;
       skip_early W early' (next_seq remote_sequence)
     }
     else Some (early, remote_sequence)
   }"

declare skip_early.simps [code]

definition accept_in_sequence ::
  "net_packet \<Rightarrow> net_reliable_channel \<Rightarrow> (net_reliable_channel \<times> chan_action list) option" where
  "accept_in_sequence packet ch = do {
     let act = Add_reliable_packet (m_delivery_method ch) packet;
     let next_remote = next_seq (m_remote_sequence ch);
     if m_ordered ch then do {
       (received, remote_sequence, acts) \<leftarrow>
         deliver_held (m_window_size ch) (m_delivery_method ch) (m_received_packets ch) next_remote;
       Some (ch\<lparr>m_received_packets := received, m_remote_sequence := remote_sequence\<rparr>, act # acts)
     }
     else do {
       (early, remote_sequence) \<leftarrow> skip_early (m_window_size ch) (m_early_received ch) next_remote;
       Some (ch\<lparr>m_early_received := early, m_remote_sequence := remote_sequence\<rparr>, [act])
     }
   }"

definition hold_packet ::
  "int \<Rightarrow> net_packet \<Rightarrow> net_reliable_channel \<Rightarrow> (net_reliable_channel \<times> chan_action list) option" where
  "hold_packet ackIdx packet ch =
     (if m_ordered ch then do {
        received \<leftarrow> vset (m_received_packets ch) ackIdx (Some packet);
        Some (ch\<lparr>m_received_packets := received\<rparr>, [])
      }
      else do {
        early \<leftarrow> vset (m_early_received ch) ackIdx True;
        Some (ch\<lparr>m_early_received := early\<rparr>, [Add_reliable_packet (m_delivery_method ch) packet])
      })"

text \<open>From the sliding of the window on: the packet lies in one of the two windows.\<close>

definition receive_in_window ::
  "int \<Rightarrow> int \<Rightarrow> net_packet \<Rightarrow> net_reliable_channel
   \<Rightarrow> (bool \<times> net_reliable_channel \<times> chan_action list) option" where
  "receive_in_window seq relate packet ch = do {
     ch1 \<leftarrow> (if relate \<ge> m_window_size ch then slide_window relate ch else Some ch);
     let ch2 = ch1\<lparr>m_must_send_acks := True\<rparr>;
     let ackIdx = seq smod m_window_size ch;
     b \<leftarrow> rd8 (m_data (m_outgoing_acks ch2)) (ack_byte ackIdx);
     if b AND ack_bit ackIdx \<noteq> 0 then
       (let (ch3, acts) = add_to_peer_channel_send_queue ch2 in Some (False, ch3, acts))
     else do {
       bs \<leftarrow> wr8 (m_data (m_outgoing_acks ch2)) (ack_byte ackIdx) (b OR ack_bit ackIdx);
       let ch3 = ch2\<lparr>m_outgoing_acks := (m_outgoing_acks ch2)\<lparr>m_data := bs\<rparr>\<rparr>;
       let (ch4, acts) = add_to_peer_channel_send_queue ch3;
       (ch5, acts') \<leftarrow> (if seq = m_remote_sequence ch4 then accept_in_sequence packet ch4
                       else hold_packet ackIdx packet ch4);
       Some (True, ch5, acts @ acts')
     }
   }"

section \<open>Acknowledgements\<close>

definition clear_pending :: "pending_packet \<Rightarrow> pending_packet \<times> chan_action list" where
  "clear_pending pp =
     (case m_packet pp of
        None \<Rightarrow> (pp, [])
      | Some p \<Rightarrow> (pp\<lparr>m_packet := None\<rparr>, [Recycle_and_deliver p]))"

partial_function (option) ack_loop ::
  "int \<Rightarrow> bytes \<Rightarrow> int \<Rightarrow> int \<Rightarrow> int \<Rightarrow> int \<Rightarrow> pending_packet list
   \<Rightarrow> (int \<times> pending_packet list \<times> chan_action list) option" where
  "ack_loop W bs ackWindowStart local_sequence pendingSeq window_start pending =
     (if pendingSeq = local_sequence then Some (window_start, pending, [])
      else if relative_sequence_number pendingSeq ackWindowStart \<ge> W
      then Some (window_start, pending, [])
      else do {
        let pendingIdx = pendingSeq smod W;
        b \<leftarrow> rd8 bs (ack_byte pendingIdx);
        if b AND ack_bit pendingIdx = 0
        then ack_loop W bs ackWindowStart local_sequence (next_seq pendingSeq) window_start pending
        else do {
          let window_start' = (if pendingSeq = window_start then next_seq window_start else window_start);
          pp \<leftarrow> vget pending pendingIdx;
          let (pp', acts) = clear_pending pp;
          pending' \<leftarrow> vset pending pendingIdx pp';
          (ws, pend, acts') \<leftarrow>
            ack_loop W bs ackWindowStart local_sequence (next_seq pendingSeq) window_start' pending';
          Some (ws, pend, acts @ acts')
        }
      })"

declare ack_loop.simps [code]

definition process_ack ::
  "net_packet \<Rightarrow> net_reliable_channel \<Rightarrow> (net_reliable_channel \<times> chan_action list) option" where
  "process_ack packet ch =
     (if m_size packet \<noteq> m_size (m_outgoing_acks ch) then Some (ch, [])
      else do {
        s \<leftarrow> sequence packet;
        let ackWindowStart = uint s;
        let windowRel = relative_sequence_number (m_local_window_start ch) ackWindowStart;
        if ackWindowStart \<ge> MAX_SEQUENCE \<or> windowRel < 0 then Some (ch, [])
        else if windowRel \<ge> m_window_size ch then Some (ch, [])
        else do {
          (ws, pending, acts) \<leftarrow>
            ack_loop (m_window_size ch) (m_data packet) ackWindowStart (m_local_sequence ch)
              (m_local_window_start ch) (m_local_window_start ch) (m_pending_packets ch);
          Some (ch\<lparr>m_local_window_start := ws, m_pending_packets := pending\<rparr>, acts)
        }
      })"

definition reliable_process_packet ::
  "net_packet \<Rightarrow> net_reliable_channel \<Rightarrow> (bool \<times> net_reliable_channel \<times> chan_action list) option" where
  "reliable_process_packet packet ch =
     (if property packet = ACK then do {
        (ch', acts) \<leftarrow> process_ack packet ch;
        Some (False, ch', acts)
      }
      else do {
        s \<leftarrow> sequence packet;
        let seq = uint s;
        if seq \<ge> MAX_SEQUENCE then Some (False, ch, [])
        else
          let relate = relative_sequence_number seq (m_remote_window_start ch);
              relateSeq = relative_sequence_number seq (m_remote_sequence ch)
          in if relateSeq > m_window_size ch then Some (False, ch, [])
             else if relate < 0 then Some (False, ch, [])
             else if relate \<ge> m_window_size ch * 2 then Some (False, ch, [])
             else receive_in_window seq relate packet ch
      })"

section \<open>Sending\<close>

text \<open>\<open>peer->send_user_data\<close> stores the connection number into the packet it is given.\<close>

definition try_send :: "int \<Rightarrow> rat \<Rightarrow> u8 \<Rightarrow> pending_packet \<Rightarrow> bool \<times> pending_packet \<times> chan_action list" where
  "try_send currentTime resend_delay connect_number pp =
     (case m_packet pp of
        None \<Rightarrow> (False, pp, [])
      | Some p \<Rightarrow>
          if m_is_sent pp \<and>
             of_int (currentTime - m_timestamp pp) < resend_delay * of_int TICKS_PER_MILLISECOND
          then (False, pp, [])
          else let p' = set_connection_number connect_number p
               in (True, pp\<lparr>m_packet := Some p', m_timestamp := currentTime, m_is_sent := True\<rparr>,
                   [Send_user_data p']))"

definition init_pending :: "net_packet \<Rightarrow> pending_packet \<Rightarrow> pending_packet" where
  "init_pending p pp = pp\<lparr>m_packet := Some p, m_is_sent := False\<rparr>"

fun fill_pending :: "int \<Rightarrow> u8 \<Rightarrow> int \<Rightarrow> net_packet net_queue \<Rightarrow> int \<Rightarrow> pending_packet list
    \<Rightarrow> (net_packet net_queue \<times> int \<times> pending_packet list) option" where
  "fill_pending W i window_start [] local_sequence pending = Some ([], local_sequence, pending)"
| "fill_pending W i window_start (p # q) local_sequence pending =
     (if relative_sequence_number local_sequence window_start \<ge> W
      then Some (p # q, local_sequence, pending)
      else do {
        p1 \<leftarrow> set_sequence (word_of_int local_sequence) p;
        p2 \<leftarrow> set_channel_id i p1;
        pp \<leftarrow> vget pending (local_sequence smod W);
        pending' \<leftarrow> vset pending (local_sequence smod W) (init_pending p2 pp);
        fill_pending W i window_start q (next_seq local_sequence) pending'
      })"

partial_function (option) send_loop ::
  "int \<Rightarrow> int \<Rightarrow> rat \<Rightarrow> u8 \<Rightarrow> int \<Rightarrow> int \<Rightarrow> pending_packet list
   \<Rightarrow> (bool \<times> pending_packet list \<times> chan_action list) option" where
  "send_loop W currentTime resend_delay connect_number local_sequence pendingSeq pending =
     (if pendingSeq = local_sequence then Some (False, pending, [])
      else do {
        pp \<leftarrow> vget pending (pendingSeq smod W);
        let (sent, pp', acts) = try_send currentTime resend_delay connect_number pp;
        pending' \<leftarrow> vset pending (pendingSeq smod W) pp';
        (has, pend, acts') \<leftarrow>
          send_loop W currentTime resend_delay connect_number local_sequence (next_seq pendingSeq) pending';
        Some (sent \<or> has, pend, acts @ acts')
      })"

declare send_loop.simps [code]

definition reliable_send_next_packets ::
  "int \<Rightarrow> rat \<Rightarrow> u8 \<Rightarrow> net_reliable_channel
   \<Rightarrow> (bool \<times> net_reliable_channel \<times> chan_action list) option" where
  "reliable_send_next_packets currentTime resend_delay connect_number ch = do {
     let (ch1, acts1) =
       (if m_must_send_acks ch
        then let acks = set_connection_number connect_number (m_outgoing_acks ch)
             in (ch\<lparr>m_must_send_acks := False, m_outgoing_acks := acks\<rparr>, [Send_user_data acks])
        else (ch, []));
     (q, local_sequence, pending) \<leftarrow>
       fill_pending (m_window_size ch1) (m_id ch1) (m_local_window_start ch1)
         (m_outgoing_queue ch1) (m_local_sequence ch1) (m_pending_packets ch1);
     (hasPendingPackets, pending', acts2) \<leftarrow>
       send_loop (m_window_size ch1) currentTime resend_delay connect_number local_sequence
         (m_local_window_start ch1) pending;
     let ch2 = ch1\<lparr>m_outgoing_queue := q, m_local_sequence := local_sequence,
                   m_pending_packets := pending'\<rparr>;
     Some (hasPendingPackets \<or> m_must_send_acks ch2 \<or> \<not> q_empty q, ch2, acts1 @ acts2)
   }"

end
