(* ===== verification/Reliable_Receiver.thy ===== *)
theory Reliable_Receiver
  imports Reliable_Channel
begin

text \<open>
  The receiving side of the reliable channel, against ghost numbers that do not wrap around: the
  invariant \<open>receiver_inv\<close> relates the fields of the channel to the next expected number, the start of
  the window and the set of numbers received, and \<open>reliable_data_ok\<close> gives the effect of
  \<open>process_packet\<close> on them, for the ordered and the unordered channel.
\<close>

section \<open>Sequence numbers and window indices\<close>

abbreviation seq_of :: "int \<Rightarrow> int" where
  "seq_of s \<equiv> s mod MAX_SEQUENCE"

abbreviation idx_of :: "int \<Rightarrow> int" where
  "idx_of s \<equiv> s mod DEFAULT_WINDOW_SIZE"

lemma seq_of_bounds [simp]: "0 \<le> seq_of s" "seq_of s < MAX_SEQUENCE"
  by (simp_all add: MAX_SEQUENCE_def)

lemma idx_of_bounds [simp]: "0 \<le> idx_of s" "idx_of s < DEFAULT_WINDOW_SIZE"
  by (simp_all add: DEFAULT_WINDOW_SIZE_def)

lemma window_pos [simp]: "0 < DEFAULT_WINDOW_SIZE" "0 < MAX_SEQUENCE"
  by (simp_all add: seq_consts)

lemma next_seq_of [simp]: "next_seq (seq_of s) = seq_of (s + 1)"
proof -
  have "next_seq (seq_of s) = (seq_of s + 1) mod MAX_SEQUENCE"
    unfolding next_seq_def by (rule smod_nonneg) (simp_all add: seq_of_bounds(1) [of s, THEN add_nonneg_nonneg])
  then show ?thesis by (simp add: mod_add_left_eq)
qed

lemma idx_of_seq [simp]: "seq_of s smod DEFAULT_WINDOW_SIZE = idx_of s"
proof -
  have "seq_of s smod DEFAULT_WINDOW_SIZE = seq_of s mod DEFAULT_WINDOW_SIZE" by simp
  also have "\<dots> = idx_of s"
    by (simp add: seq_consts mod_mod_cancel)
  finally show ?thesis .
qed

lemma idx_of_inj: "idx_of s = idx_of t \<Longrightarrow> \<bar>s - t\<bar> < DEFAULT_WINDOW_SIZE \<Longrightarrow> s = t"
proof -
  assume "idx_of s = idx_of t" and d: "\<bar>s - t\<bar> < DEFAULT_WINDOW_SIZE"
  then have "DEFAULT_WINDOW_SIZE dvd s - t" by (simp add: mod_eq_dvd_iff)
  with d show ?thesis using zdvd_imp_le [of DEFAULT_WINDOW_SIZE "\<bar>s - t\<bar>"] by (cases "s = t") auto
qed

lemma seq_of_inj: "seq_of s = seq_of t \<Longrightarrow> \<bar>s - t\<bar> < MAX_SEQUENCE \<Longrightarrow> s = t"
proof -
  assume "seq_of s = seq_of t" and d: "\<bar>s - t\<bar> < MAX_SEQUENCE"
  then have "MAX_SEQUENCE dvd s - t" by (simp add: mod_eq_dvd_iff)
  with d show ?thesis using zdvd_imp_le [of MAX_SEQUENCE "\<bar>s - t\<bar>"] by (cases "s = t") auto
qed

lemma seq_word [simp]: "uint (word_of_int (seq_of s) :: u16) = seq_of s"
  using seq_of_bounds [of s] by (simp add: uint_word_of_int seq_consts)

section \<open>The bitmap of received packets\<close>

definition ack_set :: "bytes \<Rightarrow> int \<Rightarrow> bool" where
  "ack_set bs i = bit (bs ! ack_byte i) (nat (i mod 8))"

lemma ack_byte_eq: "0 \<le> i \<Longrightarrow> ack_byte i = 4 + nat (i div 8)"
  by (simp add: ack_byte_def BITS_IN_BYTE_def sdiv_nonneg nat_add_distrib pos_imp_zdiv_nonneg_iff)

lemma ack_byte_bounds: "0 \<le> i \<Longrightarrow> i < 64 \<Longrightarrow> 4 \<le> ack_byte i \<and> ack_byte i < 12"
  by (simp add: ack_byte_eq nat_less_iff)

lemma ack_bit_eq: "0 \<le> i \<Longrightarrow> ack_bit i = push_bit (nat (i mod 8)) 1"
  by (simp add: ack_bit_def BITS_IN_BYTE_def)

lemma ack_bit_nth: "0 \<le> i \<Longrightarrow> bit (ack_bit i) n \<longleftrightarrow> n = nat (i mod 8)"
proof -
  assume "0 \<le> i"
  moreover have "nat (i mod 8) < 8" by (simp add: nat_less_iff)
  ultimately show ?thesis by (auto simp: ack_bit_eq bit_simps)
qed

lemma ack_index: "0 \<le> i \<Longrightarrow> 0 \<le> j \<Longrightarrow> ack_byte i = ack_byte j \<Longrightarrow> nat (i mod 8) = nat (j mod 8) \<Longrightarrow> i = j"
proof -
  assume ij: "0 \<le> i" "0 \<le> j" and "ack_byte i = ack_byte j" and r: "nat (i mod 8) = nat (j mod 8)"
  then have "nat (i div 8) = nat (j div 8)" by (simp add: ack_byte_eq)
  then have "i div 8 = j div 8" using ij by (simp add: eq_nat_nat_iff pos_imp_zdiv_nonneg_iff)
  moreover have "i mod 8 = j mod 8" using r by (simp add: eq_nat_nat_iff)
  ultimately show "i = j" by (metis div_mult_mod_eq)
qed

lemma ack_test: "0 \<le> i \<Longrightarrow> (bs ! ack_byte i AND ack_bit i = 0) \<longleftrightarrow> \<not> ack_set bs i"
  by (simp add: ack_set_def ack_bit_eq push_bit_of_1 and_exp_eq_0_iff_not_bit)

lemma ack_mark:
  assumes "0 \<le> i" "i < 64" "0 \<le> j" "12 \<le> length bs"
  shows "ack_set (bs[ack_byte i := bs ! ack_byte i OR ack_bit i]) j \<longleftrightarrow> j = i \<or> ack_set bs j"
proof (cases "ack_byte j = ack_byte i")
  case True
  have "j = i \<longleftrightarrow> nat (j mod 8) = nat (i mod 8)"
    using True assms(1,3) ack_index [of j i] by blast
  with True show ?thesis
    using assms ack_byte_bounds [OF assms(1,2)]
    by (auto simp: ack_set_def bit_or_iff ack_bit_nth)
qed (auto simp: ack_set_def nth_list_update_neq)

lemma ack_unmark:
  assumes "0 \<le> i" "i < 64" "0 \<le> j" "12 \<le> length bs"
  shows "ack_set (bs[ack_byte i := bs ! ack_byte i AND NOT (ack_bit i)]) j \<longleftrightarrow> j \<noteq> i \<and> ack_set bs j"
proof (cases "ack_byte j = ack_byte i")
  case True
  have "j = i \<longleftrightarrow> nat (j mod 8) = nat (i mod 8)"
    using True assms(1,3) ack_index [of j i] by blast
  moreover have "nat (j mod 8) < 8" by (simp add: nat_less_iff)
  ultimately show ?thesis
    using True assms ack_byte_bounds [OF assms(1,2)]
    by (auto simp: ack_set_def bit_and_iff bit_not_iff ack_bit_nth)
qed (auto simp: ack_set_def nth_list_update_neq)

lemma rd8_ack [simp]: "0 \<le> i \<Longrightarrow> i < 64 \<Longrightarrow> 12 \<le> length bs \<Longrightarrow> rd8 bs (ack_byte i) = Some (bs ! ack_byte i)"
  using ack_byte_bounds [of i] by (simp add: rd8_def)

lemma wr8_ack [simp]: "0 \<le> i \<Longrightarrow> i < 64 \<Longrightarrow> 12 \<le> length bs \<Longrightarrow> wr8 bs (ack_byte i) b = Some (bs[ack_byte i := b])"
  using ack_byte_bounds [of i] by (simp add: wr8_def)

text \<open>Sliding the window clears exactly the bits of the numbers it leaves behind.\<close>

lemma clean_acks_range:
  assumes "g \<le> h" "h - g < MAX_SEQUENCE" "12 \<le> length bs"
  shows "\<exists>bs'. clean_acks DEFAULT_WINDOW_SIZE (seq_of h) (seq_of g) bs = Some bs' \<and>
     length bs' = length bs \<and> (\<forall>k < 4. bs' ! k = bs ! k) \<and>
     (\<forall>i. 0 \<le> i \<longrightarrow> i < 64 \<longrightarrow> (ack_set bs' i \<longleftrightarrow> ack_set bs i \<and> i \<notin> idx_of ` {g..<h}))"
  using assms
proof (induction "nat (h - g)" arbitrary: g bs)
  case 0
  then show ?case by (intro exI [of _ bs]) (simp add: clean_acks.simps)
next
  case (Suc n)
  let ?i = "idx_of g"
  let ?bs = "bs[ack_byte ?i := bs ! ack_byte ?i AND NOT (ack_bit ?i)]"
  have i: "0 \<le> ?i" "?i < 64" using idx_of_bounds [of g] by (simp_all add: DEFAULT_WINDOW_SIZE_def)
  have ne: "seq_of g \<noteq> seq_of h" using seq_of_inj [of g h] Suc.hyps(2) Suc.prems by auto
  have "\<exists>bs'. clean_acks DEFAULT_WINDOW_SIZE (seq_of h) (seq_of (g + 1)) ?bs = Some bs' \<and>
     length bs' = length ?bs \<and> (\<forall>k < 4. bs' ! k = ?bs ! k) \<and>
     (\<forall>i. 0 \<le> i \<longrightarrow> i < 64 \<longrightarrow> (ack_set bs' i \<longleftrightarrow> ack_set ?bs i \<and> i \<notin> idx_of ` {g + 1..<h}))"
    using Suc.hyps(2) Suc.prems by (intro Suc.hyps(1)) auto
  then obtain bs' where bs': "clean_acks DEFAULT_WINDOW_SIZE (seq_of h) (seq_of (g + 1)) ?bs = Some bs'"
    "length bs' = length ?bs" "\<forall>k < 4. bs' ! k = ?bs ! k"
    "\<And>i. 0 \<le> i \<Longrightarrow> i < 64 \<Longrightarrow> ack_set bs' i \<longleftrightarrow> ack_set ?bs i \<and> i \<notin> idx_of ` {g + 1..<h}" by auto
  have range: "{g..<h} = insert g {g + 1..<h}" using Suc.hyps(2) by auto
  have "clean_acks DEFAULT_WINDOW_SIZE (seq_of h) (seq_of g) bs = Some bs'"
    using ne bs'(1) i Suc.prems(3) by (subst clean_acks.simps) simp
  moreover have "\<forall>k < 4. bs' ! k = bs ! k"
    using bs'(3) ack_byte_bounds [OF i] by simp
  moreover have "\<forall>j. 0 \<le> j \<longrightarrow> j < 64 \<longrightarrow> (ack_set bs' j \<longleftrightarrow> ack_set bs j \<and> j \<notin> idx_of ` {g..<h})"
    using bs'(4) ack_unmark [OF i _ Suc.prems(3)] by (auto simp: range)
  ultimately show ?case using bs'(2) by (intro exI [of _ bs']) simp
qed

section \<open>The window of the receiver\<close>

text \<open>
  \<open>ack_window g rcvd p\<close>: the ack packet \<open>p\<close> describes a window that starts at number \<open>g\<close>, and its
  bit for a number of the window says whether it is in \<open>rcvd\<close>. The numbers are the true ones,
  of which the wire carries the remainder modulo \<^const>\<open>MAX_SEQUENCE\<close>.
\<close>

definition ack_window :: "int \<Rightarrow> int set \<Rightarrow> net_packet \<Rightarrow> bool" where
  "ack_window g rcvd p \<longleftrightarrow>
     property p = ACK \<and> m_size p = 13 \<and> 13 \<le> buffer_size p \<and>
     sequence p = Some (word_of_int (seq_of g)) \<and>
     (\<forall>s. g \<le> s \<longrightarrow> s < g + DEFAULT_WINDOW_SIZE \<longrightarrow> (ack_set (m_data p) (idx_of s) \<longleftrightarrow> s \<in> rcvd))"

lemma ack_windowD:
  assumes "ack_window g rcvd p"
  shows "property p = ACK" "m_size p = 13" "13 \<le> buffer_size p" "12 \<le> buffer_size p" "m_data p \<noteq> []"
    "sequence p = Some (word_of_int (seq_of g))"
    "\<And>s. g \<le> s \<Longrightarrow> s < g + DEFAULT_WINDOW_SIZE \<Longrightarrow> ack_set (m_data p) (idx_of s) \<longleftrightarrow> s \<in> rcvd"
  using assms by (auto simp: ack_window_def)

lemma rd16_1_cong:
  "length xs = length ys \<Longrightarrow> (\<And>k. 1 \<le> k \<Longrightarrow> k < 3 \<Longrightarrow> k < length ys \<Longrightarrow> xs ! k = ys ! k) \<Longrightarrow> rd16 xs 1 = rd16 ys 1"
  unfolding rd16_def by (rule arg_cong [where f = "map_option le_word"], rule rd_bytes_cong) auto

text \<open>Only the bytes behind the first matter for the window; a change of byte 0 keeps the property.\<close>

lemma ack_window_cong:
  assumes "ack_window g rcvd p" and "m_size q = 13" "13 \<le> buffer_size q" "property q = ACK"
    and "\<And>k. 0 < k \<Longrightarrow> k < 13 \<Longrightarrow> m_data q ! k = m_data p ! k"
  shows "ack_window g rcvd q"
proof -
  have seq: "sequence q = sequence p"
    using assms(3,5) ack_windowD(3) [OF assms(1)]
    by (auto simp: sequence_def rd16_def rd_bytes_def intro!: arg_cong [where f = le_word] nth_equalityI)
  have bits: "ack_set (m_data q) (idx_of s) = ack_set (m_data p) (idx_of s)" for s
    using assms(5) [of "ack_byte (idx_of s)"] ack_byte_bounds [of "idx_of s"] idx_of_bounds [of s]
    by (simp add: ack_set_def DEFAULT_WINDOW_SIZE_def)
  show ?thesis
    using assms(1-4) seq bits by (simp add: ack_window_def)
qed

lemma set_connection_number_nth [simp]:
  "0 < n \<Longrightarrow> m_data (set_connection_number v p) ! n = m_data p ! n"
  by (simp add: set_connection_number_def)

lemma ack_window_number:
  assumes "ack_window g rcvd p"
  shows "ack_window g rcvd (set_connection_number v p)"
  using ack_windowD [OF assms] by (intro ack_window_cong [OF assms]) (simp_all add: packet_simps)

lemma slide_window_ok:
  assumes w: "ack_window g rcvd (m_outgoing_acks ch)" and sub: "rcvd \<subseteq> {0..<g + DEFAULT_WINDOW_SIZE}"
    and ch: "m_remote_window_start ch = seq_of g" "m_window_size ch = DEFAULT_WINDOW_SIZE"
    and s: "g + DEFAULT_WINDOW_SIZE \<le> s" "s < g + 2 * DEFAULT_WINDOW_SIZE"
  shows "\<exists>acks. slide_window (s - g) ch =
       Some (ch\<lparr>m_outgoing_acks := acks,
                m_remote_window_start := seq_of (s - DEFAULT_WINDOW_SIZE + 1)\<rparr>) \<and>
     ack_window (s - DEFAULT_WINDOW_SIZE + 1) rcvd acks"
proof -
  let ?p = "m_outgoing_acks ch" and ?h = "s - DEFAULT_WINDOW_SIZE + 1"
  note wD = ack_windowD [OF w]
  have h: "(m_remote_window_start ch + (s - g) - m_window_size ch + 1) smod MAX_SEQUENCE = seq_of ?h"
  proof -
    have "0 \<le> seq_of g + (s - g) - DEFAULT_WINDOW_SIZE + 1"
      using s(1) pos_mod_sign [of MAX_SEQUENCE g] window_pos(2) by linarith
    then have "(seq_of g + (s - g) - DEFAULT_WINDOW_SIZE + 1) smod MAX_SEQUENCE
        = (seq_of g + (s - g - DEFAULT_WINDOW_SIZE + 1)) mod MAX_SEQUENCE"
      by (subst smod_nonneg) (auto intro: arg_cong [where f = "\<lambda>x. x mod MAX_SEQUENCE"])
    also have "\<dots> = seq_of ?h"
      by (subst mod_add_left_eq, rule arg_cong [where f = "\<lambda>x. x mod MAX_SEQUENCE"]) simp
    finally show ?thesis by (simp add: ch)
  qed
  obtain bs where bs: "wr16 (m_data ?p) 1 (word_of_int (seq_of ?h)) = Some bs"
    using wr_bytes_ok [of 1 "le_bytes 2 (word_of_int (seq_of ?h) :: u16)" "m_data ?p"] wD(3)
    by (auto simp: wr16_def)
  have len: "length bs = buffer_size ?p" using wr16_length [OF bs] .
  have bs_nth: "k = 0 \<or> 3 \<le> k \<Longrightarrow> k < buffer_size ?p \<Longrightarrow> bs ! k = m_data ?p ! k" for k
    using wr_bytes_nth [OF bs [unfolded wr16_def]] by auto
  obtain bs' where bs': "clean_acks DEFAULT_WINDOW_SIZE (seq_of ?h) (seq_of g) bs = Some bs'"
    "length bs' = length bs" "\<And>k. k < 4 \<Longrightarrow> bs' ! k = bs ! k"
    "\<And>i. 0 \<le> i \<Longrightarrow> i < 64 \<Longrightarrow> ack_set bs' i \<longleftrightarrow> ack_set bs i \<and> i \<notin> idx_of ` {g..<?h}"
    using clean_acks_range [of g ?h bs] s len wD(4) by (auto simp: seq_consts)
  have "slide_window (s - g) ch =
      Some (ch\<lparr>m_outgoing_acks := ?p\<lparr>m_data := bs'\<rparr>, m_remote_window_start := seq_of ?h\<rparr>)"
    using bs bs'(1) h by (simp add: slide_window_def set_sequence_def set_data_def ch Let_def)
  moreover have "ack_window ?h rcvd (?p\<lparr>m_data := bs'\<rparr>)"
    unfolding ack_window_def
  proof (intro conjI allI impI)
    have "byte0 (?p\<lparr>m_data := bs'\<rparr>) = byte0 ?p"
      using bs'(3) [of 0] bs_nth [of 0] bs'(2) len wD(3,5) by (intro byte0_cong) auto
    then show "property (?p\<lparr>m_data := bs'\<rparr>) = ACK" using wD(1) by (simp add: property_def)
    show "m_size (?p\<lparr>m_data := bs'\<rparr>) = 13" "13 \<le> buffer_size (?p\<lparr>m_data := bs'\<rparr>)"
      using wD(2,3) bs'(2) len by simp_all
    have "rd16 bs' 1 = rd16 bs 1"
      using bs'(2,3) by (intro rd16_1_cong) auto
    then show "sequence (?p\<lparr>m_data := bs'\<rparr>) = Some (word_of_int (seq_of ?h))"
      using rd16_wr16_same [OF bs] by (simp add: sequence_def)
    fix t assume t: "?h \<le> t" "t < ?h + DEFAULT_WINDOW_SIZE"
    have i: "0 \<le> idx_of t" "idx_of t < 64" using idx_of_bounds [of t] by (simp_all add: DEFAULT_WINDOW_SIZE_def)
    have same: "ack_set bs (idx_of t) = ack_set (m_data ?p) (idx_of t)"
      using ack_byte_bounds [OF i] bs_nth [of "ack_byte (idx_of t)"] wD(3) by (simp add: ack_set_def)
    have "ack_set bs' (idx_of t) \<longleftrightarrow> t \<in> rcvd"
    proof (cases "t < g + DEFAULT_WINDOW_SIZE")
      case True
      have "idx_of t \<notin> idx_of ` {g..<?h}"
      proof
        assume "idx_of t \<in> idx_of ` {g..<?h}"
        then obtain u where "u \<in> {g..<?h}" "idx_of t = idx_of u" by auto
        with idx_of_inj [of t u] t True show False by auto
      qed
      with bs'(4) [OF i] same wD(7) [of t] True t s show ?thesis by auto
    next
      case False
      then have "idx_of t = idx_of (t - DEFAULT_WINDOW_SIZE)" "t - DEFAULT_WINDOW_SIZE \<in> {g..<?h}"
        using t by simp_all
      then have "idx_of t \<in> idx_of ` {g..<?h}" by (rule image_eqI)
      with bs'(4) [OF i] sub False show ?thesis by auto
    qed
    then show "ack_set (m_data (?p\<lparr>m_data := bs'\<rparr>)) (idx_of t) \<longleftrightarrow> t \<in> rcvd" by simp
  qed
  ultimately show ?thesis by blast
qed

lemma ack_window_insert:
  assumes w: "ack_window g rcvd p" and s: "g \<le> s" "s < g + DEFAULT_WINDOW_SIZE"
  shows "ack_window g (insert s rcvd)
    (p\<lparr>m_data := (m_data p)[ack_byte (idx_of s) := m_data p ! ack_byte (idx_of s) OR ack_bit (idx_of s)]\<rparr>)"
    (is "ack_window g _ (p\<lparr>m_data := ?bs\<rparr>)")
proof -
  note wD = ack_windowD [OF w]
  have i: "0 \<le> idx_of t" "idx_of t < 64" for t
    using idx_of_bounds [of t] by (simp_all add: DEFAULT_WINDOW_SIZE_def)
  have ab: "4 \<le> ack_byte (idx_of s)" using ack_byte_bounds [OF i [of s]] by simp
  have "byte0 (p\<lparr>m_data := ?bs\<rparr>) = byte0 p"
    using ab wD(5) by (intro byte0_cong) auto
  moreover have "rd16 ?bs 1 = rd16 (m_data p) 1"
    using ab by (intro rd16_1_cong) auto
  moreover have "ack_set ?bs (idx_of t) \<longleftrightarrow> t \<in> insert s rcvd"
    if "g \<le> t" "t < g + DEFAULT_WINDOW_SIZE" for t
    using ack_mark [OF i [of s] i(1) [of t] wD(4)] wD(7) [OF that] idx_of_inj [of t s] s that by auto
  ultimately show ?thesis
    using w by (auto simp: ack_window_def property_def sequence_def)
qed

section \<open>Held packets\<close>

text \<open>The packets a channel hands to its peer, in order.\<close>

fun delivery_of :: "chan_action \<Rightarrow> net_packet option" where
  "delivery_of (Add_reliable_packet dm p) = Some p"
| "delivery_of _ = None"

definition deliveries :: "chan_action list \<Rightarrow> net_packet list" where
  "deliveries acts = List.map_filter delivery_of acts"

lemma deliveries_simps [simp]:
  "deliveries [] = []" "deliveries (Add_reliable_packet dm p # acts) = p # deliveries acts"
  "deliveries (Add_to_reliable_channel_send_queue # acts) = deliveries acts"
  "deliveries (Send_user_data p # acts) = deliveries acts"
  "deliveries (Recycle_and_deliver p # acts) = deliveries acts"
  "deliveries (as @ bs) = deliveries as @ deliveries bs"
  by (simp_all add: deliveries_def List.map_filter_def)

lemma deliveries_add_to_peer [simp]: "deliveries (snd (add_to_peer_channel_send_queue ch)) = []"
  by (simp add: add_to_peer_channel_send_queue_def)

lemma idx_nat [simp]: "nat (idx_of s) < 64"
  using idx_of_bounds(2) [of s] by (simp add: nat_less_iff DEFAULT_WINDOW_SIZE_def)

lemma idx_nat_inj:
  "nat (idx_of s) = nat (idx_of t) \<Longrightarrow> \<bar>s - t\<bar> < DEFAULT_WINDOW_SIZE \<Longrightarrow> s = t"
  using idx_of_inj [of s t] idx_of_bounds by (simp add: eq_nat_nat_iff)

lemma idx_nat_notin:
  "t \<notin> A \<Longrightarrow> (\<And>s. s \<in> A \<Longrightarrow> \<bar>t - s\<bar> < DEFAULT_WINDOW_SIZE) \<Longrightarrow> nat (idx_of t) \<notin> (\<lambda>s. nat (idx_of s)) ` A"
  using idx_nat_inj [of t] by fastforce

lemma deliver_held_range:
  assumes "g \<le> h" "h - g < DEFAULT_WINDOW_SIZE" "length slots = 64"
    and "\<And>s. g \<le> s \<Longrightarrow> s < h \<Longrightarrow> slots ! nat (idx_of s) = Some (f s)"
    and "slots ! nat (idx_of h) = None"
  shows "\<exists>slots'. deliver_held DEFAULT_WINDOW_SIZE dm slots (seq_of g)
         = Some (slots', seq_of h, List.map (\<lambda>s. Add_reliable_packet dm (f s)) [g..h - 1]) \<and>
       length slots' = 64 \<and>
       (\<forall>i. slots' ! i = (if i \<in> (\<lambda>s. nat (idx_of s)) ` {g..<h} then None else slots ! i))"
  using assms
proof (induction "nat (h - g)" arbitrary: g slots)
  case 0
  then show ?case by (intro exI [of _ slots]) (simp add: deliver_held.simps [of _ _ _ "seq_of g"])
next
  case (Suc n)
  let ?slots = "slots[nat (idx_of g) := None]"
  have other: "nat (idx_of g) \<noteq> nat (idx_of s)" if "g < s" "s \<le> h" for s
    using idx_nat_inj [of g s] that Suc.prems(2) by auto
  have "\<exists>slots'. deliver_held DEFAULT_WINDOW_SIZE dm ?slots (seq_of (g + 1))
         = Some (slots', seq_of h, List.map (\<lambda>s. Add_reliable_packet dm (f s)) [g + 1..h - 1]) \<and>
       length slots' = 64 \<and>
       (\<forall>i. slots' ! i = (if i \<in> (\<lambda>s. nat (idx_of s)) ` {g + 1..<h} then None else ?slots ! i))"
    using Suc.hyps(2) Suc.prems other
    by (intro Suc.hyps(1)) (auto simp: nth_list_update_neq)
  then obtain slots' where IH: "deliver_held DEFAULT_WINDOW_SIZE dm ?slots (seq_of (g + 1))
         = Some (slots', seq_of h, List.map (\<lambda>s. Add_reliable_packet dm (f s)) [g + 1..h - 1])"
       "length slots' = 64"
       "\<And>i. slots' ! i = (if i \<in> (\<lambda>s. nat (idx_of s)) ` {g + 1..<h} then None else ?slots ! i)" by auto
  have gh: "g < h" using Suc.hyps(2) by auto
  then have range: "{g..<h} = insert g {g + 1..<h}" by auto
  have upto: "[g..h - 1] = g # [g + 1..h - 1]" using gh by (simp add: upto_rec1)
  have "deliver_held DEFAULT_WINDOW_SIZE dm slots (seq_of g)
         = Some (slots', seq_of h, List.map (\<lambda>s. Add_reliable_packet dm (f s)) [g..h - 1])"
    using Suc.prems(3,4) gh IH(1) upto by (subst deliver_held.simps) simp
  moreover have "slots' ! i = (if i \<in> (\<lambda>s. nat (idx_of s)) ` {g..<h} then None else slots ! i)" for i
    using IH(3) [of i] Suc.prems(3) by (cases "i = nat (idx_of g)") (auto simp: range)
  ultimately show ?case using IH(2) by blast
qed

lemma skip_early_range:
  assumes "g \<le> h" "h - g < DEFAULT_WINDOW_SIZE" "length early = 64"
    and "\<And>s. g \<le> s \<Longrightarrow> s < h \<Longrightarrow> early ! nat (idx_of s)"
    and "\<not> early ! nat (idx_of h)"
  shows "\<exists>early'. skip_early DEFAULT_WINDOW_SIZE early (seq_of g) = Some (early', seq_of h) \<and>
       length early' = 64 \<and>
       (\<forall>i. early' ! i \<longleftrightarrow> early ! i \<and> i \<notin> (\<lambda>s. nat (idx_of s)) ` {g..<h})"
  using assms
proof (induction "nat (h - g)" arbitrary: g early)
  case 0
  then show ?case by (intro exI [of _ early]) (simp add: skip_early.simps [of _ _ "seq_of g"])
next
  case (Suc n)
  let ?early = "early[nat (idx_of g) := False]"
  have other: "nat (idx_of g) \<noteq> nat (idx_of s)" if "g < s" "s \<le> h" for s
    using idx_nat_inj [of g s] that Suc.prems(2) by auto
  have "\<exists>early'. skip_early DEFAULT_WINDOW_SIZE ?early (seq_of (g + 1)) = Some (early', seq_of h) \<and>
       length early' = 64 \<and>
       (\<forall>i. early' ! i \<longleftrightarrow> ?early ! i \<and> i \<notin> (\<lambda>s. nat (idx_of s)) ` {g + 1..<h})"
    using Suc.hyps(2) Suc.prems other
    by (intro Suc.hyps(1)) (auto simp: nth_list_update_neq)
  then obtain early' where IH: "skip_early DEFAULT_WINDOW_SIZE ?early (seq_of (g + 1)) = Some (early', seq_of h)"
    "length early' = 64"
    "\<And>i. early' ! i \<longleftrightarrow> ?early ! i \<and> i \<notin> (\<lambda>s. nat (idx_of s)) ` {g + 1..<h}" by auto
  have gh: "g < h" using Suc.hyps(2) by auto
  then have range: "{g..<h} = insert g {g + 1..<h}" by auto
  have "skip_early DEFAULT_WINDOW_SIZE early (seq_of g) = Some (early', seq_of h)"
    using Suc.prems(3,4) gh IH(1) by (subst skip_early.simps) simp
  moreover have "early' ! i \<longleftrightarrow> early ! i \<and> i \<notin> (\<lambda>s. nat (idx_of s)) ` {g..<h}" for i
    using IH(3) [of i] Suc.prems(3) by (cases "i = nat (idx_of g)") (auto simp: range)
  ultimately show ?case using IH(2) by blast
qed

text \<open>The first number from \<open>g\<close> on that is missing.\<close>

lemma first_missing:
  fixes A :: "int set"
  assumes "A \<subseteq> {..<b}" "g \<le> b"
  obtains h where "g \<le> h" "h \<le> b" "{g..<h} \<subseteq> A" "h \<notin> A"
proof -
  have "g + int (nat (b - g)) = b" using assms(2) by simp
  then have last: "g + int (nat (b - g)) \<notin> A" using assms(1) by auto
  obtain n where n: "g + int n \<notin> A" "\<And>m. m < n \<Longrightarrow> g + int m \<in> A"
    using exists_least_iff [of "\<lambda>n. g + int n \<notin> A"] last by blast
  have "n \<le> nat (b - g)" using n(2) [of "nat (b - g)"] last by force
  moreover have "s \<in> A" if "s \<in> {g..<g + int n}" for s
  proof -
    have "nat (s - g) < n" "g + int (nat (s - g)) = s" using that by auto
    with n(2) show ?thesis by metis
  qed
  ultimately show thesis using n(1) assms(2) by (intro that [of "g + int n"]) auto
qed

text \<open>
  The slots of a window that starts at the next expected number \<open>r\<close>: the slot of a number is taken
  exactly when the number was received.
\<close>

definition window_slots :: "(nat \<Rightarrow> bool) \<Rightarrow> int \<Rightarrow> int set \<Rightarrow> bool" where
  "window_slots F r rcvd \<longleftrightarrow>
     (\<forall>s. r \<le> s \<longrightarrow> s < r + DEFAULT_WINDOW_SIZE \<longrightarrow> (F (nat (idx_of s)) \<longleftrightarrow> s \<in> rcvd))"

lemma window_slotsD:
  "window_slots F r rcvd \<Longrightarrow> r \<le> s \<Longrightarrow> s < r + DEFAULT_WINDOW_SIZE \<Longrightarrow> F (nat (idx_of s)) \<longleftrightarrow> s \<in> rcvd"
  by (simp add: window_slots_def)

lemma window_slots_insert:
  assumes w: "window_slots F r rcvd" and s: "r \<le> s" "s < r + DEFAULT_WINDOW_SIZE"
    and F': "\<And>i. i < 64 \<Longrightarrow> F' i \<longleftrightarrow> i = nat (idx_of s) \<or> F i"
  shows "window_slots F' r (insert s rcvd)"
  unfolding window_slots_def
proof (intro allI impI)
  fix t assume t: "r \<le> t" "t < r + DEFAULT_WINDOW_SIZE"
  have "nat (idx_of t) = nat (idx_of s) \<longleftrightarrow> t = s"
    using idx_nat_inj [of t s] t s by auto
  with F' [of "nat (idx_of t)"] window_slotsD [OF w t] show "F' (nat (idx_of t)) \<longleftrightarrow> t \<in> insert s rcvd"
    by simp
qed

lemma window_slots_free:
  assumes "window_slots F r rcvd" "r \<notin> rcvd" "r \<le> h" "h \<le> r + DEFAULT_WINDOW_SIZE" "h \<notin> rcvd"
  shows "\<not> F (nat (idx_of h))"
proof (cases "h = r + DEFAULT_WINDOW_SIZE")
  case True
  then have "idx_of h = idx_of r" by simp
  then show ?thesis using window_slotsD [OF assms(1), of r] assms(2) by simp
next
  case False
  then show ?thesis using window_slotsD [OF assms(1), of h] assms(3-5) by simp
qed

lemma window_slots_advance:
  assumes w: "window_slots F r rcvd" and r: "r \<notin> rcvd" and bound: "rcvd \<subseteq> {..<r + DEFAULT_WINDOW_SIZE}"
    and h: "r < h" "h \<le> r + DEFAULT_WINDOW_SIZE"
    and F': "\<And>i. F' i \<longleftrightarrow> F i \<and> i \<notin> (\<lambda>s. nat (idx_of s)) ` {r + 1..<h}"
  shows "window_slots F' h (insert r rcvd)"
  unfolding window_slots_def
proof (intro allI impI)
  fix s assume s: "h \<le> s" "s < h + DEFAULT_WINDOW_SIZE"
  show "F' (nat (idx_of s)) \<longleftrightarrow> s \<in> insert r rcvd"
  proof (cases "s < r + DEFAULT_WINDOW_SIZE")
    case True
    have "nat (idx_of s) \<notin> (\<lambda>s. nat (idx_of s)) ` {r + 1..<h}"
      using s True h by (intro idx_nat_notin) auto
    with F' window_slotsD [OF w, of s] True s h show ?thesis by auto
  next
    case False
    then have notin: "s \<notin> insert r rcvd" using bound window_pos(1) by auto
    have "\<not> F' (nat (idx_of s))"
    proof (cases "s = r + DEFAULT_WINDOW_SIZE")
      case True
      then have "idx_of s = idx_of r" by simp
      with F' window_slotsD [OF w, of r] r show ?thesis by simp
    next
      case not_r: False
      have "s - DEFAULT_WINDOW_SIZE \<in> {r + 1..<h}" using s False not_r by auto
      moreover have "nat (idx_of s) = nat (idx_of (s - DEFAULT_WINDOW_SIZE))" by simp
      ultimately have "nat (idx_of s) \<in> (\<lambda>s. nat (idx_of s)) ` {r + 1..<h}" by (rule rev_image_eqI)
      with F' show ?thesis by simp
    qed
    with notin show ?thesis by simp
  qed
qed

text \<open>
  An ordered channel keeps packets in the slots, each one that is fit for its number, \<open>ok s q\<close>; an
  unordered one keeps flags.
\<close>

definition held_ok :: "(int \<Rightarrow> net_packet \<Rightarrow> bool) \<Rightarrow> int \<Rightarrow> int set \<Rightarrow> net_reliable_channel \<Rightarrow> bool" where
  "held_ok ok r rcvd ch \<longleftrightarrow>
     (if m_ordered ch
      then length (m_received_packets ch) = 64 \<and>
        window_slots (\<lambda>i. m_received_packets ch ! i \<noteq> None) r rcvd \<and>
        (\<forall>s \<in> rcvd. r \<le> s \<longrightarrow> (\<exists>q. m_received_packets ch ! nat (idx_of s) = Some q \<and> ok s q))
      else length (m_early_received ch) = 64 \<and> window_slots (\<lambda>i. m_early_received ch ! i) r rcvd)"

lemma held_ok_frame [simp]:
  "held_ok ok r rcvd (ch\<lparr>m_outgoing_acks := a\<rparr>) = held_ok ok r rcvd ch"
  "held_ok ok r rcvd (ch\<lparr>m_remote_window_start := ws\<rparr>) = held_ok ok r rcvd ch"
  "held_ok ok r rcvd (ch\<lparr>m_must_send_acks := ms\<rparr>) = held_ok ok r rcvd ch"
  by (simp_all add: held_ok_def)

text \<open>Storing a packet that is ahead of the expected one.\<close>

lemma hold_packet_ok:
  assumes held: "held_ok ok r rcvd ch" and s: "r < s" "s < r + DEFAULT_WINDOW_SIZE" "s \<notin> rcvd" and q: "ok s q"
    and bound: "rcvd \<subseteq> {..<r + DEFAULT_WINDOW_SIZE}"
  shows "\<exists>rp er acts. hold_packet (idx_of s) q ch
       = Some (ch\<lparr>m_received_packets := rp, m_early_received := er\<rparr>, acts) \<and>
     held_ok ok r (insert s rcvd) (ch\<lparr>m_received_packets := rp, m_early_received := er\<rparr>) \<and>
     deliveries acts = (if m_ordered ch then [] else [q])"
proof (cases "m_ordered ch")
  case True
  let ?rp = "(m_received_packets ch)[nat (idx_of s) := Some q]"
  let ?ch = "ch\<lparr>m_received_packets := ?rp, m_early_received := m_early_received ch\<rparr>"
  have len: "length (m_received_packets ch) = 64"
    and w: "window_slots (\<lambda>i. m_received_packets ch ! i \<noteq> None) r rcvd"
    and oks: "\<And>t. t \<in> rcvd \<Longrightarrow> r \<le> t \<Longrightarrow> \<exists>q. m_received_packets ch ! nat (idx_of t) = Some q \<and> ok t q"
    using held True by (auto simp: held_ok_def)
  have "hold_packet (idx_of s) q ch = Some (?ch, [])"
    using True len by (simp add: hold_packet_def)
  moreover have "window_slots (\<lambda>i. ?rp ! i \<noteq> None) r (insert s rcvd)"
    using w s len by (intro window_slots_insert [OF w]) (auto simp: nth_list_update)
  moreover have "\<exists>p. ?rp ! nat (idx_of t) = Some p \<and> ok t p" if "t \<in> insert s rcvd" "r \<le> t" for t
  proof (cases "t = s")
    case False
    then have "t < r + DEFAULT_WINDOW_SIZE" using that bound by auto
    then have "\<bar>s - t\<bar> < DEFAULT_WINDOW_SIZE" using that(2) s(1,2) by linarith
    then have "nat (idx_of s) \<noteq> nat (idx_of t)"
      using idx_nat_inj [of s t] False by auto
    with oks [of t] that False show ?thesis by simp
  qed (use len q in simp)
  ultimately show ?thesis using True len
    by (intro exI [of _ ?rp] exI [of _ "m_early_received ch"] exI [of _ "[]"]) (simp add: held_ok_def)
next
  case False
  let ?er = "(m_early_received ch)[nat (idx_of s) := True]"
  let ?ch = "ch\<lparr>m_received_packets := m_received_packets ch, m_early_received := ?er\<rparr>"
  have len: "length (m_early_received ch) = 64"
    and w: "window_slots (\<lambda>i. m_early_received ch ! i) r rcvd"
    using held False by (auto simp: held_ok_def)
  have "hold_packet (idx_of s) q ch = Some (?ch, [Add_reliable_packet (m_delivery_method ch) q])"
    using False len by (simp add: hold_packet_def)
  moreover have "window_slots (\<lambda>i. ?er ! i) r (insert s rcvd)"
    using w s len by (intro window_slots_insert [OF w]) (auto simp: nth_list_update)
  ultimately show ?thesis using False len
    by (intro exI [of _ "m_received_packets ch"] exI [of _ ?er]
        exI [of _ "[Add_reliable_packet (m_delivery_method ch) q]"]) (simp add: held_ok_def)
qed

text \<open>
  Accepting the expected packet: the expected number moves to the first one that is missing, and an
  ordered channel delivers a packet for every number it passes.
\<close>

lemma deliveries_map [simp]: "deliveries (List.map (\<lambda>s. Add_reliable_packet dm (f s)) xs) = List.map f xs"
  by (induction xs) simp_all

lemma accept_ordered_ok:
  assumes held: "held_ok ok r rcvd ch" and ord: "m_ordered ch" and r: "r \<notin> rcvd"
    and bound: "rcvd \<subseteq> {..<r + DEFAULT_WINDOW_SIZE}"
    and ch: "m_remote_sequence ch = seq_of r" "m_window_size ch = DEFAULT_WINDOW_SIZE" and q: "ok r q"
    and h: "r + 1 \<le> h" "h \<le> r + DEFAULT_WINDOW_SIZE" "{r + 1..<h} \<subseteq> rcvd" "h \<notin> rcvd"
  shows "\<exists>rp acts. accept_in_sequence q ch
       = Some (ch\<lparr>m_received_packets := rp, m_remote_sequence := seq_of h\<rparr>, acts) \<and>
     held_ok ok h (insert r rcvd) (ch\<lparr>m_received_packets := rp, m_remote_sequence := seq_of h\<rparr>) \<and>
     list_all2 ok [r..h - 1] (deliveries acts)"
proof -
  let ?slots = "m_received_packets ch"
  let ?f = "\<lambda>s. the (?slots ! nat (idx_of s))"
  have len: "length ?slots = 64" and w: "window_slots (\<lambda>i. ?slots ! i \<noteq> None) r rcvd"
    and oks: "\<And>t. t \<in> rcvd \<Longrightarrow> r \<le> t \<Longrightarrow> \<exists>q. ?slots ! nat (idx_of t) = Some q \<and> ok t q"
    using held ord by (auto simp: held_ok_def)
  have taken: "?slots ! nat (idx_of s) = Some (?f s) \<and> ok s (?f s)" if "r + 1 \<le> s" "s < h" for s
  proof -
    have "s \<in> rcvd" using that h(3) by auto
    with oks [of s] that show ?thesis by force
  qed
  have hfree: "?slots ! nat (idx_of h) = None"
    using window_slots_free [OF w r _ h(2,4)] h(1) by simp
  obtain slots' where d: "deliver_held DEFAULT_WINDOW_SIZE (m_delivery_method ch) ?slots (seq_of (r + 1))
       = Some (slots', seq_of h, List.map (\<lambda>s. Add_reliable_packet (m_delivery_method ch) (?f s)) [r + 1..h - 1])"
     "length slots' = 64"
     "\<And>i. slots' ! i = (if i \<in> (\<lambda>s. nat (idx_of s)) ` {r + 1..<h} then None else ?slots ! i)"
    using deliver_held_range [of "r + 1" h ?slots ?f "m_delivery_method ch"] h(1,2) len taken hfree by auto
  let ?ch = "ch\<lparr>m_received_packets := slots', m_remote_sequence := seq_of h\<rparr>"
  let ?acts = "Add_reliable_packet (m_delivery_method ch) q
    # List.map (\<lambda>s. Add_reliable_packet (m_delivery_method ch) (?f s)) [r + 1..h - 1]"
  have "accept_in_sequence q ch = Some (?ch, ?acts)"
    using ord d(1) by (simp add: accept_in_sequence_def ch)
  moreover have "window_slots (\<lambda>i. slots' ! i \<noteq> None) h (insert r rcvd)"
    using w r bound h(1,2) by (intro window_slots_advance [OF w r bound]) (simp_all add: d(3))
  moreover have "\<exists>p. slots' ! nat (idx_of s) = Some p \<and> ok s p" if s: "s \<in> insert r rcvd" "h \<le> s" for s
  proof -
    have "s \<in> rcvd" "s < r + DEFAULT_WINDOW_SIZE" using s h(1) bound by auto
    moreover have "nat (idx_of s) \<notin> (\<lambda>s. nat (idx_of s)) ` {r + 1..<h}"
      using calculation s h by (intro idx_nat_notin) auto
    ultimately show ?thesis using oks [of s] s h(1) d(3) by simp
  qed
  moreover have "list_all2 ok [r..h - 1] (deliveries ?acts)"
  proof -
    have "[r..h - 1] = r # [r + 1..h - 1]" using h(1) by (simp add: upto_rec1)
    then show ?thesis using q taken by (simp add: list_all2_map2 list_all2_same)
  qed
  ultimately show ?thesis using ord d(2)
    by (intro exI [of _ slots'] exI [of _ ?acts]) (simp add: held_ok_def)
qed

lemma accept_unordered_ok:
  assumes held: "held_ok ok r rcvd ch" and ord: "\<not> m_ordered ch" and r: "r \<notin> rcvd"
    and bound: "rcvd \<subseteq> {..<r + DEFAULT_WINDOW_SIZE}"
    and ch: "m_remote_sequence ch = seq_of r" "m_window_size ch = DEFAULT_WINDOW_SIZE"
    and h: "r + 1 \<le> h" "h \<le> r + DEFAULT_WINDOW_SIZE" "{r + 1..<h} \<subseteq> rcvd" "h \<notin> rcvd"
  shows "\<exists>er. accept_in_sequence q ch
       = Some (ch\<lparr>m_early_received := er, m_remote_sequence := seq_of h\<rparr>,
               [Add_reliable_packet (m_delivery_method ch) q]) \<and>
     held_ok ok h (insert r rcvd) (ch\<lparr>m_early_received := er, m_remote_sequence := seq_of h\<rparr>)"
proof -
  let ?early = "m_early_received ch"
  have len: "length ?early = 64" and w: "window_slots (\<lambda>i. ?early ! i) r rcvd"
    using held ord by (auto simp: held_ok_def)
  have taken: "?early ! nat (idx_of s)" if "r + 1 \<le> s" "s < h" for s
    using window_slotsD [OF w, of s] that h(2,3) by auto
  have hfree: "\<not> ?early ! nat (idx_of h)"
    using window_slots_free [OF w r _ h(2,4)] h(1) by simp
  obtain early' where d: "skip_early DEFAULT_WINDOW_SIZE ?early (seq_of (r + 1)) = Some (early', seq_of h)"
     "length early' = 64"
     "\<And>i. early' ! i \<longleftrightarrow> ?early ! i \<and> i \<notin> (\<lambda>s. nat (idx_of s)) ` {r + 1..<h}"
    using skip_early_range [of "r + 1" h ?early] h(1,2) len taken hfree by auto
  let ?ch = "ch\<lparr>m_early_received := early', m_remote_sequence := seq_of h\<rparr>"
  have "accept_in_sequence q ch = Some (?ch, [Add_reliable_packet (m_delivery_method ch) q])"
    using ord d(1) by (simp add: accept_in_sequence_def ch)
  moreover have "window_slots (\<lambda>i. early' ! i) h (insert r rcvd)"
    using w r bound h(1,2) by (intro window_slots_advance [OF w r bound]) (simp_all add: d(3))
  ultimately show ?thesis using ord d(2) by (intro exI [of _ early']) (simp add: held_ok_def)
qed

section \<open>The receiver\<close>

text \<open>
  The state of the receiving side: the next expected number is \<open>r\<close>, the window starts at \<open>g\<close>, and
  \<open>rcvd\<close> are the numbers received. None of these is kept by the code; its fields hold remainders.
\<close>

definition receiver_inv ::
  "(int \<Rightarrow> net_packet \<Rightarrow> bool) \<Rightarrow> int \<Rightarrow> int \<Rightarrow> int set \<Rightarrow> net_reliable_channel \<Rightarrow> bool" where
  "receiver_inv ok r g rcvd ch \<longleftrightarrow>
     m_window_size ch = DEFAULT_WINDOW_SIZE \<and>
     m_remote_sequence ch = seq_of r \<and> m_remote_window_start ch = seq_of g \<and>
     0 \<le> g \<and> g \<le> r \<and> {0..<r} \<subseteq> rcvd \<and> r \<notin> rcvd \<and> rcvd \<subseteq> {0..<g + DEFAULT_WINDOW_SIZE} \<and>
     ack_window g rcvd (m_outgoing_acks ch) \<and> held_ok ok r rcvd ch"

lemma receiver_invD:
  assumes "receiver_inv ok r g rcvd ch"
  shows "m_window_size ch = DEFAULT_WINDOW_SIZE"
    "m_remote_sequence ch = seq_of r" "m_remote_window_start ch = seq_of g"
    "0 \<le> g" "g \<le> r" "{0..<r} \<subseteq> rcvd" "r \<notin> rcvd" "rcvd \<subseteq> {0..<g + DEFAULT_WINDOW_SIZE}"
    "ack_window g rcvd (m_outgoing_acks ch)" "held_ok ok r rcvd ch"
    "rcvd \<subseteq> {..<r + DEFAULT_WINDOW_SIZE}" "r \<le> g + DEFAULT_WINDOW_SIZE"
proof -
  show a: "m_window_size ch = DEFAULT_WINDOW_SIZE"
    "m_remote_sequence ch = seq_of r" "m_remote_window_start ch = seq_of g"
    "0 \<le> g" "g \<le> r" "{0..<r} \<subseteq> rcvd" "r \<notin> rcvd" "rcvd \<subseteq> {0..<g + DEFAULT_WINDOW_SIZE}"
    "ack_window g rcvd (m_outgoing_acks ch)" "held_ok ok r rcvd ch"
    using assms by (simp_all add: receiver_inv_def)
  show "rcvd \<subseteq> {..<r + DEFAULT_WINDOW_SIZE}" using a(5,8) by auto
  show "r \<le> g + DEFAULT_WINDOW_SIZE"
  proof (rule ccontr)
    assume "\<not> ?thesis"
    then have "g + DEFAULT_WINDOW_SIZE \<in> {0..<r}" using a(4) by (simp add: DEFAULT_WINDOW_SIZE_def)
    then have "g + DEFAULT_WINDOW_SIZE \<in> {0..<g + DEFAULT_WINDOW_SIZE}" using a(6,8) by blast
    then show False by simp
  qed
qed

text \<open>The fields the sending side owns.\<close>

definition sender_view where
  "sender_view ch = (m_outgoing_queue ch, m_can_enqueue ch, m_local_sequence ch, m_local_window_start ch,
     m_window_size ch, m_id ch, m_pending_packets ch, m_size (m_outgoing_acks ch))"

definition add_flag :: "net_reliable_channel \<Rightarrow> net_reliable_channel" where
  "add_flag ch = ch\<lparr>m_is_added_to_peer_channel_send_queue := True, m_must_send_acks := True\<rparr>"

lemma add_to_peer_flag:
  "m_must_send_acks ch \<Longrightarrow> fst (add_to_peer_channel_send_queue ch) = add_flag ch"
  by (cases ch) (simp add: add_to_peer_channel_send_queue_def add_flag_def)

lemma add_flag_simps [simp]:
  "m_outgoing_acks (add_flag ch) = m_outgoing_acks ch" "m_ordered (add_flag ch) = m_ordered ch"
  "m_window_size (add_flag ch) = m_window_size ch" "m_remote_sequence (add_flag ch) = m_remote_sequence ch"
  "m_remote_window_start (add_flag ch) = m_remote_window_start ch"
  "m_received_packets (add_flag ch) = m_received_packets ch"
  "m_early_received (add_flag ch) = m_early_received ch" "m_must_send_acks (add_flag ch)"
  "m_delivery_method (add_flag ch) = m_delivery_method ch"
  "held_ok ok r rcvd (add_flag ch) = held_ok ok r rcvd ch" "sender_view (add_flag ch) = sender_view ch"
  by (simp_all add: add_flag_def held_ok_def sender_view_def)

lemma exI4: "P a b c d \<Longrightarrow> \<exists>a b c d. P a b c d"
  by blast

lemma slide_if_ok:
  assumes inv: "receiver_inv ok r g rcvd ch" and s: "g \<le> s" "s < r + DEFAULT_WINDOW_SIZE"
  shows "\<exists>acks g'. (if s - g \<ge> m_window_size ch then slide_window (s - g) ch else Some ch)
       = Some (ch\<lparr>m_outgoing_acks := acks, m_remote_window_start := seq_of g'\<rparr>) \<and>
     ack_window g' rcvd acks \<and> g \<le> g' \<and> (g' = g \<or> g' = s - DEFAULT_WINDOW_SIZE + 1) \<and>
     g' \<le> s \<and> s < g' + DEFAULT_WINDOW_SIZE \<and> g' \<le> r"
proof (cases "s - g \<ge> DEFAULT_WINDOW_SIZE")
  case True
  note i = receiver_invD [OF inv]
  have "s < g + 2 * DEFAULT_WINDOW_SIZE" using s i(12) by simp
  then obtain acks where "slide_window (s - g) ch =
       Some (ch\<lparr>m_outgoing_acks := acks, m_remote_window_start := seq_of (s - DEFAULT_WINDOW_SIZE + 1)\<rparr>)"
     "ack_window (s - DEFAULT_WINDOW_SIZE + 1) rcvd acks"
    using slide_window_ok [OF i(9,8,3,1), of s] True by auto
  then show ?thesis
    using True s i(1)
    by (intro exI [of _ acks] exI [of _ "s - DEFAULT_WINDOW_SIZE + 1"]) (simp add: DEFAULT_WINDOW_SIZE_def)
next
  case False
  note i = receiver_invD [OF inv]
  show ?thesis
    using False s i(1,3,5,9)
    by (intro exI [of _ "m_outgoing_acks ch"] exI [of _ g]) auto
qed

text \<open>The part of \<open>receive_in_window\<close> behind the bitmap, for a number not received before.\<close>

lemma take_packet_ok:
  assumes held: "held_ok ok r rcvd ch" and q: "ok s q"
    and r: "{0..<r} \<subseteq> rcvd" "r \<notin> rcvd" and bound: "rcvd \<subseteq> {..<r + DEFAULT_WINDOW_SIZE}"
    and s: "0 \<le> s" "s < r + DEFAULT_WINDOW_SIZE" "s \<notin> rcvd"
    and ch: "m_remote_sequence ch = seq_of r" "m_window_size ch = DEFAULT_WINDOW_SIZE"
  shows "\<exists>rp er r' acts. (if seq_of s = m_remote_sequence ch then accept_in_sequence q ch
        else hold_packet (idx_of s) q ch)
      = Some (ch\<lparr>m_received_packets := rp, m_early_received := er, m_remote_sequence := seq_of r'\<rparr>, acts) \<and>
     held_ok ok r' (insert s rcvd)
       (ch\<lparr>m_received_packets := rp, m_early_received := er, m_remote_sequence := seq_of r'\<rparr>) \<and>
     r \<le> r' \<and> {0..<r'} \<subseteq> insert s rcvd \<and> r' \<notin> insert s rcvd \<and>
     (if m_ordered ch then list_all2 ok [r..r' - 1] (deliveries acts) else deliveries acts = [q])"
proof (cases "s = r")
  case True
  obtain h where h: "r + 1 \<le> h" "h \<le> r + DEFAULT_WINDOW_SIZE" "{r + 1..<h} \<subseteq> rcvd" "h \<notin> rcvd"
    using first_missing [OF bound, of "r + 1"] by (auto simp: DEFAULT_WINDOW_SIZE_def)
  have hr: "{0..<h} \<subseteq> insert r rcvd" "h \<notin> insert r rcvd"
  proof -
    have "{0..<h} \<subseteq> {0..<r} \<union> insert r {r + 1..<h}" by auto
    then show "{0..<h} \<subseteq> insert r rcvd" using r(1) h(3) by blast
    show "h \<notin> insert r rcvd" using h(1,4) by auto
  qed
  have qr: "ok r q" using q True by simp
  show ?thesis
  proof (cases "m_ordered ch")
    case ord: True
    obtain rp acts where "accept_in_sequence q ch
         = Some (ch\<lparr>m_received_packets := rp, m_remote_sequence := seq_of h\<rparr>, acts)"
       "held_ok ok h (insert r rcvd) (ch\<lparr>m_received_packets := rp, m_remote_sequence := seq_of h\<rparr>)"
       "list_all2 ok [r..h - 1] (deliveries acts)"
      using accept_ordered_ok [OF held ord r(2) bound ch qr h] by blast
    then show ?thesis using True h(1) hr ord ch(1)
      by (intro exI [of _ rp] exI [of _ "m_early_received ch"] exI [of _ h] exI [of _ acts]) simp
  next
    case ord: False
    obtain er where "accept_in_sequence q ch
         = Some (ch\<lparr>m_early_received := er, m_remote_sequence := seq_of h\<rparr>,
             [Add_reliable_packet (m_delivery_method ch) q])"
       "held_ok ok h (insert r rcvd) (ch\<lparr>m_early_received := er, m_remote_sequence := seq_of h\<rparr>)"
      using accept_unordered_ok [OF held ord r(2) bound ch h] by blast
    then show ?thesis using True h(1) hr ord ch(1)
      by (intro exI [of _ "m_received_packets ch"] exI [of _ er] exI [of _ h]
          exI [of _ "[Add_reliable_packet (m_delivery_method ch) q]"]) simp
  qed
next
  case False
  with r(1) s have rs: "r < s" by (metis atLeastLessThan_iff linorder_neqE subsetD)
  then have "seq_of s \<noteq> m_remote_sequence ch"
    using seq_of_inj [of s r] s(2) ch(1) by (auto simp: seq_consts)
  moreover obtain rp er acts where "hold_packet (idx_of s) q ch
       = Some (ch\<lparr>m_received_packets := rp, m_early_received := er\<rparr>, acts)"
     "held_ok ok r (insert s rcvd) (ch\<lparr>m_received_packets := rp, m_early_received := er\<rparr>)"
     "deliveries acts = (if m_ordered ch then [] else [q])"
    using hold_packet_ok [OF held rs s(2,3) q bound] by blast
  moreover have "ch\<lparr>m_received_packets := rp, m_early_received := er, m_remote_sequence := seq_of r\<rparr>
      = ch\<lparr>m_received_packets := rp, m_early_received := er\<rparr>" using ch(1) by simp
  ultimately show ?thesis using r rs
    by (intro exI [of _ rp] exI [of _ er] exI [of _ r] exI [of _ acts]) auto
qed

text \<open>
  What one packet does to a receiver: a number whose bit is set is refused; any other is accepted
  once, and then the channel delivers it, now or (ordered) when its turn comes.
\<close>

lemma receive_in_window_ok:
  assumes inv: "receiver_inv ok r g rcvd ch" and q: "ok s q"
    and s: "g \<le> s" "s < r + DEFAULT_WINDOW_SIZE"
  shows "\<exists>ch' acts r' g'. receive_in_window (seq_of s) (s - g) q ch = Some (s \<notin> rcvd, ch', acts) \<and>
     receiver_inv ok r' g' (insert s rcvd) ch' \<and> r \<le> r' \<and>
     g \<le> g' \<and> (g' = g \<or> g' = s - DEFAULT_WINDOW_SIZE + 1) \<and>
     m_ordered ch' = m_ordered ch \<and> sender_view ch' = sender_view ch \<and>
     (if m_ordered ch then list_all2 ok [r..r' - 1] (deliveries acts)
      else deliveries acts = (if s \<in> rcvd then [] else [q]))"
proof -
  note i = receiver_invD [OF inv]
  obtain acks g' where slid: "(if s - g \<ge> m_window_size ch then slide_window (s - g) ch else Some ch)
       = Some (ch\<lparr>m_outgoing_acks := acks, m_remote_window_start := seq_of g'\<rparr>)"
     and w: "ack_window g' rcvd acks" and g': "g \<le> g'" "g' = g \<or> g' = s - DEFAULT_WINDOW_SIZE + 1"
     "g' \<le> s" "s < g' + DEFAULT_WINDOW_SIZE" "g' \<le> r"
    using slide_if_ok [OF inv s] by blast
  let ?ch1 = "ch\<lparr>m_outgoing_acks := acks, m_remote_window_start := seq_of g'\<rparr>"
  have idx: "0 \<le> idx_of s" "idx_of s < 64"
    using idx_of_bounds [of s] by (simp_all add: DEFAULT_WINDOW_SIZE_def)
  note wD = ack_windowD [OF w]
  have bit: "(m_data acks ! ack_byte (idx_of s) AND ack_bit (idx_of s) = 0) \<longleftrightarrow> s \<notin> rcvd"
    using ack_test [OF idx(1)] wD(7) [OF g'(3,4)] by simp
  have sub: "insert s rcvd \<subseteq> {0..<g' + DEFAULT_WINDOW_SIZE}" using i(4,8) g' s(1) by auto
  have sizes: "m_size acks = m_size (m_outgoing_acks ch)" using wD(2) ack_windowD(2) [OF i(9)] by simp
  show ?thesis
  proof (cases "s \<in> rcvd")
    case True
    let ?ch' = "add_flag (?ch1\<lparr>m_must_send_acks := True\<rparr>)"
    let ?acts = "snd (add_to_peer_channel_send_queue (?ch1\<lparr>m_must_send_acks := True\<rparr>))"
    have "receive_in_window (seq_of s) (s - g) q ch = Some (False, ?ch', ?acts)"
      using True bit idx wD(4) unfolding receive_in_window_def slid
      by (simp add: i(1) Let_def split_beta add_to_peer_flag)
    moreover have "receiver_inv ok r g' (insert s rcvd) ?ch'"
      using True i g' w sub unfolding receiver_inv_def
      by (simp add: insert_absorb)
    moreover have "list_all2 ok [r..r - 1] []" by simp
    ultimately show ?thesis
      using True g'(1,2) sizes
      by (intro exI4 [of _ ?ch' ?acts r g']) (simp add: add_flag_def sender_view_def)
  next
    case False
    let ?acks = "acks\<lparr>m_data := (m_data acks)[ack_byte (idx_of s)
        := m_data acks ! ack_byte (idx_of s) OR ack_bit (idx_of s)]\<rparr>"
    let ?ch3 = "?ch1\<lparr>m_must_send_acks := True, m_outgoing_acks := ?acks\<rparr>"
    let ?ch4 = "add_flag ?ch3"
    let ?acts = "snd (add_to_peer_channel_send_queue ?ch3)"
    have w': "ack_window g' (insert s rcvd) ?acks"
      by (rule ack_window_insert [OF w g'(3,4)])
    have ch4: "held_ok ok r rcvd ?ch4" "m_remote_sequence ?ch4 = seq_of r"
      "m_window_size ?ch4 = DEFAULT_WINDOW_SIZE" "m_ordered ?ch4 = m_ordered ch"
      using i(1,2,10) by simp_all
    obtain rp er r' acts' where t: "(if seq_of s = m_remote_sequence ?ch4 then accept_in_sequence q ?ch4
        else hold_packet (idx_of s) q ?ch4)
      = Some (?ch4\<lparr>m_received_packets := rp, m_early_received := er, m_remote_sequence := seq_of r'\<rparr>, acts')"
      "held_ok ok r' (insert s rcvd)
       (?ch4\<lparr>m_received_packets := rp, m_early_received := er, m_remote_sequence := seq_of r'\<rparr>)"
      "r \<le> r'" "{0..<r'} \<subseteq> insert s rcvd" "r' \<notin> insert s rcvd"
      "if m_ordered ?ch4 then list_all2 ok [r..r' - 1] (deliveries acts') else deliveries acts' = [q]"
      using take_packet_ok [OF ch4(1) q i(6,7,11) _ s(2) False ch4(2,3)] i(4) s(1) by auto
    let ?ch' = "?ch4\<lparr>m_received_packets := rp, m_early_received := er, m_remote_sequence := seq_of r'\<rparr>"
    have "receive_in_window (seq_of s) (s - g) q ch = Some (True, ?ch', ?acts @ acts')"
      using False bit idx wD(4) t(1) unfolding receive_in_window_def slid
      by (simp add: i(1) Let_def split_beta add_to_peer_flag cong: if_cong split del: if_split)
    moreover have "receiver_inv ok r' g' (insert s rcvd) ?ch'"
      using i(1,4) g' w' sub t(2-5) unfolding receiver_inv_def by simp
    ultimately show ?thesis
      using False g'(1,2) sizes t(3,6) ch4(4)
      by (intro exI4 [of _ ?ch' "?acts @ acts'" r' g']) (simp add: add_flag_def sender_view_def)
  qed
qed

text \<open>
  The whole of \<open>process_packet\<close> for a data packet whose number is not further behind than half the
  circle allows: it never fails, and the result says whether the packet was taken.
\<close>

lemma reliable_data_ok:
  assumes inv: "receiver_inv ok r g rcvd ch" and q: "ok s q" "property q \<noteq> ACK"
    "sequence q = Some (word_of_int (seq_of s))"
    and s: "0 \<le> s" "r - 16256 \<le> s" "s < r + DEFAULT_WINDOW_SIZE"
  shows "\<exists>ch' acts r' g'. reliable_process_packet q ch = Some (s \<notin> rcvd, ch', acts) \<and>
     receiver_inv ok r' g' (insert s rcvd) ch' \<and> r \<le> r' \<and>
     g \<le> g' \<and> (g' = g \<or> g' = s - DEFAULT_WINDOW_SIZE + 1) \<and>
     m_ordered ch' = m_ordered ch \<and> sender_view ch' = sender_view ch \<and>
     (if m_ordered ch then list_all2 ok [r..r' - 1] (deliveries acts)
      else deliveries acts = (if s \<in> rcvd then [] else [q]))"
proof -
  note i = receiver_invD [OF inv]
  have W: "DEFAULT_WINDOW_SIZE = 64" by (simp add: DEFAULT_WINDOW_SIZE_def)
  have H: "HALF_MAX_SEQUENCE = 16384" by (simp add: seq_consts)
  have rel: "relative_sequence_number (seq_of s) (seq_of g) = s - g"
    "relative_sequence_number (seq_of s) (seq_of r) = s - r"
    using s i(5,12) by (intro seqno.rel_true; simp add: W H)+
  have nums: "\<not> seq_of s \<ge> MAX_SEQUENCE" "\<not> s - r > DEFAULT_WINDOW_SIZE"
    "\<not> s - g \<ge> DEFAULT_WINDOW_SIZE * 2"
    using s(3) i(12) by (auto simp: not_le)
  show ?thesis
  proof (cases "s < g")
    case True
    then have mem: "s \<in> rcvd" using s(1) i(5,6) by (meson atLeastLessThan_iff order_less_le_trans subsetD)
    have "reliable_process_packet q ch = Some (False, ch, [])"
      using True q rel nums i(1-3) by (simp add: reliable_process_packet_def Let_def)
    with mem inv show ?thesis
      by (intro exI4 [of _ ch "[]" r g]) (simp add: insert_absorb)
  next
    case False
    have "reliable_process_packet q ch = receive_in_window (seq_of s) (s - g) q ch"
      using False q rel nums i(1-3) by (simp add: reliable_process_packet_def Let_def)
    with receive_in_window_ok [where q = q, OF inv q(1) _ s(3)] False show ?thesis by simp
  qed
qed

end
