(* ===== verification/Reliable_Sender.thy ===== *)
theory Reliable_Sender
  imports Reliable_Receiver
begin

text \<open>
  The sending side of the reliable channel, against the list of all packets the application gave to
  the channel: the invariant \<open>sender_inv\<close> relates the fields of the channel to the number of packets
  numbered so far, the start of the window and the numbers the other end has received.
\<close>

section \<open>Packets that carry a message\<close>

definition app_packet :: "net_packet \<Rightarrow> bool" where
  "app_packet p \<longleftrightarrow> wf_packet p \<and> property p = CHANNELED \<and> 4 \<le> m_size p"

text \<open>What the other end gets to see of a packet: its size, its fragment flag and the bytes behind the header.\<close>

definition content :: "net_packet \<Rightarrow> nat \<times> bool \<times> bytes" where
  "content p = (m_size p, is_fragmented p, drop 4 (take (m_size p) (m_data p)))"

definition carries :: "u8 \<Rightarrow> net_packet list \<Rightarrow> int \<Rightarrow> net_packet \<Rightarrow> bool" where
  "carries i sent s q \<longleftrightarrow> 0 \<le> s \<and> s < int (length sent) \<and> app_packet q \<and>
     sequence q = Some (word_of_int (seq_of s)) \<and> channel_id q = Some i \<and>
     content q = content (sent ! nat s)"

lemma carries_append: "carries i sent s q \<Longrightarrow> carries i (sent @ extra) s q"
  by (auto simp: carries_def nth_append nat_less_iff)

text \<open>A datagram, and the packet an endpoint reads it into.\<close>

definition datagram :: "net_packet \<Rightarrow> bytes" where
  "datagram p = take (m_size p) (m_data p)"

lemma datagram_nth: "wf_packet p \<Longrightarrow> k < m_size p \<Longrightarrow> datagram p ! k = m_data p ! k"
  by (simp add: datagram_def)

lemma datagram_length: "wf_packet p \<Longrightarrow> length (datagram p) = m_size p"
  by (simp add: datagram_def wf_packet_def)

lemma datagram_eqD:
  assumes "wf_packet p" "wf_packet q" "datagram q = datagram p"
  shows "m_size q = m_size p" "\<And>k. k < m_size p \<Longrightarrow> m_data q ! k = m_data p ! k"
    "0 < m_size p \<Longrightarrow> byte0 q = byte0 p"
proof -
  show sz: "m_size q = m_size p" using datagram_length assms by metis
  show nth: "m_data q ! k = m_data p ! k" if "k < m_size p" for k
    using datagram_nth [OF assms(1) that] datagram_nth [OF assms(2), of k] that sz assms(3) by simp
  show "byte0 q = byte0 p" if "0 < m_size p"
    using assms(1,2) nth [OF that] by (intro byte0_cong) (auto simp: wf_packet_def)
qed

lemma carries_datagram:
  assumes c: "carries i sent s p" and q: "wf_packet q" "datagram q = datagram p"
  shows "carries i sent s q"
proof -
  have p: "wf_packet p" "4 \<le> m_size p" "property p = CHANNELED" using c by (auto simp: carries_def app_packet_def)
  note eq = datagram_eqD [OF p(1) q]
  have len: "4 \<le> buffer_size q" "4 \<le> buffer_size p"
    using p q(1) eq(1) by (auto simp: wf_packet_def)
  have b0: "byte0 q = byte0 p" using eq(3) p(2) by simp
  have "sequence q = sequence p"
    using len p(2) eq(2)
    by (auto simp: sequence_def rd16_def rd_bytes_def intro!: arg_cong [where f = le_word] nth_equalityI)
  moreover have "channel_id q = channel_id p"
    using len p(2) eq(2) by (simp add: channel_id_def rd8_def)
  moreover have "content q = content p"
    using q(2) eq(1) b0 by (simp add: content_def datagram_def is_fragmented_def)
  moreover have "property q = property p" using b0 by (simp add: property_def)
  ultimately show ?thesis using c q(1) eq(1) by (simp add: carries_def app_packet_def)
qed

lemma ack_window_datagram:
  assumes w: "ack_window g rcvd p" and q: "wf_packet q" "datagram q = datagram p"
  shows "ack_window g rcvd q"
proof -
  note wD = ack_windowD [OF w]
  have p: "wf_packet p" using wD(2,3,5) by (simp add: wf_packet_def)
  note eq = datagram_eqD [OF p q]
  show ?thesis
    using wD q(1) eq by (intro ack_window_cong [OF w]) (auto simp: property_def wf_packet_def)
qed

lemma content_number: "m_data p \<noteq> [] \<Longrightarrow> v < 4 \<Longrightarrow> content (set_connection_number v p) = content p"
  using small_connection_number [of v]
  by (simp add: content_def packet_simps) (simp add: set_connection_number_def upd_byte0_def take_update_swap)

lemma carries_number:
  "carries i sent s p \<Longrightarrow> v < 4 \<Longrightarrow> carries i sent s (set_connection_number v p)"
  by (auto simp: carries_def app_packet_def wf_packet_def packet_simps content_number)

text \<open>Numbering a packet: the sequence number and the channel id fill the header.\<close>

lemma numbered_packet:
  assumes "app_packet p"
  shows "\<exists>p1 p2. set_sequence v p = Some p1 \<and> set_channel_id i p1 = Some p2 \<and> app_packet p2 \<and>
     sequence p2 = Some v \<and> channel_id p2 = Some i \<and> content p2 = content p \<and> user_data p2 = user_data p"
proof -
  have p: "m_data p \<noteq> []" "4 \<le> buffer_size p" "m_size p \<le> buffer_size p" "property p = CHANNELED" "4 \<le> m_size p"
    using assms by (auto simp: app_packet_def wf_packet_def)
  obtain b1 where b1: "wr16 (m_data p) 1 v = Some b1"
    using p(2) by (auto simp: wr16_def wr_bytes_def)
  have len1: "length b1 = buffer_size p" using wr16_length [OF b1] .
  let ?b2 = "b1[3 := i]"
  have b1_nth: "b1 ! k = m_data p ! k" if "k = 0 \<or> 3 \<le> k" "k < buffer_size p" for k
    using wr_bytes_nth [OF b1 [unfolded wr16_def] that(2)] that(1) by auto
  let ?p2 = "p\<lparr>m_data := ?b2\<rparr>"
  have b0: "byte0 ?p2 = byte0 p"
    using b1_nth [of 0] p(1) len1 by (intro byte0_cong) auto
  have "set_sequence v p = Some (p\<lparr>m_data := b1\<rparr>)" using b1 by (simp add: set_sequence_def set_data_def)
  moreover have "set_channel_id i (p\<lparr>m_data := b1\<rparr>) = Some ?p2"
    using len1 p(2) by (simp add: set_channel_id_def set_data_def wr8_def)
  moreover have "sequence ?p2 = Some v"
    using rd16_wr16_same [OF b1] rd16_1_cong [of ?b2 b1] by (simp add: sequence_def)
  moreover have "channel_id ?p2 = Some i"
    using len1 p(2) by (simp add: channel_id_def rd8_def)
  moreover have "content ?p2 = content p"
    using b0 b1_nth len1 p(2,3)
    by (auto simp: content_def is_fragmented_def intro!: nth_equalityI)
  moreover have "app_packet ?p2"
    using p b0 len1 by (auto simp: app_packet_def wf_packet_def property_def)
  ultimately show ?thesis by auto
qed

section \<open>The invariant\<close>

text \<open>
  The pending slots of the numbers from \<open>w\<close> (the start of the window) to \<open>n\<close> (the next number): a
  slot holds a packet for its number, or the number has been received.
\<close>

definition pending_ok ::
  "u8 \<Rightarrow> net_packet list \<Rightarrow> int set \<Rightarrow> int \<Rightarrow> int \<Rightarrow> pending_packet list \<Rightarrow> bool" where
  "pending_ok i sent rcvd w n pending \<longleftrightarrow> length pending = 64 \<and>
     (\<forall>s. w \<le> s \<longrightarrow> s < n \<longrightarrow>
       (case m_packet (pending ! nat (idx_of s)) of None \<Rightarrow> s \<in> rcvd | Some p \<Rightarrow> carries i sent s p))"

lemma pending_okD:
  assumes "pending_ok i sent rcvd w n pending"
  shows "length pending = 64"
    and "w \<le> s \<Longrightarrow> s < n \<Longrightarrow> m_packet (pending ! nat (idx_of s)) = None \<Longrightarrow> s \<in> rcvd"
    and "w \<le> s \<Longrightarrow> s < n \<Longrightarrow> m_packet (pending ! nat (idx_of s)) = Some p \<Longrightarrow> carries i sent s p"
  using assms by (fastforce simp: pending_ok_def)+

lemma pending_ok_mono:
  assumes "pending_ok i sent rcvd w n pending" "rcvd \<subseteq> rcvd'"
  shows "pending_ok i (sent @ extra) rcvd' w n pending"
  using assms by (fastforce simp: pending_ok_def split: option.splits intro: carries_append)

text \<open>Replacing the slot of one number.\<close>

lemma pending_ok_update:
  assumes ok: "pending_ok i sent rcvd w n pending" and s: "w \<le> s" "s < n'" and n: "n \<le> n'" "n' \<le> n + 1"
    and last: "n < n' \<Longrightarrow> s = n" and win: "n' \<le> w + DEFAULT_WINDOW_SIZE"
    and pp: "case m_packet pp of None \<Rightarrow> s \<in> rcvd | Some p \<Rightarrow> carries i sent s p"
  shows "pending_ok i sent rcvd w n' (pending[nat (idx_of s) := pp])"
  unfolding pending_ok_def
proof (intro conjI allI impI)
  have len: "length pending = 64" using ok by (simp add: pending_ok_def)
  then show "length (pending[nat (idx_of s) := pp]) = 64" by simp
  fix t assume t: "w \<le> t" "t < n'"
  show "case m_packet (pending[nat (idx_of s) := pp] ! nat (idx_of t)) of
      None \<Rightarrow> t \<in> rcvd | Some p \<Rightarrow> carries i sent t p"
  proof (cases "t = s")
    case False
    have "\<bar>s - t\<bar> < DEFAULT_WINDOW_SIZE" using s t win by linarith
    then have "nat (idx_of s) \<noteq> nat (idx_of t)" using idx_nat_inj [of s t] False by auto
    moreover have "t < n" using t False last n by (cases "n < n'") auto
    ultimately show ?thesis using ok t by (auto simp: pending_ok_def)
  qed (use pp len in \<open>auto split: option.splits\<close>)
qed

text \<open>
  The state of the sending side: \<open>sent\<close> are all packets given to the channel, \<open>n\<close> of them have a
  number, the window starts at \<open>w\<close>, and \<open>rcvd\<close> are the numbers the other end has received.
\<close>

definition sender_inv ::
  "u8 \<Rightarrow> net_packet list \<Rightarrow> int \<Rightarrow> int \<Rightarrow> int set \<Rightarrow> net_reliable_channel \<Rightarrow> bool" where
  "sender_inv i sent n w rcvd ch \<longleftrightarrow>
     m_window_size ch = DEFAULT_WINDOW_SIZE \<and> m_id ch = i \<and> m_can_enqueue ch \<and>
     m_local_sequence ch = seq_of n \<and> m_local_window_start ch = seq_of w \<and>
     0 \<le> w \<and> w \<le> n \<and> n \<le> w + DEFAULT_WINDOW_SIZE \<and> n \<le> int (length sent) \<and>
     m_outgoing_queue ch = drop (nat n) sent \<and> list_all app_packet sent \<and>
     {0..<w} \<subseteq> rcvd \<and> pending_ok i sent rcvd w n (m_pending_packets ch)"

lemma sender_invD:
  assumes "sender_inv i sent n w rcvd ch"
  shows "m_window_size ch = DEFAULT_WINDOW_SIZE" "m_id ch = i" "m_can_enqueue ch"
    "m_local_sequence ch = seq_of n" "m_local_window_start ch = seq_of w"
    "0 \<le> w" "w \<le> n" "n \<le> w + DEFAULT_WINDOW_SIZE" "n \<le> int (length sent)"
    "m_outgoing_queue ch = drop (nat n) sent" "list_all app_packet sent"
    "{0..<w} \<subseteq> rcvd" "pending_ok i sent rcvd w n (m_pending_packets ch)"
  using assms by (simp_all add: sender_inv_def)

lemma sender_inv_view: "sender_view ch' = sender_view ch \<Longrightarrow> sender_inv i sent n w rcvd ch' = sender_inv i sent n w rcvd ch"
  by (simp add: sender_view_def sender_inv_def)

lemma sender_inv_mono:
  "sender_inv i sent n w rcvd ch \<Longrightarrow> rcvd \<subseteq> rcvd' \<Longrightarrow> sender_inv i sent n w rcvd' ch"
  using pending_ok_mono [of i sent rcvd w n _ rcvd' "[]"] by (auto simp: sender_inv_def)

text \<open>The fields the receiving side owns.\<close>

definition receiver_view where
  "receiver_view ch = (m_window_size ch, m_remote_sequence ch, m_remote_window_start ch, m_ordered ch,
     m_received_packets ch, m_early_received ch, m_delivery_method ch)"

lemma receiver_inv_view:
  "receiver_view ch' = receiver_view ch \<Longrightarrow> ack_window g rcvd (m_outgoing_acks ch') = ack_window g rcvd (m_outgoing_acks ch)
   \<Longrightarrow> receiver_inv ok r g rcvd ch' = receiver_inv ok r g rcvd ch"
  by (simp add: receiver_view_def receiver_inv_def held_ok_def)

lemma held_ok_mono:
  assumes "held_ok ok r rcvd ch" and "\<And>s q. ok s q \<Longrightarrow> ok' s q"
  shows "held_ok ok' r rcvd ch"
proof (cases "m_ordered ch")
  case True
  have "\<forall>s \<in> rcvd. r \<le> s \<longrightarrow> (\<exists>q. m_received_packets ch ! nat (idx_of s) = Some q \<and> ok' s q)"
    using assms True unfolding held_ok_def by (metis (no_types, lifting))
  with assms(1) True show ?thesis by (simp add: held_ok_def)
qed (use assms(1) in \<open>simp add: held_ok_def\<close>)

lemma receiver_inv_mono:
  "receiver_inv ok r g rcvd ch \<Longrightarrow> (\<And>s q. ok s q \<Longrightarrow> ok' s q) \<Longrightarrow> receiver_inv ok' r g rcvd ch"
  unfolding receiver_inv_def using held_ok_mono [of ok r rcvd ch ok'] by blast

section \<open>The operations of the sender\<close>

text \<open>The application gives a packet to the channel.\<close>

lemma add_to_queue_ok:
  assumes "sender_inv i sent n w rcvd ch" and "app_packet p"
  shows "sender_inv i (sent @ [p]) n w rcvd (fst (add_to_queue p ch))"
    and "receiver_view (fst (add_to_queue p ch)) = receiver_view ch"
    and "m_outgoing_acks (fst (add_to_queue p ch)) = m_outgoing_acks ch"
  using assms pending_ok_mono [of i sent rcvd w n _ rcvd "[p]"]
  by (auto simp: sender_inv_def receiver_view_def add_to_queue_def add_to_peer_channel_send_queue_def q_push_def)

text \<open>Moving packets from the queue into the window.\<close>

lemma fill_pending_ok:
  assumes "pending_ok i sent rcvd w n pending" "0 \<le> w" "w \<le> n" "n \<le> w + DEFAULT_WINDOW_SIZE"
    "n \<le> int (length sent)" "q = drop (nat n) sent" "list_all app_packet sent"
  shows "\<exists>n' pending'. fill_pending DEFAULT_WINDOW_SIZE i (seq_of w) q (seq_of n) pending
       = Some (drop (nat n') sent, seq_of n', pending') \<and>
     pending_ok i sent rcvd w n' pending' \<and> n \<le> n' \<and> n' \<le> w + DEFAULT_WINDOW_SIZE \<and>
     n' \<le> int (length sent) \<and> (n' = w + DEFAULT_WINDOW_SIZE \<or> n' = int (length sent))"
  using assms
proof (induction q arbitrary: n pending)
  case Nil
  then have "n = int (length sent)" by auto
  with Nil show ?case by (intro exI [of _ n] exI [of _ pending]) simp
next
  case (Cons p q)
  have rel: "relative_sequence_number (seq_of n) (seq_of w) = n - w"
    using Cons.prems(3,4) by (intro seqno.rel_true) (simp_all add: seq_consts)
  show ?case
  proof (cases "n - w \<ge> DEFAULT_WINDOW_SIZE")
    case True
    with Cons.prems rel show ?thesis
      by (intro exI [of _ n] exI [of _ pending]) (simp add: Cons.prems(6) [symmetric])
  next
    case False
    have n: "nat n < length sent" using Cons.prems(6) by (metis drop_eq_Nil list.distinct(1) not_le)
    have p: "p = sent ! nat n" using nth_via_drop [OF Cons.prems(6) [symmetric]] by simp
    have "nat (n + 1) = Suc (nat n)" using Cons.prems(2,3) by (simp add: nat_add_distrib)
    then have q: "q = drop (nat (n + 1)) sent"
      using Cons.prems(6) by (metis drop_Suc list.sel(3) tl_drop)
    have app: "app_packet p" using Cons.prems(7) n p by (simp add: list_all_length)
    obtain p1 p2 where p12: "set_sequence (word_of_int (seq_of n)) p = Some p1" "set_channel_id i p1 = Some p2"
      "app_packet p2" "sequence p2 = Some (word_of_int (seq_of n))" "channel_id p2 = Some i" "content p2 = content p"
      using numbered_packet [OF app, of "word_of_int (seq_of n)" i] by blast
    have c: "carries i sent n p2"
      using p12 n p Cons.prems(2,3) by (simp add: carries_def)
    have len: "length pending = 64" using Cons.prems(1) by (simp add: pending_ok_def)
    let ?pending = "pending[nat (idx_of n) := init_pending p2 (pending ! nat (idx_of n))]"
    have ok: "pending_ok i sent rcvd w (n + 1) ?pending"
      using Cons.prems(1,3) False c by (intro pending_ok_update [OF Cons.prems(1)]) (simp_all add: init_pending_def)
    obtain n' pending' where IH: "fill_pending DEFAULT_WINDOW_SIZE i (seq_of w) q (seq_of (n + 1)) ?pending
       = Some (drop (nat n') sent, seq_of n', pending')"
     "pending_ok i sent rcvd w n' pending'" "n + 1 \<le> n'" "n' \<le> w + DEFAULT_WINDOW_SIZE"
     "n' \<le> int (length sent)" "n' = w + DEFAULT_WINDOW_SIZE \<or> n' = int (length sent)"
    proof -
      have "w \<le> n + 1" "n + 1 \<le> w + DEFAULT_WINDOW_SIZE" "n + 1 \<le> int (length sent)"
        using Cons.prems(2,3) False n by auto
      from Cons.IH [OF ok Cons.prems(2) this q Cons.prems(7)] that show ?thesis by blast
    qed
    have "fill_pending DEFAULT_WINDOW_SIZE i (seq_of w) (p # q) (seq_of n) pending
       = Some (drop (nat n') sent, seq_of n', pending')"
      using IH(1) rel False p12(1,2) len by simp
    with IH show ?thesis by auto
  qed
qed

text \<open>A pass over the window: every packet that goes out carries its message.\<close>

lemma try_send_ok:
  assumes "case m_packet pp of None \<Rightarrow> s \<in> rcvd | Some p \<Rightarrow> carries i sent s p" and "cn < 4"
    and "try_send now delay cn pp = (b, pp', acts)"
  shows "(case m_packet pp' of None \<Rightarrow> s \<in> rcvd | Some p \<Rightarrow> carries i sent s p) \<and>
     (\<forall>a \<in> set acts. \<exists>p. a = Send_user_data p \<and> carries i sent s p)"
  using assms carries_number [of i sent s _ cn]
  by (auto simp: try_send_def Let_def split: option.splits if_splits)

lemma send_loop_ok:
  assumes "pending_ok i sent rcvd w n pending" "w \<le> g" "g \<le> n" "n \<le> w + DEFAULT_WINDOW_SIZE" "cn < 4"
  shows "\<exists>b pending' acts. send_loop DEFAULT_WINDOW_SIZE now delay cn (seq_of n) (seq_of g) pending
       = Some (b, pending', acts) \<and> pending_ok i sent rcvd w n pending' \<and>
     (\<forall>a \<in> set acts. \<exists>p s. a = Send_user_data p \<and> w \<le> s \<and> s < n \<and> carries i sent s p)"
  using assms
proof (induction "nat (n - g)" arbitrary: g pending)
  case 0
  then show ?case
    by (intro exI [of _ False] exI [of _ pending] exI [of _ "[]"]) (simp add: send_loop.simps [of _ _ _ _ _ "seq_of g"])
next
  case (Suc k)
  have gn: "g < n" using Suc.hyps(2) by simp
  have ne: "seq_of g \<noteq> seq_of n"
    using seq_of_inj [of g n] gn Suc.prems(2,4) by (auto simp: seq_consts)
  let ?pp = "pending ! nat (idx_of g)"
  obtain b pp' acts where t: "try_send now delay cn ?pp = (b, pp', acts)" by (cases "try_send now delay cn ?pp")
  have slot: "case m_packet ?pp of None \<Rightarrow> g \<in> rcvd | Some p \<Rightarrow> carries i sent g p"
    using Suc.prems(1,2) gn by (simp add: pending_ok_def)
  note slot' = try_send_ok [OF slot Suc.prems(5) t]
  have len: "length pending = 64" using Suc.prems(1) by (simp add: pending_ok_def)
  let ?pending = "pending[nat (idx_of g) := pp']"
  have ok: "pending_ok i sent rcvd w n ?pending"
    using Suc.prems(2,4) gn slot' by (intro pending_ok_update [OF Suc.prems(1)]) auto
  obtain b' pending' acts' where IH: "send_loop DEFAULT_WINDOW_SIZE now delay cn (seq_of n) (seq_of (g + 1)) ?pending
       = Some (b', pending', acts')" "pending_ok i sent rcvd w n pending'"
     "\<forall>a \<in> set acts'. \<exists>p s. a = Send_user_data p \<and> w \<le> s \<and> s < n \<and> carries i sent s p"
  proof -
    have "k = nat (n - (g + 1))" "w \<le> g + 1" "g + 1 \<le> n" using Suc.hyps(2) Suc.prems(2) gn by simp_all
    from Suc.hyps(1) [OF this(1) ok this(2,3) Suc.prems(4,5)] that show ?thesis by blast
  qed
  have "send_loop DEFAULT_WINDOW_SIZE now delay cn (seq_of n) (seq_of g) pending = Some (b \<or> b', pending', acts @ acts')"
    using ne len IH(1) t by (subst send_loop.simps) simp
  moreover have "\<forall>a \<in> set (acts @ acts'). \<exists>p s. a = Send_user_data p \<and> w \<le> s \<and> s < n \<and> carries i sent s p"
  proof
    fix a assume "a \<in> set (acts @ acts')"
    then consider "a \<in> set acts" | "a \<in> set acts'" by auto
    then show "\<exists>p s. a = Send_user_data p \<and> w \<le> s \<and> s < n \<and> carries i sent s p"
      using slot' IH(3) Suc.prems(2) gn by cases blast+
  qed
  ultimately show ?case using IH(2) by blast
qed

lemma reliable_send_ok:
  assumes inv: "sender_inv i sent n w rcvd ch" and cn: "cn < 4"
    and acks: "ack_window g A (m_outgoing_acks ch)"
  shows "\<exists>b ch' acts n'. reliable_send_next_packets now delay cn ch = Some (b, ch', acts) \<and>
     sender_inv i sent n' w rcvd ch' \<and> n \<le> n' \<and> receiver_view ch' = receiver_view ch \<and>
     ack_window g A (m_outgoing_acks ch') \<and>
     (\<forall>a \<in> set acts. \<exists>p. a = Send_user_data p \<and>
        (ack_window g A p \<or> (\<exists>s. w \<le> s \<and> s < n' \<and> carries i sent s p)))"
proof -
  note i = sender_invD [OF inv]
  let ?acks = "set_connection_number cn (m_outgoing_acks ch)"
  let ?ch1 = "if m_must_send_acks ch then ch\<lparr>m_must_send_acks := False, m_outgoing_acks := ?acks\<rparr> else ch"
  let ?acts1 = "if m_must_send_acks ch then [Send_user_data ?acks] else []"
  have acks1: "ack_window g A ?acks" using ack_window_number [OF acks] .
  obtain n' pending where f: "fill_pending DEFAULT_WINDOW_SIZE i (seq_of w) (drop (nat n) sent) (seq_of n) (m_pending_packets ch)
       = Some (drop (nat n') sent, seq_of n', pending)" "pending_ok i sent rcvd w n' pending"
       "n \<le> n'" "n' \<le> w + DEFAULT_WINDOW_SIZE" "n' \<le> int (length sent)"
    using fill_pending_ok [OF i(13,6-9) refl i(11)] by blast
  obtain b pending' acts2 where l: "send_loop DEFAULT_WINDOW_SIZE now delay cn (seq_of n') (seq_of w) pending
       = Some (b, pending', acts2)" "pending_ok i sent rcvd w n' pending'"
     "\<forall>a \<in> set acts2. \<exists>p s. a = Send_user_data p \<and> w \<le> s \<and> s < n' \<and> carries i sent s p"
  proof -
    have "w \<le> n'" using i(7) f(3) by simp
    from send_loop_ok [OF f(2) order_refl this f(4) cn] that show ?thesis by blast
  qed
  let ?ch2 = "?ch1\<lparr>m_outgoing_queue := drop (nat n') sent, m_local_sequence := seq_of n', m_pending_packets := pending'\<rparr>"
  have "reliable_send_next_packets now delay cn ch
      = Some (b \<or> m_must_send_acks ?ch2 \<or> \<not> q_empty (drop (nat n') sent), ?ch2, ?acts1 @ acts2)"
    using f(1) l(1) i(1,2,4,5,10) by (simp add: reliable_send_next_packets_def Let_def)
  moreover have "sender_inv i sent n' w rcvd ?ch2"
    using i f(3-5) l(2) by (simp add: sender_inv_def)
  moreover have "receiver_view ?ch2 = receiver_view ch" by (simp add: receiver_view_def)
  moreover have "ack_window g A (m_outgoing_acks ?ch2)" using acks acks1 by simp
  moreover have "\<forall>a \<in> set (?acts1 @ acts2). \<exists>p. a = Send_user_data p \<and>
      (ack_window g A p \<or> (\<exists>s. w \<le> s \<and> s < n' \<and> carries i sent s p))"
    using l(3) acks1 by auto
  ultimately show ?thesis using f(3) by (intro exI4 [of _ _ ?ch2 "?acts1 @ acts2" n']) blast
qed

text \<open>An ack that describes what the other end had received is processed soundly.\<close>

lemma ack_loop_ok:
  assumes "pending_ok i sent rcvd w n pending" "w \<le> v" "v \<le> g" "g \<le> n" "n \<le> w + DEFAULT_WINDOW_SIZE"
    "ack_window a A q" "A \<subseteq> rcvd" "a \<le> w" "w - a < 16000" "{w..<v} \<subseteq> rcvd"
  shows "\<exists>v' pending' acts. ack_loop DEFAULT_WINDOW_SIZE (m_data q) (seq_of a) (seq_of n) (seq_of g) (seq_of v) pending
       = Some (seq_of v', pending', acts) \<and> pending_ok i sent rcvd w n pending' \<and>
     v \<le> v' \<and> v' \<le> n \<and> {w..<v'} \<subseteq> rcvd \<and> deliveries acts = []"
  using assms
proof (induction "nat (n - g)" arbitrary: g v pending)
  case 0
  then show ?case
    by (intro exI [of _ v] exI [of _ pending] exI [of _ "[]"]) (simp add: ack_loop.simps [of _ _ _ _ "seq_of g"])
next
  case (Suc k)
  have gn: "g < n" using Suc.hyps(2) by simp
  have ne: "seq_of g \<noteq> seq_of n"
    using seq_of_inj [of g n] gn Suc.prems(2,3,5) by (auto simp: seq_consts)
  have rel: "relative_sequence_number (seq_of g) (seq_of a) = g - a"
    using Suc.prems gn by (intro seqno.rel_true) (simp_all add: seq_consts)
  have len: "length pending = 64" using Suc.prems(1) by (simp add: pending_ok_def)
  have idx: "0 \<le> idx_of g" "idx_of g < 64" using idx_of_bounds [of g] by (simp_all add: DEFAULT_WINDOW_SIZE_def)
  note wD = ack_windowD [OF Suc.prems(6)]
  note step = ack_loop.simps [of DEFAULT_WINDOW_SIZE "m_data q" "seq_of a" "seq_of n" "seq_of g" "seq_of v" pending]
  have test: "(m_data q ! ack_byte (idx_of g) AND ack_bit (idx_of g) = 0) \<longleftrightarrow> \<not> ack_set (m_data q) (idx_of g)"
    by (rule ack_test [OF idx(1)])
  show ?case
  proof (cases "g - a \<ge> DEFAULT_WINDOW_SIZE")
    case True
    then show ?thesis using Suc.prems ne rel gn
      by (intro exI [of _ v] exI [of _ pending] exI [of _ "[]"]) (simp add: step)
  next
    case False
    have bit: "ack_set (m_data q) (idx_of g) \<longleftrightarrow> g \<in> A"
      using wD(7) [of g] False Suc.prems(2,3,8) by simp
    show ?thesis
    proof (cases "g \<in> A")
      case notin: False
      have "ack_loop DEFAULT_WINDOW_SIZE (m_data q) (seq_of a) (seq_of n) (seq_of g) (seq_of v) pending
          = ack_loop DEFAULT_WINDOW_SIZE (m_data q) (seq_of a) (seq_of n) (seq_of (g + 1)) (seq_of v) pending"
        using ne rel False notin bit test idx wD(4) by (simp add: step)
      with Suc.hyps(1) [of "g + 1" pending v] Suc.hyps(2) Suc.prems gn show ?thesis by auto
    next
      case True
      let ?v = "if g = v then v + 1 else v"
      have eqv: "(if seq_of g = seq_of v then next_seq (seq_of v) else seq_of v) = seq_of ?v"
      proof -
        have "\<bar>g - v\<bar> < MAX_SEQUENCE" using Suc.prems(2-5) gn by (simp add: seq_consts)
        then show ?thesis using seq_of_inj [of g v] by (cases "g = v") auto
      qed
      let ?pp = "pending ! nat (idx_of g)"
      obtain pp' acts where c: "clear_pending ?pp = (pp', acts)" by (cases "clear_pending ?pp")
      have c': "m_packet pp' = None" "deliveries acts = []"
        using c by (auto simp: clear_pending_def split: option.splits)
      let ?pending = "pending[nat (idx_of g) := pp']"
      have gr: "g \<in> rcvd" using True Suc.prems(7) by auto
      have ok: "pending_ok i sent rcvd w n ?pending"
        using Suc.prems(2,3,5) gn c' gr by (intro pending_ok_update [OF Suc.prems(1)]) auto
      have "{w..<?v} \<subseteq> rcvd"
      proof (cases "g = v")
        case True
        have "{w..<v + 1} = insert v {w..<v}" using Suc.prems(2) by auto
        then show ?thesis using True Suc.prems(10) gr by simp
      qed (use Suc.prems(10) in simp)
      obtain v' pending' acts' where IH:
        "ack_loop DEFAULT_WINDOW_SIZE (m_data q) (seq_of a) (seq_of n) (seq_of (g + 1)) (seq_of ?v) ?pending
          = Some (seq_of v', pending', acts')" "pending_ok i sent rcvd w n pending'"
          "?v \<le> v'" "v' \<le> n" "{w..<v'} \<subseteq> rcvd" "deliveries acts' = []"
      proof -
        have "k = nat (n - (g + 1))" "w \<le> ?v" "?v \<le> g + 1" "g + 1 \<le> n"
          using Suc.hyps(2) Suc.prems(2,3) gn by auto
        from Suc.hyps(1) [OF this(1) ok this(2-4) Suc.prems(5-9) \<open>{w..<?v} \<subseteq> rcvd\<close>] that show ?thesis by blast
      qed
      have "ack_loop DEFAULT_WINDOW_SIZE (m_data q) (seq_of a) (seq_of n) (seq_of g) (seq_of v) pending
          = Some (seq_of v', pending', acts @ acts')"
        using ne rel False True bit test idx wD(4) IH(1) c len by (simp add: step eqv Let_def)
      with IH c' show ?thesis by (auto split: if_splits)
    qed
  qed
qed

lemma process_ack_ok:
  assumes inv: "sender_inv i sent n w rcvd ch"
    and q: "ack_window a A q" "A \<subseteq> rcvd" "a \<le> w" "w - a < 16000"
  shows "\<exists>ch' acts w'. process_ack q ch = Some (ch', acts) \<and> sender_inv i sent n w' rcvd ch' \<and>
     w \<le> w' \<and> receiver_view ch' = receiver_view ch \<and> m_outgoing_acks ch' = m_outgoing_acks ch \<and>
     deliveries acts = []"
proof -
  note i = sender_invD [OF inv]
  note wD = ack_windowD [OF q(1)]
  have rel: "relative_sequence_number (seq_of w) (seq_of a) = w - a"
    using q(3,4) by (intro seqno.rel_true) (simp_all add: seq_consts)
  have num: "\<not> seq_of a \<ge> MAX_SEQUENCE" by (simp add: not_le)
  show ?thesis
  proof (cases "m_size q \<noteq> m_size (m_outgoing_acks ch) \<or> w - a \<ge> DEFAULT_WINDOW_SIZE")
    case True
    then have "process_ack q ch = Some (ch, [])"
      using rel num wD(6) i(1,5) q(3) by (auto simp: process_ack_def Let_def)
    with inv show ?thesis by (intro exI [of _ ch] exI [of _ "[]"] exI [of _ w]) simp
  next
    case False
    obtain w' pending acts where l: "ack_loop DEFAULT_WINDOW_SIZE (m_data q) (seq_of a) (seq_of n) (seq_of w) (seq_of w)
        (m_pending_packets ch) = Some (seq_of w', pending, acts)" "pending_ok i sent rcvd w n pending"
        "w \<le> w'" "w' \<le> n" "{w..<w'} \<subseteq> rcvd" "deliveries acts = []"
      using ack_loop_ok [OF i(13) order_refl order_refl i(7,8) q] by auto
    let ?ch = "ch\<lparr>m_local_window_start := seq_of w', m_pending_packets := pending\<rparr>"
    have "process_ack q ch = Some (?ch, acts)"
      using False rel num wD(6) i(1,4,5) q(3) l(1) by (simp add: process_ack_def Let_def)
    moreover have "sender_inv i sent n w' rcvd ?ch"
    proof -
      have "{0..<w'} \<subseteq> {0..<w} \<union> {w..<w'}" by auto
      then have "{0..<w'} \<subseteq> rcvd" using i(12) l(5) by blast
      moreover have "pending_ok i sent rcvd w' n pending"
        using l(2,3) by (auto simp: pending_ok_def)
      ultimately show ?thesis using i l(3,4) by (auto simp: sender_inv_def)
    qed
    moreover have "receiver_view ?ch = receiver_view ch" by (simp add: receiver_view_def)
    ultimately show ?thesis using l(3,6)
      by (intro exI [of _ ?ch] exI [of _ acts] exI [of _ w']) simp
  qed
qed

section \<open>A fresh channel\<close>

lemma new_reliable_channel_ok:
  "\<exists>ch. new_reliable_channel ord i = Some ch \<and> sender_inv i [] 0 0 {} ch \<and>
     receiver_inv ok 0 0 {} ch \<and> m_ordered ch = ord"
proof -
  let ?p = "new_packet_with ACK 9"
  have data: "m_data ?p = 2 # replicate 15 0"
    by (simp add: new_packet_with_def blank_packet_def set_property_def upd_byte0_def ensure_def grow_eval
        byte0_def numeral_eq_Suc GROWTH_FACTOR_def grow.simps)
  let ?a = "?p\<lparr>m_data := (2 # replicate 15 0)[3 := i]\<rparr>"
  have sz: "nat ((DEFAULT_WINDOW_SIZE - 1) sdiv BITS_IN_BYTE + 2) = 9"
    by (simp add: DEFAULT_WINDOW_SIZE_def BITS_IN_BYTE_def sdiv_nonneg)
  have set: "set_channel_id i ?p = Some ?a"
    by (simp add: set_channel_id_def set_data_def wr8_def data)
  have "ack_window 0 {} ?a"
    unfolding ack_window_def
  proof (intro conjI allI impI)
    show "property ?a = ACK" by (simp add: property_def byte0_def property_of_code_def numeral_eq_Suc)
    show "m_size ?a = 13" "13 \<le> buffer_size ?a" by simp_all
    show "sequence ?a = Some (word_of_int (seq_of 0))"
      by (simp add: sequence_def rd16_def rd_bytes_def numeral_eq_Suc)
    fix s
    have "\<not> ack_set ((2 # replicate 15 0)[3 := i]) (idx_of s)"
      using ack_byte_bounds [of "idx_of s"] idx_of_bounds [of s]
      by (auto simp: ack_set_def DEFAULT_WINDOW_SIZE_def nth_Cons')
    then show "ack_set (m_data ?a) (idx_of s) \<longleftrightarrow> s \<in> {}" by simp
  qed
  then show ?thesis
    unfolding new_reliable_channel_def sz set
    by (simp add: sender_inv_def receiver_inv_def held_ok_def window_slots_def pending_ok_def
        DEFAULT_WINDOW_SIZE_def)
qed

end
