(* ===== verification/Reliable_Protocol.thy ===== *)
theory Reliable_Protocol
  imports Reliable_Sender
begin

text \<open>
  Two reliable channels joined by a network that may lose, duplicate, delay and reorder datagrams.
  The ends are \<^const>\<open>True\<close> and \<^const>\<open>False\<close>; each sends and receives. Ghost fields keep every packet the
  application gave to an end, every packet an end handed to its peer, and every datagram an end has
  emitted, stamped with the numbers of packets it had numbered and delivered by then. A datagram may be
  received any number of times as long as its stamps are not more than 15800 behind the counts of the
  end that receives it, the half circle of the 15-bit sequence numbers less the windows.
\<close>

section \<open>The link\<close>

type_synonym net = "(nat \<times> nat \<times> bytes) set"

record link =
  chan :: "bool \<Rightarrow> net_reliable_channel"
  sent_at :: "bool \<Rightarrow> net_packet list"
  delivered_at :: "bool \<Rightarrow> net_packet list"
  network :: "bool \<Rightarrow> net"

definition link_init :: "bool \<Rightarrow> u8 \<Rightarrow> link \<Rightarrow> bool" where
  "link_init ord i l \<longleftrightarrow>
     (\<forall>d. new_reliable_channel ord i = Some (chan l d) \<and> sent_at l d = [] \<and> delivered_at l d = [] \<and>
          network l d = {})"

text \<open>The packets given to the channel of an end that have left its queue.\<close>

definition numbered :: "net_packet list \<Rightarrow> net_reliable_channel \<Rightarrow> nat" where
  "numbered S ch = length S - length (m_outgoing_queue ch)"

definition emitted :: "nat \<Rightarrow> nat \<Rightarrow> chan_action list \<Rightarrow> net" where
  "emitted L D acts = {(L, D, datagram p) | p. Send_user_data p \<in> set acts}"

definition DELAY_BOUND :: nat where "DELAY_BOUND = 15800"

definition fresh :: "link \<Rightarrow> bool \<Rightarrow> nat \<Rightarrow> nat \<Rightarrow> bool" where
  "fresh l e L D \<longleftrightarrow> length (delivered_at l e) \<le> L + DELAY_BOUND \<and>
     numbered (sent_at l e) (chan l e) \<le> D + DELAY_BOUND"

inductive link_step :: "link \<Rightarrow> link \<Rightarrow> bool" where
  app_send: "app_packet p \<Longrightarrow>
    link_step l (l\<lparr>chan := (chan l)(d := fst (add_to_queue p (chan l d))),
                   sent_at := (sent_at l)(d := sent_at l d @ [p])\<rparr>)"
| flush: "send_and_check_queue (reliable_send_next_packets now delay cn) (chan l d) = Some (b, ch, acts) \<Longrightarrow>
    cn < 4 \<Longrightarrow>
    link_step l (l\<lparr>chan := (chan l)(d := ch),
                   network := (network l)(d := network l d \<union>
                     emitted (numbered (sent_at l d) ch) (length (delivered_at l d)) acts)\<rparr>)"
| receive: "(L, D, bs) \<in> network l d \<Longrightarrow> fresh l (\<not> d) L D \<Longrightarrow> wf_packet q \<Longrightarrow> datagram q = bs \<Longrightarrow>
    reliable_process_packet q (chan l (\<not> d)) = Some (b, ch, acts) \<Longrightarrow>
    link_step l (l\<lparr>chan := (chan l)(\<not> d := ch),
                   delivered_at := (delivered_at l)(\<not> d := delivered_at l (\<not> d) @ deliveries acts)\<rparr>)"

section \<open>The invariant of one direction\<close>

text \<open>The numbers delivered: in order, or each at most once.\<close>

definition order_ok :: "bool \<Rightarrow> int \<Rightarrow> int set \<Rightarrow> int list \<Rightarrow> bool" where
  "order_ok ord r rcvd ns \<longleftrightarrow> (if ord then ns = [0..r - 1] else distinct ns \<and> set ns = rcvd)"

definition data_net :: "u8 \<Rightarrow> net_packet list \<Rightarrow> int \<Rightarrow> net \<Rightarrow> bool" where
  "data_net i S n N \<longleftrightarrow>
     (\<forall>L D q. (L, D, datagram q) \<in> N \<longrightarrow> wf_packet q \<longrightarrow> property q \<noteq> ACK \<longrightarrow>
        int L \<le> n \<and> (\<exists>s. int L - DEFAULT_WINDOW_SIZE \<le> s \<and> s < int L \<and> carries i S s q))"

definition ack_net :: "int \<Rightarrow> int set \<Rightarrow> net \<Rightarrow> bool" where
  "ack_net g rcvd N \<longleftrightarrow>
     (\<forall>L D q. (L, D, datagram q) \<in> N \<longrightarrow> wf_packet q \<longrightarrow> property q = ACK \<longrightarrow>
        (\<exists>a A. ack_window a A q \<and> A \<subseteq> rcvd \<and> a \<le> g \<and> int D \<le> a + DEFAULT_WINDOW_SIZE))"

lemma data_netD:
  "data_net i S n N \<Longrightarrow> (L, D, datagram q) \<in> N \<Longrightarrow> wf_packet q \<Longrightarrow> property q \<noteq> ACK \<Longrightarrow>
   int L \<le> n \<and> (\<exists>s. int L - DEFAULT_WINDOW_SIZE \<le> s \<and> s < int L \<and> carries i S s q)"
  by (simp add: data_net_def)

lemma ack_netD:
  "ack_net g rcvd N \<Longrightarrow> (L, D, datagram q) \<in> N \<Longrightarrow> wf_packet q \<Longrightarrow> property q = ACK \<Longrightarrow>
   \<exists>a A. ack_window a A q \<and> A \<subseteq> rcvd \<and> a \<le> g \<and> int D \<le> a + DEFAULT_WINDOW_SIZE"
  by (simp add: ack_net_def)

text \<open>
  \<open>cs\<close> sends the packets \<open>S\<close>, \<open>cr\<close> receives and has delivered \<open>del\<close>; \<open>N\<close> are the datagrams of the
  sender's end and \<open>N'\<close> those of the receiver's.
\<close>

definition dir_ok where
  "dir_ok i ord n w r g rcvd ns S cs cr del N N' \<longleftrightarrow>
     sender_inv i S n w rcvd cs \<and> receiver_inv (carries i S) r g rcvd cr \<and> m_ordered cr = ord \<and>
     g \<le> w \<and> rcvd \<subseteq> {0..<n} \<and>
     list_all2 (carries i S) ns del \<and> order_ok ord r rcvd ns \<and>
     data_net i S n N \<and> ack_net g rcvd N'"

lemma dir_okD:
  assumes "dir_ok i ord n w r g rcvd ns S cs cr del N N'"
  shows "sender_inv i S n w rcvd cs" "receiver_inv (carries i S) r g rcvd cr" "m_ordered cr = ord"
    "g \<le> w" "rcvd \<subseteq> {0..<n}" "list_all2 (carries i S) ns del" "order_ok ord r rcvd ns"
    "data_net i S n N" "ack_net g rcvd N'"
  using assms by (simp_all add: dir_ok_def)

lemma delivered_count:
  assumes ok: "dir_ok i ord n w r g rcvd ns S cs cr del N N'"
  shows "r \<le> int (length del)" "int (length del) \<le> g + DEFAULT_WINDOW_SIZE" "w \<le> r"
    "numbered S cs = nat n" "0 \<le> n"
proof -
  note d = dir_okD [OF ok]
  note i = receiver_invD [OF d(2)]
  note j = sender_invD [OF d(1)]
  have len: "length del = length ns" using d(6) by (simp add: list_all2_lengthD)
  have fin: "finite rcvd" using i(8) finite_subset by blast
  have "r \<le> int (card rcvd)"
    using card_mono [OF fin i(6)] i(4,5) by simp
  moreover have "int (card rcvd) \<le> g + DEFAULT_WINDOW_SIZE"
    using card_mono [OF _ i(8)] i(4) by (simp add: DEFAULT_WINDOW_SIZE_def)
  ultimately show "r \<le> int (length del)" "int (length del) \<le> g + DEFAULT_WINDOW_SIZE"
    using d(7) len i(4,5,12) distinct_card [of ns] by (auto simp: order_ok_def split: if_splits)
  show "0 \<le> n" using j(6,7) by simp
  show "numbered S cs = nat n" using j(9,10) by (simp add: numbered_def)
  show "w \<le> r"
  proof (rule ccontr)
    assume "\<not> w \<le> r"
    then have "r \<in> {0..<w}" using i(4,5) by simp
    with j(12) i(7) show False by blast
  qed
qed

section \<open>The steps keep the invariant\<close>

lemma data_net_mono: "data_net i S n N \<Longrightarrow> n \<le> n' \<Longrightarrow> data_net i (S @ extra) n' N"
  unfolding data_net_def by (meson carries_append order_trans)

lemma ack_net_mono: "ack_net g rcvd N \<Longrightarrow> g \<le> g' \<Longrightarrow> rcvd \<subseteq> rcvd' \<Longrightarrow> ack_net g' rcvd' N"
  unfolding ack_net_def by (meson order_trans subset_trans)

lemma dir_app_send:
  assumes "dir_ok i ord n w r g rcvd ns S cs cr del N N'" and "app_packet p"
  shows "dir_ok i ord n w r g rcvd ns (S @ [p]) (fst (add_to_queue p cs)) cr del N N'"
proof -
  note d = dir_okD [OF assms(1)]
  have "list_all2 (carries i (S @ [p])) ns del"
    using d(6) by (rule list_all2_mono) (rule carries_append)
  then show ?thesis
    using d add_to_queue_ok(1) [OF d(1) assms(2)] receiver_inv_mono [OF d(2) carries_append]
      data_net_mono [OF d(8), of n "[p]"]
    by (simp add: dir_ok_def)
qed

lemma dir_receiver_frame:
  assumes "dir_ok i ord n w r g rcvd ns S cs cr del N N'"
    and "receiver_view cr' = receiver_view cr"
    and "ack_window g rcvd (m_outgoing_acks cr) \<Longrightarrow> ack_window g rcvd (m_outgoing_acks cr')"
  shows "dir_ok i ord n w r g rcvd ns S cs cr' del N N'"
proof -
  note d = dir_okD [OF assms(1)]
  have "receiver_inv (carries i S) r g rcvd cr'"
    using d(2) assms(2) assms(3) [OF receiver_invD(9) [OF d(2)]] receiver_invD(9) [OF d(2)]
      receiver_inv_view [OF assms(2)] by blast
  then show ?thesis using d assms(2) by (simp add: dir_ok_def receiver_view_def)
qed

lemma dir_sender_frame:
  "dir_ok i ord n w r g rcvd ns S cs cr del N N' \<Longrightarrow> sender_view cs' = sender_view cs \<Longrightarrow>
   dir_ok i ord n w r g rcvd ns S cs' cr del N N'"
  unfolding dir_ok_def using sender_inv_view [of cs' cs i S n w rcvd] by simp

text \<open>What an end emits: acks of what it received, and packets that carry its messages.\<close>

definition emits :: "u8 \<Rightarrow> net_packet list \<Rightarrow> int \<Rightarrow> int \<Rightarrow> int \<Rightarrow> int set \<Rightarrow> chan_action list \<Rightarrow> bool" where
  "emits i S w n g A acts \<longleftrightarrow> (\<forall>a \<in> set acts. \<exists>p. a = Send_user_data p \<and>
     (ack_window g A p \<or> (\<exists>s. w \<le> s \<and> s < n \<and> carries i S s p)))"

lemma emits_data_net:
  assumes "data_net i S n N" "emits i S w n' g A acts" "n \<le> n'" "n' \<le> w + DEFAULT_WINDOW_SIZE" "0 \<le> w" "w \<le> n'"
  shows "data_net i S n' (N \<union> emitted (nat n') D acts)"
proof -
  have "\<exists>s. n' - DEFAULT_WINDOW_SIZE \<le> s \<and> s < n' \<and> carries i S s q"
    if p: "Send_user_data p \<in> set acts" and q: "wf_packet q" "datagram q = datagram p" "property q \<noteq> ACK" for p q
  proof -
    from assms(2) p consider "ack_window g A p" | s where "w \<le> s" "s < n'" "carries i S s p"
      unfolding emits_def by blast
    then show ?thesis
    proof cases
      case 1
      from ack_windowD(1) [OF ack_window_datagram [OF this q(1,2)]] q(3) show ?thesis by simp
    next
      case 2
      from carries_datagram [OF 2(3) q(1,2)] 2(1,2) assms(4) show ?thesis by (intro exI [of _ s]) simp
    qed
  qed
  moreover have "data_net i S n' N" using data_net_mono [OF assms(1,3), of "[]"] by simp
  ultimately show ?thesis using assms(5,6) unfolding data_net_def emitted_def by auto
qed

lemma emits_ack_net:
  assumes "ack_net g rcvd N" "emits i S w n g rcvd acts" "int D \<le> g + DEFAULT_WINDOW_SIZE"
  shows "ack_net g rcvd (N \<union> emitted L D acts)"
proof -
  have "ack_window g rcvd q"
    if p: "Send_user_data p \<in> set acts" and q: "wf_packet q" "datagram q = datagram p" "property q = ACK" for p q
  proof -
    from assms(2) p consider "ack_window g rcvd p" | s where "carries i S s p"
      unfolding emits_def by blast
    then show ?thesis
    proof cases
      case 2
      from carries_datagram [OF this q(1,2)] q(3) show ?thesis by (simp add: carries_def app_packet_def)
    qed (rule ack_window_datagram [OF _ q(1,2)])
  qed
  with assms(1,3) show ?thesis unfolding ack_net_def emitted_def by blast
qed

text \<open>\<open>send_and_check_queue\<close> changes the flag of the send queue only.\<close>

lemma flush_ok:
  assumes inv: "sender_inv i S n w rcvd ch" and cn: "cn < 4" and acks: "ack_window g A (m_outgoing_acks ch)"
  shows "\<exists>b ch' acts n'. send_and_check_queue (reliable_send_next_packets now delay cn) ch = Some (b, ch', acts) \<and>
     sender_inv i S n' w rcvd ch' \<and> n \<le> n' \<and> receiver_view ch' = receiver_view ch \<and>
     ack_window g A (m_outgoing_acks ch') \<and> emits i S w n' g A acts"
proof -
  obtain b ch' acts n' where s: "reliable_send_next_packets now delay cn ch = Some (b, ch', acts)"
     "sender_inv i S n' w rcvd ch'" "n \<le> n'" "receiver_view ch' = receiver_view ch"
     "ack_window g A (m_outgoing_acks ch')" "emits i S w n' g A acts"
    using reliable_send_ok [OF inv cn acks, of now delay] unfolding emits_def by blast
  let ?ch = "if \<not> b then ch'\<lparr>m_is_added_to_peer_channel_send_queue := False\<rparr> else ch'"
  have "send_and_check_queue (reliable_send_next_packets now delay cn) ch = Some (b, ?ch, acts)"
    using s(1) by (simp add: send_and_check_queue_def)
  moreover have "sender_view ?ch = sender_view ch'" by (simp add: sender_view_def)
  moreover have "receiver_view ?ch = receiver_view ch" using s(4) by (simp add: receiver_view_def)
  ultimately show ?thesis
    using s sender_inv_view [of ?ch ch'] by (intro exI4 [of _ b ?ch acts n']) (simp split del: if_split, simp)
qed

lemma dir_flush_sender:
  assumes ok: "dir_ok i ord n w r g rcvd ns S cs cr del N N'"
    and f: "sender_inv i S n' w rcvd cs'" "n \<le> n'" "emits i S w n' ga A acts"
  shows "dir_ok i ord n' w r g rcvd ns S cs' cr del (N \<union> emitted (numbered S cs') D acts) N'"
proof -
  note d = dir_okD [OF ok]
  note j = sender_invD [OF f(1)]
  have "numbered S cs' = nat n'" using j(9,10) by (simp add: numbered_def)
  moreover have "rcvd \<subseteq> {0..<n'}" using d(5) f(2) by fastforce
  ultimately show ?thesis
    using d f(1) emits_data_net [OF d(8) f(3,2) j(8,6,7)] by (simp add: dir_ok_def)
qed

lemma dir_flush_receiver:
  assumes ok: "dir_ok i ord n w r g rcvd ns S cs cr del N N'"
    and f: "receiver_view cr' = receiver_view cr" "ack_window g rcvd (m_outgoing_acks cr')"
      "emits i S' w' n' g rcvd acts"
  shows "dir_ok i ord n w r g rcvd ns S cs cr' del N (N' \<union> emitted L (length del) acts)"
proof -
  have "dir_ok i ord n w r g rcvd ns S cs cr' del N N'"
    using dir_receiver_frame [OF ok f(1)] f(2) by simp
  with emits_ack_net [OF dir_okD(9) [OF this] f(3) delivered_count(2) [OF this]] show ?thesis
    by (simp add: dir_ok_def)
qed

lemma dir_receive_data:
  assumes ok: "dir_ok i ord n w r g rcvd ns S cs cr del N N'"
    and q: "(L, D, datagram q) \<in> N" "wf_packet q" "property q \<noteq> ACK" "length del \<le> L + DELAY_BOUND"
  shows "\<exists>b cr' acts r' g' rcvd' ns'. reliable_process_packet q cr = Some (b, cr', acts) \<and>
     dir_ok i ord n w r' g' rcvd' ns' S cs cr' (del @ deliveries acts) N N' \<and>
     sender_view cr' = sender_view cr"
proof -
  note d = dir_okD [OF ok]
  note i = receiver_invD [OF d(2)]
  note j = sender_invD [OF d(1)]
  note cnt = delivered_count [OF ok]
  obtain s where s: "int L - DEFAULT_WINDOW_SIZE \<le> s" "s < int L" "carries i S s q" "int L \<le> n"
    using data_netD [OF d(8) q(1-3)] by blast
  have c: "0 \<le> s" "sequence q = Some (word_of_int (seq_of s))" using s(3) by (auto simp: carries_def)
  have W: "DEFAULT_WINDOW_SIZE = 64" by (simp add: DEFAULT_WINDOW_SIZE_def)
  have "r - 16256 \<le> s" using q(4) cnt(1) s(1) W unfolding DELAY_BOUND_def by linarith
  moreover have sr: "s < r + DEFAULT_WINDOW_SIZE" using s(2,4) j(8) cnt(3) by linarith
  ultimately obtain cr' acts r' g' where p: "reliable_process_packet q cr = Some (s \<notin> rcvd, cr', acts)"
     "receiver_inv (carries i S) r' g' (insert s rcvd) cr'" "r \<le> r'" "g \<le> g'"
     "g' = g \<or> g' = s - DEFAULT_WINDOW_SIZE + 1" "m_ordered cr' = m_ordered cr" "sender_view cr' = sender_view cr"
     "if m_ordered cr then list_all2 (carries i S) [r..r' - 1] (deliveries acts)
      else deliveries acts = (if s \<in> rcvd then [] else [q])"
    using reliable_data_ok [where ok = "carries i S" and q = q, OF d(2) s(3) q(3) c(2) c(1)] by blast
  let ?ns = "if ord then [0..r' - 1] else if s \<in> rcvd then ns else ns @ [s]"
  have "list_all2 (carries i S) ?ns (del @ deliveries acts)"
  proof (cases ord)
    case True
    then have "[0..r' - 1] = ns @ [r..r' - 1]"
      using d(7) p(3) i(4,5) upto_split1 [of 0 r "r' - 1"]
      by (cases "r = r'") (simp_all add: order_ok_def)
    with True p(8) d(3,6) show ?thesis by (simp add: list_all2_appendI)
  next
    case False
    with p(8) d(3,6) s(3) show ?thesis by (simp add: list_all2_appendI)
  qed
  moreover have "order_ok ord r' (insert s rcvd) ?ns"
    using d(7) by (auto simp: order_ok_def)
  moreover have "g' \<le> w" using p(5) d(4) s(2,4) j(8) by auto
  moreover have "insert s rcvd \<subseteq> {0..<n}" using d(5) c(1) s(2,4) by auto
  moreover have "sender_inv i S n w (insert s rcvd) cs" using d(1) by (rule sender_inv_mono) auto
  moreover have "ack_net g' (insert s rcvd) N'" using d(9) p(4) by (rule ack_net_mono) auto
  ultimately have "dir_ok i ord n w r' g' (insert s rcvd) ?ns S cs cr' (del @ deliveries acts) N N'"
    using d(3,8) p(2,6) by (simp add: dir_ok_def)
  with p(1,7) show ?thesis by blast
qed

lemma dir_receive_ack:
  assumes ok: "dir_ok i ord n w r g rcvd ns S cs cr del N N'"
    and q: "(L, D, datagram q) \<in> N'" "wf_packet q" "property q = ACK" "numbered S cs \<le> D + DELAY_BOUND"
  shows "\<exists>cs' acts w'. reliable_process_packet q cs = Some (False, cs', acts) \<and>
     dir_ok i ord n w' r g rcvd ns S cs' cr del N N' \<and>
     receiver_view cs' = receiver_view cs \<and> m_outgoing_acks cs' = m_outgoing_acks cs \<and> deliveries acts = []"
proof -
  note d = dir_okD [OF ok]
  note cnt = delivered_count [OF ok]
  obtain a A where a: "ack_window a A q" "A \<subseteq> rcvd" "a \<le> g" "int D \<le> a + DEFAULT_WINDOW_SIZE"
    using ack_netD [OF d(9) q(1-3)] by blast
  have "w - a < 16000"
    using a(4) q(4) cnt(4,5) sender_invD(7) [OF d(1)]
    by (simp add: DEFAULT_WINDOW_SIZE_def DELAY_BOUND_def)
  moreover have "a \<le> w" using a(3) d(4) by simp
  ultimately obtain cs' acts w' where p: "process_ack q cs = Some (cs', acts)"
    "sender_inv i S n w' rcvd cs'" "w \<le> w'" "receiver_view cs' = receiver_view cs"
    "m_outgoing_acks cs' = m_outgoing_acks cs" "deliveries acts = []"
    using process_ack_ok [OF d(1) a(1,2)] by blast
  have "reliable_process_packet q cs = Some (False, cs', acts)"
    using q(3) p(1) by (simp add: reliable_process_packet_def)
  moreover have "dir_ok i ord n w' r g rcvd ns S cs' cr del N N'"
    using d p(2,3) by (simp add: dir_ok_def)
  ultimately show ?thesis using p(4-6) by blast
qed

section \<open>The invariant of the link\<close>

definition link_dir_ok :: "bool \<Rightarrow> u8 \<Rightarrow> link \<Rightarrow> bool \<Rightarrow> bool" where
  "link_dir_ok ord i l d \<longleftrightarrow> (\<exists>n w r g rcvd ns.
     dir_ok i ord n w r g rcvd ns (sent_at l d) (chan l d) (chan l (\<not> d)) (delivered_at l (\<not> d))
       (network l d) (network l (\<not> d)))"

definition link_inv :: "bool \<Rightarrow> u8 \<Rightarrow> link \<Rightarrow> bool" where
  "link_inv ord i l \<longleftrightarrow> (\<forall>d. link_dir_ok ord i l d)"

lemma link_inv_both:
  "link_inv ord i l \<longleftrightarrow> link_dir_ok ord i l d \<and> link_dir_ok ord i l (\<not> d)"
  by (cases d) (auto simp: link_inv_def all_bool_eq)

lemma link_inv_init:
  assumes "link_init ord i l"
  shows "link_inv ord i l"
  unfolding link_inv_def
proof
  fix d
  have l: "new_reliable_channel ord i = Some (chan l e)" "sent_at l e = []" "delivered_at l e = []" "network l e = {}" for e
    using assms by (simp_all add: link_init_def)
  obtain ch where ch: "new_reliable_channel ord i = Some ch" "sender_inv i [] 0 0 {} ch"
     "receiver_inv (carries i []) 0 0 {} ch" "m_ordered ch = ord"
    using new_reliable_channel_ok [of ord i "carries i []"] by blast
  have "chan l e = ch" for e using l(1) [of e] ch(1) by simp
  then have "dir_ok i ord 0 0 0 0 {} [] (sent_at l d) (chan l d) (chan l (\<not> d)) (delivered_at l (\<not> d))
       (network l d) (network l (\<not> d))"
    using l ch by (simp add: dir_ok_def order_ok_def data_net_def ack_net_def)
  then show "link_dir_ok ord i l d" unfolding link_dir_ok_def by blast
qed

lemma link_dirE:
  assumes "link_inv ord i l"
  obtains n w r g rcvd ns where "dir_ok i ord n w r g rcvd ns (sent_at l d) (chan l d) (chan l (\<not> d))
    (delivered_at l (\<not> d)) (network l d) (network l (\<not> d))"
  using assms unfolding link_inv_def link_dir_ok_def by blast

lemma link_dirE':
  assumes "link_inv ord i l"
  obtains n w r g rcvd ns where "dir_ok i ord n w r g rcvd ns (sent_at l (\<not> d)) (chan l (\<not> d)) (chan l d)
    (delivered_at l d) (network l (\<not> d)) (network l d)"
proof -
  have "link_dir_ok ord i l (\<not> d)" using assms by (simp add: link_inv_def)
  then show thesis unfolding link_dir_ok_def not_not using that by blast
qed

lemma link_app_send:
  assumes inv: "link_inv ord i l" and p: "app_packet p"
  shows "link_inv ord i (l\<lparr>chan := (chan l)(d := fst (add_to_queue p (chan l d))),
                        sent_at := (sent_at l)(d := sent_at l d @ [p])\<rparr>)" (is "link_inv _ _ ?l")
proof -
  obtain n w r g rcvd ns where 1: "dir_ok i ord n w r g rcvd ns (sent_at l d) (chan l d) (chan l (\<not> d))
    (delivered_at l (\<not> d)) (network l d) (network l (\<not> d))" using link_dirE [OF inv] .
  obtain n' w' r' g' rcvd' ns' where 2: "dir_ok i ord n' w' r' g' rcvd' ns' (sent_at l (\<not> d)) (chan l (\<not> d)) (chan l d)
    (delivered_at l d) (network l (\<not> d)) (network l d)" using link_dirE' [OF inv] .
  have "link_dir_ok ord i ?l d"
    using dir_app_send [OF 1 p] unfolding link_dir_ok_def by (simp, blast)
  moreover have "link_dir_ok ord i ?l (\<not> d)"
    using dir_receiver_frame [OF 2 add_to_queue_ok(2) [OF dir_okD(1) [OF 1] p]]
      add_to_queue_ok(3) [OF dir_okD(1) [OF 1] p]
    unfolding link_dir_ok_def by (simp, blast)
  ultimately show ?thesis using link_inv_both [of ord i ?l d] by simp
qed

lemma link_flush:
  assumes inv: "link_inv ord i l" and cn: "cn < 4"
  shows "\<exists>b ch acts. send_and_check_queue (reliable_send_next_packets now delay cn) (chan l d) = Some (b, ch, acts) \<and>
     link_inv ord i (l\<lparr>chan := (chan l)(d := ch), network := (network l)(d := network l d \<union>
       emitted (numbered (sent_at l d) ch) (length (delivered_at l d)) acts)\<rparr>)"
proof -
  obtain n w r g rcvd ns where 1: "dir_ok i ord n w r g rcvd ns (sent_at l d) (chan l d) (chan l (\<not> d))
    (delivered_at l (\<not> d)) (network l d) (network l (\<not> d))" using link_dirE [OF inv] .
  obtain n' w' r' g' rcvd' ns' where 2: "dir_ok i ord n' w' r' g' rcvd' ns' (sent_at l (\<not> d)) (chan l (\<not> d)) (chan l d)
    (delivered_at l d) (network l (\<not> d)) (network l d)" using link_dirE' [OF inv] .
  obtain b ch acts m where f: "send_and_check_queue (reliable_send_next_packets now delay cn) (chan l d) = Some (b, ch, acts)"
     "sender_inv i (sent_at l d) m w rcvd ch" "n \<le> m" "receiver_view ch = receiver_view (chan l d)"
     "ack_window g' rcvd' (m_outgoing_acks ch)" "emits i (sent_at l d) w m g' rcvd' acts"
    using flush_ok [OF dir_okD(1) [OF 1] cn receiver_invD(9) [OF dir_okD(2) [OF 2]]] by blast
  let ?l = "l\<lparr>chan := (chan l)(d := ch), network := (network l)(d := network l d \<union>
       emitted (numbered (sent_at l d) ch) (length (delivered_at l d)) acts)\<rparr>"
  have "link_dir_ok ord i ?l d"
    using dir_flush_sender [OF 1 f(2,3,6), of "length (delivered_at l d)"]
    unfolding link_dir_ok_def by (simp, blast)
  moreover have "link_dir_ok ord i ?l (\<not> d)"
    using dir_flush_receiver [OF 2 f(4,5,6), of "numbered (sent_at l d) ch"] unfolding link_dir_ok_def by (simp, blast)
  ultimately show ?thesis using f(1) link_inv_both [of ord i ?l d] by blast
qed

lemma link_receive:
  assumes inv: "link_inv ord i l" and q: "(L, D, datagram q) \<in> network l d" "fresh l (\<not> d) L D" "wf_packet q"
  shows "\<exists>b ch acts. reliable_process_packet q (chan l (\<not> d)) = Some (b, ch, acts) \<and>
     link_inv ord i (l\<lparr>chan := (chan l)(\<not> d := ch),
       delivered_at := (delivered_at l)(\<not> d := delivered_at l (\<not> d) @ deliveries acts)\<rparr>)"
proof -
  obtain n w r g rcvd ns where 1: "dir_ok i ord n w r g rcvd ns (sent_at l d) (chan l d) (chan l (\<not> d))
    (delivered_at l (\<not> d)) (network l d) (network l (\<not> d))" using link_dirE [OF inv] .
  obtain n' w' r' g' rcvd' ns' where 2: "dir_ok i ord n' w' r' g' rcvd' ns' (sent_at l (\<not> d)) (chan l (\<not> d)) (chan l d)
    (delivered_at l d) (network l (\<not> d)) (network l d)" using link_dirE' [OF inv] .
  have fresh: "length (delivered_at l (\<not> d)) \<le> L + DELAY_BOUND"
    "numbered (sent_at l (\<not> d)) (chan l (\<not> d)) \<le> D + DELAY_BOUND"
    using q(2) by (simp_all add: fresh_def)
  show ?thesis
  proof (cases "property q = ACK")
    case True
    obtain ch acts v where a: "reliable_process_packet q (chan l (\<not> d)) = Some (False, ch, acts)"
       "dir_ok i ord n' v r' g' rcvd' ns' (sent_at l (\<not> d)) ch (chan l d) (delivered_at l d) (network l (\<not> d)) (network l d)"
       "receiver_view ch = receiver_view (chan l (\<not> d))" "m_outgoing_acks ch = m_outgoing_acks (chan l (\<not> d))"
       "deliveries acts = []"
      using dir_receive_ack [OF 2 q(1,3) True fresh(2)] by blast
    let ?l = "l\<lparr>chan := (chan l)(\<not> d := ch),
       delivered_at := (delivered_at l)(\<not> d := delivered_at l (\<not> d) @ deliveries acts)\<rparr>"
    have "link_dir_ok ord i ?l d"
      using dir_receiver_frame [OF 1 a(3)] a(4,5) unfolding link_dir_ok_def by (simp, blast)
    moreover have "link_dir_ok ord i ?l (\<not> d)"
      using a(2) unfolding link_dir_ok_def by (simp, blast)
    ultimately show ?thesis using a(1) link_inv_both [of ord i ?l d] by blast
  next
    case False
    obtain b ch acts r1 g1 rcvd1 ns1 where a: "reliable_process_packet q (chan l (\<not> d)) = Some (b, ch, acts)"
       "dir_ok i ord n w r1 g1 rcvd1 ns1 (sent_at l d) (chan l d) ch (delivered_at l (\<not> d) @ deliveries acts)
          (network l d) (network l (\<not> d))" "sender_view ch = sender_view (chan l (\<not> d))"
      using dir_receive_data [OF 1 q(1,3) False fresh(1)] by blast
    let ?l = "l\<lparr>chan := (chan l)(\<not> d := ch),
       delivered_at := (delivered_at l)(\<not> d := delivered_at l (\<not> d) @ deliveries acts)\<rparr>"
    have "link_dir_ok ord i ?l d"
      using a(2) unfolding link_dir_ok_def by (simp, blast)
    moreover have "link_dir_ok ord i ?l (\<not> d)"
      using dir_sender_frame [OF 2 a(3)] unfolding link_dir_ok_def by (simp, blast)
    ultimately show ?thesis using a(1) link_inv_both [of ord i ?l d] by blast
  qed
qed

lemma link_inv_step: "link_step l l' \<Longrightarrow> link_inv ord i l \<Longrightarrow> link_inv ord i l'"
proof (induction rule: link_step.induct)
  case (flush now delay cn l d b ch acts)
  with link_flush [OF flush.prems flush.hyps(2), of now delay d] show ?case by auto
next
  case (receive L D bs l d q b ch acts)
  with link_receive [OF receive.prems, of L D q d] show ?case by auto
qed (rule link_app_send)

interpretation reliable_link: inductive_invariant "link_init ord i" link_step "link_inv ord i" for ord i
  using link_inv_init link_inv_step by unfold_locales

section \<open>Delivery\<close>

lemma carries_contents:
  "list_all2 (carries i S) ns del \<Longrightarrow> List.map content del = List.map (\<lambda>s. content (S ! nat s)) ns"
  by (induction rule: list_all2_induct) (simp_all add: carries_def)

text \<open>C1: Two reliable ordered channels joined by a network that loses, duplicates and reorders datagrams: what
  an end has delivered is, packet for packet, a prefix of what the application gave to the other
  end: nothing is lost, doubled, reordered or altered. The network may hold a datagram back for as long as the two ends number
  or deliver at most 15800 further packets, and never delivers it later (\<open>DELAY_BOUND\<close>): beyond that the numbers of the code, which
  wrap around at 32768, are ambiguous.\<close>

theorem reliable_ordered_delivery:
  assumes "reach (link_init True i) link_step l"
  shows "List.map content (delivered_at l (\<not> d)) =
     take (length (delivered_at l (\<not> d))) (List.map content (sent_at l d))"
proof -
  obtain n w r g rcvd ns where 1: "dir_ok i True n w r g rcvd ns (sent_at l d) (chan l d) (chan l (\<not> d))
    (delivered_at l (\<not> d)) (network l d) (network l (\<not> d))"
    using link_dirE [OF reliable_link.reach_inv [OF assms]] .
  note d = dir_okD [OF 1]
  have ns: "ns = [0..r - 1]" and r: "0 \<le> r" and len: "length (delivered_at l (\<not> d)) = nat r"
    using d(7) list_all2_lengthD [OF d(6)] receiver_invD(4,5) [OF d(2)] by (auto simp: order_ok_def)
  have le: "nat r \<le> length (sent_at l d)"
  proof (cases "r = 0")
    case False
    then have "r - 1 \<in> {0..<r}" using r by simp
    then have "r - 1 \<in> {0..<n}" using d(5) receiver_invD(6) [OF d(2)] by blast
    then show ?thesis using sender_invD(9) [OF d(1)] by (simp add: nat_le_iff)
  qed simp
  show ?thesis
    using carries_contents [OF d(6)] ns len le r
    by (auto intro!: nth_equalityI simp: nat_add_distrib)
qed

text \<open>C14: Over the same network, which never delivers a datagram that is more than 15800 packets late, two reliable unordered channels
  deliver every packet at most once, unaltered: the packets an end has delivered are packets given to the other end, at distinct places.\<close>

theorem reliable_unordered_delivery:
  assumes "reach (link_init False i) link_step l"
  shows "\<exists>ns. distinct ns \<and> set ns \<subseteq> {..<length (sent_at l d)} \<and>
     List.map content (delivered_at l (\<not> d)) = List.map (\<lambda>k. content (sent_at l d ! k)) ns"
proof -
  obtain n w r g rcvd ns where 1: "dir_ok i False n w r g rcvd ns (sent_at l d) (chan l d) (chan l (\<not> d))
    (delivered_at l (\<not> d)) (network l d) (network l (\<not> d))"
    using link_dirE [OF reliable_link.reach_inv [OF assms]] .
  note d = dir_okD [OF 1]
  have ns: "distinct ns" "set ns \<subseteq> {0..<int (length (sent_at l d))}"
    using d(5,7) sender_invD(9) [OF d(1)] by (auto simp: order_ok_def)
  have "distinct (List.map nat ns)"
    using ns by (simp add: distinct_map inj_on_def) (metis atLeastLessThan_iff eq_nat_nat_iff subsetD)
  moreover have "set (List.map nat ns) \<subseteq> {..<length (sent_at l d)}"
    using ns(2) by (auto simp: nat_less_iff)
  ultimately show ?thesis
    using carries_contents [OF d(6)] by (intro exI [of _ "List.map nat ns"]) simp
qed

text \<open>C20: In every reachable state of such a link, of ordered or of unordered channels, the operations of the channels succeed: sending, with
  any clock and resend delay and a connection number below 4, and processing any datagram the network may deliver (one that is at most 15800 packets late), never access a vector out
  of bounds and their loops return.\<close>

theorem reliable_operations_total:
  assumes "reach (link_init ord i) link_step l" and "cn < 4"
  shows "(\<exists>r. send_and_check_queue (reliable_send_next_packets now delay cn) (chan l d) = Some r) \<and>
     (\<forall>L D q. (L, D, datagram q) \<in> network l d \<and> fresh l (\<not> d) L D \<and> wf_packet q \<longrightarrow>
        (\<exists>r. reliable_process_packet q (chan l (\<not> d)) = Some r))"
proof -
  note inv = reliable_link.reach_inv [OF assms(1)]
  show ?thesis using link_flush [OF inv assms(2), of now delay d] link_receive [OF inv] by blast
qed

text \<open>C15: No numbered packet of a reliable channel is forgotten, whether the channel is ordered or not: in every reachable
  state of a link each packet that left the queue of an end has been delivered by the other end, or
  is held there for its turn (by an ordered channel), or still has its copy in the sender's window. The network is
  the one above, with its bound on late datagrams.\<close>

theorem reliable_no_loss:
  assumes "reach (link_init ord i) link_step l" and k: "k < numbered (sent_at l d) (chan l d)"
  shows "(if ord then k < length (delivered_at l (\<not> d)) \<or>
       (\<exists>q. m_received_packets (chan l (\<not> d)) ! (k mod 64) = Some q \<and> content q = content (sent_at l d ! k))
     else \<exists>q \<in> set (delivered_at l (\<not> d)). content q = content (sent_at l d ! k)) \<or>
     (\<exists>p. m_packet (m_pending_packets (chan l d) ! (k mod 64)) = Some p \<and> content p = content (sent_at l d ! k))"
proof -
  obtain n w r g rcvd ns where 1: "dir_ok i ord n w r g rcvd ns (sent_at l d) (chan l d) (chan l (\<not> d))
    (delivered_at l (\<not> d)) (network l d) (network l (\<not> d))"
    using link_dirE [OF reliable_link.reach_inv [OF assms(1)]] .
  note d = dir_okD [OF 1]
  note cnt = delivered_count [OF 1]
  have idx: "nat (idx_of (int k)) = k mod 64" by (simp add: DEFAULT_WINDOW_SIZE_def nat_mod_distrib)
  have kn: "int k < n" using k cnt(4,5) by simp
  have received: ?thesis if "int k \<in> rcvd"
  proof (cases ord)
    case False
    then have "int k \<in> set ns" using that d(7) by (simp add: order_ok_def)
    then obtain j where j: "j < length ns" "ns ! j = int k" unfolding in_set_conv_nth by blast
    then have "carries i (sent_at l d) (int k) (delivered_at l (\<not> d) ! j)" "j < length (delivered_at l (\<not> d))"
      using d(6) by (auto simp: list_all2_conv_all_nth)
    then have "delivered_at l (\<not> d) ! j \<in> set (delivered_at l (\<not> d))" "content (delivered_at l (\<not> d) ! j) = content (sent_at l d ! k)"
      by (simp_all add: carries_def)
    then show ?thesis using False by auto
  next
    case ord: True
    show ?thesis
    proof (cases "int k < r")
      case True
      then show ?thesis using cnt(1) ord by simp
    next
      case False
      have "\<forall>s \<in> rcvd. r \<le> s \<longrightarrow>
          (\<exists>q. m_received_packets (chan l (\<not> d)) ! nat (idx_of s) = Some q \<and> carries i (sent_at l d) s q)"
        using receiver_invD(10) [OF d(2)] d(3) ord by (simp add: held_ok_def)
      with False that obtain q where "m_received_packets (chan l (\<not> d)) ! nat (idx_of (int k)) = Some q"
        "carries i (sent_at l d) (int k) q" by (meson not_less)
      then show ?thesis using ord unfolding idx by (auto simp: carries_def)
    qed
  qed
  show ?thesis
  proof (cases "int k < w")
    case True
    then have "int k \<in> rcvd" using sender_invD(12) [OF d(1)] by auto
    then show ?thesis by (rule received)
  next
    case False
    note pend = sender_invD(13) [OF d(1)]
    note p = pending_okD(2) [OF pend, of "int k", unfolded idx] pending_okD(3) [OF pend, of "int k", unfolded idx]
    show ?thesis
    proof (cases "m_packet (m_pending_packets (chan l d) ! (k mod 64))")
      case None
      with p(1) False kn show ?thesis by (intro received) simp
    next
      case (Some q)
      with p(2) [of q] False kn show ?thesis by (auto simp: carries_def)
    qed
  qed
qed

text \<open>A pass over a window whose packets all wait for their resend delay.\<close>

definition waiting :: "int \<Rightarrow> rat \<Rightarrow> pending_packet \<Rightarrow> bool" where
  "waiting now delay pp \<longleftrightarrow> m_packet pp \<noteq> None \<longrightarrow>
     m_is_sent pp \<and> of_int (now - m_timestamp pp) < delay * of_int TICKS_PER_MILLISECOND"

lemma send_loop_waiting:
  assumes "length pending = 64" "\<forall>pp \<in> set pending. waiting now delay pp" "g \<le> n" "n - g < MAX_SEQUENCE"
  shows "send_loop DEFAULT_WINDOW_SIZE now delay cn (seq_of n) (seq_of g) pending = Some (False, pending, [])"
  using assms(3,4)
proof (induction "nat (n - g)" arbitrary: g)
  case 0
  then show ?case by (simp add: send_loop.simps [of _ _ _ _ _ "seq_of g"])
next
  case (Suc k)
  have gn: "g < n" using Suc.hyps(2) by simp
  have ne: "seq_of g \<noteq> seq_of n" using seq_of_inj [of g n] gn Suc.prems by auto
  have "waiting now delay (pending ! nat (idx_of g))" using assms(1,2) by simp
  then have "try_send now delay cn (pending ! nat (idx_of g)) = (False, pending ! nat (idx_of g), [])"
    by (auto simp: try_send_def waiting_def split: option.splits)
  moreover have "send_loop DEFAULT_WINDOW_SIZE now delay cn (seq_of n) (seq_of (g + 1)) pending = Some (False, pending, [])"
    using Suc.hyps Suc.prems gn by auto
  ultimately show ?case using ne assms(1) by (subst send_loop.simps) simp
qed

text \<open>C36: A reliable channel gives up its place in the send queue while packets are unacknowledged: when every
  packet of the window was sent and waits for its resend delay, sending reports that nothing is
  left to send and clears the flag, though the window keeps the packets. (They go out again only
  when something else puts the channel back into the queue.)\<close>

theorem unacked_channel_leaves_queue:
  assumes "reach (link_init ord i) link_step l"
    and "m_outgoing_queue (chan l d) = []" "\<not> m_must_send_acks (chan l d)"
    and "\<forall>pp \<in> set (m_pending_packets (chan l d)). waiting now delay pp"
  shows "\<exists>ch. send_and_check_queue (reliable_send_next_packets now delay cn) (chan l d) = Some (False, ch, []) \<and>
     \<not> m_is_added_to_peer_channel_send_queue ch \<and> m_pending_packets ch = m_pending_packets (chan l d)"
proof -
  obtain n w r g rcvd ns where 1: "dir_ok i ord n w r g rcvd ns (sent_at l d) (chan l d) (chan l (\<not> d))
    (delivered_at l (\<not> d)) (network l d) (network l (\<not> d))"
    using link_dirE [OF reliable_link.reach_inv [OF assms(1)]] .
  note j = sender_invD [OF dir_okD(1) [OF 1]]
  have "n - w < MAX_SEQUENCE" using j(8) by (simp add: seq_consts)
  then have "send_loop DEFAULT_WINDOW_SIZE now delay cn (seq_of n) (seq_of w) (m_pending_packets (chan l d))
      = Some (False, m_pending_packets (chan l d), [])"
    using send_loop_waiting [OF pending_okD(1) [OF j(13)] assms(4) j(7)] by simp
  then show ?thesis
    using assms(2,3) j(1,4,5)
    by (simp add: send_and_check_queue_def reliable_send_next_packets_def q_empty_def)
qed

section \<open>A run\<close>

definition example_packet :: net_packet where
  "example_packet = \<lparr>m_data = [1, 0, 0, 0, 42, 0, 0, 0], m_size = 5, user_data = None\<rparr>"

definition example_channel :: "bool \<Rightarrow> net_reliable_channel" where
  "example_channel ord =
     \<lparr>m_outgoing_queue = [], m_can_enqueue = True, m_is_added_to_peer_channel_send_queue = False,
      m_local_sequence = 0, m_remote_sequence = 0, m_local_window_start = 0, m_remote_window_start = 0,
      m_ordered = ord, m_id = 0, m_window_size = 64, m_must_send_acks = False,
      m_delivery_method = (if ord then RELIABLE_ORDERED else RELIABLE_UNORDERED),
      m_outgoing_acks = \<lparr>m_data = 2 # replicate 15 0, m_size = 13, user_data = None\<rparr>,
      m_pending_packets = replicate 64 new_pending,
      m_received_packets = (if ord then replicate 64 None else []),
      m_early_received = (if ord then [] else replicate 64 False)\<rparr>"

lemma example_new: "new_reliable_channel ord 0 = Some (example_channel ord)"
proof -
  let ?p = "new_packet_with ACK 9"
  have data: "?p = \<lparr>m_data = 2 # replicate 15 0, m_size = 13, user_data = None\<rparr>"
    by (simp add: new_packet_with_def blank_packet_def set_property_def upd_byte0_def ensure_def grow_eval
        byte0_def numeral_eq_Suc GROWTH_FACTOR_def grow.simps resize_def)
  have "(2 # replicate 15 0)[3 := 0] = 2 # replicate 15 (0 :: u8)" by (simp add: numeral_eq_Suc)
  then have "set_channel_id 0 ?p = Some ?p"
    by (simp add: set_channel_id_def set_data_def wr8_def data)
  moreover have "nat ((DEFAULT_WINDOW_SIZE - 1) sdiv BITS_IN_BYTE + 2) = 9"
    by (simp add: DEFAULT_WINDOW_SIZE_def BITS_IN_BYTE_def sdiv_nonneg)
  ultimately show ?thesis
    by (simp add: new_reliable_channel_def example_channel_def data DEFAULT_WINDOW_SIZE_def)
qed

lemma example_app: "app_packet example_packet"
  by (simp add: app_packet_def example_packet_def wf_packet_def property_def byte0_def property_of_code_def)

lemma example_flush:
  "\<exists>ch. send_and_check_queue (reliable_send_next_packets 0 27 0) (fst (add_to_queue example_packet (example_channel ord)))
     = Some (True, ch, [Send_user_data example_packet]) \<and> m_outgoing_queue ch = [] \<and> \<not> m_must_send_acks ch \<and>
     m_pending_packets ch = \<lparr>m_packet = Some example_packet, m_timestamp = 0, m_is_sent = True\<rparr> # replicate 63 new_pending"
proof -
  have seq: "set_sequence 0 example_packet = Some example_packet"
    by (simp add: set_sequence_def example_packet_def set_data_def wr16_def wr_bytes_def numeral_eq_Suc)
  have cid: "set_channel_id 0 example_packet = Some example_packet"
    by (simp add: set_channel_id_def example_packet_def set_data_def wr8_def numeral_eq_Suc)
  have cn: "set_connection_number 0 example_packet = example_packet"
    by (simp add: set_connection_number_def example_packet_def upd_byte0_def byte0_def)
  have rel: "relative_sequence_number 0 0 = 0"
    by (simp add: relative_sequence_number_def seq_consts)
  have nx: "next_seq 0 = 1" by (simp add: next_seq_def seq_consts)
  show ?thesis
    by (simp add: send_and_check_queue_def reliable_send_next_packets_def add_to_queue_def q_push_def
        add_to_peer_channel_send_queue_def example_channel_def seq cid cn rel nx init_pending_def new_pending_def
        send_loop.simps try_send_def Let_def q_empty_def numeral_eq_Suc)
qed

lemma example_receive:
  "\<exists>ch acts. reliable_process_packet example_packet (example_channel ord) = Some (True, ch, acts) \<and>
     deliveries acts = [example_packet]"
proof -
  have p: "property example_packet \<noteq> ACK" "sequence example_packet = Some 0"
    by (simp_all add: example_packet_def property_def byte0_def property_of_code_def sequence_def rd16_def rd_bytes_def
        numeral_eq_Suc)
  have rel: "relative_sequence_number 0 0 = 0"
    by (simp add: relative_sequence_number_def seq_consts)
  have nx: "next_seq 0 = 1" by (simp add: next_seq_def seq_consts)
  have ab: "ack_byte 0 = 4" "ack_bit 0 = 1" by (simp_all add: ack_byte_eq ack_bit_eq)
  show ?thesis
    by (simp add: reliable_process_packet_def p rel receive_in_window_def example_channel_def Let_def ab rd8_def
        wr8_def add_to_peer_channel_send_queue_def accept_in_sequence_def nx deliver_held.simps skip_early.simps
        seq_consts)
qed

definition example_link :: "net_reliable_channel \<Rightarrow> net_reliable_channel \<Rightarrow> net_packet list \<Rightarrow> net_packet list \<Rightarrow> net \<Rightarrow> link" where
  "example_link a b S del N =
     \<lparr>chan = \<lambda>d. if d then a else b, sent_at = \<lambda>d. if d then S else [],
      delivered_at = \<lambda>d. if d then [] else del, network = \<lambda>d. if d then N else {}\<rparr>"

lemma example_link_simps [simp]:
  "chan (example_link a b S del N) True = a" "chan (example_link a b S del N) False = b"
  "sent_at (example_link a b S del N) True = S" "sent_at (example_link a b S del N) False = []"
  "delivered_at (example_link a b S del N) True = []" "delivered_at (example_link a b S del N) False = del"
  "network (example_link a b S del N) True = N"
  by (simp_all add: example_link_def)

lemma example_link_send:
  "app_packet p \<Longrightarrow> link_step (example_link a b S del N) (example_link (fst (add_to_queue p a)) b (S @ [p]) del N)"
proof -
  assume p: "app_packet p"
  have "example_link (fst (add_to_queue p a)) b (S @ [p]) del N = (example_link a b S del N)
      \<lparr>chan := (chan (example_link a b S del N))(True := fst (add_to_queue p (chan (example_link a b S del N) True))),
       sent_at := (sent_at (example_link a b S del N))(True := sent_at (example_link a b S del N) True @ [p])\<rparr>"
    by (simp add: example_link_def fun_eq_iff)
  then show ?thesis using link_step.app_send [OF p] by metis
qed

lemma example_link_flush:
  assumes "send_and_check_queue (reliable_send_next_packets now delay cn) a = Some (sent, a', acts)" and "cn < 4"
  shows "link_step (example_link a b S del N)
     (example_link a' b S del (N \<union> emitted (numbered S a') 0 acts))"
proof -
  let ?l = "example_link a b S del N"
  have "example_link a' b S del (N \<union> emitted (numbered S a') 0 acts) =
      ?l\<lparr>chan := (chan ?l)(True := a'), network := (network ?l)(True := network ?l True \<union>
        emitted (numbered (sent_at ?l True) a') (length (delivered_at ?l True)) acts)\<rparr>"
    by (simp add: example_link_def fun_eq_iff)
  then show ?thesis using link_step.flush [of now delay cn ?l True] assms by (metis example_link_simps(1))
qed

lemma example_link_receive:
  assumes "(L, D, datagram q) \<in> N" and "wf_packet q" and "length del \<le> L"
    and "numbered [] b \<le> D" and "reliable_process_packet q b = Some (taken, b', acts)"
  shows "link_step (example_link a b S del N) (example_link a b' S (del @ deliveries acts) N)"
proof -
  let ?l = "example_link a b S del N"
  have "example_link a b' S (del @ deliveries acts) N =
      ?l\<lparr>chan := (chan ?l)(\<not> True := b'),
         delivered_at := (delivered_at ?l)(\<not> True := delivered_at ?l (\<not> True) @ deliveries acts)\<rparr>"
    by (simp add: example_link_def fun_eq_iff)
  moreover have "fresh ?l (\<not> True) L D" using assms(3,4) by (simp add: fresh_def)
  ultimately show ?thesis
    using link_step.receive [of L D "datagram q" ?l True q taken b' acts] assms(1,2,5) by simp
qed

lemma example_flushed_link:
  "\<exists>c. reach (link_init ord 0) link_step
      (example_link c (example_channel ord) [example_packet] [] {(1, 0, datagram example_packet)}) \<and>
    m_outgoing_queue c = [] \<and> \<not> m_must_send_acks c \<and>
    m_pending_packets c = \<lparr>m_packet = Some example_packet, m_timestamp = 0, m_is_sent = True\<rparr> # replicate 63 new_pending"
proof -
  let ?c = "example_channel ord"
  have 0: "reach (link_init ord 0) link_step (example_link ?c ?c [] [] {})"
    by (rule reach_init) (simp add: link_init_def example_link_def example_new)
  let ?c1 = "fst (add_to_queue example_packet ?c)"
  have 1: "reach (link_init ord 0) link_step (example_link ?c1 ?c [example_packet] [] {})"
    using reach_step [OF 0 example_link_send [OF example_app]] by simp
  obtain c2 where c2: "send_and_check_queue (reliable_send_next_packets 0 27 0) ?c1
      = Some (True, c2, [Send_user_data example_packet])" "m_outgoing_queue c2 = []" "\<not> m_must_send_acks c2"
      "m_pending_packets c2 = \<lparr>m_packet = Some example_packet, m_timestamp = 0, m_is_sent = True\<rparr> # replicate 63 new_pending"
    using example_flush by blast
  have em: "emitted (numbered [example_packet] c2) 0 [Send_user_data example_packet] = {(1, 0, datagram example_packet)}"
    by (simp add: emitted_def numbered_def c2(2))
  have "reach (link_init ord 0) link_step
      (example_link c2 ?c [example_packet] [] {(1, 0, datagram example_packet)})"
    using reach_step [OF 1 example_link_flush [OF c2(1)]] em by simp
  with c2 show ?thesis by blast
qed

lemma example_flushed:
  "\<exists>l. reach (link_init ord 0) link_step l \<and> m_outgoing_queue (chan l True) = [] \<and> \<not> m_must_send_acks (chan l True) \<and>
    m_pending_packets (chan l True) =
      \<lparr>m_packet = Some example_packet, m_timestamp = 0, m_is_sent = True\<rparr> # replicate 63 new_pending"
  using example_flushed_link [of ord] example_link_simps(1) by metis

lemma example_run:
  "\<exists>l. reach (link_init ord 0) link_step l \<and> sent_at l True = [example_packet] \<and>
     delivered_at l False = [example_packet] \<and> numbered (sent_at l True) (chan l True) = 1"
proof -
  let ?c = "example_channel ord"
  obtain c2 where c2: "reach (link_init ord 0) link_step
      (example_link c2 ?c [example_packet] [] {(1, 0, datagram example_packet)})" "m_outgoing_queue c2 = []"
    using example_flushed_link by blast
  obtain c3 acts where c3: "reliable_process_packet example_packet ?c = Some (True, c3, acts)"
    "deliveries acts = [example_packet]"
    using example_receive by blast
  have wf: "wf_packet example_packet" using example_app by (simp add: app_packet_def)
  have "reach (link_init ord 0) link_step
      (example_link c2 c3 [example_packet] ([] @ deliveries acts) {(1, 0, datagram example_packet)})"
    using reach_step [OF c2(1) example_link_receive [OF _ wf _ _ c3(1)]] by (simp add: numbered_def)
  then show ?thesis using c2(2) c3(2)
    by (intro exI [of _ "example_link c2 c3 [example_packet] ([] @ deliveries acts) {(1, 0, datagram example_packet)}"])
      (simp add: numbered_def)
qed

theorem reliable_ordered_delivery_witness:
  "\<exists>l. reach (link_init True 0) link_step l \<and> delivered_at l False = [example_packet] \<and>
     List.map content (delivered_at l False) =
       take (length (delivered_at l False)) (List.map content (sent_at l True))"
proof -
  obtain l where l: "reach (link_init True 0) link_step l" "delivered_at l False = [example_packet]"
    using example_run by blast
  show ?thesis
    using l reliable_ordered_delivery [OF l(1), of True] by (intro exI [of _ l]) simp
qed

theorem reliable_unordered_delivery_witness:
  "\<exists>l ns. reach (link_init False 0) link_step l \<and> delivered_at l False = [example_packet] \<and> distinct ns \<and>
     List.map content (delivered_at l False) = List.map (\<lambda>k. content (sent_at l True ! k)) ns"
proof -
  obtain l where l: "reach (link_init False 0) link_step l" "delivered_at l False = [example_packet]"
    using example_run by blast
  obtain ns where "distinct ns"
    "List.map content (delivered_at l False) = List.map (\<lambda>k. content (sent_at l True ! k)) ns"
    using reliable_unordered_delivery [OF l(1), of True] by auto
  with l show ?thesis by blast
qed

theorem reliable_operations_total_witness:
  "\<exists>l r. reach (link_init True 0) link_step l \<and> delivered_at l False = [example_packet] \<and>
     send_and_check_queue (reliable_send_next_packets 0 27 3) (chan l True) = Some r"
proof -
  obtain l where l: "reach (link_init True 0) link_step l" "delivered_at l False = [example_packet]"
    using example_run by blast
  show ?thesis
    using l reliable_operations_total [OF l(1), of 3 0 27 True] by auto
qed

theorem reliable_no_loss_witness:
  "\<exists>l. reach (link_init True 0) link_step l \<and> 0 < numbered (sent_at l True) (chan l True) \<and>
     (0 < length (delivered_at l False) \<or>
      (\<exists>q. m_received_packets (chan l False) ! 0 = Some q \<and> content q = content (sent_at l True ! 0)) \<or>
      (\<exists>p. m_packet (m_pending_packets (chan l True) ! 0) = Some p \<and> content p = content (sent_at l True ! 0)))"
proof -
  obtain l where l: "reach (link_init True 0) link_step l" "numbered (sent_at l True) (chan l True) = 1"
    using example_run by blast
  show ?thesis
    using l reliable_no_loss [OF l(1), of 0 True] by (intro exI [of _ l]) simp
qed

theorem unacked_channel_leaves_queue_witness:
  "\<exists>l ch. reach (link_init True 0) link_step l \<and>
     m_packet (m_pending_packets (chan l True) ! 0) = Some example_packet \<and>
     send_and_check_queue (reliable_send_next_packets 100 27 0) (chan l True) = Some (False, ch, [])"
proof -
  obtain l where l: "reach (link_init True 0) link_step l" "m_outgoing_queue (chan l True) = []"
    "\<not> m_must_send_acks (chan l True)"
    "m_pending_packets (chan l True) = \<lparr>m_packet = Some example_packet, m_timestamp = 0, m_is_sent = True\<rparr> # replicate 63 new_pending"
    using example_flushed by blast
  have "\<forall>pp \<in> set (m_pending_packets (chan l True)). waiting 100 27 pp"
    by (simp add: l(4) waiting_def new_pending_def TICKS_PER_MILLISECOND_def)
  from unacked_channel_leaves_queue [OF l(1-3) this, of 0] l show ?thesis by auto
qed

end
