(* ===== verification/Sequenced_Channel.thy ===== *)
theory Sequenced_Channel
  imports Reliable_Sender
begin

text \<open>
  The sequenced channel (\<open>net_sequenced_channel.h/.cpp\<close>), unreliable and reliable. The receiver keeps
  the newest sequence number it has accepted and refuses older ones; the reliable sender keeps its
  last packet and repeats it until its number is acknowledged. The time of the call, the resend delay
  and the connection number of the peer are arguments.
\<close>

section \<open>State\<close>

record net_sequenced_channel = net_base_channel +
  m_reliable :: bool
  sq_id :: u8
  sq_local_sequence :: int
  sq_remote_sequence :: u16
  m_ack_packet :: "net_packet option"
  m_last_packet :: "net_packet option"
  m_last_packet_send_time :: int
  m_must_send_ack :: bool

definition new_sequenced_channel :: "bool \<Rightarrow> u8 \<Rightarrow> net_sequenced_channel" where
  "new_sequenced_channel reliable i =
     \<lparr>m_outgoing_queue = [], m_can_enqueue = True, m_is_added_to_peer_channel_send_queue = False,
      m_reliable = reliable, sq_id = i, sq_local_sequence = 0, sq_remote_sequence = 0,
      m_ack_packet = (if \<not> reliable then None else Some (new_packet_with ACK 0)),
      m_last_packet = None, m_last_packet_send_time = 0, m_must_send_ack = False\<rparr>"

text \<open>The destructor deletes the last packet; the base class gives the queue back to the pool.\<close>

definition destroy_sequenced_channel :: "net_sequenced_channel \<Rightarrow> net_sequenced_channel \<times> chan_action list" where
  "destroy_sequenced_channel ch = destroy_base_channel (ch\<lparr>m_last_packet := None\<rparr>)"

section \<open>Receiving\<close>

definition sequenced_ack :: "net_packet \<Rightarrow> net_sequenced_channel \<Rightarrow> (net_sequenced_channel \<times> chan_action list) option" where
  "sequenced_ack packet ch =
     (if \<not> m_reliable ch then Some (ch, [])
      else case m_last_packet ch of
        None \<Rightarrow> Some (ch, [])
      | Some lp \<Rightarrow> do {
          s \<leftarrow> sequence packet;
          s' \<leftarrow> sequence lp;
          Some (if s = s' then (ch\<lparr>m_last_packet := None\<rparr>, [Pool_recycle lp]) else (ch, []))
        })"

definition sequenced_process_packet ::
  "net_packet \<Rightarrow> net_sequenced_channel \<Rightarrow> (bool \<times> net_sequenced_channel \<times> chan_action list) option" where
  "sequenced_process_packet packet ch =
     (if is_fragmented packet then Some (False, ch, [])
      else if property packet = ACK then do {
        (ch', acts) \<leftarrow> sequenced_ack packet ch;
        Some (False, ch', acts)
      }
      else do {
        s \<leftarrow> sequence packet;
        let relative = relative_sequence_number (uint s) (uint (sq_remote_sequence ch));
        (packetProcessed, ch1, acts1) \<leftarrow>
          (if uint s < MAX_SEQUENCE \<and> relative > 0 then do {
             c \<leftarrow> channel_id packet;
             Some (True, ch\<lparr>sq_remote_sequence := s\<rparr>,
                   [Create_receive_event packet (if m_reliable ch then RELIABLE_SEQUENCED else SEQUENCED)
                      (c div of_nat CHANNEL_TYPE_COUNT) CHANNELED_HEADER_SIZE])
           }
           else Some (False, ch, []));
        if m_reliable ch1 then
          (let (ch2, acts2) = add_to_peer_channel_send_queue (ch1\<lparr>m_must_send_ack := True\<rparr>)
           in Some (packetProcessed, ch2, acts1 @ acts2))
        else Some (packetProcessed, ch1, acts1)
      })"

section \<open>Sending\<close>

text \<open>The loop that empties the queue; \<open>get_current_time\<close> is called for the last packet only.\<close>

fun sequenced_drain :: "int \<Rightarrow> u8 \<Rightarrow> net_packet net_queue \<Rightarrow> net_sequenced_channel
    \<Rightarrow> (net_sequenced_channel \<times> chan_action list) option" where
  "sequenced_drain now connect_number [] ch = Some (ch\<lparr>m_outgoing_queue := []\<rparr>, [])"
| "sequenced_drain now connect_number (p # q) ch = do {
     let local_sequence = next_seq (sq_local_sequence ch);
     p1 \<leftarrow> set_sequence (word_of_int local_sequence) p;
     p2 \<leftarrow> set_channel_id (sq_id ch) p1;
     let p3 = set_connection_number connect_number p2;
     let ch1 = ch\<lparr>sq_local_sequence := local_sequence\<rparr>;
     let (ch2, acts) =
       (if m_reliable ch1 \<and> q_empty q
        then (ch1\<lparr>m_last_packet_send_time := now, m_last_packet := Some p3\<rparr>, [Send_user_data p3])
        else (ch1, [Send_user_data p3, Pool_recycle p3]));
     (ch3, acts') \<leftarrow> sequenced_drain now connect_number q ch2;
     Some (ch3, acts @ acts')
   }"

definition sequenced_send_next_packets ::
  "int \<Rightarrow> rat \<Rightarrow> u8 \<Rightarrow> net_sequenced_channel \<Rightarrow> (bool \<times> net_sequenced_channel \<times> chan_action list) option" where
  "sequenced_send_next_packets now resend_delay connect_number ch = do {
     (ch1, acts1) \<leftarrow>
       (if m_reliable ch \<and> q_empty (m_outgoing_queue ch) then
          Some (if of_int (now - m_last_packet_send_time ch) \<ge> resend_delay * of_int TICKS_PER_MILLISECOND
                then case m_last_packet ch of
                    None \<Rightarrow> (ch, [])
                  | Some lp \<Rightarrow>
                      let lp' = set_connection_number connect_number lp
                      in (ch\<lparr>m_last_packet_send_time := now, m_last_packet := Some lp'\<rparr>, [Send_user_data lp'])
                else (ch, []))
        else sequenced_drain now connect_number (m_outgoing_queue ch) ch);
     (ch2, acts2) \<leftarrow>
       (if m_reliable ch1 \<and> m_must_send_ack ch1 then do {
          a \<leftarrow> m_ack_packet ch1;
          a1 \<leftarrow> set_sequence (sq_remote_sequence ch1) a;
          let a2 = set_connection_number connect_number a1;
          Some (ch1\<lparr>m_must_send_ack := False, m_ack_packet := Some a2\<rparr>, [Send_user_data a2])
        }
        else Some (ch1, []));
     Some (m_last_packet ch2 \<noteq> None, ch2, acts1 @ acts2)
   }"

section \<open>The receiver accepts the newest\<close>

text \<open>The packets a sequenced channel hands to the manager.\<close>

fun received_event :: "chan_action \<Rightarrow> net_packet option" where
  "received_event (Create_receive_event p dm c h) = Some p"
| "received_event _ = None"

definition received_events :: "chan_action list \<Rightarrow> net_packet list" where
  "received_events acts = List.map_filter received_event acts"

lemma received_events_simps [simp]:
  "received_events [] = []"
  "received_events (Create_receive_event p dm c h # acts) = p # received_events acts"
  "received_events (Send_user_data p # acts) = received_events acts"
  "received_events (Pool_recycle p # acts) = received_events acts"
  "received_events (Add_to_reliable_channel_send_queue # acts) = received_events acts"
  "received_events (as @ bs) = received_events as @ received_events bs"
  by (simp_all add: received_events_def List.map_filter_def)

lemma received_events_add_to_peer [simp]: "received_events (snd (add_to_peer_channel_send_queue ch)) = []"
  by (simp add: add_to_peer_channel_send_queue_def received_events_def List.map_filter_def)

text \<open>The abstract receiver: of the numbers that arrive, those above all before.\<close>

fun records :: "int \<Rightarrow> (int \<times> 'a) list \<Rightarrow> (int \<times> 'a) list" where
  "records r [] = []"
| "records r ((s, x) # xs) = (if r < s then (s, x) # records s xs else records r xs)"

fun near :: "int \<Rightarrow> (int \<times> 'a) list \<Rightarrow> bool" where
  "near r [] \<longleftrightarrow> True"
| "near r ((s, x) # xs) \<longleftrightarrow> \<bar>s - r\<bar> < HALF_MAX_SEQUENCE \<and> near (max r s) xs"

lemma records_increasing: "sorted_wrt (<) (r # List.map fst (records r xs))"
proof (induction r xs rule: records.induct)
  case (2 r s x xs)
  then show ?case by (cases "r < s") (auto intro: less_trans)
qed simp

definition data_packet :: "int \<Rightarrow> net_packet \<Rightarrow> bool" where
  "data_packet s q \<longleftrightarrow> wf_packet q \<and> 4 \<le> m_size q \<and> property q = CHANNELED \<and> \<not> is_fragmented q \<and>
     sequence q = Some (word_of_int (seq_of s))"

fun sequenced_receive_all :: "net_packet list \<Rightarrow> net_sequenced_channel
    \<Rightarrow> (net_sequenced_channel \<times> chan_action list) option" where
  "sequenced_receive_all [] ch = Some (ch, [])"
| "sequenced_receive_all (q # qs) ch = do {
     (_, ch1, acts1) \<leftarrow> sequenced_process_packet q ch;
     (ch2, acts2) \<leftarrow> sequenced_receive_all qs ch1;
     Some (ch2, acts1 @ acts2)
   }"

lemma sequenced_process_data:
  assumes q: "data_packet s q" and near: "\<bar>s - r\<bar> < HALF_MAX_SEQUENCE"
    and ch: "sq_remote_sequence ch = word_of_int (seq_of r)"
  shows "\<exists>ch' acts. sequenced_process_packet q ch = Some (r < s, ch', acts) \<and>
     sq_remote_sequence ch' = word_of_int (seq_of (max r s)) \<and>
     received_events acts = (if r < s then [q] else [])"
proof -
  have rel: "relative_sequence_number (seq_of s) (seq_of r) = s - r"
    using near by (intro seqno.rel_true) auto
  obtain c where c: "channel_id q = Some c"
    using q by (auto simp: data_packet_def wf_packet_def channel_id_def rd8_def)
  show ?thesis
    using q rel ch c
    by (cases "r < s"; cases "m_reliable ch")
      (auto simp: data_packet_def sequenced_process_packet_def Let_def max_def split_beta
        add_to_peer_channel_send_queue_def)
qed

text \<open>C21: A sequenced channel refines the abstract rule ``newest wins'': of any run of packets that stay within
  half the circle of the newest one, it delivers exactly those that are newer than all before, once
  and in increasing order.\<close>

theorem sequenced_newest_wins:
  assumes "list_all (\<lambda>(s, q). data_packet s q) xs" and "near r xs"
    and "sq_remote_sequence ch = word_of_int (seq_of r)"
  shows "\<exists>ch' acts. sequenced_receive_all (List.map snd xs) ch = Some (ch', acts) \<and>
     received_events acts = List.map snd (records r xs) \<and>
     sorted_wrt (<) (r # List.map fst (records r xs))"
proof -
  have "\<exists>ch' acts. sequenced_receive_all (List.map snd xs) ch = Some (ch', acts) \<and>
     received_events acts = List.map snd (records r xs)"
    using assms
  proof (induction xs arbitrary: r ch)
    case (Cons x xs)
    obtain s q where x: "x = (s, q)" by (cases x)
    obtain ch1 acts1 where 1: "sequenced_process_packet q ch = Some (r < s, ch1, acts1)"
      "sq_remote_sequence ch1 = word_of_int (seq_of (max r s))"
      "received_events acts1 = (if r < s then [q] else [])"
      using sequenced_process_data [of s q r ch] Cons.prems x by auto
    obtain ch2 acts2 where 2: "sequenced_receive_all (List.map snd xs) ch1 = Some (ch2, acts2)"
      "received_events acts2 = List.map snd (records (max r s) xs)"
      using Cons.IH [OF _ _ 1(2)] Cons.prems(1,2) x by auto
    show ?case using 1 2 x by (simp add: max_def)
  qed simp
  then show ?thesis using records_increasing [of r xs] by blast
qed

section \<open>Sending\<close>

fun sent_packet :: "chan_action \<Rightarrow> net_packet option" where
  "sent_packet (Send_user_data p) = Some p"
| "sent_packet _ = None"

definition sent_packets :: "chan_action list \<Rightarrow> net_packet list" where
  "sent_packets acts = List.map_filter sent_packet acts"

lemma sent_packets_simps [simp]:
  "sent_packets [] = []" "sent_packets (Send_user_data p # acts) = p # sent_packets acts"
  "sent_packets (Pool_recycle p # acts) = sent_packets acts"
  "sent_packets (as @ bs) = sent_packets as @ sent_packets bs"
  by (simp_all add: sent_packets_def List.map_filter_def)

text \<open>A packet that goes out for \<open>p\<close> with number \<open>s\<close>.\<close>

definition goes_out :: "u8 \<Rightarrow> int \<Rightarrow> net_packet \<Rightarrow> net_packet \<Rightarrow> bool" where
  "goes_out i s p q \<longleftrightarrow> app_packet q \<and> sequence q = Some (word_of_int (seq_of s)) \<and>
     channel_id q = Some i \<and> content q = content p"

lemma number_and_send:
  assumes "app_packet p" "cn < 4"
  shows "\<exists>p1 p2. set_sequence (word_of_int (seq_of s)) p = Some p1 \<and> set_channel_id i p1 = Some p2 \<and>
     goes_out i s p (set_connection_number cn p2)"
proof -
  obtain p1 p2 where p: "set_sequence (word_of_int (seq_of s)) p = Some p1" "set_channel_id i p1 = Some p2"
    "app_packet p2" "sequence p2 = Some (word_of_int (seq_of s))" "channel_id p2 = Some i" "content p2 = content p"
    using numbered_packet [OF assms(1)] by metis
  have "m_data p2 \<noteq> []" using p(3) by (simp add: app_packet_def wf_packet_def)
  then have "goes_out i s p (set_connection_number cn p2)"
    using p assms(2) by (simp add: goes_out_def app_packet_def content_number packet_simps)
  with p(1,2) show ?thesis by blast
qed

lemma sequenced_drain_ok:
  assumes "list_all app_packet q" "cn < 4" "sq_local_sequence ch = seq_of n"
  shows "\<exists>ch' acts. sequenced_drain now cn q ch = Some (ch', acts) \<and>
     m_outgoing_queue ch' = [] \<and> sq_local_sequence ch' = seq_of (n + int (length q)) \<and>
     m_reliable ch' = m_reliable ch \<and> sq_id ch' = sq_id ch \<and> sq_remote_sequence ch' = sq_remote_sequence ch \<and>
     m_ack_packet ch' = m_ack_packet ch \<and> m_must_send_ack ch' = m_must_send_ack ch \<and>
     length (sent_packets acts) = length q \<and>
     (\<forall>k < length q. goes_out (sq_id ch) (n + 1 + int k) (q ! k) (sent_packets acts ! k)) \<and>
     m_last_packet ch' = (if m_reliable ch \<and> q \<noteq> [] then Some (last (sent_packets acts)) else m_last_packet ch)"
  using assms
proof (induction q arbitrary: ch n)
  case (Cons p q)
  obtain p1 p2 where p: "set_sequence (word_of_int (seq_of (n + 1))) p = Some p1" "set_channel_id (sq_id ch) p1 = Some p2"
    "goes_out (sq_id ch) (n + 1) p (set_connection_number cn p2)"
    using number_and_send [of p cn "n + 1" "sq_id ch"] Cons.prems by auto
  let ?p3 = "set_connection_number cn p2"
  let ?ch1 = "ch\<lparr>sq_local_sequence := seq_of (n + 1)\<rparr>"
  let ?ch2 = "if m_reliable ch \<and> q = [] then ?ch1\<lparr>m_last_packet_send_time := now, m_last_packet := Some ?p3\<rparr> else ?ch1"
  obtain ch' acts where IH: "sequenced_drain now cn q ?ch2 = Some (ch', acts)"
    "m_outgoing_queue ch' = []" "sq_local_sequence ch' = seq_of (n + 1 + int (length q))"
    "m_reliable ch' = m_reliable ch" "sq_id ch' = sq_id ch" "sq_remote_sequence ch' = sq_remote_sequence ch"
    "m_ack_packet ch' = m_ack_packet ch" "m_must_send_ack ch' = m_must_send_ack ch"
    "length (sent_packets acts) = length q"
    "\<forall>k < length q. goes_out (sq_id ch) (n + 1 + 1 + int k) (q ! k) (sent_packets acts ! k)"
    "m_last_packet ch' = (if m_reliable ch \<and> q \<noteq> [] then Some (last (sent_packets acts)) else m_last_packet ?ch2)"
  proof -
    have f: "m_reliable ?ch2 = m_reliable ch" "sq_id ?ch2 = sq_id ch" "sq_remote_sequence ?ch2 = sq_remote_sequence ch"
      "m_ack_packet ?ch2 = m_ack_packet ch" "m_must_send_ack ?ch2 = m_must_send_ack ch"
      "sq_local_sequence ?ch2 = seq_of (n + 1)" by simp_all
    have "list_all app_packet q" using Cons.prems(1) by simp
    from Cons.IH [OF this Cons.prems(2) f(6)] that show ?thesis unfolding f by blast
  qed
  let ?acts = "(if m_reliable ch \<and> q = [] then [Send_user_data ?p3] else [Send_user_data ?p3, Pool_recycle ?p3]) @ acts"
  have "sequenced_drain now cn (p # q) ch = Some (ch', ?acts)"
    using p(1,2) Cons.prems(3) IH(1)
    by (cases "m_reliable ch"; cases "q = []") (auto simp: q_empty_def Let_def)
  moreover have sent: "sent_packets ?acts = ?p3 # sent_packets acts" by simp
  moreover have "goes_out (sq_id ch) (n + 1 + int k) ((p # q) ! k) ((?p3 # sent_packets acts) ! k)"
    if "k < length (p # q)" for k
    using that p(3) IH(10) by (cases k) (auto simp: algebra_simps)
  moreover have "m_last_packet ch' = (if m_reliable ch then Some (last (?p3 # sent_packets acts)) else m_last_packet ch)"
    using IH(9,11) by auto
  ultimately show ?case using IH(2-9)
    by (intro exI [of _ ch'] exI [of _ ?acts]) (simp add: algebra_simps)
qed simp

text \<open>An unreliable sequenced channel sends its whole queue in one call: every packet goes out once, in order,
  with consecutive numbers modulo \<open>MAX_SEQUENCE\<close>, the channel's id and its content unchanged, the
  queue is empty afterwards, and the call reports that nothing is left.\<close>

lemma sequenced_unreliable_sends_all:
  assumes "list_all app_packet (m_outgoing_queue ch)" "cn < 4" "sq_local_sequence ch = seq_of n"
    and "\<not> m_reliable ch" "m_last_packet ch = None"
  shows "\<exists>ch' acts. sequenced_send_next_packets now delay cn ch = Some (False, ch', acts) \<and>
     m_outgoing_queue ch' = [] \<and> sq_local_sequence ch' = seq_of (n + int (length (m_outgoing_queue ch))) \<and>
     length (sent_packets acts) = length (m_outgoing_queue ch) \<and>
     (\<forall>k < length (m_outgoing_queue ch).
        goes_out (sq_id ch) (n + 1 + int k) (m_outgoing_queue ch ! k) (sent_packets acts ! k))"
proof -
  obtain ch' acts where "sequenced_drain now cn (m_outgoing_queue ch) ch = Some (ch', acts)"
     "m_outgoing_queue ch' = []" "sq_local_sequence ch' = seq_of (n + int (length (m_outgoing_queue ch)))"
     "m_reliable ch' = m_reliable ch" "length (sent_packets acts) = length (m_outgoing_queue ch)"
     "\<forall>k < length (m_outgoing_queue ch).
        goes_out (sq_id ch) (n + 1 + int k) (m_outgoing_queue ch ! k) (sent_packets acts ! k)"
     "m_last_packet ch' = (if m_reliable ch \<and> m_outgoing_queue ch \<noteq> [] then Some (last (sent_packets acts))
        else m_last_packet ch)"
    using sequenced_drain_ok [OF assms(1-3)] by blast
  with assms(4,5) show ?thesis
    by (intro exI [of _ ch'] exI [of _ acts]) (simp add: sequenced_send_next_packets_def)
qed

section \<open>The states of a channel\<close>

inductive sequenced_step :: "net_sequenced_channel \<Rightarrow> net_sequenced_channel \<Rightarrow> bool" where
  seq_enqueue: "app_packet p \<Longrightarrow> sequenced_step ch (fst (add_to_queue p ch))"
| seq_process: "sequenced_process_packet q ch = Some (b, ch', acts) \<Longrightarrow> sequenced_step ch ch'"
| seq_send: "send_and_check_queue (sequenced_send_next_packets now delay cn) ch = Some (b, ch', acts) \<Longrightarrow> cn < 4 \<Longrightarrow>
    sequenced_step ch ch'"

text \<open>The ack packet: its channel byte is never written and stays zero.\<close>

definition seq_ack_ok :: "net_packet \<Rightarrow> bool" where
  "seq_ack_ok a \<longleftrightarrow> wf_packet a \<and> m_size a = 4 \<and> property a = ACK \<and> channel_id a = Some 0"

definition sequenced_inv :: "bool \<Rightarrow> u8 \<Rightarrow> net_sequenced_channel \<Rightarrow> bool" where
  "sequenced_inv rel i ch \<longleftrightarrow> m_reliable ch = rel \<and> sq_id ch = i \<and>
     list_all app_packet (m_outgoing_queue ch) \<and> (\<exists>n. sq_local_sequence ch = seq_of n) \<and>
     (case m_last_packet ch of None \<Rightarrow> True | Some lp \<Rightarrow> rel \<and> app_packet lp) \<and>
     (rel \<longrightarrow> (\<exists>a. m_ack_packet ch = Some a \<and> seq_ack_ok a))"

lemma seq_ack_new: "seq_ack_ok (new_packet_with ACK 0)"
proof -
  have "new_packet_with ACK 0 = \<lparr>m_data = [2, 0, 0, 0], m_size = 4, user_data = None\<rparr>"
    by (simp add: new_packet_with_def blank_packet_def set_property_def upd_byte0_def ensure_def grow_eval
        byte0_def numeral_eq_Suc GROWTH_FACTOR_def grow.simps resize_def)
  then show ?thesis
    by (simp add: seq_ack_ok_def wf_packet_def property_def byte0_def property_of_code_def channel_id_def rd8_def)
qed

lemma seq_ack_update:
  assumes "seq_ack_ok a"
  shows "\<exists>a1. set_sequence v a = Some a1 \<and> seq_ack_ok (set_connection_number cn a1)"
proof -
  have a: "m_data a \<noteq> []" "4 \<le> buffer_size a" "m_size a = 4" "property a = ACK" "m_data a ! 3 = 0"
    using assms by (auto simp: seq_ack_ok_def wf_packet_def channel_id_def rd8_def split: if_splits)
  obtain b where b: "wr16 (m_data a) 1 v = Some b" using a(2) by (auto simp: wr16_def wr_bytes_def)
  have len: "length b = buffer_size a" using wr16_length [OF b] .
  have nth: "b ! 0 = m_data a ! 0" "b ! 3 = m_data a ! 3"
    using wr_bytes_nth [OF b [unfolded wr16_def], of 0] wr_bytes_nth [OF b [unfolded wr16_def], of 3] a(1,2) by auto
  have "byte0 (a\<lparr>m_data := b\<rparr>) = byte0 a"
    using nth(1) len a(1) by (intro byte0_cong) auto
  then have "seq_ack_ok (a\<lparr>m_data := b\<rparr>)"
    using a nth(2) len by (auto simp: seq_ack_ok_def wf_packet_def property_def channel_id_def rd8_def)
  moreover have "seq_ack_ok (set_connection_number cn p) \<longleftrightarrow> seq_ack_ok p" for p
    by (cases "m_data p = []") (auto simp: seq_ack_ok_def wf_packet_def packet_simps)
  ultimately show ?thesis using b by (simp add: set_sequence_def set_data_def)
qed

lemma sequenced_inv_new: "sequenced_inv rel i (new_sequenced_channel rel i)"
  using seq_ack_new by (auto simp: sequenced_inv_def new_sequenced_channel_def intro: exI [of _ 0])

lemma sequenced_inv_frame:
  "sequenced_inv rel i (ch\<lparr>m_is_added_to_peer_channel_send_queue := f\<rparr>) = sequenced_inv rel i ch"
  "sequenced_inv rel i (ch\<lparr>m_must_send_ack := m\<rparr>) = sequenced_inv rel i ch"
  "sequenced_inv rel i (ch\<lparr>sq_remote_sequence := s\<rparr>) = sequenced_inv rel i ch"
  by (simp_all add: sequenced_inv_def)

lemma sequenced_inv_add: "sequenced_inv rel i (fst (add_to_peer_channel_send_queue ch)) = sequenced_inv rel i ch"
  by (simp add: add_to_peer_channel_send_queue_def sequenced_inv_frame)

lemma sequenced_inv_add':
  "add_to_peer_channel_send_queue ch = (ch', acts) \<Longrightarrow> sequenced_inv rel i ch \<Longrightarrow> sequenced_inv rel i ch'"
  using sequenced_inv_add [of rel i ch] by simp

lemma sequenced_inv_process:
  assumes inv: "sequenced_inv rel i ch" and "sequenced_process_packet q ch = Some (b, ch', acts)"
  shows "sequenced_inv rel i ch'"
proof (cases "is_fragmented q \<or> property q = ACK")
  case True
  with assms(2) have "ch' = ch \<or> ch' = ch\<lparr>m_last_packet := None\<rparr>"
    by (auto simp: sequenced_process_packet_def sequenced_ack_def bind_eq_Some_conv split: if_splits option.splits)
  with inv show ?thesis by (auto simp: sequenced_inv_def)
next
  case False
  then show ?thesis
    using assms
    by (auto simp: sequenced_process_packet_def bind_eq_Some_conv Let_def split_beta sequenced_inv_frame
        sequenced_inv_add split: if_splits elim!: sequenced_inv_add')
qed

text \<open>Sending always succeeds, and what goes out is a message or the ack packet.\<close>

lemma sequenced_send_ok:
  assumes inv: "sequenced_inv rel i ch" and cn: "cn < 4"
  shows "\<exists>b ch' acts. sequenced_send_next_packets now delay cn ch = Some (b, ch', acts) \<and> sequenced_inv rel i ch' \<and>
     (\<forall>p \<in> set (sent_packets acts). app_packet p \<or> seq_ack_ok p)"
proof -
  obtain n where n: "sq_local_sequence ch = seq_of n" using inv by (auto simp: sequenced_inv_def)
  have q: "list_all app_packet (m_outgoing_queue ch)" using inv by (simp add: sequenced_inv_def)
  have num: "app_packet p \<Longrightarrow> app_packet (set_connection_number cn p)" for p
    by (simp add: app_packet_def wf_packet_def packet_simps)
  have "\<exists>ch1 acts1. (if m_reliable ch \<and> q_empty (m_outgoing_queue ch) then
          Some (if of_int (now - m_last_packet_send_time ch) \<ge> delay * of_int TICKS_PER_MILLISECOND
                then case m_last_packet ch of
                    None \<Rightarrow> (ch, [])
                  | Some lp \<Rightarrow>
                      let lp' = set_connection_number cn lp
                      in (ch\<lparr>m_last_packet_send_time := now, m_last_packet := Some lp'\<rparr>, [Send_user_data lp'])
                else (ch, []))
        else sequenced_drain now cn (m_outgoing_queue ch) ch) = Some (ch1, acts1) \<and> sequenced_inv rel i ch1 \<and>
      (\<forall>p \<in> set (sent_packets acts1). app_packet p)"
  proof (cases "m_reliable ch \<and> q_empty (m_outgoing_queue ch)")
    case True
    with inv num show ?thesis by (auto simp: sequenced_inv_def Let_def split: option.splits)
  next
    case False
    obtain ch1 acts1 where d: "sequenced_drain now cn (m_outgoing_queue ch) ch = Some (ch1, acts1)"
       "m_outgoing_queue ch1 = []" "sq_local_sequence ch1 = seq_of (n + int (length (m_outgoing_queue ch)))"
       "m_reliable ch1 = m_reliable ch" "sq_id ch1 = sq_id ch" "m_ack_packet ch1 = m_ack_packet ch"
       "length (sent_packets acts1) = length (m_outgoing_queue ch)"
       "\<forall>k < length (m_outgoing_queue ch). goes_out (sq_id ch) (n + 1 + int k) (m_outgoing_queue ch ! k) (sent_packets acts1 ! k)"
       "m_last_packet ch1 = (if m_reliable ch \<and> m_outgoing_queue ch \<noteq> [] then Some (last (sent_packets acts1))
          else m_last_packet ch)"
      using sequenced_drain_ok [OF q cn n, of now] by blast
    have app: "\<forall>p \<in> set (sent_packets acts1). app_packet p"
      using d(7,8) by (auto simp: in_set_conv_nth goes_out_def)
    moreover have "sequenced_inv rel i ch1"
    proof -
      have "app_packet (last (sent_packets acts1))" if "m_outgoing_queue ch \<noteq> []"
        using app d(7) that by (metis last_in_set length_0_conv)
      then show ?thesis
        using inv d(2-6) d(9) by (auto simp: sequenced_inv_def split: if_splits)
    qed
    ultimately show ?thesis using False d(1) by auto
  qed
  then obtain ch1 acts1 where 1: "(if m_reliable ch \<and> q_empty (m_outgoing_queue ch) then
          Some (if of_int (now - m_last_packet_send_time ch) \<ge> delay * of_int TICKS_PER_MILLISECOND
                then case m_last_packet ch of
                    None \<Rightarrow> (ch, [])
                  | Some lp \<Rightarrow>
                      let lp' = set_connection_number cn lp
                      in (ch\<lparr>m_last_packet_send_time := now, m_last_packet := Some lp'\<rparr>, [Send_user_data lp'])
                else (ch, []))
        else sequenced_drain now cn (m_outgoing_queue ch) ch) = Some (ch1, acts1)" "sequenced_inv rel i ch1"
      "\<forall>p \<in> set (sent_packets acts1). app_packet p" by blast
  show ?thesis
  proof (cases "m_reliable ch1 \<and> m_must_send_ack ch1")
    case True
    then obtain a where a: "m_ack_packet ch1 = Some a" "seq_ack_ok a" using 1(2) by (auto simp: sequenced_inv_def)
    obtain a1 where a1: "set_sequence (sq_remote_sequence ch1) a = Some a1" "seq_ack_ok (set_connection_number cn a1)"
      using seq_ack_update [OF a(2)] by blast
    let ?ch2 = "ch1\<lparr>m_must_send_ack := False, m_ack_packet := Some (set_connection_number cn a1)\<rparr>"
    have "sequenced_send_next_packets now delay cn ch = Some (m_last_packet ?ch2 \<noteq> None, ?ch2,
        acts1 @ [Send_user_data (set_connection_number cn a1)])"
      unfolding sequenced_send_next_packets_def 1(1) using True a(1) a1(1) by (simp add: Let_def)
    moreover have "sequenced_inv rel i ?ch2" using 1(2) a1(2) by (simp add: sequenced_inv_def)
    ultimately show ?thesis using 1(3) a1(2) by fastforce
  next
    case False
    have "sequenced_send_next_packets now delay cn ch = Some (m_last_packet ch1 \<noteq> None, ch1, acts1)"
      unfolding sequenced_send_next_packets_def 1(1) using False by auto
    then show ?thesis using 1(2,3) by blast
  qed
qed

lemma sequenced_inv_step: "sequenced_step ch ch' \<Longrightarrow> sequenced_inv rel i ch \<Longrightarrow> sequenced_inv rel i ch'"
proof (induction rule: sequenced_step.induct)
  case (seq_enqueue p ch)
  then show ?case
    by (simp add: add_to_queue_def sequenced_inv_add) (simp add: sequenced_inv_def q_push_def)
next
  case (seq_process q ch b ch' acts)
  then show ?case using sequenced_inv_process by blast
next
  case (seq_send now delay cn ch b ch' acts)
  from sequenced_send_ok [OF seq_send.prems seq_send.hyps(2), of now delay] seq_send.hyps(1)
  show ?case by (auto simp: send_and_check_queue_def sequenced_inv_frame split: if_splits)
qed

interpretation sequenced_states: inductive_invariant "\<lambda>ch. ch = new_sequenced_channel rel i" sequenced_step "sequenced_inv rel i"
  for rel i
  using sequenced_inv_new sequenced_inv_step by unfold_locales auto

text \<open>The acks of a reliable sequenced channel do not name the channel: the constructor never writes the
  channel byte of the ack packet, so every ack any reachable state sends carries channel id 0,
  whatever the id of the channel is (3, 7, ...), and the other end hands it to its channel 0.\<close>

lemma sequenced_ack_names_channel_zero:
  assumes "reach (\<lambda>ch. ch = new_sequenced_channel True i) sequenced_step ch" and "cn < 4"
    and "sequenced_send_next_packets now delay cn ch = Some (b, ch', acts)"
    and "p \<in> set (sent_packets acts)" and "property p = ACK"
  shows "channel_id p = Some 0"
proof -
  note inv = sequenced_states.reach_inv [OF assms(1)]
  from sequenced_send_ok [OF inv assms(2), of now delay] assms(3,4)
  have "app_packet p \<or> seq_ack_ok p" by auto
  with assms(5) show ?thesis by (auto simp: app_packet_def seq_ack_ok_def)
qed

text \<open>In every reachable state of a sequenced channel sending succeeds, and so does processing any packet
  of at least the four header bytes.\<close>

lemma sequenced_operations_total:
  assumes "reach (\<lambda>ch. ch = new_sequenced_channel rel i) sequenced_step ch"
    and "cn < 4" "wf_packet q" "4 \<le> m_size q"
  shows "(\<exists>r. sequenced_send_next_packets now delay cn ch = Some r) \<and>
     (\<exists>r. sequenced_process_packet q ch = Some r)"
proof -
  note inv = sequenced_states.reach_inv [OF assms(1)]
  obtain s c where q: "sequence q = Some s" "channel_id q = Some c"
    using assms(3,4) by (auto simp: wf_packet_def sequence_def rd16_def rd_bytes_def channel_id_def rd8_def)
  have lp: "\<exists>s. sequence lp = Some s" if "m_last_packet ch = Some lp" for lp
    using inv that by (auto simp: sequenced_inv_def app_packet_def wf_packet_def sequence_def rd16_def rd_bytes_def)
  have "\<exists>ch' acts. sequenced_ack q ch = Some (ch', acts)"
    using q lp by (cases "m_last_packet ch") (auto simp: sequenced_ack_def)
  then have "\<exists>r. sequenced_process_packet q ch = Some r"
    using q by (auto simp: sequenced_process_packet_def Let_def split_beta)
  then show ?thesis using sequenced_send_ok [OF inv assms(2), of now delay] by blast
qed

text \<open>C37: A reliable sequenced channel keeps its last packet until its number is acknowledged: a packet it
  processes clears it only if it is an unfragmented ack with the same sequence number, and while the
  queue is empty each call of \<open>send_next_packets\<close> keeps it, reports that there is something to send,
  and sends it again once the resend delay has passed.\<close>

theorem sequenced_last_packet_kept:
  assumes "m_reliable ch" "m_last_packet ch = Some lp" "m_data lp \<noteq> []" "cn < 4"
  shows "(\<forall>q b ch' acts. sequenced_process_packet q ch = Some (b, ch', acts) \<and> m_last_packet ch' \<noteq> Some lp \<longrightarrow>
        property q = ACK \<and> \<not> is_fragmented q \<and> sequence q = sequence lp) \<and>
     (\<forall>now b ch' acts. m_outgoing_queue ch = [] \<and> sequenced_send_next_packets now delay cn ch = Some (b, ch', acts) \<longrightarrow>
        b \<and> (\<exists>lp'. m_last_packet ch' = Some lp' \<and> content lp' = content lp \<and> sequence lp' = sequence lp \<and>
          (of_int (now - m_last_packet_send_time ch) \<ge> delay * of_int TICKS_PER_MILLISECOND \<longrightarrow>
             lp' \<in> set (sent_packets acts))))"
proof (intro conjI allI impI)
  fix q b ch' acts
  assume a: "sequenced_process_packet q ch = Some (b, ch', acts) \<and> m_last_packet ch' \<noteq> Some lp"
  have keep: "m_last_packet (fst (add_to_peer_channel_send_queue ch1)) = m_last_packet ch1" for ch1 :: net_sequenced_channel
    by (simp add: add_to_peer_channel_send_queue_def)
  have keep': "m_last_packet ch2 = m_last_packet ch1" if "add_to_peer_channel_send_queue ch1 = (ch2, as)"
    for ch1 ch2 :: net_sequenced_channel and as
    using keep [of ch1] that by simp
  show "property q = ACK" "\<not> is_fragmented q" "sequence q = sequence lp"
    using a assms(1,2)
    by (auto simp: sequenced_process_packet_def sequenced_ack_def bind_eq_Some_conv Let_def split_beta keep
        split: if_splits dest!: keep')
next
  fix now b ch' acts
  assume a: "m_outgoing_queue ch = [] \<and> sequenced_send_next_packets now delay cn ch = Some (b, ch', acts)"
  have "\<exists>lp'. m_last_packet ch' = Some lp' \<and> content lp' = content lp \<and> sequence lp' = sequence lp \<and>
      (of_int (now - m_last_packet_send_time ch) \<ge> delay * of_int TICKS_PER_MILLISECOND \<longrightarrow> lp' \<in> set (sent_packets acts)) \<and> b"
    using a assms
    by (auto simp: sequenced_send_next_packets_def bind_eq_Some_conv Let_def q_empty_def content_number split: if_splits)
  then show "b" "\<exists>lp'. m_last_packet ch' = Some lp' \<and> content lp' = content lp \<and> sequence lp' = sequence lp \<and>
      (of_int (now - m_last_packet_send_time ch) \<ge> delay * of_int TICKS_PER_MILLISECOND \<longrightarrow> lp' \<in> set (sent_packets acts))"
    by blast+
qed

section \<open>Examples\<close>

definition numbered_example :: "u8 \<Rightarrow> net_packet" where
  "numbered_example k = \<lparr>m_data = [1, k, 0, 1, 42, 0, 0, 0], m_size = 5, user_data = None\<rparr>"

lemma numbered_example_app: "app_packet (numbered_example k)"
  by (simp add: app_packet_def numbered_example_def wf_packet_def property_def byte0_def property_of_code_def)

lemma numbered_example_fields:
  "sequence (numbered_example k) = Some (ucast k)" "channel_id (numbered_example k) = Some 1"
  "\<not> is_fragmented (numbered_example k)" "property (numbered_example k) = CHANNELED"
  by (simp_all add: numbered_example_def sequence_def rd16_def rd_bytes_def channel_id_def rd8_def is_fragmented_def
      byte0_def property_def property_of_code_def numeral_eq_Suc)

lemma numbered_example_data:
  "data_packet 1 (numbered_example 1)" "data_packet 2 (numbered_example 2)" "data_packet 3 (numbered_example 3)"
  using numbered_example_app numbered_example_fields
  by (simp_all add: data_packet_def app_packet_def MAX_SEQUENCE_def numbered_example_def)

theorem sequenced_newest_wins_witness:
  "\<exists>ch' acts. sequenced_receive_all [numbered_example 1, numbered_example 3, numbered_example 2]
       (new_sequenced_channel False 1) = Some (ch', acts) \<and>
     received_events acts = [numbered_example 1, numbered_example 3]"
proof -
  let ?xs = "[(1, numbered_example 1), (3, numbered_example 3), (2, numbered_example 2)]"
  have "list_all (\<lambda>(s, q). data_packet s q) ?xs" using numbered_example_data by simp
  moreover have "near 0 ?xs" by (simp add: seq_consts)
  moreover have "sq_remote_sequence (new_sequenced_channel False 1) = word_of_int (seq_of 0)"
    by (simp add: new_sequenced_channel_def)
  ultimately show ?thesis
    using sequenced_newest_wins [of ?xs 0 "new_sequenced_channel False 1"] by auto
qed

lemma sequenced_unreliable_sends_all_witness:
  "\<exists>ch' acts. sequenced_send_next_packets 0 27 2 ((new_sequenced_channel False 1)
       \<lparr>m_outgoing_queue := [numbered_example 7, numbered_example 8]\<rparr>) = Some (False, ch', acts) \<and>
     m_outgoing_queue ch' = [] \<and> length (sent_packets acts) = 2 \<and>
     sequence (sent_packets acts ! 1) = Some 2"
proof -
  let ?ch = "(new_sequenced_channel False 1)\<lparr>m_outgoing_queue := [numbered_example 7, numbered_example 8]\<rparr>"
  have h: "list_all app_packet (m_outgoing_queue ?ch)" "sq_local_sequence ?ch = seq_of 0" "\<not> m_reliable ?ch"
    "m_last_packet ?ch = None"
    using numbered_example_app by (simp_all add: new_sequenced_channel_def)
  obtain ch' acts where "sequenced_send_next_packets 0 27 2 ?ch = Some (False, ch', acts)" "m_outgoing_queue ch' = []"
    "length (sent_packets acts) = 2" "goes_out (sq_id ?ch) (0 + 1 + int 1) (m_outgoing_queue ?ch ! 1) (sent_packets acts ! 1)"
    using sequenced_unreliable_sends_all [OF h(1) _ h(2-4), of 2 0 27] by auto
  then show ?thesis by (auto simp: goes_out_def MAX_SEQUENCE_def)
qed

text \<open>Channel 3 (reliable sequenced) after its first packet: an ack is due.\<close>

lemma example_reliable_sequenced:
  "\<exists>ch acts. sequenced_process_packet (numbered_example 1) (new_sequenced_channel True 3) = Some (True, ch, acts) \<and>
     ch = (new_sequenced_channel True 3)\<lparr>m_is_added_to_peer_channel_send_queue := True, sq_remote_sequence := 1,
             m_must_send_ack := True\<rparr>"
proof -
  have "relative_sequence_number 1 0 = 1" "1 < MAX_SEQUENCE"
    by (simp_all add: relative_sequence_number_def seq_consts)
  then show ?thesis
    by (simp add: sequenced_process_packet_def numbered_example_fields new_sequenced_channel_def Let_def
      add_to_peer_channel_send_queue_def)
qed

lemma sequenced_ack_names_channel_zero_witness:
  "\<exists>ch b ch' p. reach (\<lambda>ch. ch = new_sequenced_channel True 3) sequenced_step ch \<and>
     sequenced_send_next_packets 0 27 2 ch = Some (b, ch', [Send_user_data p]) \<and> property p = ACK \<and>
     sequence p = Some 1 \<and> channel_id p = Some 0"
proof -
  obtain ch acts where p: "sequenced_process_packet (numbered_example 1) (new_sequenced_channel True 3) = Some (True, ch, acts)"
    and ch: "ch = (new_sequenced_channel True 3)\<lparr>m_is_added_to_peer_channel_send_queue := True, sq_remote_sequence := 1,
             m_must_send_ack := True\<rparr>"
    using example_reliable_sequenced by blast
  have "sequenced_step (new_sequenced_channel True 3) ch" by (rule sequenced_step.seq_process [OF p])
  moreover have "reach (\<lambda>ch. ch = new_sequenced_channel True 3) sequenced_step (new_sequenced_channel True 3)"
    by (rule reach_init) simp
  ultimately have r: "reach (\<lambda>ch. ch = new_sequenced_channel True 3) sequenced_step ch"
    by (metis reach_step)
  obtain a where a: "set_sequence 1 (new_packet_with ACK 0) = Some a" "seq_ack_ok (set_connection_number 2 a)"
    using seq_ack_update [OF seq_ack_new] by blast
  have s: "sequenced_send_next_packets 0 27 2 ch = Some (False,
      ch\<lparr>m_must_send_ack := False, m_ack_packet := Some (set_connection_number 2 a)\<rparr>,
      [Send_user_data (set_connection_number 2 a)])"
    by (simp add: sequenced_send_next_packets_def ch new_sequenced_channel_def q_empty_def a(1) Let_def)
  have ack: "property (set_connection_number 2 a) = ACK" using a(2) by (simp add: seq_ack_ok_def)
  have "sequence a = Some 1"
    using a(1) by (auto simp: set_sequence_def set_data_def sequence_def dest: rd16_wr16_same)
  then have "sequence (set_connection_number 2 a) = Some 1" by simp
  moreover have "channel_id (set_connection_number 2 a) = Some 0"
    by (rule sequenced_ack_names_channel_zero [OF r _ s]) (simp_all add: ack)
  ultimately show ?thesis using r s ack by blast
qed

lemma sequenced_operations_total_witness:
  "\<exists>r r'. sequenced_send_next_packets 0 27 0 (new_sequenced_channel True 3) = Some r \<and>
     sequenced_process_packet (numbered_example 1) (new_sequenced_channel True 3) = Some r'"
proof -
  have "reach (\<lambda>ch. ch = new_sequenced_channel True 3) sequenced_step (new_sequenced_channel True 3)"
    by (rule reach_init) simp
  from sequenced_operations_total [OF this, of 0 "numbered_example 1" 0 27]
  show ?thesis using numbered_example_app [of 1] by (auto simp: app_packet_def)
qed

theorem sequenced_last_packet_kept_witness:
  "\<exists>ch' acts. sequenced_send_next_packets 0 27 2
      ((new_sequenced_channel True 3)\<lparr>m_last_packet := Some (numbered_example 9)\<rparr>) = Some (True, ch', acts) \<and>
     (\<exists>lp. m_last_packet ch' = Some lp \<and> sequence lp = Some 9)"
proof -
  let ?ch = "(new_sequenced_channel True 3)\<lparr>m_last_packet := Some (numbered_example 9)\<rparr>"
  have h: "m_reliable ?ch" "m_last_packet ?ch = Some (numbered_example 9)" "m_data (numbered_example 9) \<noteq> []"
    by (simp_all add: new_sequenced_channel_def numbered_example_def)
  have "m_outgoing_queue ?ch = []" by (simp add: new_sequenced_channel_def)
  moreover obtain b ch' acts where s: "sequenced_send_next_packets 0 27 2 ?ch = Some (b, ch', acts)"
    by (simp add: sequenced_send_next_packets_def new_sequenced_channel_def q_empty_def TICKS_PER_MILLISECOND_def)
  ultimately show ?thesis
    using sequenced_last_packet_kept [OF h, of 2 27] numbered_example_fields(1) [of 9] by fastforce
qed

end
