(* ===== verification/Data_Stream.thy ===== *)
theory Data_Stream
  imports Net_Packet "HOL-Library.Log_Nat"
begin

text \<open>
  \<open>net_data_reader\<close> and \<open>net_data_writer\<close>: a cursor over bytes that checks the remaining size,
  and a growing buffer. The growth test of the writer compares the capacity with the size of the
  value alone and not with the position, so a write can leave the buffer: it is \<^const>\<open>None\<close>.
\<close>

section \<open>The reader\<close>

record net_data_reader =
  r_data :: bytes
  r_size :: nat
  r_position :: nat

definition remaining :: "net_data_reader \<Rightarrow> nat" where
  "remaining r = usub (r_size r) (r_position r)"

definition check_boundaries :: "nat \<Rightarrow> net_data_reader \<Rightarrow> bool" where
  "check_boundaries sz r = (usub (r_size r) (r_position r) \<ge> sz)"

definition read_raw :: "nat \<Rightarrow> net_data_reader \<Rightarrow> (bytes \<times> net_data_reader) option" where
  "read_raw sz r = do {
     xs \<leftarrow> rd_bytes (r_data r) (r_position r) sz;
     Some (xs, r\<lparr>r_position := r_position r + sz\<rparr>)
   }"

definition try_read_raw :: "nat \<Rightarrow> net_data_reader \<Rightarrow> (bytes option \<times> net_data_reader) option" where
  "try_read_raw sz r =
     (if \<not> check_boundaries sz r then Some (None, r)
      else do {
        xs \<leftarrow> rd_bytes (r_data r) (r_position r) sz;
        Some (Some xs, r\<lparr>r_position := r_position r + sz\<rparr>)
      })"

definition try_read_u16 :: "net_data_reader \<Rightarrow> (u16 option \<times> net_data_reader) option" where
  "try_read_u16 r = do {
     (xs, r') \<leftarrow> try_read_raw 2 r;
     Some (map_option le_word xs, r')
   }"

definition try_read_i32 :: "net_data_reader \<Rightarrow> (i32 option \<times> net_data_reader) option" where
  "try_read_i32 r = do {
     (xs, r') \<leftarrow> try_read_raw 4 r;
     Some (map_option le_word xs, r')
   }"

definition try_read_string :: "net_data_reader \<Rightarrow> (bytes option \<times> net_data_reader) option" where
  "try_read_string r = do {
     (sz, r') \<leftarrow> try_read_u16 r;
     (case sz of
        None \<Rightarrow> Some (None, r')
      | Some n \<Rightarrow> try_read_raw (unat n) r')
   }"

definition reader_ok :: "net_data_reader \<Rightarrow> bool" where
  "reader_ok r \<longleftrightarrow> r_position r \<le> r_size r \<and> r_size r \<le> length (r_data r)"

lemma try_read_raw_cases:
  assumes "reader_ok r"
  shows "try_read_raw n r =
    (if r_position r + n \<le> r_size r
     then Some (Some (take n (drop (r_position r) (r_data r))), r\<lparr>r_position := r_position r + n\<rparr>)
     else Some (None, r))"
  using assms by (auto simp: try_read_raw_def check_boundaries_def reader_ok_def rd_bytes_def)

lemma try_read_raw_ok: "reader_ok r \<Longrightarrow> try_read_raw n r = Some (x, r') \<Longrightarrow> reader_ok r'"
  by (auto simp: try_read_raw_cases reader_ok_def split: if_splits)

section \<open>The writer\<close>

record net_data_writer =
  w_data :: bytes
  w_position :: nat

definition new_writer :: net_data_writer where
  "new_writer = \<lparr>w_data = [], w_position = 0\<rparr>"

definition writer_reset :: "net_data_writer \<Rightarrow> net_data_writer" where
  "writer_reset w = w\<lparr>w_position := 0\<rparr>"

text \<open>The \<open>do ... while\<close> loop of \<open>ensure\<close>: \<open>cur\<close> is the capacity before an iteration.\<close>

function writer_grow :: "nat \<Rightarrow> nat \<Rightarrow> nat" where
  "writer_grow cur sz =
     (let newSize = (if cur = 0 then 1 else cur); cap = newSize * GROWTH_FACTOR
      in if cap \<le> sz then writer_grow cap sz else cap)"
  by pat_completeness auto
termination
  by (relation "measure (\<lambda>(cur, sz). Suc sz - cur)") (auto simp: GROWTH_FACTOR_def)

declare writer_grow.simps [simp del]

definition writer_ensure :: "nat \<Rightarrow> bytes \<Rightarrow> bytes" where
  "writer_ensure sz bs =
     (if length bs > sz then bs
      else bs @ replicate (writer_grow (length bs) sz - length bs) 0)"

definition write_raw :: "bytes \<Rightarrow> nat \<Rightarrow> nat \<Rightarrow> net_data_writer \<Rightarrow> net_data_writer option" where
  "write_raw src srcOffset sz w =
     (if sz = 0 then Some w
      else do {
        xs \<leftarrow> rd_bytes src srcOffset sz;
        bs \<leftarrow> wr_bytes (writer_ensure sz (w_data w)) (w_position w) xs;
        Some (w\<lparr>w_data := bs, w_position := w_position w + sz\<rparr>)
      })"

definition write_u16 :: "u16 \<Rightarrow> net_data_writer \<Rightarrow> net_data_writer option" where
  "write_u16 v = write_raw (le_bytes 2 v) 0 2"

definition write_i32 :: "i32 \<Rightarrow> net_data_writer \<Rightarrow> net_data_writer option" where
  "write_i32 v = write_raw (le_bytes 4 v) 0 4"

definition write_u8 :: "u8 \<Rightarrow> net_data_writer \<Rightarrow> net_data_writer option" where
  "write_u8 v = write_raw [v] 0 1"

definition write_string :: "bytes \<Rightarrow> net_data_writer \<Rightarrow> net_data_writer option" where
  "write_string str w = do {
     w' \<leftarrow> write_u16 (of_nat (length str)) w;
     write_raw str 0 (length str) w'
   }"

primrec write_all :: "('t \<Rightarrow> net_data_writer \<Rightarrow> net_data_writer option) \<Rightarrow> 't list
    \<Rightarrow> net_data_writer \<Rightarrow> net_data_writer option" where
  "write_all wr [] w = Some w"
| "write_all wr (v # vs) w = do { w' \<leftarrow> wr v w; write_all wr vs w' }"

definition write_vector :: "('t \<Rightarrow> net_data_writer \<Rightarrow> net_data_writer option) \<Rightarrow> 't list
    \<Rightarrow> net_data_writer \<Rightarrow> net_data_writer option" where
  "write_vector wr vec w = do {
     w' \<leftarrow> write_u16 (of_nat (length vec)) w;
     write_all wr vec w'
   }"

lemma writer_grow_unfold:
  "writer_grow cur sz =
     (if max 1 cur * 2 \<le> sz then writer_grow (max 1 cur * 2) sz else max 1 cur * 2)"
  by (subst writer_grow.simps) (auto simp: Let_def GROWTH_FACTOR_def max_def)

lemma writer_grow_bounds: "sz < writer_grow cur sz \<and> cur \<le> writer_grow cur sz"
proof (induction "Suc sz - cur" arbitrary: cur rule: less_induct)
  case less
  show ?case
  proof (cases "max 1 cur * 2 \<le> sz")
    case True
    then have "Suc sz - max 1 cur * 2 < Suc sz - cur" by simp
    then have "sz < writer_grow (max 1 cur * 2) sz \<and> max 1 cur * 2 \<le> writer_grow (max 1 cur * 2) sz"
      by (rule less)
    with True show ?thesis by (subst (1 2) writer_grow_unfold) auto
  next
    case False
    then show ?thesis by (subst (1 2) writer_grow_unfold) auto
  qed
qed

lemma writer_ensure_length: "sz < length (writer_ensure sz bs)" "length bs \<le> length (writer_ensure sz bs)"
  using writer_grow_bounds [of sz "length bs"] by (auto simp: writer_ensure_def)

lemma writer_ensure_take: "n \<le> length bs \<Longrightarrow> take n (writer_ensure sz bs) = take n bs"
  by (simp add: writer_ensure_def)

definition written :: "net_data_writer \<Rightarrow> bytes" where
  "written w = take (w_position w) (w_data w)"

definition writer_ok :: "net_data_writer \<Rightarrow> bool" where
  "writer_ok w \<longleftrightarrow> w_position w \<le> length (w_data w)"

text \<open>A write either appends its bytes to what was written before or leaves the buffer.\<close>

lemma write_raw_defined_iff:
  "(\<exists>w'. write_raw xs 0 (length xs) w = Some w') \<longleftrightarrow>
     xs = [] \<or> w_position w + length xs \<le> length (writer_ensure (length xs) (w_data w))"
  by (auto simp: write_raw_def wr_bytes_def rd_bytes_def)

lemma write_raw_written:
  assumes ok: "writer_ok w" and wr: "write_raw xs 0 (length xs) w = Some w'"
  shows "written w' = written w @ xs \<and> writer_ok w' \<and> w_position w' = w_position w + length xs"
proof (cases "xs = []")
  case True
  with wr ok show ?thesis by (simp add: write_raw_def)
next
  case False
  let ?bs = "writer_ensure (length xs) (w_data w)"
  from False wr have fit: "w_position w + length xs \<le> length ?bs"
    and w': "w' = w\<lparr>w_data := take (w_position w) ?bs @ xs @ drop (w_position w + length xs) ?bs,
                   w_position := w_position w + length xs\<rparr>"
    by (auto simp: write_raw_def wr_bytes_def rd_bytes_def split: if_splits)
  have "take (w_position w) ?bs = written w"
    using ok by (simp add: written_def writer_ok_def writer_ensure_take)
  with fit w' ok show ?thesis
    by (simp add: written_def writer_ok_def)
qed

text \<open>A write to a well-formed writer appends exactly the bytes it was given and moves the position
  by their number; the only other outcome is that the position plus the size leaves the capacity
  \<open>ensure\<close> made, which is an access outside the buffer.\<close>

lemma write_raw_appends:
  assumes "writer_ok w"
  shows "case write_raw xs 0 (length xs) w of
           None \<Rightarrow> length (writer_ensure (length xs) (w_data w)) < w_position w + length xs
         | Some w' \<Rightarrow> written w' = written w @ xs \<and> writer_ok w' \<and>
             w_position w' = w_position w + length xs"
proof (cases "write_raw xs 0 (length xs) w")
  case None
  then have "\<not> (xs = [] \<or> w_position w + length xs \<le> length (writer_ensure (length xs) (w_data w)))"
    using write_raw_defined_iff [of xs w] by auto
  with None show ?thesis by simp
next
  case (Some w')
  with write_raw_written [OF assms Some] show ?thesis by simp
qed

lemma writer_grow_power:
  "2 ^ j \<le> n \<Longrightarrow> \<exists>k. j < k \<and> writer_grow (2 ^ j) n = 2 ^ k \<and> 2 ^ (k - 1) \<le> n \<and> n < 2 ^ k"
proof (induction "Suc n - 2 ^ j" arbitrary: j rule: less_induct)
  case less
  have unfold: "writer_grow (2 ^ j) n = (if 2 ^ Suc j \<le> n then writer_grow (2 ^ Suc j) n else 2 ^ Suc j)"
    by (subst writer_grow_unfold) (simp add: max_absorb2 mult.commute)
  show ?case
  proof (cases "2 ^ Suc j \<le> n")
    case True
    have "Suc n - 2 ^ Suc j < Suc n - 2 ^ j"
      using True less.prems by (intro diff_less_mono2) (auto simp: power_strict_increasing_iff)
    from less.hyps [OF this True] True unfold show ?thesis
      by (auto intro: Suc_lessD)
  next
    case False
    with less.prems unfold show ?thesis by (intro exI [of _ "Suc j"]) auto
  qed
qed

lemma fresh_after_u16: "write_u16 v new_writer = Some \<lparr>w_data = le_bytes 2 v @ [0, 0], w_position = 2\<rparr>"
proof -
  have "writer_grow 0 2 = 4"
    by (subst writer_grow_unfold, simp, subst writer_grow_unfold, simp)
  then show ?thesis
    by (simp add: write_u16_def write_raw_def rd_bytes_def new_writer_def writer_ensure_def wr_bytes_def)
       (simp add: numeral_nat)
qed

text \<open>The first string written to a fresh writer runs past the buffer exactly when its length plus one is a power of
  two from 4 on (3, 7, 15, ... characters).\<close>

lemma fresh_string_overflow_iff:
  "write_string s new_writer = None \<longleftrightarrow> (\<exists>k. length s + 1 = 2 ^ k \<and> 2 \<le> k)"
proof -
  let ?n = "length s" and ?w = "\<lparr>w_data = le_bytes 2 (of_nat (length s) :: u16) @ [0, 0], w_position = 2\<rparr>"
  let ?cap = "if 4 > ?n then 4 else writer_grow 4 ?n"
  have cap: "length (writer_ensure ?n (w_data ?w)) = ?cap"
    using writer_grow_bounds [of ?n 4] by (auto simp: writer_ensure_def)
  have "write_string s new_writer = None \<longleftrightarrow> \<not> (s = [] \<or> 2 + ?n \<le> ?cap)"
  proof -
    have "write_string s new_writer = write_raw s 0 ?n ?w"
      by (simp add: write_string_def fresh_after_u16)
    then have "write_string s new_writer = None \<longleftrightarrow> \<not> (\<exists>w'. write_raw s 0 ?n ?w = Some w')"
      by simp
    then show ?thesis using cap by (simp only: write_raw_defined_iff net_data_writer.select_convs)
  qed
  also have "\<dots> \<longleftrightarrow> (\<exists>k. ?n + 1 = 2 ^ k \<and> 2 \<le> k)"
  proof (cases "?n < 4")
    case True
    have "4 \<le> (2 :: nat) ^ k" if "2 \<le> k" for k
      using power_increasing [OF that, of "2 :: nat"] by simp
    then have "(\<exists>k. ?n + 1 = 2 ^ k \<and> 2 \<le> k) \<longleftrightarrow> ?n = 3"
      using True by (fastforce intro: exI [of _ "2 :: nat"])
    with True show ?thesis by auto
  next
    case False
    then obtain k where k: "2 < k" "writer_grow 4 ?n = 2 ^ k" "2 ^ (k - 1) \<le> ?n" "?n < 2 ^ k"
      using writer_grow_power [of 2 ?n] by auto
    have "j = k" if "?n + 1 = 2 ^ j" for j
    proof -
      have "(2::nat) ^ (k - 1) < 2 ^ j" "(2::nat) ^ j \<le> 2 ^ k" using k that by linarith+
      then have "k - 1 < j" "j \<le> k" by simp_all
      then show ?thesis by simp
    qed
    with k False show ?thesis by (auto simp: intro!: exI [of _ k])
  qed
  finally show ?thesis .
qed

text \<open>The capacity of a writer is 0 or a power of two, as it starts empty and only ever doubles.\<close>

definition writer_capacity :: "net_data_writer \<Rightarrow> bool" where
  "writer_capacity w \<longleftrightarrow> w_data w = [] \<or> (\<exists>j. length (w_data w) = 2 ^ j)"

lemma floorlog_unique: "2 ^ (k - 1) \<le> n \<Longrightarrow> n < 2 ^ k \<Longrightarrow> 0 < k \<Longrightarrow> floorlog 2 n = k"
proof -
  assume k: "2 ^ (k - 1) \<le> n" "n < 2 ^ k" "0 < k"
  then have "0 < n" using order.strict_trans2 [of 0 "2 ^ (k - 1)" n] by simp
  then have f: "2 ^ (floorlog 2 n - 1) \<le> n" "n < 2 ^ floorlog 2 n" "0 < floorlog 2 n" using floorlog_bounds [of n 2] floorlog_eq_zero_iff [of 2 n] by auto
  have "(2 :: nat) ^ (k - 1) < 2 ^ floorlog 2 n" "(2 :: nat) ^ (floorlog 2 n - 1) < 2 ^ k" using k f by linarith+
  then have "k - 1 < floorlog 2 n" "floorlog 2 n - 1 < k" by simp_all
  then show ?thesis using k(3) f(3) by linarith
qed

lemma grown_capacity:
  "2 ^ j \<le> n \<Longrightarrow> writer_grow (2 ^ j) n = 2 ^ floorlog 2 n"
  using writer_grow_power [of j n] floorlog_unique by (metis gr_zeroI not_less_zero)

lemma ensured_capacity:
  assumes "length bs = 2 ^ j" shows "length (writer_ensure n bs) = (if n < 2 ^ j then 2 ^ j else 2 ^ floorlog 2 n)"
  using assms grown_capacity [of j n] writer_grow_bounds [of n "2 ^ j"] by (auto simp: writer_ensure_def)

lemma ensured_two:
  assumes "writer_capacity w" shows "\<exists>j. length (writer_ensure 2 (w_data w)) = 2 ^ j \<and> 2 ^ j = max 4 (length (w_data w))"
proof (cases "w_data w = []")
  case True
  have "writer_grow 0 2 = 4" by (subst writer_grow_unfold, simp, subst writer_grow_unfold, simp)
  then show ?thesis using True by (intro exI [of _ 2]) (simp add: writer_ensure_def)
next
  case False
  then obtain j where j: "length (w_data w) = 2 ^ j" using assms by (auto simp: writer_capacity_def)
  show ?thesis
  proof (cases "2 < (2 :: nat) ^ j")
    case True
    then have "2 ^ 1 < (2 :: nat) ^ j" by simp
    then have "1 < j" by (rule power_less_imp_less_exp [rotated]) simp
    then have "(2 :: nat) ^ 2 \<le> 2 ^ j" by (intro power_increasing) simp_all
    then show ?thesis using True ensured_capacity [OF j, of 2] j by (intro exI [of _ j]) simp
  next
    case small: False
    have "floorlog 2 2 = 2" by (rule floorlog_unique) simp_all
    then show ?thesis using small ensured_capacity [OF j, of 2] j by (intro exI [of _ 2]) simp
  qed
qed

lemma write_raw_capacity:
  assumes "write_raw xs off n w = Some w'" "writer_capacity w" shows "writer_capacity w'"
proof (cases "n = 0")
  case False
  then have l: "length (w_data w') = length (writer_ensure n (w_data w))"
    using assms(1) by (auto simp: write_raw_def wr_bytes_def rd_bytes_def split: if_splits)
  have "\<exists>j. length (writer_ensure n (w_data w)) = 2 ^ j"
  proof (cases "w_data w = []")
    case True
    have "writer_grow 0 n = 2 * 1 \<or> writer_grow 0 n = writer_grow (2 ^ 1) n \<and> 2 ^ 1 \<le> n" by (subst (1 2) writer_grow_unfold) auto
    then have "\<exists>j. writer_grow 0 n = 2 ^ j" using grown_capacity [of 1 n] by (metis mult.right_neutral power_one_right)
    then show ?thesis using True by (simp add: writer_ensure_def)
  next
    case False
    then show ?thesis using assms(2) ensured_capacity [of "w_data w" _ n] by (auto simp: writer_capacity_def)
  qed
  with l show ?thesis by (simp add: writer_capacity_def)
qed (use assms in \<open>simp add: write_raw_def\<close>)

lemma reset_capacity: "writer_capacity new_writer" "writer_capacity w \<Longrightarrow> writer_capacity (writer_reset w)"
  by (simp_all add: writer_capacity_def new_writer_def writer_reset_def)

text \<open>C38: The growth test of the writer ignores the position. Exactly when a string write runs past the buffer, for any
  well-formed writer whose capacity is 0 or a power of two, as that of every writer is (\<open>write_raw_capacity\<close>,
  \<open>reset_capacity\<close>): when the two bytes of the length do not fit a capacity of at least 4, or when the string is not empty and does
  not fit, behind the length, the capacity that the length of the string alone asks for.\<close>

theorem write_string_overflow_iff:
  assumes "writer_ok w" "writer_capacity w"
  shows "write_string s w = None \<longleftrightarrow>
    (let c = max 4 (length (w_data w))
     in c < w_position w + 2 \<or>
        s \<noteq> [] \<and> (if length s < c then c else 2 ^ floorlog 2 (length s)) < w_position w + 2 + length s)"
proof -
  let ?c = "max 4 (length (w_data w))" and ?hd = "le_bytes 2 (of_nat (length s) :: u16)"
  obtain j where j: "length (writer_ensure 2 (w_data w)) = 2 ^ j" "2 ^ j = ?c" using ensured_two [OF assms(2)] by blast
  have hd: "length ?hd = 2" "?hd \<noteq> []" by (simp_all flip: length_greater_0_conv)
  have u: "write_string s w = write_raw ?hd 0 (length ?hd) w \<bind> write_raw s 0 (length s)"
    by (simp add: write_string_def write_u16_def)
  show ?thesis
  proof (cases "write_raw ?hd 0 (length ?hd) w")
    case None
    then have "?c < w_position w + 2" using write_raw_defined_iff [of ?hd w] hd j by auto
    then show ?thesis unfolding u None by (simp add: Let_def)
  next
    case (Some w1)
    have fit: "\<not> ?c < w_position w + 2" using write_raw_defined_iff [of ?hd w] Some hd j by auto
    have p: "w_position w1 = w_position w + 2" using write_raw_written [OF assms(1) Some] hd by simp
    have "length (w_data w1) = length (writer_ensure 2 (w_data w))"
      using Some hd by (auto simp: write_raw_def wr_bytes_def rd_bytes_def split: if_splits)
    then have "length (w_data w1) = 2 ^ j" using j(1) by simp
    then have "length (writer_ensure (length s) (w_data w1)) = (if length s < ?c then ?c else 2 ^ floorlog 2 (length s))"
      unfolding j(2) [symmetric] by (rule ensured_capacity)
    then have "write_raw s 0 (length s) w1 = None \<longleftrightarrow>
        s \<noteq> [] \<and> (if length s < ?c then ?c else 2 ^ floorlog 2 (length s)) < w_position w + 2 + length s"
      using write_raw_defined_iff [of s w1] p by (cases "write_raw s 0 (length s) w1") (simp_all add: not_less)
    then show ?thesis unfolding u Some bind.bind_lunit Let_def using fit by blast
  qed
qed

theorem write_string_overflow_iff_witness:
  "write_string [1, 2, 3] \<lparr>w_data = [0, 0, 0, 0], w_position = 0\<rparr> = None \<and> write_string [1, 2] \<lparr>w_data = [0, 0, 0, 0], w_position = 0\<rparr> \<noteq> None"
proof -
  let ?w = "\<lparr>w_data = [0, 0, 0, 0], w_position = 0\<rparr> :: net_data_writer"
  have "writer_ok ?w" "writer_capacity ?w" by (auto simp: writer_ok_def writer_capacity_def intro: exI [of _ 2])
  from write_string_overflow_iff [OF this, of "[1, 2, 3]"] write_string_overflow_iff [OF this, of "[1, 2]"]
  show ?thesis by (simp add: Let_def)
qed

text \<open>C30: A string of less than 65536 bytes that was written by \<open>write\<close> is what \<open>try_read\<close> gives back when
  it reads from the position where the write began, and the reader stops where the writer did.\<close>

theorem string_roundtrip:
  assumes ok: "writer_ok w" and len: "length s < 2 ^ 16" and wr: "write_string s w = Some w'"
  shows "try_read_string \<lparr>r_data = w_data w', r_size = w_position w', r_position = w_position w\<rparr> =
     Some (Some s, \<lparr>r_data = w_data w', r_size = w_position w', r_position = w_position w'\<rparr>)"
proof -
  let ?hd = "le_bytes 2 (of_nat (length s) :: u16)"
  from wr obtain w1 where w1: "write_raw ?hd 0 (length ?hd) w = Some w1"
    "write_raw s 0 (length s) w1 = Some w'"
    by (auto simp: write_string_def write_u16_def split: Option.bind_splits)
  note A = write_raw_written [OF ok w1(1)]
  then have ok1: "writer_ok w1" by simp
  note B = write_raw_written [OF ok1 w1(2)]
  have all: "written w' = written w @ ?hd @ s" and pos: "w_position w' = w_position w + 2 + length s"
    using A B by simp_all
  have lw: "length (written w) = w_position w" using ok by (simp add: written_def writer_ok_def)
  have pre: "prefix (written w @ ?hd @ s) (w_data w')"
    using all by (metis written_def take_is_prefix)
  have "r_position r + n \<le> length (written w @ ?hd @ s) \<Longrightarrow>
     rd_bytes (w_data w') (r_position r) n = Some (take n (drop (r_position r) (written w @ ?hd @ s)))" for r :: net_data_reader and n
    using pre by (auto simp: rd_bytes_def prefix_def)
  note rd = this [of "\<lparr>r_data = [], r_size = 0, r_position = p\<rparr>" for p, simplified]
  have "unat (of_nat (length s) :: u16) = length s"
    using len by (simp add: unat_of_nat take_bit_nat_eq_self)
  then show ?thesis
    using rd [of "w_position w" 2] rd [of "w_position w + 2" "length s"] lw pos
    by (simp add: try_read_string_def try_read_u16_def try_read_raw_def check_boundaries_def)
qed

text \<open>On a reader whose position lies in its data, \<open>try_read\<close> of a string never leaves the buffer and
  keeps the reader well formed; on success it returns the bytes behind the two length bytes, on
  failure the position is where it was or behind the length bytes.\<close>

lemma try_read_string_safe:
  assumes "reader_ok r"
  shows "\<exists>x r'. try_read_string r = Some (x, r') \<and> reader_ok r' \<and> r_data r' = r_data r \<and>
     (case x of Some s \<Rightarrow> r_position r' = r_position r + 2 + length s \<and>
          s = take (length s) (drop (r_position r + 2) (r_data r))
      | None \<Rightarrow> r_position r' = r_position r \<or> r_position r' = r_position r + 2)"
proof (cases "r_position r + 2 \<le> r_size r")
  case False
  with assms show ?thesis
    by (simp add: try_read_string_def try_read_u16_def try_read_raw_cases)
next
  case True
  let ?r1 = "r\<lparr>r_position := r_position r + 2\<rparr>"
  have ok1: "reader_ok ?r1" using assms True by (simp add: reader_ok_def)
  with assms True show ?thesis
    by (auto simp: try_read_string_def try_read_u16_def try_read_raw_cases reader_ok_def min_def)
qed
lemma write_raw_appends_witness:
  "writer_ok new_writer \<and>
   (\<exists>w'. write_raw [1, 2, 3] 0 3 new_writer = Some w' \<and> written w' = [1, 2, 3])"
proof -
  have ok: "writer_ok new_writer" by (simp add: writer_ok_def new_writer_def)
  have grow: "writer_grow 0 3 = 4"
    by (subst writer_grow_unfold, simp, subst writer_grow_unfold, simp)
  show ?thesis
    using write_raw_appends [OF ok, of "[1, 2, 3]"] ok grow
    by (auto simp: new_writer_def written_def writer_ensure_def numeral_3_eq_3 split: option.splits)
qed

theorem string_roundtrip_witness:
  "\<exists>w'. write_string [104, 105] new_writer = Some w' \<and>
     try_read_string \<lparr>r_data = w_data w', r_size = w_position w', r_position = 0\<rparr> =
       Some (Some [104, 105], \<lparr>r_data = w_data w', r_size = w_position w', r_position = w_position w'\<rparr>)"
proof -
  have ok: "writer_ok new_writer" by (simp add: writer_ok_def new_writer_def)
  obtain w' where w': "write_string [104, 105] new_writer = Some w'"
    by (simp add: write_string_def fresh_after_u16 write_raw_def rd_bytes_def wr_bytes_def
        writer_ensure_def)
  show ?thesis
    using string_roundtrip [OF ok _ w'] w' by (simp add: new_writer_def)
qed

lemma try_read_string_safe_witness:
  "\<exists>x r'. try_read_string \<lparr>r_data = [1, 0, 7], r_size = 3, r_position = 0\<rparr> = Some (x, r') \<and> reader_ok r'"
  using try_read_string_safe [of "\<lparr>r_data = [1, 0, 7], r_size = 3, r_position = 0\<rparr>"]
  by (auto simp: reader_ok_def)

end
