(* ===== verification/Connect_Packets.thy ===== *)
theory Connect_Packets
  imports Data_Stream
begin

text \<open>
  Addresses (\<open>net_address.h\<close>) and the two packets of the handshake: the connect request
  (\<open>net_connect_request_packet.h\<close>) and the connect accept (\<open>net_connect_accept_packet.h/.cpp\<close>).
  A \<open>sockaddr_in\<close> is 16 bytes: family, port and IPv4 address as stored (port and address in
  network byte order) and eight bytes of padding. \<open>inet_ntop\<close> and \<open>getaddrinfo\<close> are arguments.
\<close>

section \<open>Addresses\<close>

record sockaddr_in =
  sin_family :: u16
  sin_port :: u16
  s_addr :: i32
  sin_zero :: i64

definition AF_INET :: u16 where "AF_INET = 2"

definition zero_sockaddr :: sockaddr_in where
  "zero_sockaddr = \<lparr>sin_family = 0, sin_port = 0, s_addr = 0, sin_zero = 0\<rparr>"

definition encode_sockaddr :: "sockaddr_in \<Rightarrow> bytes" where
  "encode_sockaddr a =
     le_bytes 2 (sin_family a) @ le_bytes 2 (sin_port a) @ le_bytes 4 (s_addr a) @ le_bytes 8 (sin_zero a)"

definition decode_sockaddr :: "bytes \<Rightarrow> sockaddr_in" where
  "decode_sockaddr bs =
     \<lparr>sin_family = le_word (take 2 bs), sin_port = le_word (take 2 (drop 2 bs)),
      s_addr = le_word (take 4 (drop 4 bs)), sin_zero = le_word (take 8 (drop 8 bs))\<rparr>"

lemma length_encode_sockaddr [simp]: "length (encode_sockaddr a) = 16"
  by (simp add: encode_sockaddr_def)

lemma decode_encode_sockaddr [simp]: "decode_sockaddr (encode_sockaddr a) = a"
  by (simp add: decode_sockaddr_def encode_sockaddr_def)

definition htons :: "u16 \<Rightarrow> u16" where
  "htons v = push_bit 8 v OR drop_bit 8 v"

definition set_port :: "u16 \<Rightarrow> sockaddr_in \<Rightarrow> sockaddr_in" where
  "set_port p a = a\<lparr>sin_port := htons p\<rparr>"

definition port :: "sockaddr_in \<Rightarrow> u16" where
  "port a = htons (sin_port a)"

text \<open>The result list of \<open>getaddrinfo\<close>; \<open>None\<close> is a failed lookup, which leaves the address.\<close>

definition set_address :: "(string \<Rightarrow> sockaddr_in list option) \<Rightarrow> string \<Rightarrow> sockaddr_in \<Rightarrow> sockaddr_in" where
  "set_address getaddrinfo name a =
     (let oldPort = port a
      in case getaddrinfo name of
           None \<Rightarrow> a
         | Some result \<Rightarrow>
             set_port oldPort
               (case find (\<lambda>r. sin_family r = AF_INET) result of None \<Rightarrow> a | Some r \<Rightarrow> r))"

definition address_eq :: "sockaddr_in \<Rightarrow> sockaddr_in \<Rightarrow> bool" where
  "address_eq other this \<longleftrightarrow>
     s_addr other = s_addr this \<and> sin_port other = sin_port this \<and> sin_family other = sin_family this"

definition address_hash :: "sockaddr_in \<Rightarrow> i64" where
  "address_hash key = push_bit 32 (ucast (s_addr key)) OR ucast (sin_port key)"

lemma htons_htons [simp]: "htons (htons v) = v"
  by (rule bit_word_eqI) (auto simp: htons_def bit_simps)

lemma port_set_port [simp]: "port (set_port p a) = p"
  by (simp add: port_def set_port_def)

section \<open>Connect requests\<close>

record net_connect_request_packet =
  cr_connection_time :: i64
  cr_connection_number :: u8
  cr_target_address :: sockaddr_in
  cr_data :: net_data_reader
  cr_peer_id :: i32
  cr_packet :: "net_packet option"

definition get_protocol_id :: "net_packet \<Rightarrow> i32 option" where
  "get_protocol_id p = rd32 (m_data p) 1"

definition connect_request_from_data :: "net_packet \<Rightarrow> net_connect_request_packet option option" where
  "connect_request_from_data p =
     (if connection_number p \<ge> MAX_CONNECTION_NUMBER then Some None
      else do {
        connectionTime \<leftarrow> rd64 (m_data p) 5;
        peerId \<leftarrow> rd32 (m_data p) 13;
        addrSize \<leftarrow> rd8 (m_data p) (CONNECT_REQUEST_HEADER_SIZE - 1);
        if addrSize \<noteq> 16 then Some None
        else do {
          target \<leftarrow> rd_bytes (m_data p) CONNECT_REQUEST_HEADER_SIZE 16;
          Some (Some
            \<lparr>cr_connection_time = connectionTime,
             cr_connection_number = connection_number p,
             cr_target_address = decode_sockaddr target,
             cr_data = \<lparr>r_data = m_data p, r_size = m_size p,
                        r_position = CONNECT_REQUEST_HEADER_SIZE + unat addrSize\<rparr>,
             cr_peer_id = peerId,
             cr_packet = Some p\<rparr>)
        }
      })"

definition connect_request_make ::
  "net_data_writer \<Rightarrow> sockaddr_in \<Rightarrow> i64 \<Rightarrow> i32 \<Rightarrow> net_packet option" where
  "connect_request_make connectData address connectTime localId = do {
     let p0 = new_packet_with CONNECT_REQUEST (w_position connectData + 16);
     p1 \<leftarrow> set_i32_at PROTOCOL_ID 1 p0;
     p2 \<leftarrow> set_i64_at connectTime 5 p1;
     p3 \<leftarrow> set_i32_at localId 13 p2;
     p4 \<leftarrow> set_u8_at 16 (CONNECT_REQUEST_HEADER_SIZE - 1) p3;
     p5 \<leftarrow> set_data p4 (wr_bytes (m_data p4) CONNECT_REQUEST_HEADER_SIZE (encode_sockaddr address));
     copy_from (w_data connectData) 0 (CONNECT_REQUEST_HEADER_SIZE + 16) (w_position connectData) p5
   }"

section \<open>Connect accepts\<close>

record net_connect_accept_packet =
  ca_connection_time :: i64
  ca_connection_number :: u8
  ca_peer_id :: i32
  ca_peer_network_changed :: bool

text \<open>\<open>set_value_at<uint8_t>(localPeerId, 11)\<close> stores one byte of the id.\<close>

definition connect_accept_make :: "i64 \<Rightarrow> u8 \<Rightarrow> i32 \<Rightarrow> net_packet option" where
  "connect_accept_make connectTime connectNum localPeerId = do {
     let p0 = new_packet_with CONNECT_ACCEPT 0;
     p1 \<leftarrow> set_i64_at connectTime 1 p0;
     p2 \<leftarrow> set_u8_at connectNum 9 p1;
     p3 \<leftarrow> set_u8_at 0 10 p2;
     set_u8_at (ucast localPeerId) 11 p3
   }"

definition make_network_changed :: "i64 \<Rightarrow> u8 \<Rightarrow> i32 \<Rightarrow> net_packet option" where
  "make_network_changed connect_time connect_number remote_id = do {
     let p0 = new_packet_with PEER_NOT_FOUND (CONNECT_ACCEPT_HEADER_SIZE - 1);
     p1 \<leftarrow> set_i64_at connect_time 1 p0;
     p2 \<leftarrow> set_u8_at connect_number 9 p1;
     p3 \<leftarrow> set_u8_at 1 10 p2;
     set_i32_at remote_id 11 p3
   }"

definition connect_accept_from_data :: "net_packet \<Rightarrow> net_connect_accept_packet option option" where
  "connect_accept_from_data p =
     (if m_size p \<noteq> CONNECT_ACCEPT_HEADER_SIZE then Some None
      else do {
        connectionTime \<leftarrow> rd64 (m_data p) 1;
        connectionNumber \<leftarrow> rd8 (m_data p) 9;
        if connectionNumber \<ge> MAX_CONNECTION_NUMBER then Some None
        else do {
          isReused \<leftarrow> rd8 (m_data p) 10;
          if isReused > 1 then Some None
          else do {
            peerId \<leftarrow> rd32 (m_data p) 11;
            if peerId <s 0 then Some None
            else Some (Some
              \<lparr>ca_connection_time = connectionTime, ca_connection_number = connectionNumber,
               ca_peer_id = peerId, ca_peer_network_changed = (isReused = 1)\<rparr>)
          }
        }
      })"

section \<open>Layout of the two packets\<close>

lemma connect_request_layout:
  assumes ok: "writer_ok w"
  shows "\<exists>p. connect_request_make w addr t i = Some p \<and> m_size p = 34 + w_position w \<and>
     m_size p \<le> buffer_size p \<and> user_data p = None \<and>
     prefix ([5] @ le_bytes 4 PROTOCOL_ID @ le_bytes 8 t @ le_bytes 4 i @ [16] @ encode_sockaddr addr
       @ written w) (m_data p)"
proof -
  let ?n = "w_position w"
  let ?p0 = "new_packet_with CONNECT_REQUEST (?n + 16)"
  have len: "34 + ?n \<le> buffer_size ?p0"
    using grow_bounds(2) [of "?n + 34" 0] by (simp add: add.commute)
  have hd: "prefix [5] (m_data ?p0)"
    using new_packet_with_head [of "?n + 16" CONNECT_REQUEST] by (simp add: named_property_def)
  obtain p1 where p1: "set_i32_at PROTOCOL_ID 1 ?p0 = Some p1"
    "prefix ([5] @ le_bytes 4 PROTOCOL_ID) (m_data p1)"
    "m_size p1 = m_size ?p0" "user_data p1 = user_data ?p0" "buffer_size p1 = buffer_size ?p0"
    using set_data_wr_prefix [OF hd, of 1 "le_bytes 4 PROTOCOL_ID"] len
    by (auto simp: set_i32_at_def wr32_def)
  obtain p2 where p2: "set_i64_at t 5 p1 = Some p2"
    "prefix (([5] @ le_bytes 4 PROTOCOL_ID) @ le_bytes 8 t) (m_data p2)"
    "m_size p2 = m_size p1" "user_data p2 = user_data p1" "buffer_size p2 = buffer_size p1"
    using set_data_wr_prefix [OF p1(2), of 5 "le_bytes 8 t"] len p1(5)
    by (auto simp: set_i64_at_def wr64_def)
  obtain p3 where p3: "set_i32_at i 13 p2 = Some p3"
    "prefix ((([5] @ le_bytes 4 PROTOCOL_ID) @ le_bytes 8 t) @ le_bytes 4 i) (m_data p3)"
    "m_size p3 = m_size p2" "user_data p3 = user_data p2" "buffer_size p3 = buffer_size p2"
    using set_data_wr_prefix [OF p2(2), of 13 "le_bytes 4 i"] len p1(5) p2(5)
    by (auto simp: set_i32_at_def wr32_def)
  obtain p4 where p4: "set_u8_at 16 17 p3 = Some p4"
    "prefix (((([5] @ le_bytes 4 PROTOCOL_ID) @ le_bytes 8 t) @ le_bytes 4 i) @ [16]) (m_data p4)"
    "m_size p4 = m_size p3" "user_data p4 = user_data p3" "buffer_size p4 = buffer_size p3"
    using set_u8_at_prefix [OF p3(2), of 17 16] len p1(5) p2(5) p3(5) by auto
  obtain p5 where p5: "set_data p4 (wr_bytes (m_data p4) 18 (encode_sockaddr addr)) = Some p5"
    "prefix ((((([5] @ le_bytes 4 PROTOCOL_ID) @ le_bytes 8 t) @ le_bytes 4 i) @ [16])
        @ encode_sockaddr addr) (m_data p5)"
    "m_size p5 = m_size p4" "user_data p5 = user_data p4" "buffer_size p5 = buffer_size p4"
    using set_data_wr_prefix [OF p4(2), of 18 "encode_sockaddr addr"] len p1(5) p2(5) p3(5) p4(5) by auto
  have wlen: "length (written w) = ?n" using ok by (simp add: written_def writer_ok_def)
  obtain p6 where p6: "copy_from (w_data w) 0 34 ?n p5 = Some p6"
    "prefix (((((([5] @ le_bytes 4 PROTOCOL_ID) @ le_bytes 8 t) @ le_bytes 4 i) @ [16])
        @ encode_sockaddr addr) @ written w) (m_data p6)"
    "m_size p6 = m_size p5" "user_data p6 = user_data p5" "buffer_size p6 = buffer_size p5"
  proof (cases "?n = 0")
    case True
    with p5 that wlen show ?thesis by (auto simp: copy_from_def)
  next
    case False
    then show ?thesis
      using set_data_wr_prefix [OF p5(2), of 34 "written w"] that ok len p1(5) p2(5) p3(5) p4(5) p5(5) wlen
      by (auto simp: copy_from_def rd_bytes_def written_def writer_ok_def)
  qed
  show ?thesis
    using p1 p2 p3 p4 p5 p6 len
    by (auto simp: connect_request_make_def intro!: exI [of _ p6])
qed

lemma new_accept_packets:
  "new_packet_with CONNECT_ACCEPT 0 = \<lparr>m_data = 6 # replicate 15 0, m_size = 15, user_data = None\<rparr>"
  "new_packet_with PEER_NOT_FOUND 14 = \<lparr>m_data = 14 # replicate 15 0, m_size = 15, user_data = None\<rparr>"
  by (simp_all add: new_packet_with_def blank_packet_def set_property_def upd_byte0_def byte0_def ensure_def resize_def
    grow.simps GROWTH_FACTOR_def Let_def numeral_nat split: list.splits)

lemmas packet_writes = set_i64_at_def set_u8_at_def set_i32_at_def set_data_def wr64_def wr32_def wr8_def wr_bytes_def

definition accept_bytes :: "u8 \<Rightarrow> i64 \<Rightarrow> u8 \<Rightarrow> u8 \<Rightarrow> i32 \<Rightarrow> bytes" where
  "accept_bytes b t n ch i = [b] @ le_bytes 8 t @ [n, ch] @ le_bytes 4 i @ [0]"

lemma connect_accept_layout:
  "connect_accept_make t n i =
     Some \<lparr>m_data = accept_bytes 6 t n 0 (ucast (ucast i :: u8)), m_size = 15, user_data = None\<rparr>"
  apply (simp add: connect_accept_make_def packet_writes new_accept_packets accept_bytes_def le_bytes_4_of_u8 list_update_append)
  apply (simp add: numeral_nat)
  done

lemma network_changed_layout:
  "make_network_changed t n i =
     Some \<lparr>m_data = accept_bytes 14 t n 1 i, m_size = 15, user_data = None\<rparr>"
  apply (simp add: make_network_changed_def packet_writes new_accept_packets accept_bytes_def list_update_append)
  apply (simp add: numeral_nat)
  done

lemma accept_bytes_read:
  "rd64 (accept_bytes b t n ch i) 1 = Some t" "rd8 (accept_bytes b t n ch i) 9 = Some n"
  "rd8 (accept_bytes b t n ch i) 10 = Some ch" "rd32 (accept_bytes b t n ch i) 11 = Some i"
  by (simp_all add: accept_bytes_def rd_defs nth_append)

lemma accept_parse:
  assumes "n < 4" "ch \<le> 1" "0 \<le>s i"
  shows "connect_accept_from_data \<lparr>m_data = accept_bytes b t n ch i, m_size = 15, user_data = u\<rparr> =
     Some (Some \<lparr>ca_connection_time = t, ca_connection_number = n, ca_peer_id = i, ca_peer_network_changed = (ch = 1)\<rparr>)"
  using assms by (simp add: connect_accept_from_data_def accept_bytes_read [simplified] accept_bytes_read MAX_CONNECTION_NUMBER_def not_le not_less word_sless_alt word_sle_eq)
lemma byte_not_negative: "0 \<le>s (ucast (v :: u8) :: i32)"
  by (simp add: word_sle_eq sint_uint signed_take_bit_eq_if_positive bit_simps unsigned_ucast_eq)

section \<open>The contract of an encoder and its decoder\<close>

locale packet_codec =
  fixes enc :: "'m \<Rightarrow> net_packet option" and dec :: "net_packet \<Rightarrow> 'm option option"
    and ok :: "'m \<Rightarrow> bool"
  assumes enc_total: "ok m \<Longrightarrow> \<exists>p. enc m = Some p"
    and dec_enc: "ok m \<Longrightarrow> enc m = Some p \<Longrightarrow> dec p = Some (Some m)"
begin

lemma enc_inject: "ok m \<Longrightarrow> ok n \<Longrightarrow> enc m = enc n \<longleftrightarrow> m = n"
  by (metis dec_enc enc_total option.inject)

lemma dec_returns: "ok m \<Longrightarrow> \<exists>p. enc m = Some p \<and> dec p = Some (Some m)"
  using enc_total dec_enc by blast

end

definition encode_accept :: "net_connect_accept_packet \<Rightarrow> net_packet option" where
  "encode_accept m =
     (if ca_peer_network_changed m
      then make_network_changed (ca_connection_time m) (ca_connection_number m) (ca_peer_id m)
      else connect_accept_make (ca_connection_time m) (ca_connection_number m) (ca_peer_id m))"

text \<open>An accept carries one byte of the id, a network change all four.\<close>

definition accept_ok :: "net_connect_accept_packet \<Rightarrow> bool" where
  "accept_ok m \<longleftrightarrow> ca_connection_number m < 4 \<and> 0 \<le>s ca_peer_id m \<and>
     (ca_peer_network_changed m \<or> ca_peer_id m = ucast (ucast (ca_peer_id m) :: u8))"

interpretation accept_codec: packet_codec encode_accept connect_accept_from_data accept_ok
proof
  show "\<exists>p. encode_accept m = Some p" if "accept_ok m" for m
    by (simp add: encode_accept_def connect_accept_layout network_changed_layout)
  show "connect_accept_from_data p = Some (Some m)" if "accept_ok m" "encode_accept m = Some p" for m p
    using that
    by (auto simp: accept_ok_def encode_accept_def connect_accept_layout network_changed_layout
        accept_parse split: if_splits)
qed

section \<open>Properties\<close>

text \<open>C31: A connect request that \<open>make\<close> builds passes \<open>verify\<close> and the protocol check, and \<open>from_data\<close>
  gives back the time, the connection number, the target address, the peer id, and a reader that
  is well formed and holds exactly the bytes of the user's connect data.\<close>

theorem connect_request_roundtrip:
  assumes ok: "writer_ok w" and num: "v < 4"
  shows "\<exists>p. connect_request_make w addr t i = Some p \<and>
     verify (set_connection_number v p) \<and>
     property (set_connection_number v p) = CONNECT_REQUEST \<and>
     get_protocol_id (set_connection_number v p) = Some PROTOCOL_ID \<and>
     (\<exists>r. connect_request_from_data (set_connection_number v p) = Some (Some r) \<and>
        cr_connection_time r = t \<and> cr_connection_number r = v \<and>
        cr_target_address r = addr \<and> cr_peer_id r = i \<and>
        reader_ok (cr_data r) \<and> remaining (cr_data r) = w_position w \<and>
        (\<exists>r'. try_read_raw (w_position w) (cr_data r) = Some (Some (written w), r')))"
proof -
  obtain p where p: "connect_request_make w addr t i = Some p" "m_size p = 34 + w_position w"
    "m_size p \<le> buffer_size p" and
    pre: "prefix ([5] @ le_bytes 4 PROTOCOL_ID @ le_bytes 8 t @ le_bytes 4 i @ [16] @ encode_sockaddr addr
       @ written w) (m_data p)"
    using connect_request_layout [OF ok] by blast
  let ?q = "set_connection_number v p"
  have ne: "m_data p \<noteq> []" using pre by auto
  have b0: "byte0 p = 5" using pre prefix_byte0 by simp
  have isreq: "property p = CONNECT_REQUEST"
    by (simp add: property_def b0 property_of_code_def)
  have frag: "\<not> is_fragmented p" by (simp add: is_fragmented_def b0)
  have rd: "rd_bytes (m_data ?q) k n = rd_bytes (m_data p) k n" if "0 < k" for k n
    using that by (simp add: set_connection_number_def)
  have rd': "rd8 (m_data ?q) k = rd8 (m_data p) k" if "0 < k" for k
    using that by (simp add: set_connection_number_def)
  note R = prefix_rd_bytes [OF pre] prefix_rd8 [OF pre]
  have wlen: "length (written w) = w_position w" using ok by (simp add: written_def writer_ok_def)
  have cn: "connection_number ?q = v" "\<not> bit v 2"
    using small_connection_number [OF num] connection_number_set [OF ne] by auto
  have ver: "verify ?q \<and> property ?q = CONNECT_REQUEST"
    using ne isreq frag p(2) cn
    by (simp add: verify_iff packet_simps named_property_def)
  have protoc: "get_protocol_id ?q = Some PROTOCOL_ID"
    by (simp add: get_protocol_id_def rd32_def rd R)
  have pay: "take (w_position w) (drop 34 (m_data ?q)) = written w"
    using rd [of 34 "w_position w"] R(1) [of 34 "w_position w"] wlen p(2,3)
    by (simp add: rd_bytes_def encode_sockaddr_def)
  have num': "\<not> 4 \<le> v" using num by simp
  show ?thesis
    using p ver protoc pay num' wlen
    by (simp add: connect_request_from_data_def cn MAX_CONNECTION_NUMBER_def rd64_def rd32_def rd rd' R
        reader_ok_def remaining_def try_read_raw_cases nth_append)
qed
theorem connect_request_roundtrip_witness:
  "\<exists>p. connect_request_make new_writer zero_sockaddr 77 5 = Some p \<and>
     get_protocol_id (set_connection_number 3 p) = Some PROTOCOL_ID"
  using connect_request_roundtrip [of new_writer 3 zero_sockaddr 77 5]
  by (auto simp: writer_ok_def new_writer_def)

text \<open>C22: A connect accept with a connection number below 4 comes back with its time and number, but with the peer id reduced to its low
  byte, because \<open>make\<close> stores the id as a \<open>uint8_t\<close>: ids from 256 on reach the client changed.\<close>

theorem connect_accept_roundtrip:
  assumes "n < 4"
  shows "\<exists>p. connect_accept_make t n i = Some p \<and>
     connect_accept_from_data p =
       Some (Some \<lparr>ca_connection_time = t, ca_connection_number = n,
                   ca_peer_id = ucast (ucast i :: u8), ca_peer_network_changed = False\<rparr>)"
  using assms by (simp add: connect_accept_layout accept_parse byte_not_negative)

theorem connect_accept_roundtrip_witness:
  "\<exists>p. connect_accept_make 9 1 256 = Some p \<and>
     connect_accept_from_data p =
       Some (Some \<lparr>ca_connection_time = 9, ca_connection_number = 1,
                   ca_peer_id = 0, ca_peer_network_changed = False\<rparr>)"
  using connect_accept_roundtrip [of 1 9 256] by simp

text \<open>Two well-formed accept messages (a connect accept with an id of one byte, or a network change)
  have the same packet only when they are the same message.\<close>

lemma accept_encoding_injective:
  assumes "accept_ok m" and "accept_ok n"
  shows "encode_accept m = encode_accept n \<longleftrightarrow> m = n"
  using assms by (rule accept_codec.enc_inject)

lemma accept_encoding_injective_witness:
  "encode_accept \<lparr>ca_connection_time = 1, ca_connection_number = 2, ca_peer_id = 3, ca_peer_network_changed = True\<rparr>
   \<noteq> encode_accept \<lparr>ca_connection_time = 1, ca_connection_number = 2, ca_peer_id = 4, ca_peer_network_changed = True\<rparr>"
  using accept_encoding_injective
    [of "\<lparr>ca_connection_time = 1, ca_connection_number = 2, ca_peer_id = 3, ca_peer_network_changed = True\<rparr>"
        "\<lparr>ca_connection_time = 1, ca_connection_number = 2, ca_peer_id = 4, ca_peer_network_changed = True\<rparr>"]
  by (simp add: accept_ok_def word_sle_eq)

text \<open>\<open>verify\<close> asks for the 18 header bytes of a connect request only. A request shorter than 34 bytes
  that claims a 16-byte address is accepted by \<open>from_data\<close> with a reader whose position lies behind
  its end: the remaining size wraps around, every boundary check passes, and a read that reaches
  past the buffer is an access outside it.\<close>

lemma short_connect_request_reader:
  assumes "verify p" and "property p = CONNECT_REQUEST" and "m_size p < 34"
    and "connect_request_from_data p = Some (Some r)"
    and "n \<le> 2 ^ 64 - 16"
  shows "check_boundaries n (cr_data r) \<and>
    (buffer_size p < 34 + n \<longrightarrow> try_read_raw n (cr_data r) = None)"
proof -
  have rd: "r_data (cr_data r) = m_data p" "r_size (cr_data r) = m_size p" "r_position (cr_data r) = 34"
    using assms(4) by (auto simp: connect_request_from_data_def split: if_splits Option.bind_splits)
  have "18 \<le> m_size p" using assms(1,2) by (simp add: verify_iff)
  then have "2 ^ 64 - 16 \<le> remaining (cr_data r)"
    using assms(3) rd by (simp add: remaining_def usub_def)
  then have chk: "check_boundaries n (cr_data r)"
    using assms(5) by (simp add: check_boundaries_def remaining_def)
  then show ?thesis
    using rd by (simp add: try_read_raw_def rd_bytes_def)
qed

definition short_request :: net_packet where
  "short_request = \<lparr>m_data = [5, 13, 0, 0, 0] @ replicate 12 0 @ [16] @ replicate 30 0, m_size = 18, user_data = None\<rparr>"

lemma short_connect_request_reader_witness:
  "\<exists>r. verify short_request \<and> connect_request_from_data short_request = Some (Some r) \<and>
     try_read_raw 100 (cr_data r) = None"
proof -
  have b0: "byte0 short_request = 5" by (simp add: byte0_def short_request_def)
  have size: "m_size short_request = 18" "buffer_size short_request = 48"
    by (simp_all add: short_request_def)
  have v: "verify short_request" "property short_request = CONNECT_REQUEST"
    by (simp_all add: verify_iff property_def b0 property_of_code_def named_property_def
        is_fragmented_def size)
  obtain r where r: "connect_request_from_data short_request = Some (Some r)"
    by (simp add: connect_request_from_data_def connection_number_def b0 MAX_CONNECTION_NUMBER_def)
      (simp add: short_request_def rd_defs nth_append nth_Cons')
  show ?thesis
    using short_connect_request_reader [OF v _ r, of 100] v(1) r size by auto
qed

end
