(* ===== verification/Net_World.thy ===== *)
theory Net_World
  imports Sequenced_Channel Connect_Packets
begin

text \<open>
  The state the peers and the manager share, and the operations of the manager that peers call.
  Peers and connection requests are objects with identity (the code holds them by
  \<open>shared_ptr\<close>): pointers are natural numbers into the heaps of the record \<open>world\<close>, which extends the
  fields of \<open>net_manager\<close> by the heaps and the environment: the system time, the clock of the stopwatch,
  the outcomes of \<open>sendto\<close>, and the log of the datagrams it took. Every operation maps a world to
  a result and a world, or to \<^const>\<open>None\<close> on undefined behaviour. The mutexes are recursive, and an
  operation that holds one runs as one step. Logging is not modelled.
\<close>

section \<open>Peers\<close>

datatype net_channel = Reliable net_reliable_channel | Sequenced net_sequenced_channel

record incoming_fragments =
  fragments :: "net_packet option list"
  received_count :: int
  total_size :: nat
  frag_channel_id :: u8

record net_peer =
  m_next_peer :: "nat option"
  m_prev_peer :: "nat option"
  m_peer_id :: int
  m_remote_id :: i32
  m_time_since_last_packet :: int
  m_mtu_idx :: nat
  m_mtu :: nat
  m_mtu_check_attempts :: int
  m_mtu_check_timer :: int
  m_finish_mtu :: bool
  m_ping_timer :: net_stopwatch
  m_ping_send_timer :: int
  m_remote_delta :: int
  m_rtt :: int
  m_avg_rtt :: int
  m_rtt_count :: int
  m_rtt_reset_timer :: int
  m_resend_delay :: rat
  m_connection_state :: connection_state
  m_endpoint :: sockaddr_in
  m_shutdown_packet :: net_packet
  m_shutdown_timer :: int
  m_connect_time :: i64
  m_connect_number :: u8
  m_connect_timer :: int
  m_connect_attempts :: int
  m_pong_packet :: net_packet
  m_ping_packet :: net_packet
  m_connect_request_packet :: "net_packet option"
  m_connect_accept_packet :: "net_packet option"
  m_unreliable_channel :: "net_packet list"
  m_channel_send_queue :: "nat net_queue"
  m_channels :: "net_channel option list"
  m_fragment_id :: int
  m_holded_fragments :: "u16 \<rightharpoonup> incoming_fragments"
  m_delivered_fragments :: "u16 \<rightharpoonup> u16"
  m_merge_data :: net_packet
  m_merge_pos :: nat
  m_merge_count :: int

section \<open>Connection requests and events\<close>

record net_connection_request =
  m_used :: int
  m_internal_packet :: "net_connect_request_packet option"
  m_remote_endpoint :: sockaddr_in
  m_result :: connection_request_result

datatype net_event_type =
  EVENT_CONNECT | EVENT_DISCONNECT | EVENT_RECEIVE | EVENT_RECEIVE_UNCONNECTED | EVENT_NETWORK_ERROR
| EVENT_CONNECTION_LATENCY_UPDATED | EVENT_BROADCAST | EVENT_CONNECTION_REQUEST | EVENT_MESSAGE_DELIVERED
| EVENT_PEER_ADDRESS_CHANGED

record net_event =
  ev_type :: net_event_type
  ev_peer :: "nat option"
  remoteEndpoint :: sockaddr_in
  socketErrorCode :: int
  latency :: int
  disconnectReason :: disconnect_reason
  connectionRequest :: "nat option"
  deliveryMethod :: delivery_method
  channelNumber :: u8
  ev_reader :: "net_data_reader option"
  errorMessage :: "string option"
  userData :: "nat option"
  m_reader_source :: "net_packet option"
  m_recycled :: bool

text \<open>The defaults of \<open>net_event\<close> and of \<open>net_event_create_args\<close>; an address starts with its family set.\<close>

definition default_address :: sockaddr_in where
  "default_address = zero_sockaddr\<lparr>sin_family := AF_INET\<rparr>"

definition default_event :: net_event where
  "default_event =
     \<lparr>ev_type = EVENT_CONNECT, ev_peer = None, remoteEndpoint = default_address, socketErrorCode = 0,
      latency = 0, disconnectReason = CONNECTION_FAILED, connectionRequest = None,
      deliveryMethod = UNRELIABLE_DELIVERY, channelNumber = 0, ev_reader = None, errorMessage = None,
      userData = None, m_reader_source = None, m_recycled = False\<rparr>"

section \<open>The manager\<close>

text \<open>The key of an address in the hash maps: \<open>operator==\<close> compares these three fields.\<close>

type_synonym address_key = "i32 \<times> u16 \<times> u16"

definition akey :: "sockaddr_in \<Rightarrow> address_key" where
  "akey a = (s_addr a, sin_port a, sin_family a)"

lemma akey_eq_iff: "akey a = akey b \<longleftrightarrow> address_eq a b"
  by (auto simp: akey_def address_eq_def)

record net_manager =
  m_running :: bool
  m_packet_pool_head :: "net_packet list"
  m_packet_pool_size :: nat
  m_head_peer :: "nat option"
  m_peers :: "address_key \<rightharpoonup> nat"
  m_peers_array :: "nat option list"
  m_peer_ids :: "int net_queue"
  m_peer_id_counter :: int
  m_connection_requests :: "address_key \<rightharpoonup> nat"
  m_events_consume_queue :: "net_event list"
  m_events_produce_queue :: "net_event list"
  packet_pool_size :: nat
  broadcast_receive_enabled :: bool
  unconnected_messages_enabled :: bool
  channels_count :: u8
  disconnect_timeout :: int
  update_time :: int
  reconnect_delay :: int
  max_connect_attempts :: int
  ping_interval :: int
  auto_recycle :: bool
  disconnect_on_unreachable :: bool

record world = net_manager +
  peer_heap :: "nat \<rightharpoonup> net_peer"
  request_heap :: "nat \<rightharpoonup> net_connection_request"
  next_object :: nat
  system_time :: int
  clock :: int
  sendto :: "nat \<Rightarrow> int + int"
  sends :: nat
  wire :: "(sockaddr_in \<times> bytes) list"

text \<open>\<open>net_manager(listener)\<close>, with the defaults of the fields.\<close>

definition new_manager :: "int \<Rightarrow> int \<Rightarrow> (nat \<Rightarrow> int + int) \<Rightarrow> world" where
  "new_manager time0 clock0 sendto0 =
     \<lparr>m_running = False, m_packet_pool_head = [], m_packet_pool_size = 0, m_head_peer = None,
      m_peers = Map.empty, m_peers_array = replicate 32 None, m_peer_ids = [], m_peer_id_counter = 0,
      m_connection_requests = Map.empty, m_events_consume_queue = [], m_events_produce_queue = [],
      packet_pool_size = 1000, broadcast_receive_enabled = False, unconnected_messages_enabled = False,
      channels_count = 1, disconnect_timeout = 5000, update_time = 15, reconnect_delay = 500,
      max_connect_attempts = 10, ping_interval = 1000, auto_recycle = True, disconnect_on_unreachable = False,
      peer_heap = Map.empty, request_heap = Map.empty, next_object = 0, system_time = time0, clock = clock0,
      sendto = sendto0, sends = 0, wire = []\<rparr>"

definition get_peer :: "nat \<Rightarrow> world \<Rightarrow> net_peer option" where
  "get_peer pp w = peer_heap w pp"

definition put_peer :: "nat \<Rightarrow> net_peer \<Rightarrow> world \<Rightarrow> world" where
  "put_peer pp p w = w\<lparr>peer_heap := (peer_heap w)(pp \<mapsto> p)\<rparr>"

definition modify_peer :: "nat \<Rightarrow> (net_peer \<Rightarrow> net_peer) \<Rightarrow> world \<Rightarrow> world option" where
  "modify_peer pp f w = do { p \<leftarrow> get_peer pp w; Some (put_peer pp (f p) w) }"

section \<open>The packet pool\<close>

definition pool_get_packet :: "nat \<Rightarrow> world \<Rightarrow> net_packet \<times> world" where
  "pool_get_packet sz w =
     (case m_packet_pool_head w of
        [] \<Rightarrow> (resize sz new_packet, w)
      | p # ps \<Rightarrow> (resize sz p, w\<lparr>m_packet_pool_head := ps, m_packet_pool_size := m_packet_pool_size w - 1\<rparr>))"

definition pool_get_with_property :: "packet_property \<Rightarrow> nat \<Rightarrow> world \<Rightarrow> net_packet \<times> world" where
  "pool_get_with_property pr sz w =
     (let (packet, w1) = pool_get_packet (static_header_size pr + sz) w in (set_property pr packet, w1))"

definition pool_recycle :: "net_packet \<Rightarrow> world \<Rightarrow> world" where
  "pool_recycle packet w =
     (if buffer_size packet > MAX_PACKET_SIZE \<or> m_packet_pool_size w \<ge> packet_pool_size w then w
      else w\<lparr>m_packet_pool_head := clear packet # m_packet_pool_head w,
             m_packet_pool_size := m_packet_pool_size w + 1\<rparr>)"

text \<open>\<open>pool_recycle(nullptr)\<close> does nothing.\<close>

definition pool_recycle_ptr :: "net_packet option \<Rightarrow> world \<Rightarrow> world" where
  "pool_recycle_ptr packet w = (case packet of None \<Rightarrow> w | Some p \<Rightarrow> pool_recycle p w)"

section \<open>Events\<close>

text \<open>
  \<open>evt\<close> holds the fields of the arguments; the reader of an event with a source packet and no reader
  of its own starts behind the header of the packet.
\<close>

definition create_event :: "net_event \<Rightarrow> world \<Rightarrow> world option" where
  "create_event args w = do {
     reader \<leftarrow> (case (m_reader_source args, ev_reader args) of
         (Some p, None) \<Rightarrow> do {
           h \<leftarrow> packet_header_size p;
           Some (Some \<lparr>r_data = m_data p, r_size = m_size p, r_position = h\<rparr>)
         }
       | (_, r) \<Rightarrow> Some r);
     Some (w\<lparr>m_events_produce_queue := m_events_produce_queue w @ [args\<lparr>ev_reader := reader\<rparr>]\<rparr>)
   }"

definition try_get_peer :: "sockaddr_in \<Rightarrow> world \<Rightarrow> nat option" where
  "try_get_peer endpoint w = m_peers w (akey endpoint)"

definition connection_latency_updated :: "sockaddr_in \<Rightarrow> int \<Rightarrow> world \<Rightarrow> world option" where
  "connection_latency_updated address lat w =
     (case try_get_peer address w of
        None \<Rightarrow> Some w
      | Some pp \<Rightarrow>
          create_event (default_event\<lparr>ev_type := EVENT_CONNECTION_LATENCY_UPDATED, ev_peer := Some pp, latency := lat\<rparr>) w)"

definition create_receive_event ::
  "net_packet \<Rightarrow> delivery_method \<Rightarrow> u8 \<Rightarrow> nat \<Rightarrow> sockaddr_in \<Rightarrow> world \<Rightarrow> world option" where
  "create_receive_event packet dm channel headerSize endpoint w =
     create_event
       (default_event\<lparr>ev_type := EVENT_RECEIVE, deliveryMethod := dm, channelNumber := channel,
          ev_peer := try_get_peer endpoint w, m_reader_source := Some packet,
          ev_reader := Some \<lparr>r_data = m_data packet, r_size = m_size packet, r_position = headerSize\<rparr>\<rparr>) w"

definition create_error_event :: "int \<Rightarrow> string \<Rightarrow> world \<Rightarrow> world option" where
  "create_error_event err msg w =
     create_event (default_event\<lparr>ev_type := EVENT_NETWORK_ERROR, socketErrorCode := err, errorMessage := Some msg\<rparr>) w"

text \<open>The user data is not stored into the event.\<close>

definition message_delivered :: "sockaddr_in \<Rightarrow> nat option \<Rightarrow> world \<Rightarrow> world option" where
  "message_delivered address ud w =
     (case try_get_peer address w of
        None \<Rightarrow> Some w
      | Some pp \<Rightarrow> create_event (default_event\<lparr>ev_type := EVENT_MESSAGE_DELIVERED, ev_peer := Some pp\<rparr>) w)"

section \<open>Forced disconnection and sending\<close>

text \<open>The part of \<open>net_peer::shutdown\<close> before the packet is built, with \<open>force\<close> set.\<close>

definition shutdown_force :: "nat \<Rightarrow> world \<Rightarrow> (shutdown_result \<times> world) option" where
  "shutdown_force pp w = do {
     p \<leftarrow> get_peer pp w;
     if m_connection_state p = DISCONNECTED \<or> m_connection_state p = SHUTDOWN_REQUESTED
     then Some (SHUTDOWN_NONE, w)
     else Some (if m_connection_state p = CONNECTED then WAS_CONNECTED else SHUTDOWN_SUCCESS,
                put_peer pp (p\<lparr>m_connection_state := DISCONNECTED\<rparr>) w)
   }"

definition disconnect_peer_force ::
  "sockaddr_in \<Rightarrow> disconnect_reason \<Rightarrow> int \<Rightarrow> net_packet option \<Rightarrow> world \<Rightarrow> world option" where
  "disconnect_peer_force address reason err eventData w =
     (case try_get_peer address w of
        None \<Rightarrow> Some w
      | Some pp \<Rightarrow> do {
          (result, w1) \<leftarrow> shutdown_force pp w;
          if result = SHUTDOWN_NONE then Some (pool_recycle_ptr eventData w1)
          else create_event (default_event\<lparr>ev_type := EVENT_DISCONNECT, ev_peer := Some pp,
                 socketErrorCode := err, disconnectReason := reason, m_reader_source := eventData\<rparr>) w1
        })"

definition EHOSTUNREACH :: int where "EHOSTUNREACH = 113"
definition ENETUNREACH :: int where "ENETUNREACH = 101"

text \<open>The outcome of the call number \<open>n\<close> of \<open>sendto\<close> is a byte count or an error number.\<close>

definition send_raw :: "bytes \<Rightarrow> nat \<Rightarrow> nat \<Rightarrow> sockaddr_in \<Rightarrow> world \<Rightarrow> (int \<times> world) option" where
  "send_raw buf offset len endpoint w =
     (if \<not> m_running w then Some (0, w)
      else do {
        xs \<leftarrow> rd_bytes buf offset len;
        let w1 = w\<lparr>sends := sends w + 1\<rparr>;
        (case sendto w (sends w) of
           Inl n \<Rightarrow> Some (n, w1\<lparr>wire := wire w @ [(endpoint, xs)]\<rparr>)
         | Inr errorCode \<Rightarrow>
             if errorCode = EHOSTUNREACH \<or> errorCode = ENETUNREACH then do {
               w2 \<leftarrow> (if disconnect_on_unreachable w1 \<and> try_get_peer endpoint w1 \<noteq> None
                      then disconnect_peer_force endpoint
                             (if errorCode = EHOSTUNREACH then HOST_UNREACHABLE else NETWORK_UNREACHABLE)
                             errorCode None w1
                      else Some w1);
               w3 \<leftarrow> create_event (default_event\<lparr>ev_type := EVENT_NETWORK_ERROR, socketErrorCode := errorCode,
                       errorMessage := Some ''Socket error'', remoteEndpoint := endpoint\<rparr>) w2;
               Some (-1, w3)
             }
             else Some (0, w1))
      })"

definition send_packet :: "net_packet \<Rightarrow> sockaddr_in \<Rightarrow> world \<Rightarrow> (int \<times> world) option" where
  "send_packet packet endpoint w = send_raw (m_data packet) 0 (m_size packet) endpoint w"

definition send_raw_and_recycle :: "net_packet \<Rightarrow> sockaddr_in \<Rightarrow> world \<Rightarrow> (int \<times> world) option" where
  "send_raw_and_recycle packet endpoint w = do {
     (result, w1) \<leftarrow> send_raw (m_data packet) 0 (m_size packet) endpoint w;
     Some (result, pool_recycle packet w1)
   }"

end
