(* ===== verification/Net_Peer.thy ===== *)
theory Net_Peer
  imports Net_World
begin

text \<open>
  The class \<open>net_peer\<close> (\<open>net_peer.h/.cpp\<close>): one function per operation, on the pointer of the
  peer and the world. The calls a channel makes are the actions of theory \<open>Base_Channel\<close>, which
  \<open>perform\<close> runs on the peer. A loop over a merged packet and the packets inside it is one
  \<^theory_text>\<open>partial_function\<close>: nested packets that would never end are \<^const>\<open>None\<close>.
\<close>

section \<open>Constructors and destructor\<close>

definition SHUTDOWN_DELAY :: int where "SHUTDOWN_DELAY = 300"
definition MTU_CHECK_DELAY :: int where "MTU_CHECK_DELAY = 1000"
definition MAX_MTU_CHECK_ATTEMPTS :: int where "MAX_MTU_CHECK_ATTEMPTS = 4"

definition set_mtu :: "nat \<Rightarrow> net_peer \<Rightarrow> net_peer option" where
  "set_mtu mtuIdx p = do {
     mtu \<leftarrow> vget POSSIBLE_MTU (int mtuIdx);
     Some (p\<lparr>m_mtu_idx := mtuIdx, m_mtu := mtu\<rparr>)
   }"

definition reset_mtu :: "net_peer \<Rightarrow> net_peer option" where
  "reset_mtu p = set_mtu 0 p"

definition blank_peer :: "sockaddr_in \<Rightarrow> int \<Rightarrow> net_peer" where
  "blank_peer endpoint i =
     \<lparr>m_next_peer = None, m_prev_peer = None, m_peer_id = i, m_remote_id = 0, m_time_since_last_packet = 0,
      m_mtu_idx = 0, m_mtu = 0, m_mtu_check_attempts = 0, m_mtu_check_timer = 0, m_finish_mtu = False,
      m_ping_timer = new_stopwatch, m_ping_send_timer = 0, m_remote_delta = 0, m_rtt = 0, m_avg_rtt = 0,
      m_rtt_count = 0, m_rtt_reset_timer = 0, m_resend_delay = 27,
      m_connection_state = CONNECTED, m_endpoint = endpoint,
      m_shutdown_packet = new_packet_with DISCONNECT 0, m_shutdown_timer = 0,
      m_connect_time = 0, m_connect_number = 0, m_connect_timer = 0, m_connect_attempts = 0,
      m_pong_packet = new_packet_with PONG 0, m_ping_packet = new_packet_with PING 0,
      m_connect_request_packet = None, m_connect_accept_packet = None,
      m_unreliable_channel = [], m_channel_send_queue = [], m_channels = [],
      m_fragment_id = 0, m_holded_fragments = Map.empty, m_delivered_fragments = Map.empty,
      m_merge_data = new_packet_with MERGED MAX_PACKET_SIZE, m_merge_pos = 0, m_merge_count = 0\<rparr>"

definition new_peer :: "u8 \<Rightarrow> sockaddr_in \<Rightarrow> int \<Rightarrow> net_peer option" where
  "new_peer channels endpoint i = do {
     p \<leftarrow> reset_mtu (blank_peer endpoint i);
     Some (p\<lparr>m_channels := replicate (unat channels * CHANNEL_TYPE_COUNT) None\<rparr>)
   }"

definition alloc_peer :: "net_peer \<Rightarrow> world \<Rightarrow> nat \<times> world" where
  "alloc_peer p w = (next_object w, w\<lparr>peer_heap := (peer_heap w)(next_object w \<mapsto> p), next_object := next_object w + 1\<rparr>)"

text \<open>\<open>make_shared<net_peer>(this, request, id)\<close>: the accepting constructor.\<close>

definition new_peer_accept :: "net_connection_request \<Rightarrow> int \<Rightarrow> world \<Rightarrow> (nat \<times> world) option" where
  "new_peer_accept request i w = do {
     internal \<leftarrow> m_internal_packet request;
     p \<leftarrow> new_peer (channels_count w) (m_remote_endpoint request) i;
     acc \<leftarrow> connect_accept_make (cr_connection_time internal) (cr_connection_number internal) (word_of_int i);
     let (pp, w1) = alloc_peer (p\<lparr>m_connect_time := cr_connection_time internal,
                                  m_connect_number := cr_connection_number internal,
                                  m_remote_id := cr_peer_id internal,
                                  m_connect_accept_packet := Some acc\<rparr>) w;
     (_, w2) \<leftarrow> send_packet acc (m_remote_endpoint request) w1;
     w3 \<leftarrow> modify_peer pp (\<lambda>p. p\<lparr>m_connection_state := CONNECTED\<rparr>) w2;
     Some (pp, w3)
   }"

text \<open>\<open>make_shared<net_peer>(this, address, id, connectNum, data)\<close>: the connecting constructor.\<close>

definition new_peer_connect ::
  "sockaddr_in \<Rightarrow> int \<Rightarrow> u8 \<Rightarrow> net_data_writer \<Rightarrow> world \<Rightarrow> (nat \<times> world) option" where
  "new_peer_connect endpoint i connectNum connectData w = do {
     p \<leftarrow> new_peer (channels_count w) endpoint i;
     let connect_time = word_of_int (system_time w);
     r \<leftarrow> connect_request_make connectData endpoint connect_time (word_of_int i);
     let request = set_connection_number connectNum r;
     let (pp, w1) = alloc_peer (p\<lparr>m_connect_time := connect_time, m_connection_state := OUTGOING,
                                  m_connect_number := connectNum, m_connect_request_packet := Some request\<rparr>) w;
     (_, w2) \<leftarrow> send_packet request endpoint w1;
     Some (pp, w2)
   }"

fun recycle_actions :: "chan_action list \<Rightarrow> world \<Rightarrow> world" where
  "recycle_actions [] w = w"
| "recycle_actions (Pool_recycle p # acts) w = recycle_actions acts (pool_recycle p w)"
| "recycle_actions (_ # acts) w = recycle_actions acts w"

fun destroy_channel :: "net_channel \<Rightarrow> world \<Rightarrow> world" where
  "destroy_channel (Reliable ch) w = recycle_actions (snd (destroy_base_channel ch)) w"
| "destroy_channel (Sequenced ch) w = recycle_actions (snd (destroy_sequenced_channel ch)) w"

text \<open>The destructor deletes the channels and the packets of the unreliable queue.\<close>

fun destroy_channels :: "net_channel option list \<Rightarrow> world \<Rightarrow> world" where
  "destroy_channels [] w = w"
| "destroy_channels (None # chs) w = destroy_channels chs w"
| "destroy_channels (Some ch # chs) w = destroy_channels chs (destroy_channel ch w)"

definition destroy_peer :: "nat \<Rightarrow> world \<Rightarrow> world option" where
  "destroy_peer pp w = do {
     p \<leftarrow> get_peer pp w;
     let w1 = destroy_channels (m_channels p) w;
     Some (w1\<lparr>peer_heap := (peer_heap w1)(pp := None)\<rparr>)
   }"

section \<open>The connection\<close>

definition peer_shutdown ::
  "nat \<Rightarrow> bytes option \<Rightarrow> nat \<Rightarrow> nat \<Rightarrow> bool \<Rightarrow> world \<Rightarrow> (shutdown_result \<times> world) option" where
  "peer_shutdown pp rejectData offset sz force w = do {
     p \<leftarrow> get_peer pp w;
     if m_connection_state p = DISCONNECTED \<or> m_connection_state p = SHUTDOWN_REQUESTED
     then Some (SHUTDOWN_NONE, w)
     else do {
       let result = (if m_connection_state p = CONNECTED then WAS_CONNECTED else SHUTDOWN_SUCCESS);
       if force then Some (result, put_peer pp (p\<lparr>m_connection_state := DISCONNECTED\<rparr>) w)
       else do {
         let sp = set_connection_number (m_connect_number p) (resize_with DISCONNECT sz (m_shutdown_packet p));
         sp1 \<leftarrow> set_i64_at (m_connect_time p) 1 sp;
         mtu0 \<leftarrow> vget POSSIBLE_MTU 0;
         sp2 \<leftarrow> (if m_size sp1 \<ge> mtu0 then Some sp1
                else case rejectData of
                    None \<Rightarrow> Some sp1
                  | Some data \<Rightarrow> if sz > 0 then copy_from data offset 9 sz sp1 else Some sp1);
         let w1 = put_peer pp (p\<lparr>m_time_since_last_packet := 0, m_shutdown_packet := sp2,
                                 m_connection_state := SHUTDOWN_REQUESTED\<rparr>) w;
         (_, w2) \<leftarrow> send_packet sp2 (m_endpoint p) w1;
         Some (result, w2)
       }
     }
   }"

definition process_disconnect :: "net_packet \<Rightarrow> net_peer \<Rightarrow> disconnect_result option" where
  "process_disconnect packet p =
     (let isConnected = (m_connection_state p = CONNECTED \<or> m_connection_state p = OUTGOING)
      in if isConnected \<and> m_size packet \<ge> 9 then do {
           t \<leftarrow> rd64 (m_data packet) 1;
           if t = m_connect_time p \<and> connection_number packet = m_connect_number p
           then Some (if m_connection_state p = CONNECTED then DISCONNECT_DISCONNECT else DISCONNECT_REJECT)
           else Some DISCONNECT_NONE
         }
         else Some DISCONNECT_NONE)"

definition process_connect_accept :: "net_connect_accept_packet \<Rightarrow> net_peer \<Rightarrow> bool \<times> net_peer" where
  "process_connect_accept packet p =
     (if m_connection_state p \<noteq> OUTGOING then (False, p)
      else if ca_connection_time packet \<noteq> m_connect_time p then (False, p)
      else (True, p\<lparr>m_connect_number := ca_connection_number packet, m_remote_id := ca_peer_id packet,
                    m_time_since_last_packet := 0, m_connection_state := CONNECTED\<rparr>))"

text \<open>\<open>reject\<close> of \<open>net_peer.h\<close>.\<close>

definition peer_reject ::
  "nat \<Rightarrow> net_connect_request_packet \<Rightarrow> bytes option \<Rightarrow> nat \<Rightarrow> nat \<Rightarrow> world \<Rightarrow> world option" where
  "peer_reject pp requestData rejectData offset sz w = do {
     w1 \<leftarrow> modify_peer pp (\<lambda>p. p\<lparr>m_connect_time := cr_connection_time requestData,
                               m_connect_number := cr_connection_number requestData\<rparr>) w;
     (_, w2) \<leftarrow> peer_shutdown pp rejectData offset sz False w1;
     Some w2
   }"

text \<open>
  The tie-break of two simultaneous connects runs over the bytes of the addresses from the last to the
  first and only leaves the loop at a byte of the remote address that is smaller.
\<close>

fun tie_break :: "(u8 \<times> u8) list \<Rightarrow> bool" where
  "tie_break [] = False"
| "tie_break ((rb, lb) # rest) = (if rb = lb then tie_break rest else if rb < lb then True else tie_break rest)"

definition peer_process_connect_request ::
  "nat \<Rightarrow> net_connect_request_packet \<Rightarrow> world \<Rightarrow> (connect_request_result \<times> world) option" where
  "peer_process_connect_request pp request w = do {
     p \<leftarrow> get_peer pp w;
     (case m_connection_state p of
        OUTGOING \<Rightarrow>
          if cr_connection_time request <s m_connect_time p then Some (P2P_LOSE, w)
          else if cr_connection_time request = m_connect_time p then
            (if tie_break (rev (zip (encode_sockaddr (m_endpoint p)) (encode_sockaddr (cr_target_address request))))
             then Some (P2P_LOSE, w) else Some (REQUEST_NONE, w))
          else Some (REQUEST_NONE, w)
      | CONNECTED \<Rightarrow>
          if cr_connection_time request = m_connect_time p then do {
            acc \<leftarrow> m_connect_accept_packet p;
            (_, w1) \<leftarrow> send_packet acc (m_endpoint p) w;
            Some (REQUEST_NONE, w1)
          }
          else if m_connect_time p <s cr_connection_time request then Some (RECONNECTION, w)
          else Some (REQUEST_NONE, w)
      | DISCONNECTED \<Rightarrow>
          if m_connect_time p <=s cr_connection_time request then Some (NEW_CONNECTION, w) else Some (REQUEST_NONE, w)
      | SHUTDOWN_REQUESTED \<Rightarrow>
          if m_connect_time p <=s cr_connection_time request then Some (NEW_CONNECTION, w) else Some (REQUEST_NONE, w)
      | ENDPOINT_CHANGE \<Rightarrow> Some (REQUEST_NONE, w))
   }"

section \<open>Channels\<close>

definition update_roundtrip_time :: "int \<Rightarrow> net_peer \<Rightarrow> net_peer" where
  "update_roundtrip_time roundTripTime p =
     (let rtt = m_rtt p + roundTripTime; count = m_rtt_count p + 1; avg = rtt sdiv count
      in p\<lparr>m_rtt := rtt, m_rtt_count := count, m_avg_rtt := avg, m_resend_delay := 25 + of_int avg * (21 / 10)\<rparr>)"

definition make_channel :: "nat \<Rightarrow> net_channel option" where
  "make_channel idx =
     (let k = idx mod CHANNEL_TYPE_COUNT
      in if k = delivery_code RELIABLE_UNORDERED then map_option Reliable (new_reliable_channel False (of_nat idx))
         else if k = delivery_code SEQUENCED then Some (Sequenced (new_sequenced_channel False (of_nat idx)))
         else if k = delivery_code RELIABLE_ORDERED then map_option Reliable (new_reliable_channel True (of_nat idx))
         else Some (Sequenced (new_sequenced_channel True (of_nat idx))))"

definition create_channel :: "nat \<Rightarrow> net_peer \<Rightarrow> net_peer option" where
  "create_channel idx p = do {
     slot \<leftarrow> vget (m_channels p) (int idx);
     (case slot of
        Some ch \<Rightarrow> Some p
      | None \<Rightarrow> do {
          ch \<leftarrow> make_channel idx;
          chs \<leftarrow> vset (m_channels p) (int idx) (Some ch);
          Some (p\<lparr>m_channels := chs\<rparr>)
        })
   }"

section \<open>Fragments\<close>

fun recycle_all :: "net_packet option list \<Rightarrow> world \<Rightarrow> world" where
  "recycle_all [] w = w"
| "recycle_all (None # ps) w = recycle_all ps w"
| "recycle_all (Some p # ps) w = recycle_all ps (pool_recycle p w)"

definition clear_holded_fragments :: "u16 \<Rightarrow> net_peer \<Rightarrow> world \<Rightarrow> world" where
  "clear_holded_fragments fragmentId p w =
     (case m_holded_fragments p fragmentId of None \<Rightarrow> w | Some inc \<Rightarrow> recycle_all (fragments inc) w)"

text \<open>
  The loop that copies the fragments; a fragment is taken out of the list once it is copied. When a
  fragment does not fit the rest is recycled and there is no result.
\<close>

fun assemble :: "net_packet option list \<Rightarrow> net_packet \<Rightarrow> nat \<Rightarrow> world \<Rightarrow> (net_packet option \<times> world) option" where
  "assemble [] result pos w = Some (Some result, w)"
| "assemble (None # fs) result pos w = None"
| "assemble (Some f # fs) result pos w =
     (let writtenSize = usub (m_size f) FRAGMENTED_HEADER_TOTAL_SIZE
      in if pos + writtenSize > buffer_size result then Some (None, recycle_all (Some f # fs) w)
         else if m_size f > buffer_size f then Some (None, recycle_all (Some f # fs) w)
         else do {
           result' \<leftarrow> copy_from (m_data f) FRAGMENTED_HEADER_TOTAL_SIZE pos writtenSize result;
           assemble fs result' (pos + writtenSize) (pool_recycle f w)
         })"

definition hold_fragment :: "net_packet \<Rightarrow> incoming_fragments \<Rightarrow> (incoming_fragments option) option" where
  "hold_fragment packet inc = do {
     part \<leftarrow> fragment_part packet;
     c \<leftarrow> channel_id packet;
     if unat part \<ge> length (fragments inc) \<or> fragments inc ! unat part \<noteq> None \<or> c \<noteq> frag_channel_id inc
     then Some None
     else Some (Some (inc\<lparr>fragments := (fragments inc)[unat part := Some packet],
                          received_count := received_count inc + 1,
                          total_size := (total_size inc + usub (m_size packet) FRAGMENTED_HEADER_TOTAL_SIZE) mod 2 ^ 64\<rparr>))
   }"

definition add_reliable_packet :: "nat \<Rightarrow> delivery_method \<Rightarrow> net_packet \<Rightarrow> world \<Rightarrow> world option" where
  "add_reliable_packet pp dm packet w = do {
     p \<leftarrow> get_peer pp w;
     c \<leftarrow> channel_id packet;
     if \<not> is_fragmented packet then
       create_receive_event packet dm (c div of_nat CHANNEL_TYPE_COUNT) CHANNELED_HEADER_SIZE (m_endpoint p) w
     else do {
       fid \<leftarrow> fragment_id packet;
       inc \<leftarrow> (case m_holded_fragments p fid of
           Some inc \<Rightarrow> Some inc
         | None \<Rightarrow> do {
             total \<leftarrow> total_fragments packet;
             Some \<lparr>fragments = replicate (unat total) None, received_count = 0, total_size = 0, frag_channel_id = c\<rparr>
           });
       held \<leftarrow> hold_fragment packet inc;
       (case held of
          None \<Rightarrow> Some (pool_recycle packet
                     (put_peer pp (p\<lparr>m_holded_fragments := (m_holded_fragments p)(fid \<mapsto> inc)\<rparr>) w))
        | Some inc' \<Rightarrow>
            if received_count inc' \<noteq> int (length (fragments inc')) then
              Some (put_peer pp (p\<lparr>m_holded_fragments := (m_holded_fragments p)(fid \<mapsto> inc')\<rparr>) w)
            else do {
              let (resultingPacket, w1) = pool_get_packet (total_size inc')
                    (put_peer pp (p\<lparr>m_holded_fragments := (m_holded_fragments p)(fid := None)\<rparr>) w);
              (result, w2) \<leftarrow> assemble (fragments inc') resultingPacket 0 w1;
              (case result of
                 None \<Rightarrow> Some w2
               | Some q \<Rightarrow> create_receive_event q dm (c div of_nat CHANNEL_TYPE_COUNT) 0 (m_endpoint p) w2)
            })
     }
   }"

section \<open>Merging\<close>

definition send_merged :: "nat \<Rightarrow> world \<Rightarrow> world option" where
  "send_merged pp w = do {
     p \<leftarrow> get_peer pp w;
     if m_merge_count p = 0 then Some w
     else do {
       let (offset, sz) = (if m_merge_count p > 1 then (0, HEADER_SIZE + m_merge_pos p)
                           else (HEADER_SIZE + 2, usub (m_merge_pos p) 2));
       (_, w1) \<leftarrow> send_raw (m_data (m_merge_data p)) offset sz (m_endpoint p) w;
       modify_peer pp (\<lambda>p. p\<lparr>m_merge_pos := 0, m_merge_count := 0\<rparr>) w1
     }
   }"

definition sizeTreshold :: nat where "sizeTreshold = 20"

text \<open>The packet comes back with the connection number it was given; channels model this on their side.\<close>

definition send_user_data :: "nat \<Rightarrow> net_packet \<Rightarrow> world \<Rightarrow> (net_packet \<times> world) option" where
  "send_user_data pp packet0 w = do {
     p \<leftarrow> get_peer pp w;
     let packet = set_connection_number (m_connect_number p) packet0;
     let mergedPacketSize = HEADER_SIZE + m_size packet + 2;
     if mergedPacketSize + sizeTreshold \<ge> m_mtu p then do {
       (_, w1) \<leftarrow> send_packet packet (m_endpoint p) w;
       Some (packet, w1)
     }
     else do {
       w1 \<leftarrow> (if m_merge_pos p + mergedPacketSize > m_mtu p then send_merged pp w else Some w);
       p1 \<leftarrow> get_peer pp w1;
       md1 \<leftarrow> set_u16_at (of_nat (m_size packet)) (m_merge_pos p1 + HEADER_SIZE) (m_merge_data p1);
       md2 \<leftarrow> copy_from (m_data packet) 0 (m_merge_pos p1 + HEADER_SIZE + 2) (m_size packet) md1;
       Some (packet, put_peer pp (p1\<lparr>m_merge_data := md2, m_merge_pos := m_merge_pos p1 + m_size packet + 2,
                                     m_merge_count := m_merge_count p1 + 1\<rparr>) w1)
     }
   }"

definition recycle_and_deliver :: "nat \<Rightarrow> net_packet \<Rightarrow> world \<Rightarrow> world option" where
  "recycle_and_deliver pp packet w =
     (case user_data packet of
        None \<Rightarrow> Some (pool_recycle packet w)
      | Some ud \<Rightarrow> do {
          p \<leftarrow> get_peer pp w;
          w1 \<leftarrow> (if is_fragmented packet then do {
                 fid \<leftarrow> fragment_id packet;
                 (case m_delivered_fragments p fid of
                    None \<Rightarrow> Some w
                  | Some count \<Rightarrow> do {
                      total \<leftarrow> total_fragments packet;
                      let fragCount = count + 1;
                      if fragCount = total then do {
                        w1 \<leftarrow> message_delivered (m_endpoint p) (Some ud) w;
                        modify_peer pp (\<lambda>p. p\<lparr>m_delivered_fragments := (m_delivered_fragments p)(fid := None)\<rparr>) w1
                      }
                      else Some (put_peer pp (p\<lparr>m_delivered_fragments := (m_delivered_fragments p)(fid \<mapsto> fragCount)\<rparr>) w)
                    })
               }
               else message_delivered (m_endpoint p) (Some ud) w);
          Some (pool_recycle (packet\<lparr>user_data := None\<rparr>) w1)
        })"

section \<open>The calls of the channels\<close>

definition perform_action :: "nat \<Rightarrow> nat \<Rightarrow> chan_action \<Rightarrow> world \<Rightarrow> world option" where
  "perform_action pp idx act w =
     (case act of
        Add_to_reliable_channel_send_queue \<Rightarrow>
          modify_peer pp (\<lambda>p. p\<lparr>m_channel_send_queue := q_push idx (m_channel_send_queue p)\<rparr>) w
      | Add_reliable_packet dm packet \<Rightarrow> add_reliable_packet pp dm packet w
      | Create_receive_event packet dm c headerSize \<Rightarrow> do {
          p \<leftarrow> get_peer pp w;
          create_receive_event packet dm c headerSize (m_endpoint p) w
        }
      | Send_user_data packet \<Rightarrow> do { (_, w1) \<leftarrow> send_user_data pp packet w; Some w1 }
      | Recycle_and_deliver packet \<Rightarrow> recycle_and_deliver pp packet w
      | Pool_recycle packet \<Rightarrow> Some (pool_recycle packet w))"

fun perform :: "nat \<Rightarrow> nat \<Rightarrow> chan_action list \<Rightarrow> world \<Rightarrow> world option" where
  "perform pp idx [] w = Some w"
| "perform pp idx (act # acts) w = do { w1 \<leftarrow> perform_action pp idx act w; perform pp idx acts w1 }"

text \<open>The virtual functions of the channels.\<close>

fun channel_process_packet :: "net_packet \<Rightarrow> net_channel \<Rightarrow> (bool \<times> net_channel \<times> chan_action list) option" where
  "channel_process_packet packet (Reliable ch) = do {
     (processed, ch', acts) \<leftarrow> reliable_process_packet packet ch;
     Some (processed, Reliable ch', acts)
   }"
| "channel_process_packet packet (Sequenced ch) = do {
     (processed, ch', acts) \<leftarrow> sequenced_process_packet packet ch;
     Some (processed, Sequenced ch', acts)
   }"

fun channel_send_and_check_queue ::
  "int \<Rightarrow> rat \<Rightarrow> u8 \<Rightarrow> net_channel \<Rightarrow> (bool \<times> net_channel \<times> chan_action list) option" where
  "channel_send_and_check_queue now delay num (Reliable ch) = do {
     (has, ch', acts) \<leftarrow> send_and_check_queue (reliable_send_next_packets now delay num) ch;
     Some (has, Reliable ch', acts)
   }"
| "channel_send_and_check_queue now delay num (Sequenced ch) = do {
     (has, ch', acts) \<leftarrow> send_and_check_queue (sequenced_send_next_packets now delay num) ch;
     Some (has, Sequenced ch', acts)
   }"

fun channel_add_to_queue :: "net_packet \<Rightarrow> net_channel \<Rightarrow> net_channel \<times> chan_action list" where
  "channel_add_to_queue packet (Reliable ch) = (let (ch', acts) = add_to_queue packet ch in (Reliable ch', acts))"
| "channel_add_to_queue packet (Sequenced ch) = (let (ch', acts) = add_to_queue packet ch in (Sequenced ch', acts))"

definition set_channel :: "nat \<Rightarrow> net_channel \<Rightarrow> net_peer \<Rightarrow> net_peer" where
  "set_channel idx ch p = p\<lparr>m_channels := (m_channels p)[idx := Some ch]\<rparr>"

section \<open>Receiving\<close>

definition process_mtu_packet :: "nat \<Rightarrow> net_packet \<Rightarrow> world \<Rightarrow> world option" where
  "process_mtu_packet pp packet w = do {
     p \<leftarrow> get_peer pp w;
     if m_size packet < POSSIBLE_MTU ! 0 then Some (pool_recycle packet w)
     else do {
       receivedMtu \<leftarrow> get_i32_at packet 1;
       endMtuCheck \<leftarrow> get_i32_at packet (m_size packet - 4);
       if word_of_int (sint receivedMtu) \<noteq> (of_nat (m_size packet) :: i64) \<or> receivedMtu \<noteq> endMtuCheck
          \<or> sint receivedMtu > int MAX_PACKET_SIZE
       then Some (pool_recycle packet w)
       else if property packet = MTU_CHECK then do {
         let w1 = put_peer pp (p\<lparr>m_mtu_check_attempts := 0\<rparr>) w;
         (_, w2) \<leftarrow> send_raw_and_recycle (set_property MTU_OK packet) (m_endpoint p) w1;
         Some w2
       }
       else if sint receivedMtu \<le> int (m_mtu p) \<or> m_finish_mtu p then Some (pool_recycle packet w)
       else do {
         next_mtu \<leftarrow> vget POSSIBLE_MTU (int (m_mtu_idx p + 1));
         if sint receivedMtu \<noteq> int next_mtu then Some (pool_recycle packet w)
         else do {
           p1 \<leftarrow> set_mtu (m_mtu_idx p + 1) p;
           let p2 = (if m_mtu_idx p1 = length POSSIBLE_MTU - 1 then p1\<lparr>m_finish_mtu := True\<rparr> else p1);
           Some (pool_recycle packet (put_peer pp p2 w))
         }
       }
     }
   }"

definition process_ping :: "nat \<Rightarrow> net_packet \<Rightarrow> world \<Rightarrow> world option" where
  "process_ping pp packet w = do {
     p \<leftarrow> get_peer pp w;
     s \<leftarrow> sequence packet;
     s0 \<leftarrow> sequence (m_pong_packet p);
     w2 \<leftarrow> (if relative_sequence_number (uint s) (uint s0) > 0 then do {
            pong1 \<leftarrow> set_i64_at (word_of_int (system_time w)) 3 (m_pong_packet p);
            pong \<leftarrow> set_sequence s pong1;
            (_, w1) \<leftarrow> send_packet pong (m_endpoint p) (put_peer pp (p\<lparr>m_pong_packet := pong\<rparr>) w);
            Some w1
          }
          else Some w);
     Some (pool_recycle packet w2)
   }"

definition process_pong :: "nat \<Rightarrow> net_packet \<Rightarrow> world \<Rightarrow> world option" where
  "process_pong pp packet w = do {
     p \<leftarrow> get_peer pp w;
     s \<leftarrow> sequence packet;
     s0 \<leftarrow> sequence (m_ping_packet p);
     w2 \<leftarrow> (if s = s0 then do {
            let timer = sw_stop (clock w) (m_ping_timer p);
            let elapsedMs = sw_milliseconds (clock w) timer;
            t \<leftarrow> rd64 (m_data packet) 3;
            let delta = sint t + (elapsedMs * TICKS_PER_MILLISECOND) sdiv 2 - system_time w;
            let p1 = update_roundtrip_time elapsedMs (p\<lparr>m_ping_timer := timer, m_remote_delta := delta\<rparr>);
            connection_latency_updated (m_endpoint p) (elapsedMs sdiv 2) (put_peer pp p1 w)
          }
          else Some w);
     Some (pool_recycle packet w2)
   }"

text \<open>The bound of the channel number is checked with \<open>>\<close>; the access at the size itself is undefined.\<close>

definition process_channeled :: "nat \<Rightarrow> net_packet \<Rightarrow> world \<Rightarrow> world option" where
  "process_channeled pp packet w = do {
     p \<leftarrow> get_peer pp w;
     c \<leftarrow> channel_id packet;
     if unat c > length (m_channels p) then Some (pool_recycle packet w)
     else do {
       slot \<leftarrow> vget (m_channels p) (uint c);
       p1 \<leftarrow> (if slot = None \<and> property packet \<noteq> ACK then create_channel (unat c) p else Some p);
       slot1 \<leftarrow> vget (m_channels p1) (uint c);
       (case slot1 of
          None \<Rightarrow> Some (pool_recycle packet w)
        | Some ch \<Rightarrow> do {
            (processed, ch', acts) \<leftarrow> channel_process_packet packet ch;
            w1 \<leftarrow> perform pp (unat c) acts (put_peer pp (set_channel (unat c) ch' p1) w);
            Some (if processed then w1 else pool_recycle packet w1)
          })
     }
   }"

text \<open>The switch without its case \<open>MERGED\<close>; a packet of any other property is dropped.\<close>

definition process_single :: "nat \<Rightarrow> net_packet \<Rightarrow> world \<Rightarrow> world option" where
  "process_single pp packet w =
     (case property packet of
        PING \<Rightarrow> process_ping pp packet w
      | PONG \<Rightarrow> process_pong pp packet w
      | ACK \<Rightarrow> process_channeled pp packet w
      | CHANNELED \<Rightarrow> process_channeled pp packet w
      | UNRELIABLE \<Rightarrow> do {
          p \<leftarrow> get_peer pp w;
          create_receive_event packet UNRELIABLE_DELIVERY 0 HEADER_SIZE (m_endpoint p) w
        }
      | MTU_CHECK \<Rightarrow> process_mtu_packet pp packet w
      | MTU_OK \<Rightarrow> process_mtu_packet pp packet w
      | _ \<Rightarrow> Some w)"

text \<open>The tests before the switch: \<open>Inl\<close> when the packet is dropped, \<open>Inr\<close> when the switch is reached.\<close>

definition admit_packet :: "nat \<Rightarrow> net_packet \<Rightarrow> world \<Rightarrow> (world + world) option" where
  "admit_packet pp packet w = do {
     p \<leftarrow> get_peer pp w;
     let isConnected = (m_connection_state p = CONNECTED \<or> m_connection_state p = OUTGOING);
     Some (if \<not> isConnected then Inl (pool_recycle packet w)
           else if property packet = SHUTDOWN_OK then
             Inl (pool_recycle packet
                   (if m_connection_state p = SHUTDOWN_REQUESTED
                    then put_peer pp (p\<lparr>m_connection_state := DISCONNECTED\<rparr>) w else w))
           else if connection_number packet \<noteq> m_connect_number p then Inl (pool_recycle packet w)
           else Inr (put_peer pp (p\<lparr>m_time_since_last_packet := 0\<rparr>) w))
   }"

text \<open>
  \<open>loop\<close> is \<^const>\<open>None\<close> at a call, and \<open>Some pos\<close> at the head of the loop over a merged packet. The loop
  compares the size of a part with the buffer, not with the packet; a part that fails to verify is leaked.
\<close>

partial_function (option) process_packet_at ::
  "nat \<Rightarrow> net_packet \<Rightarrow> nat option \<Rightarrow> world \<Rightarrow> world option" where
  "process_packet_at pp packet loop w =
     (case loop of
        None \<Rightarrow> do {
          admitted \<leftarrow> admit_packet pp packet w;
          (case admitted of
             Inl w1 \<Rightarrow> Some w1
           | Inr w1 \<Rightarrow>
               if property packet = MERGED then process_packet_at pp packet (Some HEADER_SIZE) w1
               else process_single pp packet w1)
        }
      | Some pos \<Rightarrow>
          if pos < m_size packet then do {
            sz \<leftarrow> rd16 (m_data packet) pos;
            if usub (buffer_size packet) (pos + 2) < unat sz then Some (pool_recycle packet w)
            else do {
              let (mp, w1) = pool_get_packet (unat sz) w;
              mergedPacket \<leftarrow> copy_from (m_data packet) (pos + 2) 0 (unat sz) mp;
              if \<not> verify mergedPacket then Some (pool_recycle packet w1)
              else do {
                w2 \<leftarrow> process_packet_at pp mergedPacket None w1;
                process_packet_at pp packet (Some (pos + 2 + unat sz)) w2
              }
            }
          }
          else Some (pool_recycle packet w))"

declare process_packet_at.simps [code]

definition peer_process_packet :: "nat \<Rightarrow> net_packet \<Rightarrow> world \<Rightarrow> world option" where
  "peer_process_packet pp packet w = process_packet_at pp packet None w"

section \<open>The timers\<close>

definition update_mtu_logic :: "nat \<Rightarrow> int \<Rightarrow> world \<Rightarrow> world option" where
  "update_mtu_logic pp deltaTime w = do {
     p \<leftarrow> get_peer pp w;
     if m_finish_mtu p then Some w
     else do {
       let p1 = p\<lparr>m_mtu_check_timer := m_mtu_check_timer p + deltaTime\<rparr>;
       if m_mtu_check_timer p1 < MTU_CHECK_DELAY then Some (put_peer pp p1 w)
       else do {
         let p2 = p1\<lparr>m_mtu_check_timer := 0, m_mtu_check_attempts := m_mtu_check_attempts p1 + 1\<rparr>;
         if m_mtu_check_attempts p2 \<ge> MAX_MTU_CHECK_ATTEMPTS
         then Some (put_peer pp (p2\<lparr>m_finish_mtu := True\<rparr>) w)
         else if m_mtu_idx p2 \<ge> length POSSIBLE_MTU - 1 then Some (put_peer pp p2 w)
         else do {
           newMtu \<leftarrow> vget POSSIBLE_MTU (int (m_mtu_idx p2 + 1));
           let (packet0, w1) = pool_get_packet newMtu (put_peer pp p2 w);
           packet1 \<leftarrow> set_i32_at (of_nat newMtu) 1 (set_property MTU_CHECK packet0);
           packet \<leftarrow> set_i32_at (of_nat newMtu) (m_size packet1 - 4) packet1;
           (result, w2) \<leftarrow> send_raw_and_recycle packet (m_endpoint p2) w1;
           if result \<le> 0 then modify_peer pp (\<lambda>p. p\<lparr>m_finish_mtu := True\<rparr>) w2 else Some w2
         }
       }
     }
   }"

definition update_ping :: "nat \<Rightarrow> int \<Rightarrow> world \<Rightarrow> world option" where
  "update_ping pp deltaTime w = do {
     p \<leftarrow> get_peer pp w;
     let p1 = p\<lparr>m_ping_send_timer := m_ping_send_timer p + deltaTime\<rparr>;
     if m_ping_send_timer p1 \<ge> ping_interval w then do {
       s \<leftarrow> sequence (m_ping_packet p1);
       ping \<leftarrow> set_sequence (s + 1) (m_ping_packet p1);
       let p2 = p1\<lparr>m_ping_send_timer := 0, m_ping_packet := ping\<rparr>;
       let p3 = (if m_running_sw (m_ping_timer p2)
                 then update_roundtrip_time (sw_milliseconds (clock w) (m_ping_timer p2)) p2 else p2);
       let p4 = p3\<lparr>m_ping_timer := sw_restart (clock w) (m_ping_timer p3)\<rparr>;
       (_, w1) \<leftarrow> send_packet ping (m_endpoint p4) (put_peer pp p4 w);
       Some w1
     }
     else Some (put_peer pp p1 w)
   }"

definition update_rtt :: "int \<Rightarrow> world \<Rightarrow> net_peer \<Rightarrow> net_peer" where
  "update_rtt deltaTime w p =
     (let p1 = p\<lparr>m_rtt_reset_timer := m_rtt_reset_timer p + deltaTime\<rparr>
      in if m_rtt_reset_timer p1 > ping_interval w * 3
         then p1\<lparr>m_rtt_reset_timer := 0, m_rtt := m_avg_rtt p1, m_rtt_count := 1\<rparr> else p1)"

text \<open>The loop over the channels that wait: it runs as often as the queue was long when it began.\<close>

fun send_channels :: "nat \<Rightarrow> nat \<Rightarrow> world \<Rightarrow> world option" where
  "send_channels pp 0 w = Some w"
| "send_channels pp (Suc count) w = do {
     p \<leftarrow> get_peer pp w;
     (case q_dequeue (m_channel_send_queue p) of
        (None, _) \<Rightarrow> Some w
      | (Some idx, q) \<Rightarrow> do {
          slot \<leftarrow> vget (m_channels p) (int idx);
          ch \<leftarrow> slot;
          (has, ch', acts) \<leftarrow> channel_send_and_check_queue (system_time w) (m_resend_delay p) (m_connect_number p) ch;
          w1 \<leftarrow> perform pp idx acts (put_peer pp (set_channel idx ch' (p\<lparr>m_channel_send_queue := q\<rparr>)) w);
          w2 \<leftarrow> (if has then modify_peer pp (\<lambda>p. p\<lparr>m_channel_send_queue := q_push idx (m_channel_send_queue p)\<rparr>) w1
                 else Some w1);
          send_channels pp count w2
        })
   }"

fun send_unreliable :: "nat \<Rightarrow> net_packet list \<Rightarrow> world \<Rightarrow> world option" where
  "send_unreliable pp [] w = Some w"
| "send_unreliable pp (packet # ps) w = do {
     w1 \<leftarrow> modify_peer pp (\<lambda>p. p\<lparr>m_unreliable_channel := ps\<rparr>) w;
     (packet', w2) \<leftarrow> send_user_data pp packet w1;
     send_unreliable pp ps (pool_recycle packet' w2)
   }"

definition update_connected :: "nat \<Rightarrow> int \<Rightarrow> world \<Rightarrow> world option" where
  "update_connected pp deltaTime w = do {
     w1 \<leftarrow> update_ping pp deltaTime w;
     w2 \<leftarrow> modify_peer pp (update_rtt deltaTime w1) w1;
     w3 \<leftarrow> update_mtu_logic pp deltaTime w2;
     p \<leftarrow> get_peer pp w3;
     w4 \<leftarrow> send_channels pp (q_size (m_channel_send_queue p)) w3;
     p4 \<leftarrow> get_peer pp w4;
     w5 \<leftarrow> send_unreliable pp (m_unreliable_channel p4) w4;
     send_merged pp w5
   }"

definition peer_update :: "nat \<Rightarrow> int \<Rightarrow> world \<Rightarrow> world option" where
  "peer_update pp deltaTime w = do {
     p0 \<leftarrow> get_peer pp w;
     let p = p0\<lparr>m_time_since_last_packet := m_time_since_last_packet p0 + deltaTime\<rparr>;
     let w1 = put_peer pp p w;
     (case m_connection_state p of
        CONNECTED \<Rightarrow>
          if m_time_since_last_packet p > disconnect_timeout w
          then disconnect_peer_force (m_endpoint p) TIMEOUT 0 None w1
          else update_connected pp deltaTime w1
      | SHUTDOWN_REQUESTED \<Rightarrow>
          if m_time_since_last_packet p > disconnect_timeout w
          then Some (put_peer pp (p\<lparr>m_connection_state := DISCONNECTED\<rparr>) w1)
          else do {
            let p1 = p\<lparr>m_shutdown_timer := m_shutdown_timer p + deltaTime\<rparr>;
            if m_shutdown_timer p1 \<ge> SHUTDOWN_DELAY then do {
              (_, w2) \<leftarrow> send_packet (m_shutdown_packet p) (m_endpoint p) (put_peer pp (p1\<lparr>m_shutdown_timer := 0\<rparr>) w1);
              Some w2
            }
            else Some (put_peer pp p1 w1)
          }
      | OUTGOING \<Rightarrow> do {
          let p1 = p\<lparr>m_connect_timer := m_connect_timer p + deltaTime\<rparr>;
          if m_connect_timer p1 > reconnect_delay w then do {
            let p2 = p1\<lparr>m_connect_timer := 0, m_connect_attempts := m_connect_attempts p1 + 1\<rparr>;
            let w2 = put_peer pp p2 w1;
            if m_connect_attempts p2 > max_connect_attempts w
            then disconnect_peer_force (m_endpoint p) CONNECTION_FAILED 0 None w2
            else do {
              request \<leftarrow> m_connect_request_packet p2;
              (_, w3) \<leftarrow> send_packet request (m_endpoint p) w2;
              Some w3
            }
          }
          else Some (put_peer pp p1 w1)
        }
      | DISCONNECTED \<Rightarrow> Some w1
      | ENDPOINT_CHANGE \<Rightarrow> update_connected pp deltaTime w1)
   }"

section \<open>Sending\<close>

fun decimal :: "nat \<Rightarrow> string" where
  "decimal n = (if n < 10 then [char_of (48 + n)] else decimal (n div 10) @ [char_of (48 + n mod 10)])"

declare decimal.simps [simp del]

definition enqueue_on_channel :: "nat \<Rightarrow> nat \<Rightarrow> net_packet \<Rightarrow> world \<Rightarrow> world option" where
  "enqueue_on_channel pp idx packet w = do {
     p \<leftarrow> get_peer pp w;
     slot \<leftarrow> vget (m_channels p) (int idx);
     ch \<leftarrow> slot;
     let (ch', acts) = channel_add_to_queue packet ch;
     perform pp idx acts (put_peer pp (set_channel idx ch' p) w)
   }"

text \<open>The loop over the fragments: \<open>parts\<close> are left, \<open>partIdx\<close> is the next, \<open>sz\<close> bytes are left.\<close>

fun send_fragments :: "nat \<Rightarrow> nat \<Rightarrow> bytes \<Rightarrow> nat \<Rightarrow> nat \<Rightarrow> nat option \<Rightarrow> u16 \<Rightarrow> nat \<Rightarrow> nat \<Rightarrow> nat \<Rightarrow> nat
    \<Rightarrow> world \<Rightarrow> world option" where
  "send_fragments pp idx data offset packetDataSize ud fragId totalPackets 0 partIdx sz w = Some w"
| "send_fragments pp idx data offset packetDataSize ud fragId totalPackets (Suc parts) partIdx sz w = do {
     let sendLength = (if sz > packetDataSize then packetDataSize else sz);
     let (p0, w1) = pool_get_packet (static_header_size CHANNELED + sendLength + FRAGMENT_HEADER_SIZE) w;
     p2 \<leftarrow> set_fragment_id fragId ((set_property CHANNELED p0)\<lparr>user_data := ud\<rparr>);
     p3 \<leftarrow> set_fragment_part (of_nat partIdx) p2;
     p4 \<leftarrow> set_total_fragments (of_nat totalPackets) p3;
     p5 \<leftarrow> copy_from data (offset + partIdx * packetDataSize) FRAGMENTED_HEADER_TOTAL_SIZE sendLength (mark_fragmented p4);
     w2 \<leftarrow> enqueue_on_channel pp idx p5 w1;
     send_fragments pp idx data offset packetDataSize ud fragId totalPackets parts (partIdx + 1) (sz - sendLength) w2
   }"

text \<open>The part of \<open>send_internal\<close> behind the choice of the channel; \<open>p\<close> is the peer it read its MTU from.\<close>

definition send_payload ::
  "nat \<Rightarrow> net_peer \<Rightarrow> nat \<Rightarrow> bytes \<Rightarrow> nat \<Rightarrow> nat \<Rightarrow> delivery_method \<Rightarrow> nat option \<Rightarrow> world \<Rightarrow> world option" where
  "send_payload pp p idx data offset sz dm ud w =
     (let prop = (if dm = UNRELIABLE_DELIVERY then UNRELIABLE else CHANNELED);
          headerSize = static_header_size prop;
          mtu = m_mtu p
      in if sz + headerSize > mtu then
           if dm \<noteq> RELIABLE_ORDERED \<and> dm \<noteq> RELIABLE_UNORDERED then
             create_error_event 0 (''Unreliable or ReliableSequenced packet size exceeded maximum of '' @ decimal (mtu - headerSize)
                @ '' bytes, Check allowed size by get_max_single_packet_size'') w
           else
             let packetDataSize = mtu - headerSize - FRAGMENT_HEADER_SIZE;
                 totalPackets = sz div packetDataSize + (if sz mod packetDataSize = 0 then 0 else 1)
             in if totalPackets \<ge> 65535 then
                  create_error_event 0 (''Data was split in '' @ decimal totalPackets @ '' fragments, which exceeds 65535'') w
                else do {
                  let fid = m_fragment_id p + 1;
                  w1 \<leftarrow> modify_peer pp (\<lambda>p. p\<lparr>m_fragment_id := fid\<rparr>) w;
                  send_fragments pp idx data offset packetDataSize ud (word_of_int fid) totalPackets totalPackets 0 sz w1
                }
         else do {
           let (p0, w1) = pool_get_packet (headerSize + sz) w;
           packet \<leftarrow> copy_from data offset headerSize sz ((set_property prop p0)\<lparr>user_data := ud\<rparr>);
           if dm = UNRELIABLE_DELIVERY
           then modify_peer pp (\<lambda>p. p\<lparr>m_unreliable_channel := m_unreliable_channel p @ [packet]\<rparr>) w1
           else enqueue_on_channel pp idx packet w1
         })"

text \<open>The channel number is compared with the number of channels of all types.\<close>

definition send_internal ::
  "nat \<Rightarrow> bytes \<Rightarrow> nat \<Rightarrow> nat \<Rightarrow> u8 \<Rightarrow> delivery_method \<Rightarrow> nat option \<Rightarrow> world \<Rightarrow> world option" where
  "send_internal pp data offset sz channel dm ud w = do {
     p \<leftarrow> get_peer pp w;
     if m_connection_state p \<noteq> CONNECTED \<or> unat channel \<ge> length (m_channels p) then Some w
     else do {
       let idx = unat (channel * of_nat CHANNEL_TYPE_COUNT + of_nat (delivery_code dm) :: u8);
       w1 \<leftarrow> (if dm = UNRELIABLE_DELIVERY then Some w
              else do { p1 \<leftarrow> create_channel idx p; Some (put_peer pp p1 w) });
       send_payload pp p idx data offset sz dm ud w1
     }
   }"

definition peer_send :: "nat \<Rightarrow> bytes \<Rightarrow> u8 \<Rightarrow> delivery_method \<Rightarrow> world \<Rightarrow> world option" where
  "peer_send pp buffer channel dm w = send_internal pp buffer 0 (length buffer) channel dm None w"

end
