(* ===== verification/Net_Manager.thy ===== *)
theory Net_Manager
  imports Net_Peer
begin

text \<open>
  The class \<open>net_manager\<close> (\<open>net_manager.h/.cpp\<close>) and the connection requests
  (\<open>net_connection_request.h/.cpp\<close>): the table of peers, the handshake, the dispatch of a received
  datagram, the events, and one turn of the two threads. The application's listener is code outside the
  library: a function from a callback and a world to a world. The bodies of the two threads are
  \<open>receive_datagram\<close>, one turn of \<open>receive_logic\<close>, and \<open>update_logic_turn\<close>, one turn of \<open>update_logic\<close>.
\<close>

section \<open>The table of peers\<close>

definition get_next_peer_id :: "world \<Rightarrow> int \<times> world" where
  "get_next_peer_id w =
     (case q_dequeue (m_peer_ids w) of
        (Some i, q) \<Rightarrow> (i, w\<lparr>m_peer_ids := q\<rparr>)
      | (None, q) \<Rightarrow> (m_peer_id_counter w, w\<lparr>m_peer_id_counter := m_peer_id_counter w + 1\<rparr>))"

partial_function (option) double_until :: "nat \<Rightarrow> nat \<Rightarrow> nat option" where
  "double_until i newSize = (if i \<ge> newSize then double_until i (newSize * 2) else Some newSize)"

declare double_until.simps [code]

definition array_for_id :: "int \<Rightarrow> nat option list \<Rightarrow> nat option list option" where
  "array_for_id i arr =
     (if nat i \<ge> length arr then do {
        newSize \<leftarrow> double_until (nat i) (length arr * 2);
        Some (arr @ replicate (newSize - length arr) None)
      }
      else Some arr)"

definition add_peer :: "nat \<Rightarrow> world \<Rightarrow> world option" where
  "add_peer pp w = do {
     w1 \<leftarrow> (case m_head_peer w of
         None \<Rightarrow> Some w
       | Some h \<Rightarrow> do {
           w1 \<leftarrow> modify_peer pp (\<lambda>p. p\<lparr>m_next_peer := Some h\<rparr>) w;
           modify_peer h (\<lambda>p. p\<lparr>m_prev_peer := Some pp\<rparr>) w1
         });
     p \<leftarrow> get_peer pp w1;
     let k = akey (m_endpoint p);
     let w2 = w1\<lparr>m_head_peer := Some pp,
                 m_peers := (if m_peers w1 k = None then (m_peers w1)(k \<mapsto> pp) else m_peers w1)\<rparr>;
     arr \<leftarrow> array_for_id (m_peer_id p) (m_peers_array w2);
     arr1 \<leftarrow> vset arr (m_peer_id p) (Some pp);
     Some (w2\<lparr>m_peers_array := arr1\<rparr>)
   }"

definition remove_peer_internal :: "sockaddr_in \<Rightarrow> world \<Rightarrow> world option" where
  "remove_peer_internal address w =
     (case m_peers w (akey address) of
        None \<Rightarrow> Some w
      | Some pp \<Rightarrow> do {
          p \<leftarrow> get_peer pp w;
          let w1 = w\<lparr>m_peers := (m_peers w)(akey address := None)\<rparr>;
          let w2 = (if m_head_peer w1 = Some pp then w1\<lparr>m_head_peer := m_next_peer p\<rparr> else w1);
          w3 \<leftarrow> (case m_prev_peer p of
              None \<Rightarrow> Some w2
            | Some q \<Rightarrow> modify_peer q (\<lambda>x. x\<lparr>m_next_peer := m_next_peer p\<rparr>) w2);
          w4 \<leftarrow> (case m_next_peer p of
              None \<Rightarrow> Some w3
            | Some n \<Rightarrow> modify_peer n (\<lambda>x. x\<lparr>m_prev_peer := m_prev_peer p\<rparr>) w3);
          w5 \<leftarrow> modify_peer pp (\<lambda>x. x\<lparr>m_prev_peer := None\<rparr>) w4;
          arr \<leftarrow> vset (m_peers_array w5) (m_peer_id p) None;
          Some (w5\<lparr>m_peers_array := arr, m_peer_ids := q_push (m_peer_id p) (m_peer_ids w5)\<rparr>)
        })"

definition remove_peer :: "sockaddr_in \<Rightarrow> world \<Rightarrow> world option" where
  "remove_peer address w = remove_peer_internal address w"

section \<open>Disconnection\<close>

definition disconnect_peer :: "sockaddr_in \<Rightarrow> disconnect_reason \<Rightarrow> int \<Rightarrow> bool \<Rightarrow> bytes option \<Rightarrow> nat \<Rightarrow> nat
    \<Rightarrow> net_packet option \<Rightarrow> world \<Rightarrow> world option" where
  "disconnect_peer address reason err force rejectData offset sz eventData w =
     (case try_get_peer address w of
        None \<Rightarrow> Some w
      | Some pp \<Rightarrow> do {
          (result, w1) \<leftarrow> peer_shutdown pp rejectData offset sz force w;
          if result = SHUTDOWN_NONE then Some (pool_recycle_ptr eventData w1)
          else create_event (default_event\<lparr>ev_type := EVENT_DISCONNECT, ev_peer := Some pp,
                 socketErrorCode := err, disconnectReason := reason, m_reader_source := eventData\<rparr>) w1
        })"

partial_function (option) peer_addresses :: "nat option \<Rightarrow> world \<Rightarrow> sockaddr_in list option" where
  "peer_addresses netPeer w =
     (case netPeer of
        None \<Rightarrow> Some []
      | Some pp \<Rightarrow> do {
          p \<leftarrow> get_peer pp w;
          rest \<leftarrow> peer_addresses (m_next_peer p) w;
          Some (m_endpoint p # rest)
        })"

declare peer_addresses.simps [code]

fun disconnect_each :: "bytes option \<Rightarrow> nat \<Rightarrow> nat \<Rightarrow> sockaddr_in list \<Rightarrow> world \<Rightarrow> world option" where
  "disconnect_each data offset sz [] w = Some w"
| "disconnect_each data offset sz (addr # addrs) w = do {
     w1 \<leftarrow> disconnect_peer addr DISCONNECT_PEER_CALLED 0 False data offset sz None w;
     disconnect_each data offset sz addrs w1
   }"

definition disconnect_all :: "bytes option \<Rightarrow> nat \<Rightarrow> nat \<Rightarrow> world \<Rightarrow> world option" where
  "disconnect_all data offset sz w = do {
     addressList \<leftarrow> peer_addresses (m_head_peer w) w;
     disconnect_each data offset sz addressList w
   }"

section \<open>Connection requests\<close>

definition request_packet_recycle :: "net_connect_request_packet \<Rightarrow> world \<Rightarrow> net_connect_request_packet \<times> world" where
  "request_packet_recycle r w =
     (case cr_packet r of None \<Rightarrow> (r, w) | Some p \<Rightarrow> (r\<lparr>cr_packet := None\<rparr>, pool_recycle p w))"

definition request_recycle :: "nat \<Rightarrow> world \<Rightarrow> world option" where
  "request_recycle rp w = do {
     request \<leftarrow> request_heap w rp;
     (case m_internal_packet request of
        None \<Rightarrow> Some w
      | Some r \<Rightarrow>
          let (r', w1) = request_packet_recycle r w
          in Some (w1\<lparr>request_heap := (request_heap w1)(rp \<mapsto> request\<lparr>m_internal_packet := Some r'\<rparr>)\<rparr>))
   }"

definition update_request :: "net_connect_request_packet \<Rightarrow> net_connection_request \<Rightarrow> net_connection_request option" where
  "update_request connectRequest request = do {
     internal \<leftarrow> m_internal_packet request;
     if cr_connection_time connectRequest <s cr_connection_time internal then Some request
     else if cr_connection_time connectRequest = cr_connection_time internal \<and>
             cr_connection_number connectRequest = cr_connection_number internal then Some request
     else Some (request\<lparr>m_internal_packet := Some connectRequest\<rparr>)
   }"

definition try_activate :: "net_connection_request \<Rightarrow> bool \<times> net_connection_request" where
  "try_activate request = (if m_used request = 0 then (True, request\<lparr>m_used := 1\<rparr>) else (False, request))"

text \<open>
  The first half of \<open>process_connect_request\<close>: what becomes of the peer that is already there. The
  result is the request to file, or \<^const>\<open>None\<close> when it is dropped.
\<close>

definition judge_request ::
  "sockaddr_in \<Rightarrow> nat option \<Rightarrow> net_connect_request_packet \<Rightarrow> world \<Rightarrow> (net_connect_request_packet option \<times> world) option" where
  "judge_request addr peer request w =
     (case peer of
        None \<Rightarrow> Some (Some request, w)
      | Some pp \<Rightarrow> do {
          (processResult, w1) \<leftarrow> peer_process_connect_request pp request w;
          p \<leftarrow> get_peer pp w1;
          let renumbered = request\<lparr>cr_connection_number := (m_connect_number p + 1) mod MAX_CONNECTION_NUMBER\<rparr>;
          (case processResult of
             RECONNECTION \<Rightarrow> do {
               w2 \<leftarrow> disconnect_peer_force addr RECONNECT 0 None w1;
               w3 \<leftarrow> remove_peer addr w2;
               Some (Some renumbered, w3)
             }
           | NEW_CONNECTION \<Rightarrow> do {
               w3 \<leftarrow> remove_peer addr w1;
               Some (Some renumbered, w3)
             }
           | P2P_LOSE \<Rightarrow> do {
               w2 \<leftarrow> disconnect_peer_force addr PEER_TO_PEER_CONNECTION 0 None w1;
               w3 \<leftarrow> remove_peer addr w2;
               Some (Some request, w3)
             }
           | REQUEST_NONE \<Rightarrow> Some (None, snd (request_packet_recycle request w1)))
        })"

text \<open>The second half: a request already filed under the address is updated, else an event is made.\<close>

definition file_request :: "sockaddr_in \<Rightarrow> net_connect_request_packet \<Rightarrow> world \<Rightarrow> world option" where
  "file_request addr request w =
     (case m_connection_requests w (akey addr) of
        Some rp \<Rightarrow> do {
          r \<leftarrow> request_heap w rp;
          r' \<leftarrow> update_request request r;
          Some (w\<lparr>request_heap := (request_heap w)(rp \<mapsto> r')\<rparr>)
        }
      | None \<Rightarrow>
          let rp = next_object w;
              req = \<lparr>m_used = 0, m_internal_packet = Some request, m_remote_endpoint = addr, m_result = NO_RESULT\<rparr>;
              w1 = w\<lparr>request_heap := (request_heap w)(rp \<mapsto> req), next_object := rp + 1,
                     m_connection_requests := (m_connection_requests w)(akey addr \<mapsto> rp)\<rparr>
          in create_event (default_event\<lparr>ev_type := EVENT_CONNECTION_REQUEST, remoteEndpoint := addr,
                             connectionRequest := Some rp\<rparr>) w1)"

definition process_connect_request ::
  "sockaddr_in \<Rightarrow> nat option \<Rightarrow> net_connect_request_packet \<Rightarrow> world \<Rightarrow> world option" where
  "process_connect_request addr peer request w = do {
     (nxt, w1) \<leftarrow> judge_request addr peer request w;
     (case nxt of None \<Rightarrow> Some w1 | Some r \<Rightarrow> file_request addr r w1)
   }"

text \<open>\<open>on_connection_solved\<close> for a forced refusal, which only answers when there is data to send.\<close>

definition refuse_force :: "net_connection_request \<Rightarrow> bytes option \<Rightarrow> nat \<Rightarrow> nat \<Rightarrow> world \<Rightarrow> world option" where
  "refuse_force request rejectData offset sz w =
     (case rejectData of
        None \<Rightarrow> Some w
      | Some data \<Rightarrow>
          if sz > 0 then do {
            internal \<leftarrow> m_internal_packet request;
            let (sp0, w1) = pool_get_with_property DISCONNECT sz w;
            let sp = set_connection_number (cr_connection_number internal) sp0;
            sp1 \<leftarrow> (if m_size sp \<ge> POSSIBLE_MTU ! 0 then Some sp else copy_from data offset 9 sz sp);
            (_, w2) \<leftarrow> send_raw_and_recycle sp1 (m_remote_endpoint request) w1;
            Some w2
          }
          else Some w)"

text \<open>The other results make a peer, unless the address has one: to refuse it politely, or to accept it.\<close>

definition solve_with_peer ::
  "net_connection_request \<Rightarrow> bytes option \<Rightarrow> nat \<Rightarrow> nat \<Rightarrow> world \<Rightarrow> (nat option \<times> world) option" where
  "solve_with_peer request rejectData offset sz w =
     (if m_peers w (akey (m_remote_endpoint request)) \<noteq> None then Some (None, w)
      else if m_result request = REJECT then do {
        internal \<leftarrow> m_internal_packet request;
        let (i, w1) = get_next_peer_id w;
        p \<leftarrow> new_peer (channels_count w1) (m_remote_endpoint request) i;
        let (pp, w2) = alloc_peer p w1;
        w3 \<leftarrow> peer_reject pp internal rejectData offset sz w2;
        w4 \<leftarrow> add_peer pp w3;
        Some (Some pp, w4)
      }
      else do {
        let (i, w1) = get_next_peer_id w;
        (pp, w2) \<leftarrow> new_peer_accept request i w1;
        w3 \<leftarrow> add_peer pp w2;
        w4 \<leftarrow> create_event (default_event\<lparr>ev_type := EVENT_CONNECT, ev_peer := Some pp\<rparr>) w3;
        Some (Some pp, w4)
      })"

definition on_connection_solved ::
  "net_connection_request \<Rightarrow> bytes option \<Rightarrow> nat \<Rightarrow> nat \<Rightarrow> world \<Rightarrow> (nat option \<times> world) option" where
  "on_connection_solved request rejectData offset sz w = do {
     (result, w1) \<leftarrow>
       (if m_result request = REJECT_FORCE then do {
          w1 \<leftarrow> refuse_force request rejectData offset sz w;
          Some (None, w1)
        }
        else solve_with_peer request rejectData offset sz w);
     Some (result, w1\<lparr>m_connection_requests := (m_connection_requests w1)(akey (m_remote_endpoint request) := None)\<rparr>)
   }"

text \<open>The methods of a request for the application; the request is taken once.\<close>

definition request_solve :: "nat \<Rightarrow> connection_request_result \<Rightarrow> bytes option \<Rightarrow> nat \<Rightarrow> nat \<Rightarrow> world
    \<Rightarrow> (nat option \<times> world) option" where
  "request_solve rp result rejectData offset sz w = do {
     request \<leftarrow> request_heap w rp;
     let request1 = request\<lparr>m_result := result\<rparr>;
     on_connection_solved request1 rejectData offset sz (w\<lparr>request_heap := (request_heap w)(rp \<mapsto> request1)\<rparr>)
   }"

definition request_accept :: "nat \<Rightarrow> world \<Rightarrow> (nat option \<times> world) option" where
  "request_accept rp w = do {
     request \<leftarrow> request_heap w rp;
     let (ok, request1) = try_activate request;
     if \<not> ok then Some (None, w)
     else request_solve rp ACCEPT None 0 0 (w\<lparr>request_heap := (request_heap w)(rp \<mapsto> request1)\<rparr>)
   }"

definition request_reject :: "nat \<Rightarrow> bytes option \<Rightarrow> nat \<Rightarrow> nat \<Rightarrow> bool \<Rightarrow> world \<Rightarrow> world option" where
  "request_reject rp rejectData offset sz force w = do {
     request \<leftarrow> request_heap w rp;
     let (ok, request1) = try_activate request;
     if \<not> ok then Some w
     else do {
       (_, w1) \<leftarrow> request_solve rp (if force then REJECT_FORCE else REJECT) rejectData offset sz
                    (w\<lparr>request_heap := (request_heap w)(rp \<mapsto> request1)\<rparr>);
       Some w1
     }
   }"

text \<open>
  The key is read from the request's packet: once the packet went back to the pool, the reader's
  bytes are gone, and reading them is undefined.
\<close>

definition accept_if_key :: "nat \<Rightarrow> bytes \<Rightarrow> world \<Rightarrow> (nat option \<times> world) option" where
  "accept_if_key rp expectedKey w = do {
     request \<leftarrow> request_heap w rp;
     let (ok, request1) = try_activate request;
     if \<not> ok then Some (None, w)
     else do {
       internal \<leftarrow> m_internal_packet request1;
       _ \<leftarrow> cr_packet internal;
       (key, reader) \<leftarrow> try_read_string (cr_data internal);
       let request2 = request1\<lparr>m_internal_packet := Some (internal\<lparr>cr_data := reader\<rparr>)\<rparr>;
       let w1 = w\<lparr>request_heap := (request_heap w)(rp \<mapsto> request2)\<rparr>;
       if key = Some expectedKey \<or> m_result request2 = ACCEPT then request_solve rp ACCEPT None 0 0 w1
       else do {
         (_, w2) \<leftarrow> request_solve rp REJECT None 0 0 w1;
         Some (None, w2)
       }
     }
   }"

section \<open>Connecting\<close>

text \<open>
  The connection number of a first connection to an address is read from a variable that was never
  set; its value is the argument \<open>uninitialised\<close>.
\<close>

definition connect_new :: "u8 \<Rightarrow> sockaddr_in \<Rightarrow> net_data_writer \<Rightarrow> world \<Rightarrow> (nat option \<times> world) option" where
  "connect_new connectionNumber address data w = do {
     let (i, w1) = get_next_peer_id w;
     (pp, w2) \<leftarrow> new_peer_connect address i connectionNumber data w1;
     w3 \<leftarrow> add_peer pp w2;
     Some (Some pp, w3)
   }"

definition connect :: "u8 \<Rightarrow> sockaddr_in \<Rightarrow> net_data_writer \<Rightarrow> world \<Rightarrow> (nat option \<times> world) option" where
  "connect uninitialised address data w =
     (if \<not> m_running w then Some (None, w)
      else if m_connection_requests w (akey address) \<noteq> None then Some (None, w)
      else case m_peers w (akey address) of
          None \<Rightarrow> connect_new uninitialised address data w
        | Some pp \<Rightarrow> do {
            p \<leftarrow> get_peer pp w;
            if m_connection_state p = CONNECTED \<or> m_connection_state p = OUTGOING
            then Some (Some pp, w)
            else do {
              w1 \<leftarrow> remove_peer_internal address w;
              connect_new ((m_connect_number p + 1) mod MAX_CONNECTION_NUMBER) address data w1
            }
          })"

section \<open>Events\<close>

record disconnect_info =
  di_reason :: disconnect_reason
  additional_data :: "net_data_reader option"
  socket_error_code :: int

text \<open>A call of a method of \<open>net_event_listener\<close> with its arguments.\<close>

datatype callback =
  On_peer_connected "nat option"
| On_peer_disconnected "nat option" disconnect_info
| On_network_error sockaddr_in int string
| On_network_receive "nat option" net_data_reader u8 delivery_method
| On_network_receive_unconnected sockaddr_in net_data_reader unconnected_message_type
| On_network_latency_update "nat option" int
| On_connection_request "nat option"
| On_message_delivered "nat option" "nat option"

definition event_recycle :: "net_event \<Rightarrow> world \<Rightarrow> (net_event \<times> world) option" where
  "event_recycle evt w = do {
     let w1 = pool_recycle_ptr (m_reader_source evt) w;
     w2 \<leftarrow> (case connectionRequest evt of None \<Rightarrow> Some w1 | Some rp \<Rightarrow> request_recycle rp w1);
     Some (evt\<lparr>m_recycled := True\<rparr>, w2)
   }"

text \<open>The call an event makes; reading a reader or a message the event does not have is undefined.\<close>

definition event_callback :: "net_event \<Rightarrow> callback option option" where
  "event_callback evt =
     (case ev_type evt of
        EVENT_CONNECT \<Rightarrow> Some (Some (On_peer_connected (ev_peer evt)))
      | EVENT_DISCONNECT \<Rightarrow> Some (Some (On_peer_disconnected (ev_peer evt)
           \<lparr>di_reason = disconnectReason evt, additional_data = ev_reader evt,
            socket_error_code = socketErrorCode evt\<rparr>))
      | EVENT_RECEIVE \<Rightarrow> do {
          r \<leftarrow> ev_reader evt;
          Some (Some (On_network_receive (ev_peer evt) r (channelNumber evt) (deliveryMethod evt)))
        }
      | EVENT_RECEIVE_UNCONNECTED \<Rightarrow> do {
          r \<leftarrow> ev_reader evt;
          Some (Some (On_network_receive_unconnected (remoteEndpoint evt) r BASIC))
        }
      | EVENT_BROADCAST \<Rightarrow> do {
          r \<leftarrow> ev_reader evt;
          Some (Some (On_network_receive_unconnected (remoteEndpoint evt) r BROADCAST_MESSAGE))
        }
      | EVENT_NETWORK_ERROR \<Rightarrow> do {
          msg \<leftarrow> errorMessage evt;
          Some (Some (On_network_error (remoteEndpoint evt) (socketErrorCode evt) msg))
        }
      | EVENT_CONNECTION_LATENCY_UPDATED \<Rightarrow> Some (Some (On_network_latency_update (ev_peer evt) (latency evt)))
      | EVENT_CONNECTION_REQUEST \<Rightarrow> Some (Some (On_connection_request (connectionRequest evt)))
      | EVENT_MESSAGE_DELIVERED \<Rightarrow> Some (Some (On_message_delivered (ev_peer evt) (userData evt)))
      | EVENT_PEER_ADDRESS_CHANGED \<Rightarrow> Some None)"

text \<open>The event is not given to the listener; a failed assertion is undefined.\<close>

definition process_event :: "(callback \<Rightarrow> world \<Rightarrow> world option) \<Rightarrow> net_event \<Rightarrow> world \<Rightarrow> world option" where
  "process_event listener event w = do {
     cb \<leftarrow> event_callback event;
     w1 \<leftarrow> (case cb of None \<Rightarrow> Some w | Some c \<Rightarrow> listener c w);
     (event', w2) \<leftarrow> (if auto_recycle w1 then event_recycle event w1 else Some (event, w1));
     if m_recycled event' then Some w2 else None
   }"

fun process_events :: "(callback \<Rightarrow> world \<Rightarrow> world option) \<Rightarrow> net_event list \<Rightarrow> world \<Rightarrow> world option" where
  "process_events listener [] w = Some w"
| "process_events listener (event # events) w = do {
     w1 \<leftarrow> process_event listener event w;
     process_events listener events w1
   }"

definition poll_events :: "(callback \<Rightarrow> world \<Rightarrow> world option) \<Rightarrow> world \<Rightarrow> world option" where
  "poll_events listener w = do {
     let w1 = w\<lparr>m_events_produce_queue := m_events_consume_queue w, m_events_consume_queue := m_events_produce_queue w\<rparr>;
     w2 \<leftarrow> process_events listener (m_events_consume_queue w1) w1;
     Some (w2\<lparr>m_events_consume_queue := []\<rparr>)
   }"

section \<open>A received datagram\<close>

definition reply_with :: "packet_property \<Rightarrow> sockaddr_in \<Rightarrow> world \<Rightarrow> world option" where
  "reply_with prop addr w = do {
     let (packet, w1) = pool_get_with_property prop 0 w;
     (_, w2) \<leftarrow> send_raw_and_recycle packet addr w1;
     Some w2
   }"

text \<open>Some paths neither keep the packet nor give it back to the pool.\<close>

definition on_peer_not_found :: "nat \<Rightarrow> net_packet \<Rightarrow> sockaddr_in \<Rightarrow> world \<Rightarrow> world option" where
  "on_peer_not_found pp packet addr w = do {
     p \<leftarrow> get_peer pp w;
     if m_connection_state p \<noteq> CONNECTED then Some (pool_recycle packet w)
     else if m_size packet = 1 then do {
       p1 \<leftarrow> reset_mtu p;
       changed \<leftarrow> make_network_changed (m_connect_time p1) (m_connect_number p1) (m_remote_id p1);
       (_, w1) \<leftarrow> send_raw_and_recycle changed addr (put_peer pp p1 w);
       Some w1
     }
     else do {
       b \<leftarrow> (if m_size packet = 2 then rd8 (m_data packet) 1 else Some 0);
       if m_size packet = 2 \<and> b = 1
       then disconnect_peer_force (m_endpoint p) PEER_NOT_FOUND_REASON 0 None w
       else if m_size packet > 1 then do {
         let (r0, w1) = pool_get_with_property PEER_NOT_FOUND 1 (pool_recycle packet w);
         r1 \<leftarrow> set_u8_at 1 1 r0;
         (_, w2) \<leftarrow> send_raw_and_recycle r1 addr w1;
         Some w2
       }
       else Some w
     }
   }"

definition on_disconnect :: "nat \<Rightarrow> net_packet \<Rightarrow> sockaddr_in \<Rightarrow> world \<Rightarrow> world option" where
  "on_disconnect pp packet addr w = do {
     p \<leftarrow> get_peer pp w;
     disconnectResult \<leftarrow> process_disconnect packet p;
     if disconnectResult = DISCONNECT_NONE then Some (pool_recycle packet w)
     else do {
       w1 \<leftarrow> disconnect_peer_force (m_endpoint p)
              (if disconnectResult = DISCONNECT_DISCONNECT then REMOTE_CONNECTION_CLOSE else CONNECTION_REJECTED)
              0 (Some packet) w;
       reply_with SHUTDOWN_OK addr w1
     }
   }"

definition on_connect_accept :: "nat \<Rightarrow> net_packet \<Rightarrow> world \<Rightarrow> world option" where
  "on_connect_accept pp packet w = do {
     connAccept \<leftarrow> connect_accept_from_data packet;
     w1 \<leftarrow> (case connAccept of
         None \<Rightarrow> Some w
       | Some acc \<Rightarrow> do {
           p \<leftarrow> get_peer pp w;
           let (ok, p1) = process_connect_accept acc p;
           let w1 = put_peer pp p1 w;
           if ok then create_event (default_event\<lparr>ev_type := EVENT_CONNECT, ev_peer := Some pp\<rparr>) w1 else Some w1
         });
     Some (pool_recycle packet w1)
   }"

definition dispatch_message :: "net_packet \<Rightarrow> sockaddr_in \<Rightarrow> world \<Rightarrow> world option" where
  "dispatch_message packet addr w =
     (let netPeer = m_peers w (akey addr)
      in case property packet of
           CONNECT_REQUEST \<Rightarrow> do {
             connRequest \<leftarrow> connect_request_from_data packet;
             (case connRequest of
                Some r \<Rightarrow> process_connect_request addr netPeer r w
              | None \<Rightarrow> Some (pool_recycle packet w))
           }
         | PEER_NOT_FOUND \<Rightarrow> (case netPeer of None \<Rightarrow> Some w | Some pp \<Rightarrow> on_peer_not_found pp packet addr w)
         | INVALID_PROTOCOL \<Rightarrow> (case netPeer of
             None \<Rightarrow> Some w
           | Some pp \<Rightarrow> do {
               p \<leftarrow> get_peer pp w;
               if m_connection_state p = OUTGOING
               then disconnect_peer_force (m_endpoint p) INVALID_PROTOCOL_REASON 0 None w
               else Some w
             })
         | DISCONNECT \<Rightarrow> (case netPeer of
             None \<Rightarrow> reply_with SHUTDOWN_OK addr (pool_recycle packet w)
           | Some pp \<Rightarrow> on_disconnect pp packet addr w)
         | CONNECT_ACCEPT \<Rightarrow> (case netPeer of
             None \<Rightarrow> Some (pool_recycle packet w)
           | Some pp \<Rightarrow> on_connect_accept pp packet w)
         | _ \<Rightarrow> (case netPeer of
             None \<Rightarrow> reply_with PEER_NOT_FOUND addr (pool_recycle packet w)
           | Some pp \<Rightarrow> peer_process_packet pp packet w))"

definition on_message_received :: "net_packet \<Rightarrow> sockaddr_in \<Rightarrow> world \<Rightarrow> world option" where
  "on_message_received packet addr w =
     (if \<not> verify packet then Some (pool_recycle packet w)
      else if property packet = CONNECT_REQUEST then do {
        protocol \<leftarrow> get_protocol_id packet;
        if protocol \<noteq> PROTOCOL_ID then do {
          w1 \<leftarrow> reply_with INVALID_PROTOCOL addr w;
          Some (pool_recycle packet w1)
        }
        else dispatch_message packet addr w
      }
      else if property packet = BROADCAST then
        (if \<not> broadcast_receive_enabled w then Some (pool_recycle packet w)
         else create_event (default_event\<lparr>ev_type := EVENT_BROADCAST, remoteEndpoint := addr,
                              m_reader_source := Some packet\<rparr>) w)
      else if property packet = UNCONNECTED_MESSAGE then
        (if \<not> unconnected_messages_enabled w then Some (pool_recycle packet w)
         else create_event (default_event\<lparr>ev_type := EVENT_RECEIVE_UNCONNECTED, remoteEndpoint := addr,
                              m_reader_source := Some packet\<rparr>) w)
      else dispatch_message packet addr w)"

text \<open>
  One turn of \<open>receive_logic\<close> once a datagram is there. \<open>recvfrom\<close> either fails or gives at most
  \<open>MAX_PACKET_SIZE\<close> bytes, which it writes to the front of the buffer, and their sender.
\<close>

definition receive_datagram :: "(bytes \<times> sockaddr_in) option \<Rightarrow> world \<Rightarrow> world option" where
  "receive_datagram recvfrom w =
     (let (packet, w1) = pool_get_packet MAX_PACKET_SIZE w
      in case recvfrom of
           None \<Rightarrow> Some (pool_recycle packet w1)
         | Some (data, addr) \<Rightarrow> do {
             packet1 \<leftarrow> copy_from data 0 0 (min (length data) MAX_PACKET_SIZE) packet;
             on_message_received (resize (min (length data) MAX_PACKET_SIZE) packet1) addr w1
           })"

section \<open>The logic thread\<close>

partial_function (option) update_peers ::
  "int \<Rightarrow> nat option \<Rightarrow> world \<Rightarrow> (sockaddr_in list \<times> world) option" where
  "update_peers elapsed netPeer w =
     (case netPeer of
        None \<Rightarrow> Some ([], w)
      | Some pp \<Rightarrow> do {
          p \<leftarrow> get_peer pp w;
          (addrs, w1) \<leftarrow>
            (if m_connection_state p = DISCONNECTED \<and> m_time_since_last_packet p > disconnect_timeout w
             then Some ([m_endpoint p], w)
             else do { w1 \<leftarrow> peer_update pp elapsed w; Some ([], w1) });
          p1 \<leftarrow> get_peer pp w1;
          (rest, w2) \<leftarrow> update_peers elapsed (m_next_peer p1) w1;
          Some (addrs @ rest, w2)
        })"

declare update_peers.simps [code]

fun remove_peers :: "sockaddr_in list \<Rightarrow> world \<Rightarrow> world option" where
  "remove_peers [] w = Some w"
| "remove_peers (addr # addrs) w = do { w1 \<leftarrow> remove_peer_internal addr w; remove_peers addrs w1 }"

text \<open>One turn of \<open>update_logic\<close> and the time it sleeps; the stopwatch is the thread's own.\<close>

definition update_logic_turn :: "net_stopwatch \<Rightarrow> world \<Rightarrow> (int \<times> net_stopwatch \<times> world) option" where
  "update_logic_turn stopwatch w = do {
     let elapsed0 = sw_milliseconds (clock w) stopwatch;
     let elapsed = (if elapsed0 \<le> 0 then 1 else elapsed0);
     let stopwatch1 = sw_restart (clock w) stopwatch;
     (peersToRemove, w1) \<leftarrow> update_peers elapsed (m_head_peer w) w;
     w2 \<leftarrow> remove_peers peersToRemove w1;
     let sleepTime = update_time w2 - sw_milliseconds (clock w2) stopwatch1;
     Some (max 0 sleepTime, stopwatch1, w2)
   }"

section \<open>The end\<close>

fun recycle_events :: "net_event list \<Rightarrow> world \<Rightarrow> world option" where
  "recycle_events [] w = Some w"
| "recycle_events (evt # evts) w = do { (_, w1) \<leftarrow> event_recycle evt w; recycle_events evts w1 }"

text \<open>
  The body of the destructor, after the two threads were joined and the socket was closed. Its last loop deletes the
  packets of the pool and leaves \<open>m_packet_pool_head\<close> as it is, a dangling pointer: behind this operation the list in
  that field names packets that are gone. The destruction of the members, which follows the body and in
  which the peers and the channels that die put packets into that pool, is not modelled.
\<close>

definition destroy_manager :: "world \<Rightarrow> world option" where
  "destroy_manager w0 = do {
     let w = w0\<lparr>m_running := False\<rparr>;
     w1 \<leftarrow> recycle_events (m_events_consume_queue w) w;
     w2 \<leftarrow> recycle_events (m_events_produce_queue w1) (w1\<lparr>m_events_consume_queue := []\<rparr>);
     Some (w2\<lparr>m_events_produce_queue := []\<rparr>)
   }"

end
