(* ===== verification/Peer_Frame.thy ===== *)
theory Peer_Frame
  imports Net_Peer
begin

text \<open>
  What every operation of a peer keeps. A relation on worlds that is reflexive and transitive, and that
  the pool, the events, \<open>sendto\<close> and a well-behaved change of one peer respect (locale
  \<open>peer_world\<close>), holds between the worlds before and after each operation of \<open>net_peer\<close>. Its
  interpretations give the facts the manager needs: the tables are untouched, the pool stays
  well formed, and the events that were added can be processed.
\<close>

section \<open>A change of one peer\<close>

text \<open>The moves of the connection state: \<open>DISCONNECTED\<close> is final, and no state goes back.\<close>

definition state_le :: "connection_state \<Rightarrow> connection_state \<Rightarrow> bool" where
  "state_le s t \<longleftrightarrow>
     s = t \<or> (s = OUTGOING \<and> t = CONNECTED) \<or> t = DISCONNECTED \<or> (s \<noteq> DISCONNECTED \<and> t = SHUTDOWN_REQUESTED)"

lemma state_le_refl [simp]: "state_le s s" by (simp add: state_le_def)

lemma state_le_trans: "state_le s t \<Longrightarrow> state_le t u \<Longrightarrow> state_le s u"
  by (auto simp: state_le_def)

definition mtu_ok :: "net_peer \<Rightarrow> bool" where
  "mtu_ok p \<longleftrightarrow> m_mtu_idx p < length POSSIBLE_MTU \<and> m_mtu p = POSSIBLE_MTU ! m_mtu_idx p"

definition merge_ok :: "net_peer \<Rightarrow> bool" where
  "merge_ok p \<longleftrightarrow> buffer_size (m_merge_data p) = 2048 \<and> m_merge_pos p + 1 \<le> MAX_PACKET_SIZE \<and>
     0 \<le> m_merge_count p \<and> (m_merge_count p = 0 \<longleftrightarrow> m_merge_pos p = 0)"

definition peer_ok :: "net_peer \<Rightarrow> bool" where
  "peer_ok p \<longleftrightarrow> mtu_ok p \<and> merge_ok p \<and> 11 \<le> buffer_size (m_pong_packet p) \<and> m_size (m_pong_packet p) = 11
     \<and> 3 \<le> buffer_size (m_ping_packet p) \<and> m_size (m_ping_packet p) = 3"

definition peer_evolves :: "net_peer \<Rightarrow> net_peer \<Rightarrow> bool" where
  "peer_evolves p p' \<longleftrightarrow>
     m_next_peer p' = m_next_peer p \<and> m_prev_peer p' = m_prev_peer p \<and> m_peer_id p' = m_peer_id p \<and>
     m_endpoint p' = m_endpoint p \<and> length (m_channels p') = length (m_channels p) \<and>
     (peer_ok p \<longrightarrow> peer_ok p') \<and> state_le (m_connection_state p) (m_connection_state p')"

lemma peer_evolves_refl [simp]: "peer_evolves p p"
  by (simp add: peer_evolves_def)

lemma peer_evolves_trans: "peer_evolves p q \<Longrightarrow> peer_evolves q r \<Longrightarrow> peer_evolves p r"
  by (auto simp: peer_evolves_def intro: state_le_trans)

lemma peer_okD:
  assumes "peer_ok p"
  shows "mtu_ok p" "merge_ok p" "11 \<le> buffer_size (m_pong_packet p)" "3 \<le> buffer_size (m_ping_packet p)"
    "m_size (m_pong_packet p) = 11" "m_size (m_ping_packet p) = 3"
  using assms by (simp_all add: peer_ok_def)

lemmas peer_ok_defs = peer_ok_def mtu_ok_def merge_ok_def

text \<open>A change of fields no invariant reads.\<close>

definition same_vitals :: "net_peer \<Rightarrow> net_peer \<Rightarrow> bool" where
  "same_vitals p p' \<longleftrightarrow> m_next_peer p' = m_next_peer p \<and> m_prev_peer p' = m_prev_peer p \<and> m_peer_id p' = m_peer_id p \<and>
     m_endpoint p' = m_endpoint p \<and> length (m_channels p') = length (m_channels p) \<and>
     m_mtu_idx p' = m_mtu_idx p \<and> m_mtu p' = m_mtu p \<and> m_merge_data p' = m_merge_data p \<and>
     m_merge_pos p' = m_merge_pos p \<and> m_merge_count p' = m_merge_count p \<and>
     m_pong_packet p' = m_pong_packet p \<and> m_ping_packet p' = m_ping_packet p \<and>
     m_connection_state p' = m_connection_state p"

lemma same_vitals_evolves: "same_vitals p p' \<Longrightarrow> peer_evolves p p'"
  by (simp add: same_vitals_def peer_evolves_def peer_ok_defs)

lemma state_change_evolves:
  "state_le (m_connection_state p) s \<Longrightarrow> same_vitals p p' \<Longrightarrow> peer_evolves p (p'\<lparr>m_connection_state := s\<rparr>)"
  by (simp add: same_vitals_def peer_evolves_def peer_ok_defs)

lemma get_put_peer [simp]: "get_peer pp (put_peer pp p w) = Some p"
  by (simp add: get_peer_def put_peer_def)

lemma bind_SomeE:
  assumes "Option.bind m f = Some y" obtains x where "m = Some x" "f x = Some y"
  using assms by (auto simp: bind_eq_Some_conv)

section \<open>Events that can be processed\<close>

definition reads_data :: "net_event_type \<Rightarrow> bool" where
  "reads_data t \<longleftrightarrow> t = EVENT_RECEIVE \<or> t = EVENT_RECEIVE_UNCONNECTED \<or> t = EVENT_BROADCAST"

definition args_ok :: "net_event \<Rightarrow> bool" where
  "args_ok e \<longleftrightarrow> (reads_data (ev_type e) \<longrightarrow> ev_reader e \<noteq> None \<or> m_reader_source e \<noteq> None) \<and>
     (ev_type e = EVENT_NETWORK_ERROR \<longrightarrow> errorMessage e \<noteq> None) \<and> connectionRequest e = None"

section \<open>What a send does to the peers\<close>

lemma peer_heap_simps [simp]:
  "peer_heap (snd (pool_get_packet n w)) = peer_heap w"
  "peer_heap (pool_recycle packet w) = peer_heap w"
  "peer_heap (pool_recycle_ptr q w) = peer_heap w"
  by (auto simp: pool_get_packet_def pool_recycle_def pool_recycle_ptr_def split: list.splits option.splits)

lemma create_event_heap: "create_event args w = Some w' \<Longrightarrow> peer_heap w' = peer_heap w"
  by (auto simp: create_event_def elim!: bind_SomeE)

definition restate :: "(nat \<rightharpoonup> net_peer) \<Rightarrow> (nat \<rightharpoonup> net_peer) \<Rightarrow> bool" where
  "restate h h' \<longleftrightarrow> (\<forall>pp. h pp = None \<longrightarrow> h' pp = None) \<and>
     (\<forall>pp p. h pp = Some p \<longrightarrow> (\<exists>s. h' pp = Some (p\<lparr>m_connection_state := s\<rparr>)))"

lemma restated_self [simp]: "\<exists>s. p = p\<lparr>m_connection_state := s\<rparr>" for p :: net_peer
  by (rule exI [of _ "m_connection_state p"]) simp

lemma restate_refl [simp]: "restate h h"
  by (simp add: restate_def)

lemma restate_upd:
  assumes "h pp = Some p"
  shows "restate h (h(pp \<mapsto> p\<lparr>m_connection_state := s\<rparr>))"
  unfolding restate_def
proof (intro conjI allI impI)
  fix qq q assume q: "h qq = Some q"
  show "\<exists>s'. (h(pp \<mapsto> p\<lparr>m_connection_state := s\<rparr>)) qq = Some (q\<lparr>m_connection_state := s'\<rparr>)"
  proof (cases "qq = pp")
    case True
    with q assms have "(h(pp \<mapsto> p\<lparr>m_connection_state := s\<rparr>)) qq = Some (q\<lparr>m_connection_state := s\<rparr>)" by simp
    then show ?thesis by blast
  next
    case False
    with q have "(h(pp \<mapsto> p\<lparr>m_connection_state := s\<rparr>)) qq = Some (q\<lparr>m_connection_state := m_connection_state q\<rparr>)"
      by simp
    then show ?thesis by blast
  qed
qed (use assms in auto)

lemma shutdown_force_restate: "shutdown_force pp w = Some (r, w') \<Longrightarrow> restate (peer_heap w) (peer_heap w')"
  by (auto simp: shutdown_force_def put_peer_def get_peer_def restate_upd elim!: bind_SomeE split: if_splits)

lemma force_restate: "disconnect_peer_force a reason e d w = Some w' \<Longrightarrow> restate (peer_heap w) (peer_heap w')"
  unfolding disconnect_peer_force_def
  by (auto elim!: bind_SomeE split: option.splits if_splits dest!: create_event_heap)
    (erule shutdown_force_restate)+

lemma send_raw_restate:
  assumes "send_raw buf off len ep w = Some (r, w')"
  shows "restate (peer_heap w) (peer_heap w')"
  using assms unfolding send_raw_def
  by (auto elim!: bind_SomeE split: sum.splits if_splits dest!: create_event_heap force_restate simp: Let_def)

lemma restateE:
  assumes "restate (peer_heap w) (peer_heap w')" "get_peer pp w = Some p"
  obtains s where "get_peer pp w' = Some (p\<lparr>m_connection_state := s\<rparr>)"
  using assms by (metis get_peer_def restate_def)

lemma send_merged_peer:
  assumes "send_merged pp w = Some w'" "get_peer pp w = Some p" "get_peer pp w' = Some p'"
  shows "m_merge_pos p' = 0 \<and> m_mtu p' = m_mtu p \<or> p' = p \<and> m_merge_count p = 0"
proof (cases "m_merge_count p = 0")
  case False
  then obtain off n r w1 where w1: "send_raw (m_data (m_merge_data p)) off n (m_endpoint p) w = Some (r, w1)"
    and w': "modify_peer pp (\<lambda>p. p\<lparr>m_merge_pos := 0, m_merge_count := 0\<rparr>) w1 = Some w'"
    using assms(1,2) by (auto simp: send_merged_def elim!: bind_SomeE split: if_splits)
  obtain s where "get_peer pp w1 = Some (p\<lparr>m_connection_state := s\<rparr>)"
    using restateE [OF send_raw_restate [OF w1] assms(2)] .
  with w' assms(3) show ?thesis by (auto simp: modify_peer_def elim!: bind_SomeE)
qed (use assms in \<open>simp add: send_merged_def\<close>)

lemma mtu_ok_le: "mtu_ok p \<Longrightarrow> m_mtu p \<le> MAX_PACKET_SIZE"
proof -
  assume "mtu_ok p"
  moreover have "POSSIBLE_MTU ! k \<le> MAX_PACKET_SIZE" if "k < length POSSIBLE_MTU" for k
    using that by (auto simp: POSSIBLE_MTU_def MAX_PACKET_SIZE_def less_Suc_eq)
  ultimately show ?thesis by (simp add: mtu_ok_def)
qed

section \<open>The locale\<close>

locale peer_world =
  fixes R :: "world \<Rightarrow> world \<Rightarrow> bool"
  assumes R_refl: "R w w"
    and R_trans: "R w1 w2 \<Longrightarrow> R w2 w3 \<Longrightarrow> R w1 w3"
    and R_get: "R w (snd (pool_get_packet n w))"
    and R_recycle: "R w (pool_recycle packet w)"
    and R_event: "create_event args w = Some w' \<Longrightarrow> args_ok args \<Longrightarrow> R w w'"
    and R_sent: "R w (w\<lparr>sends := n, wire := wire w @ xs\<rparr>)"
    and R_peer: "get_peer pp w = Some p \<Longrightarrow> peer_evolves p p' \<Longrightarrow> R w (put_peer pp p' w)"
begin

lemma get_R: "pool_get_packet n w = (packet, w') \<Longrightarrow> R w w'"
  using R_get [of w n] by simp

lemma R_then_recycle: "R w v \<Longrightarrow> R w (pool_recycle packet v)"
  by (rule R_trans [OF _ R_recycle])

lemma peer_R: "get_peer pp w = Some p \<Longrightarrow> same_vitals p p' \<Longrightarrow> R w (put_peer pp p' w)"
  by (rule R_peer [OF _ same_vitals_evolves])

lemma modify_R: "modify_peer pp f w = Some w' \<Longrightarrow> (\<And>p. peer_evolves p (f p)) \<Longrightarrow> R w w'"
  by (auto simp: modify_peer_def bind_eq_Some_conv intro: R_peer)

lemma recycle_ptr_R: "R w (pool_recycle_ptr packet w)"
  by (auto simp: pool_recycle_ptr_def R_refl R_recycle split: option.splits)

lemma receive_event_R: "create_receive_event packet dm c h ep w = Some w' \<Longrightarrow> R w w'"
  unfolding create_receive_event_def by (erule R_event) (simp add: args_ok_def default_event_def)

lemma error_event_R: "create_error_event e msg w = Some w' \<Longrightarrow> R w w'"
  unfolding create_error_event_def by (erule R_event) (simp add: args_ok_def default_event_def reads_data_def)

lemma latency_R: "connection_latency_updated a l w = Some w' \<Longrightarrow> R w w'"
  unfolding connection_latency_updated_def
  by (auto simp: args_ok_def default_event_def reads_data_def R_refl split: option.splits elim!: R_event)

lemma delivered_R: "message_delivered a ud w = Some w' \<Longrightarrow> R w w'"
  unfolding message_delivered_def
  by (auto simp: args_ok_def default_event_def reads_data_def R_refl split: option.splits elim!: R_event)

lemma shutdown_force_R: "shutdown_force pp w = Some (r, w') \<Longrightarrow> R w w'"
  by (auto simp: shutdown_force_def bind_eq_Some_conv R_refl state_le_def same_vitals_def split: if_splits
      intro!: R_peer state_change_evolves)

lemma force_R: "disconnect_peer_force a reason e d w = Some w' \<Longrightarrow> R w w'"
  unfolding disconnect_peer_force_def
  by (auto simp: bind_eq_Some_conv R_refl args_ok_def default_event_def reads_data_def
      split: option.splits if_splits
      intro: R_trans [OF shutdown_force_R recycle_ptr_R] R_trans [OF shutdown_force_R R_event])

lemma send_raw_R: "send_raw buf off len ep w = Some (r, w') \<Longrightarrow> R w w'"
proof -
  assume a: "send_raw buf off len ep w = Some (r, w')"
  show ?thesis
  proof (cases "m_running w")
    case True
    then obtain xs where xs: "rd_bytes buf off len = Some xs"
      using a by (auto simp: send_raw_def bind_eq_Some_conv)
    let ?w1 = "w\<lparr>sends := sends w + 1\<rparr>"
    have w1: "R w ?w1" using R_sent [where w = w and n = "sends w + 1" and xs = "[]"] by simp
    show ?thesis
    proof (cases "sendto w (sends w)")
      case (Inl n)
      with a True xs show ?thesis by (auto simp: send_raw_def R_sent)
    next
      case (Inr e)
      let ?net = "default_event\<lparr>ev_type := EVENT_NETWORK_ERROR, socketErrorCode := e,
        errorMessage := Some ''Socket error'', remoteEndpoint := ep\<rparr>"
      have ok: "args_ok ?net" by (simp add: args_ok_def default_event_def reads_data_def)
      show ?thesis
      proof (cases "e = EHOSTUNREACH \<or> e = ENETUNREACH")
        case True
        let ?reason = "if e = EHOSTUNREACH then HOST_UNREACHABLE else NETWORK_UNREACHABLE"
        let ?m = "if disconnect_on_unreachable ?w1 \<and> try_get_peer ep ?w1 \<noteq> None
          then disconnect_peer_force ep ?reason e None ?w1 else Some ?w1"
        have "?m \<bind> (\<lambda>w2. create_event ?net w2 \<bind> (\<lambda>w3. Some (-1, w3))) = Some (r, w')"
          using a True \<open>m_running w\<close> xs Inr by (auto simp: send_raw_def Let_def)
        then obtain w2 where w2: "?m = Some w2" and "create_event ?net w2 \<bind> (\<lambda>w3. Some (-1, w3)) = Some (r, w')"
          by (rule bind_SomeE)
        then have w': "create_event ?net w2 = Some w'" by (auto elim: bind_SomeE)
        have "R ?w1 w2"
        proof (cases "disconnect_on_unreachable ?w1 \<and> try_get_peer ep ?w1 \<noteq> None")
          case True
          then have "disconnect_peer_force ep ?reason e None ?w1 = Some w2" using w2 by (simp only: if_True simp_thms)
          then show ?thesis by (rule force_R)
        next
          case False
          then have "?w1 = w2" using w2 by (simp only: if_False simp_thms option.inject)
          then show ?thesis using R_refl by simp
        qed
        then show ?thesis using R_event [OF w' ok] w1 R_trans by metis
      qed (use a True xs Inr w1 in \<open>auto simp: send_raw_def\<close>)
    qed
  qed (use a in \<open>auto simp: send_raw_def R_refl\<close>)
qed

lemma send_packet_R: "send_packet packet ep w = Some (r, w') \<Longrightarrow> R w w'"
  unfolding send_packet_def by (rule send_raw_R)

lemma send_recycle_R: "send_raw_and_recycle packet ep w = Some (r, w') \<Longrightarrow> R w w'"
  unfolding send_raw_and_recycle_def
  by (auto simp: bind_eq_Some_conv intro: R_trans [OF send_raw_R R_recycle])

lemma shutdown_R: "peer_shutdown pp data off n force w = Some (r, w') \<Longrightarrow> R w w'"
  unfolding peer_shutdown_def
  by (auto simp: bind_eq_Some_conv R_refl state_le_def same_vitals_def split: if_splits
      intro!: R_peer state_change_evolves elim!: R_trans [rotated, OF send_packet_R])

section \<open>Fragments\<close>

lemma recycle_all_R: "R w (recycle_all ps w)"
  by (induction ps w rule: recycle_all.induct) (auto simp: R_refl intro: R_trans [OF R_recycle])

lemma assemble_R: "assemble fs result pos w = Some (r, w') \<Longrightarrow> R w w'"
proof (induction fs result pos w arbitrary: r w' rule: assemble.induct)
  case (3 f fs result pos w)
  let ?n = "usub (m_size f) FRAGMENTED_HEADER_TOTAL_SIZE"
  have rec: "R w (recycle_all (Some f # fs) w)" by (rule recycle_all_R)
  show ?case
  proof (cases "pos + ?n > buffer_size result \<or> m_size f > buffer_size f")
    case True
    with 3(2) rec show ?thesis by (auto simp: Let_def simp del: size_consts split: if_splits)
  next
    case False
    then obtain q where "copy_from (m_data f) FRAGMENTED_HEADER_TOTAL_SIZE pos ?n result = Some q"
      "assemble fs q (pos + ?n) (pool_recycle f w) = Some (r, w')"
      using 3(2) by (auto simp: Let_def bind_eq_Some_conv simp del: size_consts)
    with 3(1) False have "R (pool_recycle f w) w'" by (auto simp del: size_consts)
    then show ?thesis using R_recycle R_trans by metis
  qed
qed (auto simp: R_refl)

lemma add_reliable_R: "add_reliable_packet pp dm packet w = Some w' \<Longrightarrow> R w w'"
proof -
  assume a: "add_reliable_packet pp dm packet w = Some w'"
  then obtain p c where p: "get_peer pp w = Some p" and c: "channel_id packet = Some c"
    by (auto simp: add_reliable_packet_def bind_eq_Some_conv)
  show ?thesis
  proof (cases "is_fragmented packet")
    case True
    have put: "R w (put_peer pp (p\<lparr>m_holded_fragments := h\<rparr>) w)" for h
      by (rule peer_R [OF p]) (simp add: same_vitals_def)
    obtain fid inc held where held: "hold_fragment packet inc = Some held"
      and rest: "(case held of
          None \<Rightarrow> Some (pool_recycle packet
                     (put_peer pp (p\<lparr>m_holded_fragments := (m_holded_fragments p)(fid \<mapsto> inc)\<rparr>) w))
        | Some inc' \<Rightarrow>
            if received_count inc' \<noteq> int (length (fragments inc')) then
              Some (put_peer pp (p\<lparr>m_holded_fragments := (m_holded_fragments p)(fid \<mapsto> inc')\<rparr>) w)
            else do {
              let (resultingPacket, w1) = pool_get_packet (total_size inc')
                    (put_peer pp (p\<lparr>m_holded_fragments := (m_holded_fragments p)(fid := None)\<rparr>) w);
              (result, w2) \<leftarrow> assemble (fragments inc') resultingPacket 0 w1;
              (case result of
                 None \<Rightarrow> Some w2
               | Some q \<Rightarrow> create_receive_event q dm (c div of_nat CHANNEL_TYPE_COUNT) 0 (m_endpoint p) w2)
            }) = Some w'"
      using a p c True unfolding add_reliable_packet_def by (auto simp: bind_eq_Some_conv)
    show ?thesis
    proof (cases held)
      case None
      with rest show ?thesis using R_trans [OF put R_recycle] by auto
    next
      case (Some inc')
      let ?w0 = "put_peer pp (p\<lparr>m_holded_fragments := (m_holded_fragments p)(fid := None)\<rparr>) w"
      show ?thesis
      proof (cases "received_count inc' = int (length (fragments inc'))")
        case True
        obtain q w1 where q: "pool_get_packet (total_size inc') ?w0 = (q, w1)" by fastforce
        obtain result w2 where r: "assemble (fragments inc') q 0 w1 = Some (result, w2)"
          and rest2: "(case result of
                 None \<Rightarrow> Some w2
               | Some q \<Rightarrow> create_receive_event q dm (c div of_nat CHANNEL_TYPE_COUNT) 0 (m_endpoint p) w2) = Some w'"
          using rest Some True q by (auto simp: bind_eq_Some_conv simp del: size_consts)
        have fin: "w2 = w' \<or> (\<exists>q2 c2. create_receive_event q2 dm c2 0 (m_endpoint p) w2 = Some w')"
          using rest2 by (auto split: option.splits)
        have "R w w2" using R_trans [OF R_trans [OF put get_R [OF q]] assemble_R [OF r]] .
        then show ?thesis using fin receive_event_R R_trans by metis
      qed (use rest Some put in auto)
    qed
  qed (use a p c in \<open>auto simp: add_reliable_packet_def bind_eq_Some_conv intro: receive_event_R\<close>)
qed

section \<open>Merging\<close>

lemma send_merged_R: "send_merged pp w = Some w' \<Longrightarrow> R w w'"
proof -
  assume a: "send_merged pp w = Some w'"
  have ev: "peer_evolves p (p\<lparr>m_merge_pos := 0, m_merge_count := 0\<rparr>)" for p
    by (simp add: peer_evolves_def peer_ok_defs)
  show ?thesis
    using a unfolding send_merged_def
    by (auto elim!: bind_SomeE split: if_splits simp: R_refl intro: R_trans [OF send_raw_R modify_R [OF _ ev]])
qed

lemma merge_evolves:
  assumes "peer_ok p1 \<Longrightarrow> m_merge_pos p1 + n + 3 \<le> MAX_PACKET_SIZE"
    and "set_u16_at v i (m_merge_data p1) = Some md1" "copy_from xs 0 j n md1 = Some md2"
  shows "peer_evolves p1 (p1\<lparr>m_merge_data := md2, m_merge_pos := m_merge_pos p1 + n + 2,
                             m_merge_count := m_merge_count p1 + 1\<rparr>)"
proof -
  have "length (m_data md2) = length (m_data (m_merge_data p1))"
    using assms(2,3) by (auto simp: set_u16_at_def copy_from_def set_data_def dest!: wr16_length wr_bytes_length
        elim!: bind_SomeE split: if_splits)
  then show ?thesis using assms(1) by (auto simp: peer_evolves_def peer_ok_defs)
qed

lemma send_user_data_R: "send_user_data pp packet0 w = Some (q, w') \<Longrightarrow> R w w'"
proof -
  assume a: "send_user_data pp packet0 w = Some (q, w')"
  then obtain p where p: "get_peer pp w = Some p" by (auto simp: send_user_data_def elim: bind_SomeE)
  let ?packet = "set_connection_number (m_connect_number p) packet0"
  let ?n = "m_size ?packet"
  show ?thesis
  proof (cases "HEADER_SIZE + ?n + 2 + sizeTreshold \<ge> m_mtu p")
    case True
    with a p show ?thesis by (auto simp: send_user_data_def Let_def elim!: bind_SomeE intro: send_packet_R)
  next
    case False
    let ?flush = "m_merge_pos p + (HEADER_SIZE + ?n + 2) > m_mtu p"
    obtain w1 p1 md1 md2 where w1: "(if ?flush then send_merged pp w else Some w) = Some w1"
      and p1: "get_peer pp w1 = Some p1"
      and md: "set_u16_at (of_nat ?n) (m_merge_pos p1 + HEADER_SIZE) (m_merge_data p1) = Some md1"
        "copy_from (m_data ?packet) 0 (m_merge_pos p1 + HEADER_SIZE + 2) ?n md1 = Some md2"
      and w': "w' = put_peer pp (p1\<lparr>m_merge_data := md2, m_merge_pos := m_merge_pos p1 + ?n + 2,
                                     m_merge_count := m_merge_count p1 + 1\<rparr>) w1"
      using a p False unfolding send_user_data_def Let_def
      by (auto elim!: bind_SomeE simp del: size_consts)
    have R1: "R w w1" using w1 send_merged_R R_refl by (cases ?flush) auto
    have "m_merge_pos p1 + ?n + 3 \<le> MAX_PACKET_SIZE" if ok: "peer_ok p1"
    proof (cases ?flush)
      case True
      from w1 True have "send_merged pp w = Some w1" by simp
      then have p1': "m_merge_pos p1 = 0 \<and> m_mtu p1 = m_mtu p \<or> p1 = p \<and> m_merge_count p = 0"
        using send_merged_peer [OF _ p p1] by blast
      then have "m_merge_pos p1 = 0" "m_mtu p1 = m_mtu p" using ok by (auto simp: peer_ok_defs)
      then show ?thesis using False mtu_ok_le [OF peer_okD(1) [OF ok]] by simp
    next
      case False
      then have "p1 = p" using w1 p p1 by simp
      then show ?thesis using False mtu_ok_le [OF peer_okD(1) [OF ok]] by simp
    qed
    then show ?thesis
      using R_trans [OF R1 R_peer [OF p1 merge_evolves [OF _ md]]] w' by blast
  qed
qed

lemma deliver_R: "recycle_and_deliver pp packet w = Some w' \<Longrightarrow> R w w'"
proof -
  assume a: "recycle_and_deliver pp packet w = Some w'"
  have upd: "R v (put_peer pp (p\<lparr>m_delivered_fragments := f\<rparr>) v)" if "get_peer pp v = Some p" for v p f
    by (rule peer_R [OF that]) (simp add: same_vitals_def)
  show ?thesis
  proof (cases "user_data packet")
    case None
    with a R_recycle show ?thesis by (auto simp: recycle_and_deliver_def)
  next
    case (Some ud)
    then obtain w1 where w1: "w' = pool_recycle (packet\<lparr>user_data := None\<rparr>) w1" and "R w w1"
      using a unfolding recycle_and_deliver_def
      by (auto elim!: bind_SomeE simp: Let_def modify_peer_def R_refl upd delivered_R R_trans [OF delivered_R upd]
          split: option.splits if_splits)
    then show ?thesis using R_recycle R_trans by metis
  qed
qed

lemma perform_action_R: "perform_action pp idx act w = Some w' \<Longrightarrow> R w w'"
  unfolding perform_action_def
  by (cases act)
    (auto elim!: bind_SomeE intro: add_reliable_R receive_event_R send_user_data_R deliver_R R_recycle
      modify_R [OF _ same_vitals_evolves] simp: same_vitals_def)

lemma perform_R: "perform pp idx acts w = Some w' \<Longrightarrow> R w w'"
  by (induction acts arbitrary: w) (auto elim!: bind_SomeE simp: R_refl intro: R_trans [OF perform_action_R])

section \<open>Receiving\<close>

lemma set_mtu_evolves: "set_mtu i p = Some p' \<Longrightarrow> peer_evolves p p'"
  by (auto simp: set_mtu_def vget_Some_iff peer_evolves_def peer_ok_defs elim!: bind_SomeE)

lemma process_mtu_R: "process_mtu_packet pp packet w = Some w' \<Longrightarrow> R w w'"
proof -
  assume a: "process_mtu_packet pp packet w = Some w'"
  then obtain p where p: "get_peer pp w = Some p" by (auto simp: process_mtu_packet_def elim: bind_SomeE)
  have att: "R w (put_peer pp (p\<lparr>m_mtu_check_attempts := n\<rparr>) w)" for n
    by (rule peer_R [OF p]) (simp add: same_vitals_def)
  have fin: "peer_evolves p (p'\<lparr>m_finish_mtu := b\<rparr>)" if "peer_evolves p p'" for p' b
    by (rule peer_evolves_trans [OF that same_vitals_evolves]) (simp add: same_vitals_def)
  show ?thesis
    using a p unfolding process_mtu_packet_def Let_def
    by (auto elim!: bind_SomeE split: if_splits simp del: size_consts)
      (auto intro: R_recycle R_trans [OF att send_recycle_R] R_trans [OF R_peer R_recycle] fin set_mtu_evolves)
qed

lemma process_ping_R: "process_ping pp packet w = Some w' \<Longrightarrow> R w w'"
proof -
  assume a: "process_ping pp packet w = Some w'"
  have ev: "peer_evolves p (p\<lparr>m_pong_packet := q\<rparr>)"
    if "set_i64_at t 3 (m_pong_packet p) = Some q1" "set_sequence s q1 = Some q" for p q q1 t s
  proof -
    have "buffer_size q = buffer_size (m_pong_packet p) \<and> m_size q = m_size (m_pong_packet p)"
      using that by (auto simp: set_i64_at_def set_sequence_def set_data_def wr64_def
          dest!: wr16_length wr_bytes_length)
    then show ?thesis by (simp add: peer_evolves_def peer_ok_defs)
  qed
  show ?thesis
    using a unfolding process_ping_def
    by (auto elim!: bind_SomeE split: if_splits
        intro: R_recycle R_then_recycle [OF R_trans [OF R_peer [OF _ ev] send_packet_R]])
qed

lemma process_pong_R: "process_pong pp packet w = Some w' \<Longrightarrow> R w w'"
proof -
  assume a: "process_pong pp packet w = Some w'"
  have ev: "same_vitals p (update_roundtrip_time e (p\<lparr>m_ping_timer := t, m_remote_delta := d\<rparr>))" for p e t d
    by (simp add: same_vitals_def update_roundtrip_time_def Let_def)
  show ?thesis
    using a unfolding process_pong_def Let_def
    by (auto elim!: bind_SomeE split: if_splits
        intro: R_recycle R_then_recycle [OF R_trans [OF peer_R [OF _ ev] latency_R]])
qed

lemma create_channel_vitals: "create_channel idx p = Some p' \<Longrightarrow> same_vitals p p'"
  by (auto simp: create_channel_def vset_Some_iff same_vitals_def elim!: bind_SomeE split: option.splits)

lemma set_channel_vitals: "same_vitals p p' \<Longrightarrow> same_vitals p (set_channel idx ch p')"
  by (simp add: same_vitals_def set_channel_def)

lemma same_vitals_refl [simp]: "same_vitals p p"
  by (simp add: same_vitals_def)

lemma process_channeled_R: "process_channeled pp packet w = Some w' \<Longrightarrow> R w w'"
proof -
  assume a: "process_channeled pp packet w = Some w'"
  then obtain p c where p: "get_peer pp w = Some p" and c: "channel_id packet = Some c"
    by (auto simp: process_channeled_def elim!: bind_SomeE)
  show ?thesis
  proof (cases "unat c > length (m_channels p)")
    case False
    then obtain slot :: "net_channel option" and p1 slot1
      where p1: "(if slot = None \<and> property packet \<noteq> ACK then create_channel (unat c) p else Some p) = Some p1"
      and rest: "(case slot1 of
          None \<Rightarrow> Some (pool_recycle packet w)
        | Some ch \<Rightarrow> do {
            (processed, ch', acts) \<leftarrow> channel_process_packet packet ch;
            w1 \<leftarrow> perform pp (unat c) acts (put_peer pp (set_channel (unat c) ch' p1) w);
            Some (if processed then w1 else pool_recycle packet w1)
          }) = Some w'"
      using a p c False by (auto simp: process_channeled_def elim!: bind_SomeE)
    have v: "same_vitals p p1" using p1 create_channel_vitals by (auto split: if_splits)
    show ?thesis
    proof (cases slot1)
      case None
      with rest R_recycle show ?thesis by auto
    next
      case (Some ch)
      with rest obtain ch' acts w1 processed
        where w1: "perform pp (unat c) acts (put_peer pp (set_channel (unat c) ch' p1) w) = Some w1"
          and w': "w' = (if processed then w1 else pool_recycle packet w1)"
        by (auto elim!: bind_SomeE)
      have "R w w1" using R_trans [OF peer_R [OF p set_channel_vitals [OF v]] perform_R [OF w1]] .
      with w' show ?thesis using R_recycle R_trans by (metis (full_types))
    qed
  qed (use a p c R_recycle in \<open>auto simp: process_channeled_def\<close>)
qed

lemma process_single_R: "process_single pp packet w = Some w' \<Longrightarrow> R w w'"
  unfolding process_single_def
  by (auto split: packet_property.splits elim!: bind_SomeE simp: R_refl
      intro: process_ping_R process_pong_R process_channeled_R process_mtu_R receive_event_R)

lemma admit_R:
  assumes "admit_packet pp packet w = Some r" shows "R w (case r of Inl w1 \<Rightarrow> w1 | Inr w1 \<Rightarrow> w1)"
proof -
  obtain p where p: "get_peer pp w = Some p" using assms by (auto simp: admit_packet_def elim: bind_SomeE)
  have "R w (put_peer pp (p\<lparr>m_connection_state := DISCONNECTED\<rparr>) w)"
    by (rule R_peer [OF p state_change_evolves]) (simp_all add: state_le_def)
  moreover have "R w (put_peer pp (p\<lparr>m_time_since_last_packet := 0\<rparr>) w)"
    by (rule peer_R [OF p]) (simp add: same_vitals_def)
  ultimately show ?thesis
    using assms p by (auto simp: admit_packet_def R_recycle intro: R_trans [OF _ R_recycle])
qed

lemma process_packet_at_R: "process_packet_at pp packet loop w = Some w' \<Longrightarrow> R w w'"
proof (erule process_packet_at.raw_induct [where P = "\<lambda>_ _ _. R", rotated])
  fix process pp packet loop w w'
  assume 1: "\<And>pp packet loop w w'. process pp packet loop w = Some w' \<Longrightarrow> R w w'"
    "(case loop of
        None \<Rightarrow> do {
          admitted \<leftarrow> admit_packet pp packet w;
          (case admitted of
             Inl w1 \<Rightarrow> Some w1
           | Inr w1 \<Rightarrow>
               if property packet = MERGED then process pp packet (Some HEADER_SIZE) w1
               else process_single pp packet w1)
        }
      | Some pos \<Rightarrow>
          if pos < m_size packet then do {
            sz \<leftarrow> rd16 (m_data packet) pos;
            if usub (buffer_size packet) (pos + 2) < unat sz then Some (pool_recycle packet w)
            else do {
              let (mp, w1) = pool_get_packet (unat sz) w;
              mergedPacket \<leftarrow> copy_from (m_data packet) (pos + 2) 0 (unat sz) mp;
              if \<not> verify mergedPacket then Some (pool_recycle packet w1)
              else do {
                w2 \<leftarrow> process pp mergedPacket None w1;
                process pp packet (Some (pos + 2 + unat sz)) w2
              }
            }
          }
          else Some (pool_recycle packet w)) = Some w'"
  show "R w w'"
  proof (cases loop)
    case None
    with 1(2) obtain r where r: "admit_packet pp packet w = Some r"
      and rest: "(case r of Inl w1 \<Rightarrow> Some w1 | Inr w1 \<Rightarrow>
               if property packet = MERGED then process pp packet (Some HEADER_SIZE) w1
               else process_single pp packet w1) = Some w'"
      by (auto elim: bind_SomeE)
    show ?thesis
    proof (cases r)
      case (Inl w1)
      then show ?thesis using admit_R [OF r] rest by simp
    next
      case (Inr w1)
      then have "R w1 w'" using rest 1(1) process_single_R by (auto split: if_splits)
      then show ?thesis using R_trans [of w w1 w'] admit_R [OF r] Inr by simp
    qed
  next
    case (Some pos)
    show ?thesis
    proof (cases "pos < m_size packet")
      case False
      with Some 1(2) R_recycle show ?thesis by auto
    next
      case True
      with Some 1(2) obtain sz where sz: "rd16 (m_data packet) pos = Some sz" by (auto elim: bind_SomeE)
      obtain mp w1 where mp: "pool_get_packet (unat sz) w = (mp, w1)" by fastforce
      have R1: "R w w1" using get_R [OF mp] .
      show ?thesis
      proof (cases "usub (buffer_size packet) (pos + 2) < unat sz")
        case True
        with Some \<open>pos < m_size packet\<close> sz 1(2) R_recycle show ?thesis by auto
      next
        case False
        then obtain m where rest: "(if \<not> verify m then Some (pool_recycle packet w1)
              else do {
                w2 \<leftarrow> process pp m None w1;
                process pp packet (Some (pos + 2 + unat sz)) w2
              }) = Some w'"
          using Some True sz mp 1(2) by (auto elim!: bind_SomeE)
        show ?thesis
        proof (cases "verify m")
          case False
          then have "w' = pool_recycle packet w1" using rest by simp
          then show ?thesis using R_then_recycle [OF R1] by simp
        next
          case True
          with rest obtain w2 where "process pp m None w1 = Some w2"
            "process pp packet (Some (pos + 2 + unat sz)) w2 = Some w'"
            by (auto elim: bind_SomeE)
          then have "R w1 w2" "R w2 w'" using 1(1) by simp_all
          then show ?thesis using R1 R_trans by metis
        qed
      qed
    qed
  qed
qed

lemma process_packet_R: "peer_process_packet pp packet w = Some w' \<Longrightarrow> R w w'"
  unfolding peer_process_packet_def by (rule process_packet_at_R)

section \<open>The timers and sending\<close>

lemma finish_evolves: "peer_evolves p (p\<lparr>m_finish_mtu := b\<rparr>)"
  by (rule same_vitals_evolves) (simp add: same_vitals_def)

lemma update_mtu_R: "update_mtu_logic pp dt w = Some w' \<Longrightarrow> R w w'"
proof -
  assume a: "update_mtu_logic pp dt w = Some w'"
  then obtain p where p: "get_peer pp w = Some p" by (auto simp: update_mtu_logic_def elim: bind_SomeE)
  have put: "R w (put_peer pp (p\<lparr>m_mtu_check_timer := t, m_mtu_check_attempts := n, m_finish_mtu := b\<rparr>) w)"
    "R w (put_peer pp (p\<lparr>m_mtu_check_timer := t, m_mtu_check_attempts := n\<rparr>) w)"
    "R w (put_peer pp (p\<lparr>m_mtu_check_timer := t\<rparr>) w)" for t n b
    by (rule peer_R [OF p], simp add: same_vitals_def)+
  show ?thesis
    using a p unfolding update_mtu_logic_def Let_def
    by (auto elim!: bind_SomeE split: if_splits prod.splits simp: put R_refl simp del: size_consts)
      (auto intro: R_trans [OF R_trans [OF put(2) get_R] send_recycle_R]
         R_trans [OF R_trans [OF R_trans [OF put(2) get_R] send_recycle_R] modify_R [OF _ finish_evolves]])
qed

lemma update_ping_R: "update_ping pp dt w = Some w' \<Longrightarrow> R w w'"
proof -
  assume a: "update_ping pp dt w = Some w'"
  then obtain p where p: "get_peer pp w = Some p" by (auto simp: update_ping_def elim: bind_SomeE)
  have t: "R w (put_peer pp (p\<lparr>m_ping_send_timer := t\<rparr>) w)" for t
    by (rule peer_R [OF p]) (simp add: same_vitals_def)
  have ev: "peer_evolves p (p2\<lparr>m_ping_timer := sw\<rparr>)"
    if "set_sequence s (m_ping_packet p) = Some q"
      and "p2 = p\<lparr>m_ping_send_timer := 0, m_ping_packet := q\<rparr> \<or>
           p2 = update_roundtrip_time e (p\<lparr>m_ping_send_timer := 0, m_ping_packet := q\<rparr>)" for s q p2 sw e
  proof -
    have "buffer_size q = buffer_size (m_ping_packet p) \<and> m_size q = m_size (m_ping_packet p)"
      using that(1) by (auto simp: set_sequence_def set_data_def dest!: wr16_length)
    then show ?thesis using that(2)
      by (auto simp: peer_evolves_def peer_ok_defs update_roundtrip_time_def Let_def)
  qed
  show ?thesis
    using a p unfolding update_ping_def Let_def
    by (auto elim!: bind_SomeE split: if_splits simp: t)
      (auto intro: R_trans [OF R_peer [OF p ev] send_packet_R])
qed

lemma update_rtt_vitals: "same_vitals p (update_rtt dt w p)"
  by (simp add: same_vitals_def update_rtt_def Let_def)

lemma send_channels_R: "send_channels pp n w = Some w' \<Longrightarrow> R w w'"
proof (induction n arbitrary: w)
  case 0
  then show ?case by (simp add: R_refl)
next
  case (Suc n)
  then obtain p where p: "get_peer pp w = Some p" by (auto elim: bind_SomeE)
  obtain i q where q: "q_dequeue (m_channel_send_queue p) = (i, q)" by fastforce
  show ?case
  proof (cases i)
    case None
    with Suc.prems p q show ?thesis by (simp add: R_refl)
  next
    case (Some idx)
    obtain ch' acts w1 w2 has where w1: "perform pp idx acts (put_peer pp (set_channel idx ch' (p\<lparr>m_channel_send_queue := q\<rparr>)) w) = Some w1"
      and w2: "(if has then modify_peer pp (\<lambda>p. p\<lparr>m_channel_send_queue := q_push idx (m_channel_send_queue p)\<rparr>) w1
                 else Some w1) = Some w2"
      and w': "send_channels pp n w2 = Some w'"
      using Suc.prems p q Some by (auto elim!: bind_SomeE)
    have "R w (put_peer pp (set_channel idx ch' (p\<lparr>m_channel_send_queue := q\<rparr>)) w)"
      by (rule peer_R [OF p set_channel_vitals]) (simp add: same_vitals_def)
    then have "R w w1" using perform_R [OF w1] R_trans by metis
    moreover have "R w1 w2"
    proof (cases has)
      case True
      with w2 show ?thesis by (auto intro!: modify_R [OF _ same_vitals_evolves] simp: same_vitals_def)
    qed (use w2 R_refl in simp)
    ultimately show ?thesis using Suc.IH [OF w'] R_trans by metis
  qed
qed

lemma send_unreliable_R: "send_unreliable pp ps w = Some w' \<Longrightarrow> R w w'"
proof (induction ps arbitrary: w)
  case (Cons packet ps)
  then obtain w1 q w2 where w1: "modify_peer pp (\<lambda>p. p\<lparr>m_unreliable_channel := ps\<rparr>) w = Some w1"
    and w2: "send_user_data pp packet w1 = Some (q, w2)" and w': "send_unreliable pp ps (pool_recycle q w2) = Some w'"
    by (auto elim!: bind_SomeE)
  have "R w w1" by (rule modify_R [OF w1 same_vitals_evolves]) (simp add: same_vitals_def)
  then have "R w (pool_recycle q w2)"
    using R_then_recycle R_trans [OF _ send_user_data_R [OF w2]] by blast
  then show ?case using Cons.IH [OF w'] R_trans by metis
qed (simp add: R_refl)

lemma update_connected_R: "update_connected pp dt w = Some w' \<Longrightarrow> R w w'"
proof -
  assume "update_connected pp dt w = Some w'"
  then obtain w1 w2 w3 w4 w5 n ps where *: "update_ping pp dt w = Some w1"
    "modify_peer pp (update_rtt dt w1) w1 = Some w2" "update_mtu_logic pp dt w2 = Some w3"
    "send_channels pp n w3 = Some w4" "send_unreliable pp ps w4 = Some w5" "send_merged pp w5 = Some w'"
    by (auto simp: update_connected_def elim!: bind_SomeE)
  have "R w1 w2" by (rule modify_R [OF *(2) same_vitals_evolves [OF update_rtt_vitals]])
  then show ?thesis
    using update_ping_R [OF *(1)] update_mtu_R [OF *(3)] send_channels_R [OF *(4)]
      send_unreliable_R [OF *(5)] send_merged_R [OF *(6)] R_trans by metis
qed

lemma update_R: "peer_update pp dt w = Some w' \<Longrightarrow> R w w'"
proof -
  assume a: "peer_update pp dt w = Some w'"
  then obtain p0 where p0: "get_peer pp w = Some p0" by (auto simp: peer_update_def elim: bind_SomeE)
  let ?p = "p0\<lparr>m_time_since_last_packet := m_time_since_last_packet p0 + dt\<rparr>"
  let ?w1 = "put_peer pp ?p w"
  have R1: "R w ?w1" by (rule peer_R [OF p0]) (simp add: same_vitals_def)
  have step: "R w (put_peer pp p' ?w1)" if "peer_evolves ?p p'" for p'
    by (rule R_trans [OF R1 R_peer [OF get_put_peer that]])
  have dis: "peer_evolves ?p (?p\<lparr>m_connection_state := DISCONNECTED\<rparr>)"
    by (rule state_change_evolves) (simp_all add: state_le_def)
  have tm: "peer_evolves ?p (?p\<lparr>m_shutdown_timer := t\<rparr>)" "peer_evolves ?p (?p\<lparr>m_connect_timer := t\<rparr>)"
    "peer_evolves ?p (?p\<lparr>m_connect_timer := t, m_connect_attempts := n\<rparr>)" for t n
    by (rule same_vitals_evolves, simp add: same_vitals_def)+
  show ?thesis
  proof (cases "m_connection_state p0")
    case OUTGOING
    with a p0 show ?thesis
      by (auto simp: peer_update_def Let_def elim!: bind_SomeE split: if_splits)
        (auto intro: step tm R_trans [OF step [OF tm(3)] force_R] R_trans [OF step [OF tm(3)] send_packet_R])
  next
    case SHUTDOWN_REQUESTED
    with a p0 show ?thesis
      by (auto simp: peer_update_def Let_def elim!: bind_SomeE split: if_splits)
        (use step [OF dis] step tm R_trans [OF step [OF tm(1)] send_packet_R] in auto)
  qed (use a p0 R1 in \<open>auto simp: peer_update_def Let_def elim!: bind_SomeE split: if_splits
        intro: R_trans [OF R1 force_R] R_trans [OF R1 update_connected_R]\<close>)
qed

lemma enqueue_R: "enqueue_on_channel pp idx packet w = Some w' \<Longrightarrow> R w w'"
proof -
  assume a: "enqueue_on_channel pp idx packet w = Some w'"
  then obtain p ch' acts where p: "get_peer pp w = Some p"
    and acts: "perform pp idx acts (put_peer pp (set_channel idx ch' p) w) = Some w'"
    by (auto simp: enqueue_on_channel_def elim!: bind_SomeE split: prod.splits)
  show ?thesis
    by (rule R_trans [OF peer_R [OF p set_channel_vitals] perform_R [OF acts]]) simp
qed

lemma send_fragments_R:
  "send_fragments pp idx data off ds ud fid tot parts k n w = Some w' \<Longrightarrow> R w w'"
proof (induction parts arbitrary: k n w)
  case (Suc parts)
  obtain p0 w1 where p0: "pool_get_packet (static_header_size CHANNELED + (if n > ds then ds else n) + FRAGMENT_HEADER_SIZE) w = (p0, w1)"
    by fastforce
  with Suc.prems obtain q w2 k' n' where "enqueue_on_channel pp idx q w1 = Some w2"
    "send_fragments pp idx data off ds ud fid tot parts k' n' w2 = Some w'"
    by (auto simp: Let_def elim!: bind_SomeE simp del: size_consts static_header_size_simps)
  then show ?case using get_R [OF p0] enqueue_R Suc.IH R_trans by metis
qed (simp add: R_refl)

lemma send_payload_R: "send_payload pp p idx data off n dm ud w = Some w' \<Longrightarrow> R w w'"
proof -
  assume a: "send_payload pp p idx data off n dm ud w = Some w'"
  let ?pr = "if dm = UNRELIABLE_DELIVERY then UNRELIABLE else CHANNELED"
  let ?h = "static_header_size ?pr"
  show ?thesis
  proof (cases "n + ?h > m_mtu p")
    case True
    have fid: "peer_evolves q (q\<lparr>m_fragment_id := i\<rparr>)" for q i
      by (rule same_vitals_evolves) (simp add: same_vitals_def)
    show ?thesis
      using a True unfolding send_payload_def Let_def
      by (auto elim!: bind_SomeE split: if_splits simp del: size_consts static_header_size_simps send_fragments.simps)
        (auto intro: error_event_R R_trans [OF modify_R [OF _ fid] send_fragments_R] simp del: send_fragments.simps)
  next
    case False
    obtain p0 w1 where p0: "pool_get_packet (?h + n) w = (p0, w1)" by fastforce
    have unrel: "peer_evolves q (q\<lparr>m_unreliable_channel := m_unreliable_channel q @ [packet]\<rparr>)" for q packet
      by (rule same_vitals_evolves) (simp add: same_vitals_def)
    have "R w1 w'"
      using a False p0 unfolding send_payload_def Let_def
      by (auto elim!: bind_SomeE split: if_splits simp del: size_consts static_header_size_simps)
        (auto intro: modify_R [OF _ unrel] enqueue_R)
    with get_R [OF p0] show ?thesis using R_trans by metis
  qed
qed

lemma send_internal_R: "send_internal pp data off n c dm ud w = Some w' \<Longrightarrow> R w w'"
proof -
  assume a: "send_internal pp data off n c dm ud w = Some w'"
  then obtain p where p: "get_peer pp w = Some p" by (auto simp: send_internal_def elim: bind_SomeE)
  show ?thesis
  proof (cases "m_connection_state p \<noteq> CONNECTED \<or> unat c \<ge> length (m_channels p)")
    case True
    with a p show ?thesis by (auto simp: send_internal_def R_refl)
  next
    case False
    let ?idx = "unat (c * of_nat CHANNEL_TYPE_COUNT + of_nat (delivery_code dm) :: u8)"
    let ?m = "if dm = UNRELIABLE_DELIVERY then Some w else do { p1 \<leftarrow> create_channel ?idx p; Some (put_peer pp p1 w) }"
    have "?m \<bind> (\<lambda>w1. send_payload pp p ?idx data off n dm ud w1) = Some w'"
      using a p False unfolding send_internal_def Let_def by (simp only: bind.simps if_False simp_thms)
    then obtain w1 where w1: "?m = Some w1" and w': "send_payload pp p ?idx data off n dm ud w1 = Some w'"
      by (rule bind_SomeE)
    have "R w w1"
    proof (cases "dm = UNRELIABLE_DELIVERY")
      case True
      with w1 R_refl show ?thesis by simp
    next
      case False
      then obtain p1 where "create_channel ?idx p = Some p1" "w1 = put_peer pp p1 w"
        using w1 by (auto elim: bind_SomeE)
      then show ?thesis using peer_R [OF p create_channel_vitals] by simp
    qed
    then show ?thesis using send_payload_R [OF w'] R_trans by metis
  qed
qed

end

section \<open>The tables\<close>

definition tables :: "world \<Rightarrow> world \<Rightarrow> bool" where
  "tables w w' \<longleftrightarrow>
     m_running w' = m_running w \<and> m_head_peer w' = m_head_peer w \<and> m_peers w' = m_peers w \<and>
     m_peers_array w' = m_peers_array w \<and> m_peer_ids w' = m_peer_ids w \<and>
     m_peer_id_counter w' = m_peer_id_counter w \<and> m_connection_requests w' = m_connection_requests w \<and>
     m_events_consume_queue w' = m_events_consume_queue w \<and> packet_pool_size w' = packet_pool_size w \<and>
     channels_count w' = channels_count w \<and> disconnect_timeout w' = disconnect_timeout w \<and>
     auto_recycle w' = auto_recycle w \<and>
     request_heap w' = request_heap w \<and> next_object w' = next_object w \<and>
     (\<forall>pp. rel_option peer_evolves (peer_heap w pp) (peer_heap w' pp))"

lemma rel_evolves_refl [simp]: "rel_option peer_evolves x x"
  by (cases x) simp_all

lemma rel_evolves_trans:
  "rel_option peer_evolves x y \<Longrightarrow> rel_option peer_evolves y z \<Longrightarrow> rel_option peer_evolves x z"
  by (cases x; cases y; cases z) (auto intro: peer_evolves_trans)

interpretation tables: peer_world tables
proof
  fix w1 w2 w3 assume "tables w1 w2" "tables w2 w3"
  then show "tables w1 w3" using rel_evolves_trans by (simp add: tables_def) blast
next
  fix w n show "tables w (snd (pool_get_packet n w))"
    by (simp add: tables_def pool_get_packet_def split: list.splits)
next
  fix pp w p p' assume "get_peer pp w = Some p" "peer_evolves p p'"
  then show "tables w (put_peer pp p' w)" by (simp add: tables_def put_peer_def get_peer_def)
qed (auto simp: tables_def pool_recycle_def create_event_def elim!: bind_SomeE)

section \<open>The pool\<close>

definition pool_ok :: "world \<Rightarrow> bool" where
  "pool_ok w \<longleftrightarrow> m_packet_pool_size w = length (m_packet_pool_head w) \<and>
     m_packet_pool_size w \<le> packet_pool_size w \<and>
     (\<forall>q \<in> set (m_packet_pool_head w). buffer_size q \<le> MAX_PACKET_SIZE \<and> set (m_data q) \<subseteq> {0})"

definition keeps_pool :: "world \<Rightarrow> world \<Rightarrow> bool" where
  "keeps_pool w w' \<longleftrightarrow> packet_pool_size w' = packet_pool_size w \<and> (pool_ok w \<longrightarrow> pool_ok w')"

lemma recycle_pool_ok: "pool_ok w \<Longrightarrow> pool_ok (pool_recycle packet w)"
  by (auto simp: pool_ok_def pool_recycle_def clear_def)

lemma get_pool_ok: "pool_ok w \<Longrightarrow> pool_ok (snd (pool_get_packet n w))"
  by (auto simp: pool_ok_def pool_get_packet_def split: list.splits)

interpretation pool: peer_world keeps_pool
proof
  fix w n show "keeps_pool w (snd (pool_get_packet n w))"
    using get_pool_ok by (auto simp: keeps_pool_def pool_get_packet_def split: list.splits)
next
  fix w packet show "keeps_pool w (pool_recycle packet w)"
    using recycle_pool_ok by (auto simp: keeps_pool_def pool_recycle_def)
next
  fix args w w' assume "create_event args w = Some w'" "args_ok args"
  then show "keeps_pool w w'" by (auto simp: keeps_pool_def pool_ok_def create_event_def elim!: bind_SomeE)
next
  fix w n xs show "keeps_pool w (w\<lparr>sends := n, wire := wire w @ xs\<rparr>)" by (simp add: keeps_pool_def pool_ok_def)
next
  fix pp w p p' show "keeps_pool w (put_peer pp p' w)" by (simp add: keeps_pool_def pool_ok_def put_peer_def)
qed (simp_all add: keeps_pool_def)

section \<open>The events\<close>

definition event_ok :: "net_event \<Rightarrow> bool" where
  "event_ok e \<longleftrightarrow> (reads_data (ev_type e) \<longrightarrow> ev_reader e \<noteq> None) \<and>
     (ev_type e = EVENT_NETWORK_ERROR \<longrightarrow> errorMessage e \<noteq> None)"

text \<open>Events and datagrams are only added, behind those that are there.\<close>

definition log_grows :: "world \<Rightarrow> world \<Rightarrow> bool" where
  "log_grows w w' \<longleftrightarrow>
     (\<exists>es. m_events_produce_queue w' = m_events_produce_queue w @ es \<and>
           (\<forall>e \<in> set es. event_ok e \<and> connectionRequest e = None)) \<and>
     prefix (wire w) (wire w')"

lemma log_grows_same:
  "m_events_produce_queue w' = m_events_produce_queue w \<Longrightarrow> wire w' = wire w \<Longrightarrow> log_grows w w'"
  by (simp add: log_grows_def)

lemma create_event_log: "create_event args w = Some w' \<Longrightarrow> args_ok args \<Longrightarrow> log_grows w w'"
  by (auto simp: create_event_def log_grows_def args_ok_def event_ok_def elim!: bind_SomeE split: option.splits)

lemma log_grows_trans: "log_grows w1 w2 \<Longrightarrow> log_grows w2 w3 \<Longrightarrow> log_grows w1 w3"
  unfolding log_grows_def by (auto intro: prefix_order.trans)

interpretation log: peer_world log_grows
proof
  fix w1 w2 w3 assume "log_grows w1 w2" "log_grows w2 w3"
  then show "log_grows w1 w3" by (rule log_grows_trans)
next
  fix args w w' assume "create_event args w = Some w'" "args_ok args"
  then show "log_grows w w'" by (rule create_event_log)
qed (auto simp: pool_get_packet_def pool_recycle_def put_peer_def log_grows_def split: list.splits)

end
