(* ===== verification/Linked_List.thy ===== *)
theory Linked_List
  imports Prelude
begin

text \<open>
  Doubly linked lists in a heap, for the list of peers: \<open>dlseg nx pv h b xs t l\<close> says that the nodes
  \<open>xs\<close> are met in order from \<open>h\<close>, that each node's \<open>pv\<close> is the node before it (\<open>b\<close> for the first),
  and that the segment ends at \<open>t\<close>, with \<open>l\<close> the last node met.
\<close>

primrec dlseg :: "(nat \<Rightarrow> nat option) \<Rightarrow> (nat \<Rightarrow> nat option) \<Rightarrow> nat option \<Rightarrow> nat option \<Rightarrow> nat list
    \<Rightarrow> nat option \<Rightarrow> nat option \<Rightarrow> bool" where
  "dlseg nx pv h b [] t l \<longleftrightarrow> h = t \<and> b = l"
| "dlseg nx pv h b (x # xs) t l \<longleftrightarrow> h = Some x \<and> pv x = b \<and> dlseg nx pv (nx x) (Some x) xs t l"

lemma dlseg_append:
  "dlseg nx pv h b (xs @ ys) t l \<longleftrightarrow> (\<exists>m k. dlseg nx pv h b xs m k \<and> dlseg nx pv m k ys t l)"
  by (induction xs arbitrary: h b) auto

lemma dlseg_cong:
  assumes "\<And>x. x \<in> set xs \<Longrightarrow> nx' x = nx x \<and> pv' x = pv x"
  shows "dlseg nx' pv' h b xs t l \<longleftrightarrow> dlseg nx pv h b xs t l"
  using assms by (induction xs arbitrary: h b) auto

lemma dlseg_upd [simp]:
  "x \<notin> set xs \<Longrightarrow> dlseg (nx(x := y)) pv h b xs t l \<longleftrightarrow> dlseg nx pv h b xs t l"
  "x \<notin> set xs \<Longrightarrow> dlseg nx (pv(x := y)) h b xs t l \<longleftrightarrow> dlseg nx pv h b xs t l"
  by (auto intro!: dlseg_cong)

lemma dlseg_last:
  assumes "dlseg nx pv h b xs t l" "xs \<noteq> []"
  shows "l = Some (last xs)" "nx (last xs) = t"
  using assms by (induction xs arbitrary: h b) (auto split: if_splits)

lemma dlseg_hd: "dlseg nx pv h b xs t l \<Longrightarrow> xs \<noteq> [] \<Longrightarrow> h = Some (hd xs) \<and> pv (hd xs) = b"
  by (cases xs) auto

text \<open>Redirecting the end, and the first node's link back.\<close>

lemma dlseg_retarget:
  assumes "dlseg nx pv h b xs t l" "xs \<noteq> []" "distinct xs"
  shows "dlseg (nx(last xs := t')) pv h b xs t' l"
proof -
  obtain as x where xs: "xs = as @ [x]" using assms(2) by (cases xs rule: rev_cases) auto
  with assms show ?thesis by (auto simp: dlseg_append)
qed

lemma dlseg_reback:
  assumes "dlseg nx pv h b xs t l" "xs \<noteq> []" "distinct xs"
  shows "dlseg nx (pv(hd xs := b')) h b' xs t l"
  using assms by (cases xs) auto

section \<open>Insertion and removal\<close>

text \<open>What the two operations do to the head and the links of a list.\<close>

definition dl_insert :: "nat \<Rightarrow> (nat \<Rightarrow> nat option) \<Rightarrow> (nat \<Rightarrow> nat option) \<Rightarrow> nat option
    \<Rightarrow> (nat \<Rightarrow> nat option) \<times> (nat \<Rightarrow> nat option)" where
  "dl_insert x nx pv h = (case h of None \<Rightarrow> (nx, pv) | Some y \<Rightarrow> (nx(x := Some y), pv(y := Some x)))"

definition dl_remove :: "nat \<Rightarrow> (nat \<Rightarrow> nat option) \<Rightarrow> (nat \<Rightarrow> nat option) \<Rightarrow> nat option
    \<Rightarrow> (nat \<Rightarrow> nat option) \<times> (nat \<Rightarrow> nat option) \<times> nat option" where
  "dl_remove x nx pv h =
     (let nx' = (case pv x of None \<Rightarrow> nx | Some q \<Rightarrow> nx(q := nx x));
          pv' = (case nx x of None \<Rightarrow> pv | Some n \<Rightarrow> pv(n := pv x))
      in (nx', pv'(x := None), if h = Some x then nx x else h))"

lemma dl_insert_ok:
  assumes "dlseg nx pv h None xs None l" "distinct (x # xs)" "nx x = None" "pv x = None"
    and "dl_insert x nx pv h = (nx', pv')"
  shows "\<exists>l'. dlseg nx' pv' (Some x) None (x # xs) None l'"
proof (cases xs)
  case Nil
  with assms show ?thesis by (auto simp: dl_insert_def)
next
  case (Cons y ys)
  with assms show ?thesis by (auto simp: dl_insert_def)
qed

lemma dl_remove_ok:
  assumes seg: "dlseg nx pv h None (xs @ x # ys) None l" and dist: "distinct (xs @ x # ys)"
    and rem: "dl_remove x nx pv h = (nx', pv', h')"
  shows "\<exists>l'. dlseg nx' pv' h' None (xs @ ys) None l'"
proof -
  obtain k where xs: "dlseg nx pv h None xs (Some x) k" and k: "pv x = k"
    and ys: "dlseg nx pv (nx x) (Some x) ys None l"
    using seg by (auto simp: dlseg_append)
  have h': "h' = (if h = Some x then nx x else h)"
    and pv': "pv' = (case nx x of None \<Rightarrow> pv | Some n \<Rightarrow> pv(n := pv x))(x := None)"
    and nx': "nx' = (case pv x of None \<Rightarrow> nx | Some q \<Rightarrow> nx(q := nx x))"
    using rem by (auto simp: dl_remove_def Let_def)
  have ys': "\<exists>l'. dlseg nx' pv' (nx x) k ys None l'"
  proof (cases ys)
    case Nil
    with ys show ?thesis by simp
  next
    case (Cons y zs)
    then have "nx x = Some y" using ys by simp
    then have "dlseg nx pv' (nx x) k ys None l"
      using dlseg_reback [OF ys, of k] dist Cons k pv' by simp
    moreover have "nx' = nx \<or> (\<exists>q z. nx' = nx(q := z) \<and> q \<notin> set ys)"
    proof (cases "xs = []")
      case True
      then show ?thesis using xs k nx' by simp
    next
      case False
      then have "last xs \<notin> set ys" using dist last_in_set [OF False] by (simp add: disjoint_iff)
      then show ?thesis using dlseg_last(1) [OF xs False] k nx' by auto
    qed
    ultimately show ?thesis by auto
  qed
  have xs': "dlseg nx' pv' h' None xs (nx x) k"
  proof (cases "xs = []")
    case True
    then show ?thesis using xs h' by simp
  next
    case False
    have "last xs \<in> set xs" "hd xs \<in> set xs" using False by simp_all
    then have hx: "h \<noteq> Some x" using dlseg_hd [OF xs False] dist by auto
    have "dlseg (nx(last xs := nx x)) pv h None xs (nx x) k"
      using dlseg_retarget [OF xs False] dist by simp
    moreover have "nx' = nx(last xs := nx x)" using dlseg_last(1) [OF xs False] k nx' by simp
    moreover have "x \<notin> set xs" using dist by simp
    moreover have "\<And>n. nx x = Some n \<Longrightarrow> n \<notin> set xs"
      using ys dist by (cases ys) auto
    ultimately show ?thesis using hx h' pv' by (auto split: option.splits)
  qed
  from xs' ys' show ?thesis by (auto simp: dlseg_append)
qed

text \<open>A walk along the links meets exactly the nodes of the list and ends.\<close>

partial_function (option) walk :: "(nat \<Rightarrow> nat option) \<Rightarrow> nat option \<Rightarrow> nat list option" where
  "walk nx h = (case h of None \<Rightarrow> Some [] | Some x \<Rightarrow> do { xs \<leftarrow> walk nx (nx x); Some (x # xs) })"

lemma walk_dlseg: "dlseg nx pv h b xs None l \<Longrightarrow> walk nx h = Some xs"
proof (induction xs arbitrary: h b)
  case (Cons x xs)
  then show ?case by (subst walk.simps) auto
qed (subst walk.simps, simp)

end
