(* ===== verification/Peer_Table.thy ===== *)
theory Peer_Table
  imports Net_Manager Peer_Frame Linked_List
begin

text \<open>
  The table of peers of the manager. The code keeps each peer in a doubly linked list, in a hash map by
  address and in an array by id, and keeps the ids that are free in a queue. \<open>table_ok w xs\<close> says that
  all of them describe the list \<open>xs\<close> of peers; \<open>add_peer\<close> and \<open>remove_peer_internal\<close> refine
  insertion at the front of \<open>xs\<close> and removal from it, and every operation of a peer leaves \<open>xs\<close> alone.
\<close>

section \<open>The invariant\<close>

definition next_of :: "world \<Rightarrow> nat \<Rightarrow> nat option" where
  "next_of w pp = (case peer_heap w pp of None \<Rightarrow> None | Some p \<Rightarrow> m_next_peer p)"

definition prev_of :: "world \<Rightarrow> nat \<Rightarrow> nat option" where
  "prev_of w pp = (case peer_heap w pp of None \<Rightarrow> None | Some p \<Rightarrow> m_prev_peer p)"

definition id_of :: "world \<Rightarrow> nat \<Rightarrow> int" where
  "id_of w pp = (case peer_heap w pp of None \<Rightarrow> -1 | Some p \<Rightarrow> m_peer_id p)"

definition key_of :: "world \<Rightarrow> nat \<Rightarrow> address_key" where
  "key_of w pp = (case peer_heap w pp of None \<Rightarrow> (0, 0, 0) | Some p \<Rightarrow> akey (m_endpoint p))"

definition list_ok :: "world \<Rightarrow> nat list \<Rightarrow> bool" where
  "list_ok w xs \<longleftrightarrow> (\<exists>l. dlseg (next_of w) (prev_of w) (m_head_peer w) None xs None l) \<and> distinct xs \<and>
     (\<forall>pp \<in> set xs. \<exists>p. peer_heap w pp = Some p \<and> peer_ok p)"

definition map_ok :: "world \<Rightarrow> nat list \<Rightarrow> bool" where
  "map_ok w xs \<longleftrightarrow> (\<forall>k pp. m_peers w k = Some pp \<longleftrightarrow> pp \<in> set xs \<and> key_of w pp = k)"

text \<open>No id is used twice or lost: those of the peers, those reserved and those in the queue are all below the counter.\<close>

definition ids_ok :: "world \<Rightarrow> int list \<Rightarrow> nat list \<Rightarrow> bool" where
  "ids_ok w reserved xs \<longleftrightarrow> 0 \<le> m_peer_id_counter w \<and>
     distinct (List.map (id_of w) xs @ reserved @ m_peer_ids w) \<and>
     set (List.map (id_of w) xs @ reserved @ m_peer_ids w) = {0..<m_peer_id_counter w}"

definition array_ok :: "world \<Rightarrow> nat list \<Rightarrow> bool" where
  "array_ok w xs \<longleftrightarrow> m_peers_array w \<noteq> [] \<and>
     (\<forall>pp \<in> set xs. nat (id_of w pp) < length (m_peers_array w)) \<and>
     (\<forall>i < length (m_peers_array w). \<forall>pp. m_peers_array w ! i = Some pp \<longleftrightarrow> pp \<in> set xs \<and> id_of w pp = int i)"

definition table_ok :: "world \<Rightarrow> int list \<Rightarrow> nat list \<Rightarrow> bool" where
  "table_ok w reserved xs \<longleftrightarrow> list_ok w xs \<and> map_ok w xs \<and> ids_ok w reserved xs \<and> array_ok w xs"

lemma table_okD:
  assumes "table_ok w res xs" shows "list_ok w xs" "map_ok w xs" "ids_ok w res xs" "array_ok w xs"
  using assms by (simp_all add: table_ok_def)

lemma table_ok_peer:
  assumes "table_ok w res xs" "pp \<in> set xs"
  obtains p where "get_peer pp w = Some p" "peer_ok p"
  using assms by (auto simp: table_ok_def list_ok_def get_peer_def)

lemma table_ok_lookup: "table_ok w res xs \<Longrightarrow> m_peers w k = Some pp \<longleftrightarrow> pp \<in> set xs \<and> key_of w pp = k"
  unfolding table_ok_def map_ok_def by blast

section \<open>The operations of peers\<close>

lemma evolves_of:
  assumes "tables w w'"
  shows "next_of w' = next_of w" "prev_of w' = prev_of w" "id_of w' = id_of w" "key_of w' = key_of w"
proof -
  have "rel_option peer_evolves (peer_heap w pp) (peer_heap w' pp)" for pp
    using assms by (simp add: tables_def)
  note r = this
  have "next_of w' pp = next_of w pp \<and> prev_of w' pp = prev_of w pp \<and> id_of w' pp = id_of w pp \<and>
      key_of w' pp = key_of w pp" for pp
    using r [of pp] by (cases "peer_heap w pp"; cases "peer_heap w' pp")
      (auto simp: next_of_def prev_of_def id_of_def key_of_def peer_evolves_def)
  then show "next_of w' = next_of w" "prev_of w' = prev_of w" "id_of w' = id_of w" "key_of w' = key_of w"
    by auto
qed

lemma table_ok_tables:
  assumes t: "tables w w'" and ok: "table_ok w res xs"
  shows "table_ok w' res xs"
proof -
  note of = evolves_of [OF t]
  have heap: "\<exists>p. peer_heap w' pp = Some p \<and> peer_ok p" if "pp \<in> set xs" for pp
  proof -
    have "\<forall>pp \<in> set xs. \<exists>p. peer_heap w pp = Some p \<and> peer_ok p"
      using table_okD(1) [OF ok] by (simp add: list_ok_def)
    from bspec [OF this that] obtain p where p: "peer_heap w pp = Some p" "peer_ok p" by (elim exE conjE)
    have "rel_option peer_evolves (peer_heap w pp) (peer_heap w' pp)" using t by (simp add: tables_def)
    with p show ?thesis by (cases "peer_heap w' pp") (auto simp: peer_evolves_def)
  qed
  from t have "m_head_peer w' = m_head_peer w" "m_peers w' = m_peers w" "m_peers_array w' = m_peers_array w"
    "m_peer_ids w' = m_peer_ids w" "m_peer_id_counter w' = m_peer_id_counter w"
    by (simp_all add: tables_def)
  with ok heap show ?thesis
    by (simp add: table_ok_def list_ok_def map_ok_def ids_ok_def array_ok_def of)
qed

section \<open>Ids\<close>

lemma get_next_id_ok:
  assumes ok: "table_ok w [] xs" and i: "get_next_peer_id w = (i, w')"
  shows "table_ok w' [i] xs"
proof (cases "m_peer_ids w")
  case Nil
  with i have w': "i = m_peer_id_counter w" "w' = w\<lparr>m_peer_id_counter := m_peer_id_counter w + 1\<rparr>"
    by (auto simp: get_next_peer_id_def)
  have of: "next_of w' = next_of w" "prev_of w' = prev_of w" "id_of w' = id_of w" "key_of w' = key_of w"
    by (auto simp: w' next_of_def prev_of_def id_of_def key_of_def)
  show ?thesis
    using ok Nil by (auto simp: table_ok_def list_ok_def map_ok_def ids_ok_def array_ok_def of) (auto simp: w')
next
  case (Cons j q)
  with i have w': "i = j" "w' = w\<lparr>m_peer_ids := q\<rparr>"
    by (auto simp: get_next_peer_id_def)
  have of: "next_of w' = next_of w" "prev_of w' = prev_of w" "id_of w' = id_of w" "key_of w' = key_of w"
    by (auto simp: w' next_of_def prev_of_def id_of_def key_of_def)
  have "m_peer_ids w' = q" "m_peer_id_counter w' = m_peer_id_counter w" by (simp_all add: w')
  then have "ids_ok w' [i] xs"
    using table_okD(3) [OF ok] Cons w'(1) by (simp add: ids_ok_def of)
  with ok show ?thesis
    by (simp add: table_ok_def list_ok_def map_ok_def array_ok_def of) (simp add: w')
qed

section \<open>Adding a peer\<close>

lemma double_until_le: "0 < n \<Longrightarrow> \<exists>m. double_until i n = Some m \<and> i < m \<and> n \<le> m"
proof (induction "Suc i - n" arbitrary: n rule: less_induct)
  case less
  show ?case
  proof (cases "i < n")
    case True
    then show ?thesis by (subst double_until.simps) auto
  next
    case False
    have "Suc i - n * 2 < Suc i - n" using False less.prems by auto
    then obtain m where "double_until i (n * 2) = Some m" "i < m" "n * 2 \<le> m"
      using less.hyps [of "n * 2"] less.prems by auto
    then show ?thesis using False by (subst double_until.simps) auto
  qed
qed

lemma array_for_id_ok:
  assumes "arr \<noteq> []"
  obtains zs where "array_for_id i arr = Some (arr @ zs)" "nat i < length (arr @ zs)" "set zs \<subseteq> {None}"
proof (cases "nat i \<ge> length arr")
  case True
  obtain m where m: "double_until (nat i) (length arr * 2) = Some m" "nat i < m" "length arr * 2 \<le> m"
    using double_until_le [of "length arr * 2" "nat i"] assms by auto
  show ?thesis
    by (rule that [of "replicate (m - length arr) None"]) (use True m in \<open>auto simp: array_for_id_def\<close>)
next
  case False
  show ?thesis by (rule that [of "[]"]) (use False in \<open>auto simp: array_for_id_def\<close>)
qed

text \<open>A peer that was made but is not in the table yet.\<close>

definition fresh_peer :: "world \<Rightarrow> nat \<Rightarrow> int \<Rightarrow> bool" where
  "fresh_peer w pp i \<longleftrightarrow> (\<exists>p. peer_heap w pp = Some p \<and> peer_ok p \<and> m_next_peer p = None \<and> m_prev_peer p = None \<and>
     m_peer_id p = i) \<and> m_peers w (key_of w pp) = None"

lemma modify_heap:
  assumes "get_peer pp w = Some p"
  shows "modify_peer pp f w = Some (w\<lparr>peer_heap := (peer_heap w)(pp \<mapsto> f p)\<rparr>)"
  using assms by (simp add: modify_peer_def put_peer_def)

text \<open>Relinking: a world whose peers differ in their links only.\<close>

definition relinked :: "world \<Rightarrow> (nat \<rightharpoonup> net_peer) \<Rightarrow> bool" where
  "relinked w H \<longleftrightarrow> (\<forall>pp. rel_option (\<lambda>p p'. \<exists>a b. p' = p\<lparr>m_next_peer := a, m_prev_peer := b\<rparr>) (peer_heap w pp) (H pp))"

lemma relink_self: "\<exists>a b. p = p\<lparr>m_next_peer := a, m_prev_peer := b\<rparr>" for p :: net_peer
  by (rule exI [of _ "m_next_peer p"], rule exI [of _ "m_prev_peer p"]) simp

lemma relinked_refl: "relinked w (peer_heap w)"
  unfolding relinked_def
proof
  fix pp show "rel_option (\<lambda>p p'. \<exists>a b. p' = p\<lparr>m_next_peer := a, m_prev_peer := b\<rparr>) (peer_heap w pp) (peer_heap w pp)"
    by (cases "peer_heap w pp") (use relink_self in simp_all)
qed

lemma relinked_upd:
  assumes "relinked w H" "H pp = Some p"
  shows "relinked w (H(pp \<mapsto> p\<lparr>m_next_peer := a\<rparr>))" "relinked w (H(pp \<mapsto> p\<lparr>m_prev_peer := a\<rparr>))"
proof -
  obtain q c d where q: "peer_heap w pp = Some q" and p: "p = q\<lparr>m_next_peer := c, m_prev_peer := d\<rparr>"
    using spec [OF assms(1) [unfolded relinked_def], of pp] assms(2) by (cases "peer_heap w pp") auto
  have n: "p\<lparr>m_next_peer := a\<rparr> = q\<lparr>m_next_peer := a, m_prev_peer := d\<rparr>"
    "p\<lparr>m_prev_peer := a\<rparr> = q\<lparr>m_next_peer := c, m_prev_peer := a\<rparr>" by (simp_all add: p)
  show "relinked w (H(pp \<mapsto> p\<lparr>m_next_peer := a\<rparr>))"
    unfolding relinked_def
  proof
    fix qq show "rel_option (\<lambda>p p'. \<exists>a b. p' = p\<lparr>m_next_peer := a, m_prev_peer := b\<rparr>) (peer_heap w qq)
      ((H(pp \<mapsto> p\<lparr>m_next_peer := a\<rparr>)) qq)"
      using spec [OF assms(1) [unfolded relinked_def], of qq] q unfolding n(1) by (cases "qq = pp") auto
  qed
  show "relinked w (H(pp \<mapsto> p\<lparr>m_prev_peer := a\<rparr>))"
    unfolding relinked_def
  proof
    fix qq show "rel_option (\<lambda>p p'. \<exists>a b. p' = p\<lparr>m_next_peer := a, m_prev_peer := b\<rparr>) (peer_heap w qq)
      ((H(pp \<mapsto> p\<lparr>m_prev_peer := a\<rparr>)) qq)"
      using spec [OF assms(1) [unfolded relinked_def], of qq] q unfolding n(2) by (cases "qq = pp") auto
  qed
qed

lemma relinked_of:
  assumes "relinked w H" "peer_heap w' = H"
  shows "id_of w' = id_of w" "key_of w' = key_of w"
    "peer_heap w pp = Some p \<Longrightarrow> peer_ok p \<Longrightarrow> \<exists>p'. peer_heap w' pp = Some p' \<and> peer_ok p'"
proof -
  have r: "rel_option (\<lambda>p p'. \<exists>a b. p' = p\<lparr>m_next_peer := a, m_prev_peer := b\<rparr>) (peer_heap w pp) (peer_heap w' pp)" for pp
    using assms by (simp add: relinked_def)
  have "id_of w' pp = id_of w pp \<and> key_of w' pp = key_of w pp" for pp
    using r [of pp] by (cases "peer_heap w pp"; cases "peer_heap w' pp") (auto simp: id_of_def key_of_def)
  then show "id_of w' = id_of w" "key_of w' = key_of w" by auto
  show "peer_heap w pp = Some p \<Longrightarrow> peer_ok p \<Longrightarrow> \<exists>p'. peer_heap w' pp = Some p' \<and> peer_ok p'"
    using r [of pp] by (cases "peer_heap w' pp") (auto simp: peer_ok_defs)
qed

lemma of_heap_upd:
  assumes "peer_heap w' = (peer_heap w)(pp \<mapsto> p)"
  shows "next_of w' = (next_of w)(pp := m_next_peer p)" "prev_of w' = (prev_of w)(pp := m_prev_peer p)"
  using assms by (auto simp: next_of_def prev_of_def fun_eq_iff)

lemma add_links:
  assumes ok: "list_ok w xs" and p: "get_peer pp w = Some p" "peer_ok p" "m_next_peer p = None" "m_prev_peer p = None"
    and notin: "pp \<notin> set xs"
  shows "\<exists>H. (case m_head_peer w of
         None \<Rightarrow> Some w
       | Some h \<Rightarrow> do {
           w1 \<leftarrow> modify_peer pp (\<lambda>p. p\<lparr>m_next_peer := Some h\<rparr>) w;
           modify_peer h (\<lambda>p. p\<lparr>m_prev_peer := Some pp\<rparr>) w1
         }) = Some (w\<lparr>peer_heap := H\<rparr>) \<and> relinked w H \<and>
     (\<exists>l. dlseg (next_of (w\<lparr>peer_heap := H\<rparr>)) (prev_of (w\<lparr>peer_heap := H\<rparr>)) (Some pp) None (pp # xs) None l)"
proof -
  obtain l where seg: "dlseg (next_of w) (prev_of w) (m_head_peer w) None xs None l" and dist: "distinct xs"
    using ok by (auto simp: list_ok_def)
  have np: "next_of w pp = None" "prev_of w pp = None" using p by (auto simp: next_of_def prev_of_def get_peer_def)
  note ins = dl_insert_ok [OF seg _ np]
  show ?thesis
  proof (cases "m_head_peer w")
    case None
    then have "dl_insert pp (next_of w) (prev_of w) (m_head_peer w) = (next_of w, prev_of w)" by (simp add: dl_insert_def)
    from ins [OF _ this] dist notin None show ?thesis
      using relinked_refl by (intro exI [of _ "peer_heap w"]) simp
  next
    case (Some h)
    then have "h \<in> set xs" using seg by (cases xs) auto
    then have hp: "h \<noteq> pp" and "\<exists>q. peer_heap w h = Some q" using notin ok by (auto simp: list_ok_def)
    then obtain q where q: "peer_heap w h = Some q" by blast
    let ?H = "(peer_heap w)(pp \<mapsto> p\<lparr>m_next_peer := Some h\<rparr>, h \<mapsto> q\<lparr>m_prev_peer := Some pp\<rparr>)"
    let ?w1 = "w\<lparr>peer_heap := (peer_heap w)(pp \<mapsto> p\<lparr>m_next_peer := Some h\<rparr>)\<rparr>"
    have e: "modify_peer pp (\<lambda>p. p\<lparr>m_next_peer := Some h\<rparr>) w = Some ?w1"
      "modify_peer h (\<lambda>p. p\<lparr>m_prev_peer := Some pp\<rparr>) ?w1 = Some (w\<lparr>peer_heap := ?H\<rparr>)"
      using p q hp by (simp_all add: modify_heap get_peer_def)
    have r: "relinked w ?H"
      by (rule relinked_upd [OF relinked_upd(1) [OF relinked_refl]]) (use p q hp in \<open>auto simp: get_peer_def\<close>)
    have "next_of (w\<lparr>peer_heap := ?H\<rparr>) = (next_of w)(pp := Some h)" "prev_of (w\<lparr>peer_heap := ?H\<rparr>) = (prev_of w)(h := Some pp)"
      using p q hp by (auto simp: next_of_def prev_of_def get_peer_def fun_eq_iff)
    then have "dl_insert pp (next_of w) (prev_of w) (m_head_peer w) =
        (next_of (w\<lparr>peer_heap := ?H\<rparr>), prev_of (w\<lparr>peer_heap := ?H\<rparr>))"
      using Some by (simp add: dl_insert_def)
    from ins [OF _ this] dist notin
    have "\<exists>l. dlseg (next_of (w\<lparr>peer_heap := ?H\<rparr>)) (prev_of (w\<lparr>peer_heap := ?H\<rparr>)) (Some pp) None (pp # xs) None l" by simp
    with e r Some show ?thesis by (intro exI [of _ ?H]) simp
  qed
qed

lemma array_update_ok:
  assumes ok: "array_ok w xs" and new: "i \<notin> id_of w ` set xs" and pp: "id_of w pp = i" and i: "0 \<le> i"
    and zs: "nat i < length (m_peers_array w @ zs)" "set zs \<subseteq> {None}"
    and w': "m_peers_array w' = (m_peers_array w @ zs)[nat i := Some pp]" "id_of w' = id_of w"
  shows "array_ok w' (pp # xs)"
proof -
  let ?arr = "m_peers_array w" and ?arr' = "(m_peers_array w @ zs)[nat i := Some pp]"
  have arr: "?arr ! j = Some qq \<longleftrightarrow> qq \<in> set xs \<and> id_of w qq = int j" if "j < length ?arr" for j qq
    using ok that by (simp add: array_ok_def)
  have inb: "nat (id_of w qq) < length ?arr" if "qq \<in> set xs" for qq
    using ok that by (simp add: array_ok_def)
  have "?arr' ! j = Some qq \<longleftrightarrow> qq \<in> set (pp # xs) \<and> id_of w qq = int j" if j: "j < length ?arr'" for j qq
  proof (cases "j = nat i")
    case True
    then have "?arr' ! j = Some pp" using j by simp
    moreover have "qq \<notin> set xs \<or> id_of w qq \<noteq> i" using new by blast
    ultimately show ?thesis using True i pp by auto
  next
    case False
    then have e: "?arr' ! j = (?arr @ zs) ! j" "int j \<noteq> i" using i by auto
    show ?thesis
    proof (cases "j < length ?arr")
      case True
      then show ?thesis using e arr pp by (auto simp: nth_append)
    next
      case nz: False
      then have "zs ! (j - length ?arr) \<in> set zs" using j by simp
      then have "?arr' ! j = None" using e nz zs(2) by (auto simp: nth_append)
      then show ?thesis using e inb [of qq] nz pp by auto
    qed
  qed
  moreover have "nat (id_of w qq) < length ?arr'" if "qq \<in> set (pp # xs)" for qq
    using that pp zs(1) inb [of qq] by auto
  moreover have "?arr' \<noteq> []" using zs(1) by auto
  ultimately show ?thesis unfolding array_ok_def w' by blast
qed

lemma add_peer_ok:
  assumes ok: "table_ok w [i] xs" and new: "fresh_peer w pp i" and notin: "pp \<notin> set xs"
  shows "\<exists>w'. add_peer pp w = Some w' \<and> table_ok w' [] (pp # xs)"
proof -
  obtain p where p: "get_peer pp w = Some p" "peer_ok p" "m_next_peer p = None" "m_prev_peer p = None"
    and i: "m_peer_id p = i" and free: "m_peers w (akey (m_endpoint p)) = None"
    using new by (auto simp: fresh_peer_def get_peer_def key_of_def)
  have of: "id_of w pp = i" "key_of w pp = akey (m_endpoint p)"
    using p i by (auto simp: id_of_def key_of_def get_peer_def)
  have "i \<in> set (List.map (id_of w) xs @ [i] @ m_peer_ids w)" by simp
  also have "\<dots> = {0..<m_peer_id_counter w}" using table_okD(3) [OF ok] unfolding ids_ok_def by blast
  finally have i0: "0 \<le> i" by simp
  obtain H l where H: "(case m_head_peer w of
         None \<Rightarrow> Some w
       | Some h \<Rightarrow> do {
           w1 \<leftarrow> modify_peer pp (\<lambda>p. p\<lparr>m_next_peer := Some h\<rparr>) w;
           modify_peer h (\<lambda>p. p\<lparr>m_prev_peer := Some pp\<rparr>) w1
         }) = Some (w\<lparr>peer_heap := H\<rparr>)" and rl: "relinked w H"
     and seg: "dlseg (next_of (w\<lparr>peer_heap := H\<rparr>)) (prev_of (w\<lparr>peer_heap := H\<rparr>)) (Some pp) None (pp # xs) None l"
    using add_links [OF table_okD(1) [OF ok] p notin] by blast
  obtain zs where zs: "array_for_id i (m_peers_array w) = Some (m_peers_array w @ zs)"
    "nat i < length (m_peers_array w @ zs)" "set zs \<subseteq> {None}"
    using array_for_id_ok table_okD(4) [OF ok] by (auto simp: array_ok_def)
  obtain p1 where p1: "H pp = Some p1" "m_endpoint p1 = m_endpoint p" "m_peer_id p1 = i"
    using spec [OF rl [unfolded relinked_def], of pp] p(1) i by (cases "H pp") (auto simp: get_peer_def)
  let ?w' = "w\<lparr>peer_heap := H, m_head_peer := Some pp, m_peers := (m_peers w)(akey (m_endpoint p) \<mapsto> pp),
    m_peers_array := (m_peers_array w @ zs)[nat i := Some pp]\<rparr>"
  have add: "add_peer pp w = Some ?w'"
    using H p1 free zs i0 by (simp add: add_peer_def get_peer_def)
  have of': "id_of ?w' = id_of w" "key_of ?w' = key_of w"
    using relinked_of [OF rl, of ?w'] by simp_all
  have seg': "next_of ?w' = next_of (w\<lparr>peer_heap := H\<rparr>)" "prev_of ?w' = prev_of (w\<lparr>peer_heap := H\<rparr>)"
    by (auto simp: next_of_def prev_of_def)
  have heap: "\<exists>q. H qq = Some q \<and> peer_ok q" if "qq \<in> set (pp # xs)" for qq
  proof -
    have "\<exists>q. peer_heap w qq = Some q \<and> peer_ok q"
      using that p table_okD(1) [OF ok] by (auto simp: list_ok_def get_peer_def)
    then show ?thesis using relinked_of(3) [OF rl, of ?w'] by auto
  qed
  have "list_ok ?w' (pp # xs)"
    using seg heap table_okD(1) [OF ok] notin by (auto simp: list_ok_def seg')
  moreover have "map_ok ?w' (pp # xs)"
    unfolding map_ok_def
  proof (intro allI)
    fix k qq
    have "m_peers w k = Some qq \<longleftrightarrow> qq \<in> set xs \<and> key_of w qq = k" "m_peers w (key_of w pp) = Some qq \<longleftrightarrow>
        qq \<in> set xs \<and> key_of w qq = key_of w pp"
      using table_ok_lookup [OF ok] by blast+
    then show "m_peers ?w' k = Some qq \<longleftrightarrow> qq \<in> set (pp # xs) \<and> key_of ?w' qq = k"
      using free of(2) by (cases "k = key_of w pp") (auto simp: of')
  qed
  moreover have "ids_ok ?w' [] (pp # xs)"
    using table_okD(3) [OF ok] by (auto simp: ids_ok_def of of')
  moreover have "array_ok ?w' (pp # xs)"
    using array_update_ok [OF table_okD(4) [OF ok] _ of(1) i0 zs(2,3)] table_okD(3) [OF ok] of'
    by (simp add: ids_ok_def)
  ultimately show ?thesis using add by (auto simp: table_ok_def)
qed

section \<open>Removing a peer\<close>

lemma of_heap_only:
  "peer_heap w' = peer_heap w \<Longrightarrow> next_of w' = next_of w" "peer_heap w' = peer_heap w \<Longrightarrow> prev_of w' = prev_of w"
  by (auto simp: next_of_def prev_of_def fun_eq_iff)

text \<open>A change of one link, or none.\<close>

lemma set_link:
  assumes rl: "relinked w0 (peer_heap w)" and ex: "\<And>x. q = Some x \<Longrightarrow> peer_heap w0 x \<noteq> None"
  shows "\<exists>H. (case q of None \<Rightarrow> Some w | Some x \<Rightarrow> modify_peer x (\<lambda>y. y\<lparr>m_next_peer := v\<rparr>) w) = Some (w\<lparr>peer_heap := H\<rparr>) \<and>
      relinked w0 H \<and> next_of (w\<lparr>peer_heap := H\<rparr>) = (case q of None \<Rightarrow> next_of w | Some x \<Rightarrow> (next_of w)(x := v)) \<and>
      prev_of (w\<lparr>peer_heap := H\<rparr>) = prev_of w"
    and "\<exists>H. (case q of None \<Rightarrow> Some w | Some x \<Rightarrow> modify_peer x (\<lambda>y. y\<lparr>m_prev_peer := v\<rparr>) w) = Some (w\<lparr>peer_heap := H\<rparr>) \<and>
      relinked w0 H \<and> prev_of (w\<lparr>peer_heap := H\<rparr>) = (case q of None \<Rightarrow> prev_of w | Some x \<Rightarrow> (prev_of w)(x := v)) \<and>
      next_of (w\<lparr>peer_heap := H\<rparr>) = next_of w"
proof -
  have H: "\<exists>y. peer_heap w x = Some y" if "q = Some x" for x
    using ex [OF that] spec [OF rl [unfolded relinked_def], of x] by (cases "peer_heap w x") auto
  show "\<exists>H. (case q of None \<Rightarrow> Some w | Some x \<Rightarrow> modify_peer x (\<lambda>y. y\<lparr>m_next_peer := v\<rparr>) w) = Some (w\<lparr>peer_heap := H\<rparr>) \<and>
      relinked w0 H \<and> next_of (w\<lparr>peer_heap := H\<rparr>) = (case q of None \<Rightarrow> next_of w | Some x \<Rightarrow> (next_of w)(x := v)) \<and>
      prev_of (w\<lparr>peer_heap := H\<rparr>) = prev_of w"
  proof (cases q)
    case None
    then show ?thesis by (intro exI [of _ "peer_heap w"]) (simp add: rl)
  next
    case (Some x)
    with H obtain y where y: "peer_heap w x = Some y" by blast
    let ?H = "(peer_heap w)(x \<mapsto> y\<lparr>m_next_peer := v\<rparr>)"
    have "modify_peer x (\<lambda>y. y\<lparr>m_next_peer := v\<rparr>) w = Some (w\<lparr>peer_heap := ?H\<rparr>)"
      using y by (simp add: modify_heap get_peer_def)
    moreover have "next_of (w\<lparr>peer_heap := ?H\<rparr>) = (next_of w)(x := v)" "prev_of (w\<lparr>peer_heap := ?H\<rparr>) = prev_of w"
      using y by (auto simp: next_of_def prev_of_def fun_eq_iff)
    ultimately show ?thesis using Some relinked_upd(1) [OF rl y] by (intro exI [of _ ?H]) simp
  qed
  show "\<exists>H. (case q of None \<Rightarrow> Some w | Some x \<Rightarrow> modify_peer x (\<lambda>y. y\<lparr>m_prev_peer := v\<rparr>) w) = Some (w\<lparr>peer_heap := H\<rparr>) \<and>
      relinked w0 H \<and> prev_of (w\<lparr>peer_heap := H\<rparr>) = (case q of None \<Rightarrow> prev_of w | Some x \<Rightarrow> (prev_of w)(x := v)) \<and>
      next_of (w\<lparr>peer_heap := H\<rparr>) = next_of w"
  proof (cases q)
    case None
    then show ?thesis by (intro exI [of _ "peer_heap w"]) (simp add: rl)
  next
    case (Some x)
    with H obtain y where y: "peer_heap w x = Some y" by blast
    let ?H = "(peer_heap w)(x \<mapsto> y\<lparr>m_prev_peer := v\<rparr>)"
    have "modify_peer x (\<lambda>y. y\<lparr>m_prev_peer := v\<rparr>) w = Some (w\<lparr>peer_heap := ?H\<rparr>)"
      using y by (simp add: modify_heap get_peer_def)
    moreover have "prev_of (w\<lparr>peer_heap := ?H\<rparr>) = (prev_of w)(x := v)" "next_of (w\<lparr>peer_heap := ?H\<rparr>) = next_of w"
      using y by (auto simp: next_of_def prev_of_def fun_eq_iff)
    ultimately show ?thesis using Some relinked_upd(2) [OF rl y] by (intro exI [of _ ?H]) simp
  qed
qed

lemma dlseg_neighbours:
  assumes seg: "dlseg nx pv h None (as @ x # bs) None l"
  shows "pv x = Some q \<Longrightarrow> q \<in> set as" "nx x = Some n \<Longrightarrow> n \<in> set bs"
proof -
  obtain k where as: "dlseg nx pv h None as (Some x) k" and k: "pv x = k" and bs: "dlseg nx pv (nx x) (Some x) bs None l"
    using seg by (auto simp: dlseg_append)
  show "pv x = Some q \<Longrightarrow> q \<in> set as" using as k dlseg_last(1) [OF as] by (cases "as = []") auto
  show "nx x = Some n \<Longrightarrow> n \<in> set bs" using bs by (cases bs) auto
qed

lemma array_clear_ok:
  assumes ok: "array_ok w (as @ pp # bs)" and dist: "distinct (List.map (id_of w) (as @ pp # bs))" and i: "0 \<le> id_of w pp"
    and w': "m_peers_array w' = (m_peers_array w)[nat (id_of w pp) := None]" "id_of w' = id_of w"
  shows "array_ok w' (as @ bs)"
proof -
  let ?arr = "m_peers_array w" and ?arr' = "(m_peers_array w)[nat (id_of w pp) := None]"
  have arr: "?arr ! j = Some qq \<longleftrightarrow> qq \<in> set (as @ pp # bs) \<and> id_of w qq = int j" if "j < length ?arr" for j qq
    using ok that by (simp add: array_ok_def)
  have other: "id_of w qq \<noteq> id_of w pp" if "qq \<in> set (as @ bs)" for qq
    using dist that by (auto simp: image_iff)
  have "?arr' ! j = Some qq \<longleftrightarrow> qq \<in> set (as @ bs) \<and> id_of w qq = int j" if j: "j < length ?arr'" for j qq
  proof (cases "j = nat (id_of w pp)")
    case True
    then have "?arr' ! j = None" using j by simp
    then show ?thesis using True i other [of qq] by auto
  next
    case False
    then have "?arr' ! j = ?arr ! j" "int j \<noteq> id_of w pp" using i by auto
    then show ?thesis using arr [of j qq] j by auto
  qed
  moreover have "\<forall>qq \<in> set (as @ bs). nat (id_of w qq) < length ?arr'" "?arr' \<noteq> []"
    using ok by (auto simp: array_ok_def)
  ultimately show ?thesis unfolding array_ok_def w' by blast
qed

lemma ids_nonneg: "ids_ok w res xs \<Longrightarrow> pp \<in> set xs \<Longrightarrow> 0 \<le> id_of w pp"
proof -
  assume ok: "ids_ok w res xs" and "pp \<in> set xs"
  then have "id_of w pp \<in> set (List.map (id_of w) xs @ res @ m_peer_ids w)" by simp
  also have "\<dots> = {0..<m_peer_id_counter w}" using ok unfolding ids_ok_def by blast
  finally show ?thesis by simp
qed

lemma remove_links:
  assumes ok: "list_ok w (as @ pp # bs)" and p: "get_peer pp w = Some p"
    and w2: "peer_heap w2 = peer_heap w" and h: "m_head_peer w2 = (if m_head_peer w = Some pp then m_next_peer p else m_head_peer w)"
  shows "\<exists>H l. do {
     w3 \<leftarrow> (case m_prev_peer p of
         None \<Rightarrow> Some w2
       | Some q \<Rightarrow> modify_peer q (\<lambda>x. x\<lparr>m_next_peer := m_next_peer p\<rparr>) w2);
     w4 \<leftarrow> (case m_next_peer p of
         None \<Rightarrow> Some w3
       | Some n \<Rightarrow> modify_peer n (\<lambda>x. x\<lparr>m_prev_peer := m_prev_peer p\<rparr>) w3);
     modify_peer pp (\<lambda>x. x\<lparr>m_prev_peer := None\<rparr>) w4 } = Some (w2\<lparr>peer_heap := H\<rparr>) \<and> relinked w H \<and>
     dlseg (next_of (w2\<lparr>peer_heap := H\<rparr>)) (prev_of (w2\<lparr>peer_heap := H\<rparr>)) (m_head_peer w2) None (as @ bs) None l"
proof -
  obtain l where seg: "dlseg (next_of w) (prev_of w) (m_head_peer w) None (as @ pp # bs) None l"
    and dist: "distinct (as @ pp # bs)" and heap: "\<forall>qq \<in> set (as @ pp # bs). \<exists>p. peer_heap w qq = Some p \<and> peer_ok p"
    using ok by (auto simp: list_ok_def)
  have of: "next_of w pp = m_next_peer p" "prev_of w pp = m_prev_peer p"
    using p by (simp_all add: next_of_def prev_of_def get_peer_def)
  have q: "peer_heap w q \<noteq> None" if "m_prev_peer p = Some q" for q
    using heap dlseg_neighbours(1) [OF seg] that of by (metis Un_iff option.distinct(1) set_append)
  have n: "peer_heap w n \<noteq> None" if "m_next_peer p = Some n" for n
    using heap dlseg_neighbours(2) [OF seg] that of by (metis Un_iff list.set_intros(2) option.distinct(1) set_append)
  have pp: "peer_heap w pp \<noteq> None" using p by (simp add: get_peer_def)
  have rl2: "relinked w (peer_heap w2)" using relinked_refl by (simp add: w2)
  obtain H1 where e1: "(case m_prev_peer p of None \<Rightarrow> Some w2
       | Some q \<Rightarrow> modify_peer q (\<lambda>x. x\<lparr>m_next_peer := m_next_peer p\<rparr>) w2) = Some (w2\<lparr>peer_heap := H1\<rparr>)"
    and r1: "relinked w H1" and n1: "next_of (w2\<lparr>peer_heap := H1\<rparr>) =
      (case m_prev_peer p of None \<Rightarrow> next_of w2 | Some q \<Rightarrow> (next_of w2)(q := m_next_peer p))"
    and p1: "prev_of (w2\<lparr>peer_heap := H1\<rparr>) = prev_of w2"
    using set_link(1) [OF rl2 q, where v = "m_next_peer p"] by blast
  let ?w3 = "w2\<lparr>peer_heap := H1\<rparr>"
  have rl3: "relinked w (peer_heap ?w3)" using r1 by simp
  obtain H2 where e2: "(case m_next_peer p of None \<Rightarrow> Some ?w3
       | Some n \<Rightarrow> modify_peer n (\<lambda>x. x\<lparr>m_prev_peer := m_prev_peer p\<rparr>) ?w3) = Some (?w3\<lparr>peer_heap := H2\<rparr>)"
    and r2: "relinked w H2" and p2: "prev_of (?w3\<lparr>peer_heap := H2\<rparr>) =
      (case m_next_peer p of None \<Rightarrow> prev_of ?w3 | Some n \<Rightarrow> (prev_of ?w3)(n := m_prev_peer p))"
    and n2: "next_of (?w3\<lparr>peer_heap := H2\<rparr>) = next_of ?w3"
    using set_link(2) [OF rl3 n, where v = "m_prev_peer p"] by blast
  let ?w4 = "?w3\<lparr>peer_heap := H2\<rparr>"
  have rl4: "relinked w (peer_heap ?w4)" using r2 by simp
  obtain H3 where e3: "modify_peer pp (\<lambda>x. x\<lparr>m_prev_peer := None\<rparr>) ?w4 = Some (?w4\<lparr>peer_heap := H3\<rparr>)"
    and r3: "relinked w H3" and p3: "prev_of (?w4\<lparr>peer_heap := H3\<rparr>) = (prev_of ?w4)(pp := None)"
    and n3: "next_of (?w4\<lparr>peer_heap := H3\<rparr>) = next_of ?w4"
    using set_link(2) [OF rl4, where q = "Some pp" and v = None] pp by auto
  have "?w4\<lparr>peer_heap := H3\<rparr> = w2\<lparr>peer_heap := H3\<rparr>" by simp
  note e3 = e3 [unfolded this] and p3 = p3 [unfolded this] and n3 = n3 [unfolded this]
  have "next_of w2 = next_of w" "prev_of w2 = prev_of w" using of_heap_only [OF w2] .
  then have "dl_remove pp (next_of w) (prev_of w) (m_head_peer w) =
      (next_of (w2\<lparr>peer_heap := H3\<rparr>), prev_of (w2\<lparr>peer_heap := H3\<rparr>), m_head_peer w2)"
    using n3 n2 n1 p3 p2 p1 h by (simp add: dl_remove_def of Let_def split: option.splits)
  from dl_remove_ok [OF seg dist this] e1 e2 e3 r3 show ?thesis by auto
qed

lemma remove_peer_ok:
  assumes ok: "table_ok w [] xs"
  shows "\<exists>w'. remove_peer_internal addr w = Some w' \<and>
     table_ok w' [] (List.filter (\<lambda>qq. key_of w qq \<noteq> akey addr) xs) \<and> relinked w (peer_heap w')"
proof (cases "m_peers w (akey addr)")
  case None
  then have "\<forall>qq \<in> set xs. key_of w qq \<noteq> akey addr" using table_ok_lookup [OF ok] by (metis option.distinct(1))
  then have "List.filter (\<lambda>qq. key_of w qq \<noteq> akey addr) xs = xs" by simp
  with None ok relinked_refl show ?thesis by (simp add: remove_peer_internal_def)
next
  case (Some pp)
  then have pp: "pp \<in> set xs" "key_of w pp = akey addr" using table_ok_lookup [OF ok] by blast+
  then obtain as bs where xs: "xs = as @ pp # bs" by (meson split_list)
  obtain p where p: "get_peer pp w = Some p" using table_ok_peer [OF ok pp(1)] .
  have of: "id_of w pp = m_peer_id p" using p by (simp add: id_of_def get_peer_def)
  have dist: "distinct xs" using table_okD(1) [OF ok] by (simp add: list_ok_def)
  have uniq: "key_of w qq = akey addr \<longleftrightarrow> qq = pp" if "qq \<in> set xs" for qq
    using table_ok_lookup [OF ok, of "akey addr" qq] that Some by auto
  have flt: "List.filter (\<lambda>qq. key_of w qq \<noteq> akey addr) xs = as @ bs"
  proof -
    have "List.filter (\<lambda>qq. key_of w qq \<noteq> akey addr) xs = List.filter (\<lambda>qq. qq \<noteq> pp) xs"
      by (rule filter_cong) (use uniq in auto)
    also have "List.filter (\<lambda>qq. qq \<noteq> pp) as = as" "List.filter (\<lambda>qq. qq \<noteq> pp) bs = bs"
      using dist xs by (auto simp: filter_id_conv)
    then have "List.filter (\<lambda>qq. qq \<noteq> pp) xs = as @ bs" by (simp add: xs)
    finally show ?thesis .
  qed
  let ?w2 = "w\<lparr>m_peers := (m_peers w)(akey addr := None),
    m_head_peer := (if m_head_peer w = Some pp then m_next_peer p else m_head_peer w)\<rparr>"
  have w2: "(if m_head_peer (w\<lparr>m_peers := (m_peers w)(akey addr := None)\<rparr>) = Some pp
      then w\<lparr>m_peers := (m_peers w)(akey addr := None), m_head_peer := m_next_peer p\<rparr>
      else w\<lparr>m_peers := (m_peers w)(akey addr := None)\<rparr>) = ?w2" by simp
  obtain H l where H: "do {
     w3 \<leftarrow> (case m_prev_peer p of
         None \<Rightarrow> Some ?w2
       | Some q \<Rightarrow> modify_peer q (\<lambda>x. x\<lparr>m_next_peer := m_next_peer p\<rparr>) ?w2);
     w4 \<leftarrow> (case m_next_peer p of
         None \<Rightarrow> Some w3
       | Some n \<Rightarrow> modify_peer n (\<lambda>x. x\<lparr>m_prev_peer := m_prev_peer p\<rparr>) w3);
     modify_peer pp (\<lambda>x. x\<lparr>m_prev_peer := None\<rparr>) w4 } = Some (?w2\<lparr>peer_heap := H\<rparr>)" and rl: "relinked w H"
    and seg: "dlseg (next_of (?w2\<lparr>peer_heap := H\<rparr>)) (prev_of (?w2\<lparr>peer_heap := H\<rparr>)) (m_head_peer ?w2) None (as @ bs) None l"
    using remove_links [OF table_okD(1) [OF ok, unfolded xs] p, of ?w2] by auto
  have i: "0 \<le> m_peer_id p" "nat (m_peer_id p) < length (m_peers_array w)"
    using ids_nonneg [OF table_okD(3) [OF ok] pp(1)] table_okD(4) [OF ok] pp(1) of by (auto simp: array_ok_def)
  let ?w' = "?w2\<lparr>peer_heap := H, m_peers_array := (m_peers_array w)[nat (m_peer_id p) := None],
      m_peer_ids := m_peer_ids w @ [m_peer_id p]\<rparr>"
  have res: "remove_peer_internal addr w = Some ?w'"
  proof -
    have "remove_peer_internal addr w = Option.bind (do {
     w3 \<leftarrow> (case m_prev_peer p of
         None \<Rightarrow> Some ?w2
       | Some q \<Rightarrow> modify_peer q (\<lambda>x. x\<lparr>m_next_peer := m_next_peer p\<rparr>) ?w2);
     w4 \<leftarrow> (case m_next_peer p of
         None \<Rightarrow> Some w3
       | Some n \<Rightarrow> modify_peer n (\<lambda>x. x\<lparr>m_prev_peer := m_prev_peer p\<rparr>) w3);
     modify_peer pp (\<lambda>x. x\<lparr>m_prev_peer := None\<rparr>) w4 })
       (\<lambda>w5. do { arr \<leftarrow> vset (m_peers_array w5) (m_peer_id p) None;
          Some (w5\<lparr>m_peers_array := arr, m_peer_ids := q_push (m_peer_id p) (m_peer_ids w5)\<rparr>) })"
      unfolding remove_peer_internal_def by (simp only: Some option.case p w2 Let_def bind.simps bind_assoc)
    then show ?thesis unfolding H using i by (simp add: q_push_def)
  qed
  have of': "id_of ?w' = id_of w" "key_of ?w' = key_of w"
    using relinked_of [OF rl, of ?w'] by simp_all
  have seg': "next_of ?w' = next_of (?w2\<lparr>peer_heap := H\<rparr>)" "prev_of ?w' = prev_of (?w2\<lparr>peer_heap := H\<rparr>)"
    by (auto simp: next_of_def prev_of_def)
  have heap: "\<exists>q. H qq = Some q \<and> peer_ok q" if "qq \<in> set xs" for qq
  proof -
    have "\<exists>q. peer_heap w qq = Some q \<and> peer_ok q"
      using that table_okD(1) [OF ok] by (auto simp: list_ok_def)
    then show ?thesis using relinked_of(3) [OF rl, of ?w'] by auto
  qed
  have "list_ok ?w' (as @ bs)"
    unfolding list_ok_def seg' using seg heap dist by (auto simp: xs)
  moreover have "map_ok ?w' (as @ bs)"
    unfolding map_ok_def
  proof (intro allI)
    fix k qq
    have "m_peers w k = Some qq \<longleftrightarrow> qq \<in> set xs \<and> key_of w qq = k" using table_ok_lookup [OF ok] .
    then show "m_peers ?w' k = Some qq \<longleftrightarrow> qq \<in> set (as @ bs) \<and> key_of ?w' qq = k"
      using uniq [of qq] dist by (cases "k = akey addr") (auto simp: of' xs)
  qed
  moreover have "ids_ok ?w' [] (as @ bs)"
    using table_okD(3) [OF ok] of by (auto simp: ids_ok_def of' xs)
  moreover have "array_ok ?w' (as @ bs)"
  proof (rule array_clear_ok [OF table_okD(4) [OF ok, unfolded xs]])
    show "distinct (List.map (id_of w) (as @ pp # bs))"
      using table_okD(3) [OF ok] unfolding ids_ok_def distinct_append xs by blast
  qed (use i of of' in simp_all)
  ultimately show ?thesis using res rl flt by (auto simp: table_ok_def)
qed

end
