(* ===== verification/Manager_Inv.thy ===== *)
theory Manager_Inv
  imports Peer_Table
begin

text \<open>
  The invariant of the manager and its preservation by every operation: the handling of a datagram,
  the turn of the logic thread, the calls of the application and the processing of events.
\<close>

section \<open>Operations of peers inside the manager\<close>

definition quiet :: "world \<Rightarrow> world \<Rightarrow> bool" where
  "quiet w w' \<longleftrightarrow> tables w w' \<and> keeps_pool w w' \<and> log_grows w w'"

interpretation quiet: peer_world quiet
proof
  fix w show "quiet w w" by (simp add: quiet_def tables.R_refl pool.R_refl log.R_refl)
next
  fix w1 w2 w3 assume "quiet w1 w2" "quiet w2 w3"
  then show "quiet w1 w3"
    unfolding quiet_def by (blast intro: tables.R_trans pool.R_trans log.R_trans)
next
  fix w n show "quiet w (snd (pool_get_packet n w))"
    by (simp add: quiet_def tables.R_get pool.R_get log.R_get)
next
  fix w packet show "quiet w (pool_recycle packet w)"
    by (simp add: quiet_def tables.R_recycle pool.R_recycle log.R_recycle)
next
  fix args w w' assume "create_event args w = Some w'" "args_ok args"
  then show "quiet w w'"
    by (simp add: quiet_def tables.R_event pool.R_event log.R_event)
next
  fix w n xs show "quiet w (w\<lparr>sends := n, wire := wire w @ xs\<rparr>)"
    by (simp add: quiet_def tables.R_sent pool.R_sent log.R_sent)
next
  fix pp w p p' assume "get_peer pp w = Some p" "peer_evolves p p'"
  then show "quiet w (put_peer pp p' w)"
    by (simp add: quiet_def tables.R_peer pool.R_peer log.R_peer)
qed

section \<open>The invariant\<close>

definition requests_ok :: "world \<Rightarrow> bool" where
  "requests_ok w \<longleftrightarrow>
     (\<forall>k rp. m_connection_requests w k = Some rp \<longrightarrow>
        (\<exists>r. request_heap w rp = Some r \<and> akey (m_remote_endpoint r) = k)) \<and>
     (\<forall>rp r. request_heap w rp = Some r \<longrightarrow> m_internal_packet r \<noteq> None)"

definition event_known :: "world \<Rightarrow> net_event \<Rightarrow> bool" where
  "event_known w e \<longleftrightarrow> event_ok e \<and> (\<forall>rp. connectionRequest e = Some rp \<longrightarrow> request_heap w rp \<noteq> None)"

definition events_ok :: "world \<Rightarrow> bool" where
  "events_ok w \<longleftrightarrow> (\<forall>e \<in> set (m_events_consume_queue w) \<union> set (m_events_produce_queue w). event_known w e)"

definition objects_ok :: "world \<Rightarrow> bool" where
  "objects_ok w \<longleftrightarrow> (\<forall>n \<ge> next_object w. peer_heap w n = None \<and> request_heap w n = None)"

definition around_ok :: "world \<Rightarrow> bool" where
  "around_ok w \<longleftrightarrow> pool_ok w \<and> requests_ok w \<and> events_ok w \<and> objects_ok w"

definition mgr_ok :: "world \<Rightarrow> int list \<Rightarrow> nat list \<Rightarrow> bool" where
  "mgr_ok w reserved xs \<longleftrightarrow> table_ok w reserved xs \<and> around_ok w"

definition manager_ok :: "world \<Rightarrow> bool" where
  "manager_ok w \<longleftrightarrow> (\<exists>xs. mgr_ok w [] xs)"

lemma around_quiet:
  assumes q: "quiet w w'" and ok: "around_ok w"
  shows "around_ok w'"
proof -
  have t: "tables w w'" and p: "keeps_pool w w'" and l: "log_grows w w'" using q by (simp_all add: quiet_def)
  have rh: "request_heap w' = request_heap w" "m_connection_requests w' = m_connection_requests w"
    "m_events_consume_queue w' = m_events_consume_queue w" "next_object w' = next_object w"
    using t by (simp_all add: tables_def)
  have "pool_ok w'" using p ok by (simp add: keeps_pool_def around_ok_def)
  moreover have "requests_ok w'" using ok by (simp add: requests_ok_def around_ok_def rh)
  moreover have "events_ok w'"
    using l ok by (auto simp: log_grows_def events_ok_def around_ok_def event_known_def rh)
  moreover have "objects_ok w'"
    unfolding objects_ok_def
  proof (intro allI impI)
    fix n assume "next_object w' \<le> n"
    then have "peer_heap w n = None" "request_heap w n = None" using ok rh by (auto simp: around_ok_def objects_ok_def)
    moreover have "rel_option peer_evolves (peer_heap w n) (peer_heap w' n)" using t by (simp add: tables_def)
    ultimately show "peer_heap w' n = None \<and> request_heap w' n = None" using rh by simp
  qed
  ultimately show ?thesis by (simp add: around_ok_def)
qed

lemma mgr_quiet: "quiet w w' \<Longrightarrow> mgr_ok w res xs \<Longrightarrow> mgr_ok w' res xs"
  by (auto simp: mgr_ok_def quiet_def intro: table_ok_tables around_quiet [unfolded quiet_def])

lemma manager_quiet: "quiet w w' \<Longrightarrow> manager_ok w \<Longrightarrow> manager_ok w'"
  by (auto simp: manager_ok_def intro: mgr_quiet)

section \<open>Changes of the table only\<close>

definition table_change :: "world \<Rightarrow> world \<Rightarrow> bool" where
  "table_change w w' \<longleftrightarrow>
     m_packet_pool_head w' = m_packet_pool_head w \<and> m_packet_pool_size w' = m_packet_pool_size w \<and>
     packet_pool_size w' = packet_pool_size w \<and> m_connection_requests w' = m_connection_requests w \<and>
     m_events_consume_queue w' = m_events_consume_queue w \<and> m_events_produce_queue w' = m_events_produce_queue w \<and>
     request_heap w' = request_heap w \<and> next_object w' = next_object w \<and> auto_recycle w' = auto_recycle w \<and>
     m_running w' = m_running w \<and> wire w' = wire w \<and> channels_count w' = channels_count w \<and>
     (\<forall>n. peer_heap w' n = None \<longleftrightarrow> peer_heap w n = None)"

lemma around_table: "table_change w w' \<Longrightarrow> around_ok w \<Longrightarrow> around_ok w'"
  by (simp add: table_change_def around_ok_def pool_ok_def requests_ok_def events_ok_def event_known_def objects_ok_def)

lemma table_change_refl [simp]: "table_change w w"
  by (simp add: table_change_def)

lemma table_change_trans: "table_change w1 w2 \<Longrightarrow> table_change w2 w3 \<Longrightarrow> table_change w1 w3"
  by (simp add: table_change_def)

lemma modify_change: "modify_peer pp f w = Some w' \<Longrightarrow> table_change w w'"
  by (auto simp: modify_peer_def put_peer_def get_peer_def table_change_def elim!: bind_SomeE split: if_splits)

lemma next_id_change: "get_next_peer_id w = (i, w') \<Longrightarrow> table_change w w' \<and> m_peers w' = m_peers w \<and> peer_heap w' = peer_heap w"
  by (auto simp: get_next_peer_id_def q_dequeue_def q_empty_def table_change_def split: if_splits)

lemma add_change:
  assumes "add_peer pp w = Some w'"
  shows "table_change w w'"
proof -
  obtain w1 where w1: "(case m_head_peer w of
         None \<Rightarrow> Some w
       | Some h \<Rightarrow> do {
           w1 \<leftarrow> modify_peer pp (\<lambda>p. p\<lparr>m_next_peer := Some h\<rparr>) w;
           modify_peer h (\<lambda>p. p\<lparr>m_prev_peer := Some pp\<rparr>) w1
         }) = Some w1" and "table_change w1 w'"
    using assms by (auto simp: add_peer_def Let_def table_change_def elim!: bind_SomeE)
  moreover have "table_change w w1"
    using w1 by (auto elim!: bind_SomeE split: option.splits dest!: modify_change intro: table_change_trans)
  ultimately show ?thesis by (auto intro: table_change_trans)
qed

lemma table_change_upd [simp]:
  "table_change w (w1\<lparr>m_peers_array := arr, m_peer_ids := ids\<rparr>) = table_change w w1"
  "table_change w (w1\<lparr>m_peers := mp\<rparr>) = table_change w w1"
  "table_change w (w1\<lparr>m_peers := mp, m_head_peer := hp\<rparr>) = table_change w w1"
  by (simp_all add: table_change_def)

lemma link_change: "(case q of None \<Rightarrow> Some v | Some x \<Rightarrow> modify_peer x f v) = Some v' \<Longrightarrow> table_change v v'"
  by (auto split: option.splits dest: modify_change)

lemma remove_change:
  assumes "remove_peer_internal addr w = Some w'"
  shows "table_change w w'"
proof (cases "m_peers w (akey addr)")
  case None
  with assms show ?thesis by (simp add: remove_peer_internal_def)
next
  case (Some pp)
  with assms show ?thesis
    unfolding remove_peer_internal_def Let_def
    apply (auto elim!: bind_SomeE simp del: not_None_eq split del: if_split)
    apply (rule table_change_trans [rotated], erule modify_change)
    apply (rule table_change_trans [rotated], erule link_change)
    apply (rule table_change_trans [rotated], erule link_change)
    apply simp
    done
qed

section \<open>New peers\<close>

lemma new_packet_sizes:
  "buffer_size (new_packet_with MERGED MAX_PACKET_SIZE) = 2048"
  "11 \<le> buffer_size (new_packet_with PONG 0)" "m_size (new_packet_with PONG 0) = 11"
  "3 \<le> buffer_size (new_packet_with PING 0)" "m_size (new_packet_with PING 0) = 3"
proof -
  have d: "buffer_size (new_packet_with pr n) = grow 0 (n + static_header_size pr)" for pr n
    by (simp add: new_packet_with_def set_property_def upd_byte0_def resize_def length_ensure blank_packet_def)
  have m: "m_size (new_packet_with pr n) = n + static_header_size pr" for pr n
    by (simp add: new_packet_with_def set_property_def upd_byte0_def resize_def)
  have "grow 0 1433 = 2048" by (simp add: grow.simps GROWTH_FACTOR_def)
  then show "buffer_size (new_packet_with MERGED MAX_PACKET_SIZE) = 2048" by (simp add: d)
  show "11 \<le> buffer_size (new_packet_with PONG 0)" "3 \<le> buffer_size (new_packet_with PING 0)"
    using grow_bounds(2) [of 11 0] grow_bounds(2) [of 3 0] by (simp_all add: d)
  show "m_size (new_packet_with PONG 0) = 11" "m_size (new_packet_with PING 0) = 3" by (simp_all add: m)
qed

lemma new_peer_ok:
  assumes "new_peer n endpoint i = Some p"
  shows "peer_ok p" "m_next_peer p = None" "m_prev_peer p = None" "m_peer_id p = i" "m_endpoint p = endpoint"
  using assms new_packet_sizes
  by (auto simp: new_peer_def reset_mtu_def set_mtu_def vget_Some_iff blank_peer_def peer_ok_defs POSSIBLE_MTU_def
      simp del: not_None_eq elim!: bind_SomeE)

lemma new_peer_total: "\<exists>p. new_peer n endpoint i = Some p"
  by (simp add: new_peer_def reset_mtu_def set_mtu_def POSSIBLE_MTU_def)

text \<open>The table does not depend on the objects outside it.\<close>

lemma table_ok_cong:
  assumes t: "table_ok w res xs" and heap: "\<And>qq. qq \<in> set xs \<Longrightarrow> peer_heap w' qq = peer_heap w qq"
    and same: "m_head_peer w' = m_head_peer w" "m_peers w' = m_peers w" "m_peers_array w' = m_peers_array w"
      "m_peer_ids w' = m_peer_ids w" "m_peer_id_counter w' = m_peer_id_counter w"
  shows "table_ok w' res xs"
proof -
  have of: "next_of w' qq = next_of w qq" "prev_of w' qq = prev_of w qq" "id_of w' qq = id_of w qq" "key_of w' qq = key_of w qq"
    if "qq \<in> set xs" for qq
    using heap [OF that] by (auto simp: next_of_def prev_of_def id_of_def key_of_def)
  have "list_ok w' xs"
    using table_okD(1) [OF t] dlseg_cong [of xs "next_of w'" "next_of w" "prev_of w'" "prev_of w"] of heap same
    by (auto simp: list_ok_def)
  moreover have "map_ok w' xs"
    unfolding map_ok_def
  proof (intro allI)
    fix k qq
    show "m_peers w' k = Some qq \<longleftrightarrow> qq \<in> set xs \<and> key_of w' qq = k"
      using table_ok_lookup [OF t, of k qq] of(4) [of qq] same by auto
  qed
  moreover have "ids_ok w' res xs"
    using table_okD(3) [OF t] of(3) by (simp add: ids_ok_def same cong: map_cong image_cong)
  moreover have "array_ok w' xs"
    using table_okD(4) [OF t] of(3) same unfolding array_ok_def by auto
  ultimately show ?thesis by (simp add: table_ok_def)
qed

lemma table_ok_heap: "table_ok w res xs \<Longrightarrow> qq \<in> set xs \<Longrightarrow> peer_heap w qq \<noteq> None"
  by (auto elim!: table_ok_peer simp: get_peer_def)

lemma alloc_ok:
  assumes ok: "mgr_ok w res xs" and new: "alloc_peer p w = (pp, w')"
  shows "mgr_ok w' res xs" "pp \<notin> set xs" "get_peer pp w' = Some p" "m_peers w' = m_peers w"
proof -
  have pp: "pp = next_object w" "w' = w\<lparr>peer_heap := (peer_heap w)(next_object w \<mapsto> p), next_object := next_object w + 1\<rparr>"
    using new by (auto simp: alloc_peer_def)
  have t: "table_ok w res xs" and a: "around_ok w" using ok by (simp_all add: mgr_ok_def)
  have "peer_heap w pp = None" using a pp by (simp add: around_ok_def objects_ok_def)
  then show notin: "pp \<notin> set xs" using table_ok_heap [OF t] by blast
  have "table_ok w' res xs" by (rule table_ok_cong [OF t]) (use notin pp in auto)
  moreover have "around_ok w'"
    using a pp by (auto simp: around_ok_def pool_ok_def requests_ok_def events_ok_def event_known_def objects_ok_def)
  ultimately show "mgr_ok w' res xs" by (simp add: mgr_ok_def)
  show "get_peer pp w' = Some p" "m_peers w' = m_peers w" by (simp_all add: get_peer_def pp)
qed

lemma add_mgr_ok:
  assumes ok: "mgr_ok w [i] xs" and p: "get_peer pp w = Some p" "peer_ok p" "m_next_peer p = None" "m_prev_peer p = None"
      "m_peer_id p = i" "m_peers w (akey (m_endpoint p)) = None" and notin: "pp \<notin> set xs"
    and w': "add_peer pp w = Some w'"
  shows "mgr_ok w' [] (pp # xs)"
proof -
  have "fresh_peer w pp i" using p by (simp add: fresh_peer_def get_peer_def key_of_def)
  with ok notin w' have "table_ok w' [] (pp # xs)" using add_peer_ok by (fastforce simp: mgr_ok_def)
  moreover have "around_ok w'" using around_table [OF add_change [OF w']] ok by (simp add: mgr_ok_def)
  ultimately show ?thesis by (simp add: mgr_ok_def)
qed

lemma remove_mgr_ok:
  assumes ok: "mgr_ok w [] xs" and w': "remove_peer_internal addr w = Some w'"
  shows "mgr_ok w' [] (List.filter (\<lambda>qq. key_of w qq \<noteq> akey addr) xs)"
  using remove_peer_ok [of w xs addr] around_table [OF remove_change [OF w']] ok w' by (auto simp: mgr_ok_def)

text \<open>A peer on its way into the table.\<close>

definition made :: "world \<Rightarrow> int \<Rightarrow> address_key \<Rightarrow> nat \<Rightarrow> nat list \<Rightarrow> bool" where
  "made w i a pp xs \<longleftrightarrow> mgr_ok w [i] xs \<and> pp \<notin> set xs \<and> m_peers w a = None \<and>
     (\<exists>p. get_peer pp w = Some p \<and> peer_ok p \<and> m_next_peer p = None \<and> m_prev_peer p = None \<and>
          m_peer_id p = i \<and> akey (m_endpoint p) = a)"

lemma made_quiet:
  assumes q: "quiet w w'" and m: "made w i a pp xs"
  shows "made w' i a pp xs"
proof -
  obtain p where p: "get_peer pp w = Some p" "peer_ok p" "m_next_peer p = None" "m_prev_peer p = None"
    "m_peer_id p = i" "akey (m_endpoint p) = a" using m by (auto simp: made_def)
  have t: "tables w w'" using q by (simp add: quiet_def)
  then have "rel_option peer_evolves (peer_heap w pp) (peer_heap w' pp)" by (simp add: tables_def)
  with p obtain p' where "get_peer pp w' = Some p'" "peer_evolves p p'"
    by (cases "peer_heap w' pp") (auto simp: get_peer_def)
  with p have "\<exists>p. get_peer pp w' = Some p \<and> peer_ok p \<and> m_next_peer p = None \<and> m_prev_peer p = None \<and>
          m_peer_id p = i \<and> akey (m_endpoint p) = a" by (auto simp: peer_evolves_def)
  then show ?thesis using m mgr_quiet [OF q] t by (simp add: made_def tables_def)
qed

lemma alloc_made:
  assumes "mgr_ok w [i] xs" "alloc_peer p w = (pp, w')" "peer_ok p" "m_next_peer p = None" "m_prev_peer p = None"
    "m_peer_id p = i" "m_peers w (akey (m_endpoint p)) = None"
  shows "made w' i (akey (m_endpoint p)) pp xs"
  using alloc_ok [OF assms(1,2)] assms(3-) by (simp add: made_def)

lemma add_made: "made w i a pp xs \<Longrightarrow> add_peer pp w = Some w' \<Longrightarrow> mgr_ok w' [] (pp # xs)"
  unfolding made_def using add_mgr_ok by blast

lemma next_id_mgr:
  assumes "mgr_ok w [] xs" "get_next_peer_id w = (i, w')"
  shows "mgr_ok w' [i] xs" "m_peers w' = m_peers w"
  using assms get_next_id_ok next_id_change [OF assms(2)] around_table by (auto simp: mgr_ok_def)

text \<open>Any change of a peer on its way that keeps what its entry into the table needs.\<close>

lemma made_modify:
  assumes m: "made w i a pp xs" and w': "modify_peer pp f w = Some w'"
    and f: "\<And>p. m_next_peer (f p) = m_next_peer p" "\<And>p. m_prev_peer (f p) = m_prev_peer p"
      "\<And>p. m_peer_id (f p) = m_peer_id p" "\<And>p. m_endpoint (f p) = m_endpoint p" "\<And>p. peer_ok p \<Longrightarrow> peer_ok (f p)"
  shows "made w' i a pp xs"
proof -
  obtain p where p: "get_peer pp w = Some p" "peer_ok p" "m_next_peer p = None" "m_prev_peer p = None"
    "m_peer_id p = i" "akey (m_endpoint p) = a" using m by (auto simp: made_def)
  have e: "w' = w\<lparr>peer_heap := (peer_heap w)(pp \<mapsto> f p)\<rparr>" using w' modify_heap [OF p(1)] by simp
  have "table_ok w' [i] xs"
    by (rule table_ok_cong [of w]) (use m e in \<open>auto simp: made_def mgr_ok_def\<close>)
  moreover have "around_ok w'" using m around_table [OF modify_change [OF w']] by (simp add: made_def mgr_ok_def)
  ultimately show ?thesis using m p f e by (simp add: made_def mgr_ok_def get_peer_def)
qed

lemma accept_made:
  assumes ok: "mgr_ok w [i] xs" and new: "new_peer_accept request i w = Some (pp, w')"
    and free: "m_peers w (akey (m_remote_endpoint request)) = None"
  shows "made w' i (akey (m_remote_endpoint request)) pp xs"
proof -
  obtain p t n rid w1 acc r w2 where p: "new_peer (channels_count w) (m_remote_endpoint request) i = Some p"
    and w1: "alloc_peer (p\<lparr>m_connect_time := t, m_connect_number := n, m_remote_id := rid,
        m_connect_accept_packet := Some acc\<rparr>) w = (pp, w1)"
    and w2: "send_packet acc (m_remote_endpoint request) w1 = Some (r, w2)"
    and w': "modify_peer pp (\<lambda>p. p\<lparr>m_connection_state := CONNECTED\<rparr>) w2 = Some w'"
    using new by (auto simp: new_peer_accept_def elim!: bind_SomeE split: prod.splits)
  let ?q = "p\<lparr>m_connect_time := t, m_connect_number := n, m_remote_id := rid, m_connect_accept_packet := Some acc\<rparr>"
  have q: "same_vitals p ?q" by (simp add: same_vitals_def)
  note np = new_peer_ok [OF p]
  have "made w1 i (akey (m_endpoint ?q)) pp xs"
    by (rule alloc_made [OF ok w1]) (use np q free in \<open>auto simp: same_vitals_def peer_ok_defs\<close>)
  then have "made w2 i (akey (m_endpoint ?q)) pp xs" using made_quiet [OF quiet.send_packet_R [OF w2]] by simp
  then have "made w' i (akey (m_endpoint ?q)) pp xs" by (rule made_modify [OF _ w']) (simp_all add: peer_ok_defs)
  then show ?thesis using np q by (simp add: same_vitals_def)
qed

lemma connect_made:
  assumes ok: "mgr_ok w [i] xs" and new: "new_peer_connect endpoint i n data w = Some (pp, w')"
    and free: "m_peers w (akey endpoint) = None"
  shows "made w' i (akey endpoint) pp xs"
proof -
  obtain p t w1 acc r where p: "new_peer (channels_count w) endpoint i = Some p"
    and w1: "alloc_peer (p\<lparr>m_connect_time := t, m_connection_state := OUTGOING, m_connect_number := n,
        m_connect_request_packet := Some acc\<rparr>) w = (pp, w1)"
    and w': "send_packet acc endpoint w1 = Some (r, w')"
    using new by (auto simp: new_peer_connect_def Let_def elim!: bind_SomeE split: prod.splits)
  let ?q = "p\<lparr>m_connect_time := t, m_connection_state := OUTGOING, m_connect_number := n,
        m_connect_request_packet := Some acc\<rparr>"
  have q: "m_endpoint ?q = m_endpoint p" by simp
  note np = new_peer_ok [OF p]
  have "made w1 i (akey (m_endpoint ?q)) pp xs"
    by (rule alloc_made [OF ok w1]) (use np q free in \<open>auto simp: same_vitals_def peer_ok_defs\<close>)
  then have "made w' i (akey (m_endpoint ?q)) pp xs" using made_quiet [OF quiet.send_packet_R [OF w']] by simp
  then show ?thesis using np q by simp
qed

section \<open>Operations of the manager that leave the table alone\<close>

context peer_world begin

lemma connect_request_R: "peer_process_connect_request pp request w = Some (r, w') \<Longrightarrow> R w w'"
  unfolding peer_process_connect_request_def
  by (auto elim!: bind_SomeE split: connection_state.splits if_splits simp: R_refl) (auto intro: send_packet_R)

lemma event_R':
  assumes "create_event (default_event\<lparr>ev_type := t, ev_peer := pp, socketErrorCode := e, disconnectReason := d, m_reader_source := q\<rparr>) w = Some w'"
    and "\<not> reads_data t" "t \<noteq> EVENT_NETWORK_ERROR"
  shows "R w w'"
  using assms by (intro R_event) (auto simp: args_ok_def default_event_def)

lemma disconnect_R: "disconnect_peer a reason e force data off n q w = Some w' \<Longrightarrow> R w w'"
  unfolding disconnect_peer_def
  by (auto elim!: bind_SomeE split: option.splits if_splits simp: R_refl)
    (auto intro: R_trans [OF shutdown_R recycle_ptr_R] R_trans [OF shutdown_R event_R'] simp: reads_data_def)

lemma disconnect_each_R: "disconnect_each data off n as w = Some w' \<Longrightarrow> R w w'"
  by (induction as arbitrary: w) (auto elim!: bind_SomeE simp: R_refl intro: R_trans [OF disconnect_R])

lemma disconnect_all_R: "disconnect_all data off n w = Some w' \<Longrightarrow> R w w'"
  by (auto simp: disconnect_all_def elim!: bind_SomeE intro: disconnect_each_R)

lemma get_property_R: "pool_get_with_property pr n w = (packet, w') \<Longrightarrow> R w w'"
  by (auto simp: pool_get_with_property_def Let_def split: prod.splits intro: get_R)

lemma reply_R: "reply_with pr addr w = Some w' \<Longrightarrow> R w w'"
  unfolding reply_with_def
  by (auto elim!: bind_SomeE split: prod.splits) (auto intro: R_trans [OF get_property_R send_recycle_R])

lemma not_found_R: "on_peer_not_found pp packet addr w = Some w' \<Longrightarrow> R w w'"
proof -
  assume a: "on_peer_not_found pp packet addr w = Some w'"
  then obtain p where p: "get_peer pp w = Some p" by (auto simp: on_peer_not_found_def elim: bind_SomeE)
  have reset: "R w (put_peer pp p1 w)" if "reset_mtu p = Some p1" for p1
    by (rule R_peer [OF p set_mtu_evolves]) (use that in \<open>simp add: reset_mtu_def\<close>)
  show ?thesis
    using a p unfolding on_peer_not_found_def
    by (auto elim!: bind_SomeE split: if_splits prod.splits simp: R_refl R_recycle)
      (auto intro: R_trans [OF reset send_recycle_R] force_R R_trans [OF R_trans [OF R_recycle get_property_R] send_recycle_R])
qed

lemma on_disconnect_R: "on_disconnect pp packet addr w = Some w' \<Longrightarrow> R w w'"
  unfolding on_disconnect_def
  by (auto elim!: bind_SomeE split: if_splits simp: R_recycle) (auto intro: R_trans [OF force_R reply_R])

lemma accept_evolves: "process_connect_accept acc p = (ok, p') \<Longrightarrow> peer_evolves p p'"
  by (auto simp: process_connect_accept_def peer_evolves_def peer_ok_defs state_le_def split: if_splits)

lemma on_accept_R: "on_connect_accept pp packet w = Some w' \<Longrightarrow> R w w'"
proof -
  assume a: "on_connect_accept pp packet w = Some w'"
  have ev: "R w1 w2" if "create_event (default_event\<lparr>ev_type := EVENT_CONNECT, ev_peer := x\<rparr>) w1 = Some w2" for x w1 w2
    by (rule R_event [OF that]) (simp add: args_ok_def default_event_def reads_data_def)
  show ?thesis
    using a unfolding on_connect_accept_def
    by (auto elim!: bind_SomeE split: option.splits prod.splits if_splits simp: R_recycle Let_def)
      (auto intro: R_then_recycle R_peer accept_evolves R_trans [OF R_peer [OF _ accept_evolves] ev])
qed

lemma update_peers_R:
  assumes "update_peers dt h w = Some r" shows "R w (snd r)"
  using assms
proof (rule update_peers.raw_induct [where P = "\<lambda>_ _ w r. R w (snd r)", rotated])
  fix upd dt h w r
  assume IH: "\<And>dt h w r. upd dt h w = Some r \<Longrightarrow> R w (snd r)"
    and step: "(case h of
        None \<Rightarrow> Some ([], w)
      | Some pp \<Rightarrow> do {
          p \<leftarrow> get_peer pp w;
          (addrs, w1) \<leftarrow>
            (if m_connection_state p = DISCONNECTED \<and> m_time_since_last_packet p > disconnect_timeout w
             then Some ([m_endpoint p], w)
             else do { w1 \<leftarrow> peer_update pp dt w; Some ([], w1) });
          p1 \<leftarrow> get_peer pp w1;
          (rest, w2) \<leftarrow> upd dt (m_next_peer p1) w1;
          Some (addrs @ rest, w2)
        }) = Some r"
  show "R w (snd r)"
  proof (cases h)
    case None
    with step R_refl show ?thesis by auto
  next
    case (Some pp)
    with step obtain p :: net_peer and addrs w1 q rest w2 where
      w1: "(if m_connection_state p = DISCONNECTED \<and> m_time_since_last_packet p > disconnect_timeout w
             then Some ([m_endpoint p], w)
             else do { w1 \<leftarrow> peer_update pp dt w; Some ([], w1) }) = Some (addrs, w1)"
      and w2: "upd dt q w1 = Some (rest, w2)" and r: "snd r = w2"
      by (auto elim!: bind_SomeE)
    have "R w w1"
    proof (cases "m_connection_state p = DISCONNECTED \<and> m_time_since_last_packet p > disconnect_timeout w")
      case True
      with w1 R_refl show ?thesis by simp
    next
      case False
      then obtain w1' where "peer_update pp dt w = Some w1'" "w1 = w1'" using w1 by (auto elim!: bind_SomeE)
      then show ?thesis using update_R by simp
    qed
    then show ?thesis using R_trans [OF _ IH [OF w2]] r by simp
  qed
qed

end

section \<open>Requests\<close>

lemma mgr_cong:
  assumes ok: "mgr_ok w res xs" and a: "around_ok w'"
    and same: "peer_heap w' = peer_heap w" "m_head_peer w' = m_head_peer w" "m_peers w' = m_peers w"
      "m_peers_array w' = m_peers_array w" "m_peer_ids w' = m_peer_ids w" "m_peer_id_counter w' = m_peer_id_counter w"
  shows "mgr_ok w' res xs"
  using ok a table_ok_cong [of w res xs w'] same by (simp add: mgr_ok_def)

lemma requests_okD:
  assumes "requests_ok w"
  shows "m_connection_requests w k = Some rp \<Longrightarrow> \<exists>r. request_heap w rp = Some r \<and> akey (m_remote_endpoint r) = k"
    "request_heap w rp = Some r \<Longrightarrow> m_internal_packet r \<noteq> None"
  using assms unfolding requests_ok_def by blast+

lemma request_upd_ok:
  assumes ok: "manager_ok w" and r: "request_heap w rp = Some r" and r': "m_remote_endpoint r' = m_remote_endpoint r"
    "m_internal_packet r' \<noteq> None"
  shows "manager_ok (w\<lparr>request_heap := (request_heap w)(rp \<mapsto> r')\<rparr>)" (is "manager_ok ?w'")
proof -
  obtain xs where xs: "mgr_ok w [] xs" using ok by (auto simp: manager_ok_def)
  then have a: "around_ok w" by (simp add: mgr_ok_def)
  have q: "requests_ok w" using a by (simp add: around_ok_def)
  have "requests_ok ?w'"
    unfolding requests_ok_def
  proof (intro conjI allI impI)
    fix k x assume "m_connection_requests ?w' k = Some x"
    then obtain y where "request_heap w x = Some y" "akey (m_remote_endpoint y) = k"
      using requests_okD(1) [OF q] by fastforce
    then show "\<exists>y. request_heap ?w' x = Some y \<and> akey (m_remote_endpoint y) = k" using r r' by auto
  next
    fix x y assume "request_heap ?w' x = Some y"
    then show "m_internal_packet y \<noteq> None" using r' requests_okD(2) [OF q, of x y] by (auto split: if_splits)
  qed
  moreover have "events_ok ?w'" using a r by (auto simp: around_ok_def events_ok_def event_known_def)
  moreover have "objects_ok ?w'" using a r by (auto simp: around_ok_def objects_ok_def)
  moreover have "pool_ok ?w'" using a by (simp add: around_ok_def pool_ok_def)
  ultimately have "mgr_ok ?w' [] xs" by (intro mgr_cong [OF xs]) (simp_all add: around_ok_def)
  then show ?thesis by (auto simp: manager_ok_def)
qed

lemma request_forget_ok:
  assumes ok: "manager_ok w"
  shows "manager_ok (w\<lparr>m_connection_requests := (m_connection_requests w)(k := None)\<rparr>)" (is "manager_ok ?w'")
proof -
  obtain xs where xs: "mgr_ok w [] xs" using ok by (auto simp: manager_ok_def)
  then have a: "around_ok w" by (simp add: mgr_ok_def)
  then have "around_ok ?w'"
    by (auto simp: around_ok_def requests_ok_def events_ok_def event_known_def objects_ok_def pool_ok_def)
  then have "mgr_ok ?w' [] xs" by (intro mgr_cong [OF xs]) simp_all
  then show ?thesis by (auto simp: manager_ok_def)
qed

lemma manager_request:
  "manager_ok w \<Longrightarrow> request_heap w rp = Some r \<Longrightarrow> m_internal_packet r \<noteq> None"
  by (auto simp: manager_ok_def mgr_ok_def around_ok_def requests_ok_def)

lemma remove_manager: "manager_ok w \<Longrightarrow> remove_peer addr w = Some w' \<Longrightarrow> manager_ok w'"
  by (auto simp: manager_ok_def remove_peer_def dest: remove_mgr_ok)

lemma recycle_packet_quiet: "request_packet_recycle r w = (r', w') \<Longrightarrow> quiet w w'"
  by (auto simp: request_packet_recycle_def quiet.R_refl quiet.R_recycle split: option.splits)

lemma request_recycle_ok:
  assumes ok: "manager_ok w" and w': "request_recycle rp w = Some w'"
  shows "manager_ok w'"
proof -
  obtain r where r: "request_heap w rp = Some r" using w' by (auto simp: request_recycle_def elim: bind_SomeE)
  then obtain q where q: "m_internal_packet r = Some q" using manager_request [OF ok] by blast
  obtain q' w1 where w1: "request_packet_recycle q w = (q', w1)" by fastforce
  have "quiet w w1" using recycle_packet_quiet [OF w1] .
  then have "manager_ok w1" "request_heap w1 rp = Some r"
    using ok manager_quiet r by (simp_all add: quiet_def tables_def)
  then show ?thesis using request_upd_ok [of w1 rp r] w' r q w1 by (auto simp: request_recycle_def)
qed

lemma update_request_ok:
  "update_request q r = Some r' \<Longrightarrow> m_remote_endpoint r' = m_remote_endpoint r \<and> m_internal_packet r' \<noteq> None"
  by (auto simp: update_request_def elim!: bind_SomeE split: if_splits)

lemma new_request_ok:
  assumes ok: "manager_ok w" and r: "m_internal_packet r \<noteq> None" "m_remote_endpoint r = addr"
    and rp: "rp = next_object w"
    and w': "create_event (default_event\<lparr>ev_type := EVENT_CONNECTION_REQUEST, remoteEndpoint := addr,
        connectionRequest := Some rp\<rparr>) (w\<lparr>request_heap := (request_heap w)(rp \<mapsto> r), next_object := rp + 1,
        m_connection_requests := (m_connection_requests w)(akey addr \<mapsto> rp)\<rparr>) = Some w'"
  shows "manager_ok w'"
proof -
  obtain xs where xs: "mgr_ok w [] xs" using ok by (auto simp: manager_ok_def)
  then have a: "around_ok w" by (simp add: mgr_ok_def)
  let ?e = "default_event\<lparr>ev_type := EVENT_CONNECTION_REQUEST, remoteEndpoint := addr, connectionRequest := Some rp\<rparr>"
  have e: "w' = w\<lparr>request_heap := (request_heap w)(rp \<mapsto> r), next_object := rp + 1,
        m_connection_requests := (m_connection_requests w)(akey addr \<mapsto> rp),
        m_events_produce_queue := m_events_produce_queue w @ [?e]\<rparr>"
    using w' by (auto simp: create_event_def default_event_def elim!: bind_SomeE)
  have none: "request_heap w rp = None" using a rp by (simp add: around_ok_def objects_ok_def)
  have "pool_ok w'" using a by (simp add: around_ok_def pool_ok_def e)
  moreover have "requests_ok w'"
  proof -
    have q: "requests_ok w" using a by (simp add: around_ok_def)
    show ?thesis
      unfolding requests_ok_def
    proof (intro conjI allI impI)
      fix k x assume k: "m_connection_requests w' k = Some x"
      show "\<exists>y. request_heap w' x = Some y \<and> akey (m_remote_endpoint y) = k"
      proof (cases "k = akey addr")
        case True
        with k r show ?thesis by (simp add: e)
      next
        case False
        then obtain y where "request_heap w x = Some y" "akey (m_remote_endpoint y) = k"
          using requests_okD(1) [OF q] k by (fastforce simp: e)
        then show ?thesis using none by (auto simp: e)
      qed
    next
      fix x y assume "request_heap w' x = Some y"
      then show "m_internal_packet y \<noteq> None" using r requests_okD(2) [OF q, of x y] by (auto simp: e split: if_splits)
    qed
  qed
  moreover have "events_ok w'"
  proof -
    have "event_ok ?e" by (simp add: event_ok_def default_event_def reads_data_def)
    then show ?thesis using a none by (auto simp: around_ok_def events_ok_def event_known_def e)
  qed
  moreover have "objects_ok w'" using a rp by (auto simp: around_ok_def objects_ok_def e)
  ultimately have "mgr_ok w' [] xs" by (intro mgr_cong [OF xs]) (simp_all add: around_ok_def e)
  then show ?thesis by (auto simp: manager_ok_def)
qed

lemma judge_ok:
  assumes ok: "manager_ok w" and j: "judge_request addr peer q w = Some (nxt, w')"
  shows "manager_ok w'"
proof (cases peer)
  case (Some pp)
  then obtain r w1 where r: "peer_process_connect_request pp q w = Some (r, w1)"
    using j by (auto simp: judge_request_def elim: bind_SomeE)
  have ok1: "manager_ok w1" by (rule manager_quiet [OF quiet.connect_request_R [OF r] ok])
  have forced: "manager_ok w3"
    if "disconnect_peer_force addr reason 0 None w1 = Some w2" "remove_peer addr w2 = Some w3" for reason w2 w3
    by (rule remove_manager [OF manager_quiet [OF quiet.force_R [OF that(1)] ok1] that(2)])
  have rec: "quiet w1 (snd (request_packet_recycle q w1))"
    using recycle_packet_quiet [of q w1] by (cases "request_packet_recycle q w1") simp
  show ?thesis
  proof (cases r)
    case REQUEST_NONE
    then have "w' = snd (request_packet_recycle q w1)"
      using j Some r by (auto simp: judge_request_def Let_def elim!: bind_SomeE)
    then show ?thesis using manager_quiet [OF rec ok1] by simp
  next
    case NEW_CONNECTION
    then have "remove_peer addr w1 = Some w'"
      using j Some r by (auto simp: judge_request_def Let_def elim!: bind_SomeE)
    then show ?thesis by (rule remove_manager [OF ok1])
  next
    case P2P_LOSE
    then obtain w2 where "disconnect_peer_force addr PEER_TO_PEER_CONNECTION 0 None w1 = Some w2" "remove_peer addr w2 = Some w'"
      using j Some r by (auto simp: judge_request_def Let_def elim!: bind_SomeE)
    then show ?thesis by (rule forced)
  next
    case RECONNECTION
    then obtain w2 where "disconnect_peer_force addr RECONNECT 0 None w1 = Some w2" "remove_peer addr w2 = Some w'"
      using j Some r by (auto simp: judge_request_def Let_def elim!: bind_SomeE)
    then show ?thesis by (rule forced)
  qed
qed (use j ok in \<open>simp add: judge_request_def\<close>)

lemma file_ok:
  assumes ok: "manager_ok w" and f: "file_request addr request w = Some w'"
  shows "manager_ok w'"
proof (cases "m_connection_requests w (akey addr)")
  case None
  show ?thesis
    by (rule new_request_ok [OF ok _ _ refl]) (use f None in \<open>auto simp: file_request_def Let_def\<close>)
next
  case rp: (Some rp)
  then obtain r r' where "request_heap w rp = Some r" "update_request request r = Some r'"
    "w' = w\<lparr>request_heap := (request_heap w)(rp \<mapsto> r')\<rparr>"
    using f by (auto simp: file_request_def elim!: bind_SomeE)
  then show ?thesis using request_upd_ok [OF ok] update_request_ok by simp
qed

lemma process_connect_request_ok:
  "manager_ok w \<Longrightarrow> process_connect_request addr peer q w = Some w' \<Longrightarrow> manager_ok w'"
  by (auto simp: process_connect_request_def elim!: bind_SomeE split: option.splits)
    (auto dest: judge_ok file_ok)

lemma manager_okI: "mgr_ok w [] xs \<Longrightarrow> manager_ok w"
  by (auto simp: manager_ok_def)

lemma connect_event_quiet:
  assumes "create_event (default_event\<lparr>ev_type := EVENT_CONNECT, ev_peer := x\<rparr>) w = Some w'"
  shows "quiet w w'"
  by (rule quiet.R_event [OF assms]) (simp add: args_ok_def default_event_def reads_data_def)

lemma refuse_quiet:
  assumes "refuse_force request data off n w = Some w'" shows "quiet w w'"
  using assms unfolding refuse_force_def
  by (auto elim!: bind_SomeE split: option.splits if_splits prod.splits simp: quiet.R_refl Let_def)
    (auto intro: quiet.R_trans [OF quiet.get_property_R quiet.send_recycle_R])

lemma solve_ok:
  assumes ok: "manager_ok w" and s: "solve_with_peer request data off n w = Some (res, w')"
  shows "manager_ok w'"
proof -
  obtain xs where xs: "mgr_ok w [] xs" using ok by (auto simp: manager_ok_def)
  obtain i w1 where i: "get_next_peer_id w = (i, w1)" by fastforce
  note w1 = next_id_mgr [OF xs i]
  let ?a = "akey (m_remote_endpoint request)"
  show ?thesis
  proof (cases "m_peers w ?a")
    case (Some x)
    with s ok show ?thesis by (simp add: solve_with_peer_def)
  next
    case free: None
    show ?thesis
    proof (cases "m_result request = REJECT")
      case True
      then obtain q p pp w2 w3 where p: "new_peer (channels_count w1) (m_remote_endpoint request) i = Some p"
        and w2: "alloc_peer p w1 = (pp, w2)" and w3: "peer_reject pp q data off n w2 = Some w3"
        and w': "add_peer pp w3 = Some w'"
        using s free i by (auto simp: solve_with_peer_def elim!: bind_SomeE split: prod.splits)
      note np = new_peer_ok [OF p]
      have m2: "made w2 i ?a pp xs"
        using alloc_made [OF w1(1) w2 np(1-4)] np(5) free w1(2) by simp
      obtain v r where v: "modify_peer pp (\<lambda>p. p\<lparr>m_connect_time := cr_connection_time q,
          m_connect_number := cr_connection_number q\<rparr>) w2 = Some v" "peer_shutdown pp data off n False v = Some (r, w3)"
        using w3 by (auto simp: peer_reject_def elim!: bind_SomeE)
      have "made v i ?a pp xs" by (rule made_modify [OF m2 v(1)]) (simp_all add: peer_ok_defs)
      then have "made w3 i ?a pp xs" using made_quiet [OF quiet.shutdown_R [OF v(2)]] by simp
      then show ?thesis using add_made [OF _ w'] manager_okI by blast
    next
      case False
      then obtain pp w2 w3 where w2: "new_peer_accept request i w1 = Some (pp, w2)" and w3: "add_peer pp w2 = Some w3"
        and w': "create_event (default_event\<lparr>ev_type := EVENT_CONNECT, ev_peer := Some pp\<rparr>) w3 = Some w'"
        using s free i by (auto simp: solve_with_peer_def elim!: bind_SomeE split: prod.splits)
      have "made w2 i ?a pp xs" using accept_made [OF w1(1) w2] free w1(2) by simp
      then have "manager_ok w3" using add_made [OF _ w3] manager_okI by blast
      then show ?thesis using manager_quiet [OF connect_event_quiet [OF w']] by simp
    qed
  qed
qed

lemma solved_ok:
  assumes "manager_ok w" "on_connection_solved request data off n w = Some (res, w')"
  shows "manager_ok w'"
  using assms unfolding on_connection_solved_def
  by (auto elim!: bind_SomeE split: if_splits)
    (auto intro!: request_forget_ok intro: solve_ok manager_quiet [OF refuse_quiet])

lemma request_solve_ok:
  assumes ok: "manager_ok w" and s: "request_solve rp result data off n w = Some (res, w')"
  shows "manager_ok w'"
proof -
  obtain r where r: "request_heap w rp = Some r" using s by (auto simp: request_solve_def elim: bind_SomeE)
  have "manager_ok (w\<lparr>request_heap := (request_heap w)(rp \<mapsto> r\<lparr>m_result := result\<rparr>)\<rparr>)"
    by (rule request_upd_ok [OF ok r]) (use manager_request [OF ok r] in simp_all)
  then show ?thesis by (rule solved_ok) (use s r in \<open>simp add: request_solve_def Let_def\<close>)
qed

lemma activated_ok:
  assumes ok: "manager_ok w" and r: "request_heap w rp = Some r" and t: "try_activate r = (b, r1)"
  shows "manager_ok (w\<lparr>request_heap := (request_heap w)(rp \<mapsto> r1)\<rparr>)" "m_internal_packet r1 \<noteq> None"
    "m_remote_endpoint r1 = m_remote_endpoint r"
proof -
  show i: "m_internal_packet r1 \<noteq> None" "m_remote_endpoint r1 = m_remote_endpoint r"
    using t manager_request [OF ok r] by (auto simp: try_activate_def split: if_splits)
  then show "manager_ok (w\<lparr>request_heap := (request_heap w)(rp \<mapsto> r1)\<rparr>)" by (intro request_upd_ok [OF ok r])
qed

lemma accept_ok:
  "manager_ok w \<Longrightarrow> request_accept rp w = Some (res, w') \<Longrightarrow> manager_ok w'"
  unfolding request_accept_def
  by (auto elim!: bind_SomeE split: prod.splits if_splits)
    (auto intro: request_solve_ok [OF activated_ok(1)])

lemma reject_ok:
  "manager_ok w \<Longrightarrow> request_reject rp data off n force w = Some w' \<Longrightarrow> manager_ok w'"
  unfolding request_reject_def
  by (auto elim!: bind_SomeE split: prod.splits if_splits)
    (auto intro: request_solve_ok [OF activated_ok(1)])

lemma accept_key_ok:
  assumes ok: "manager_ok w" and s: "accept_if_key rp key w = Some (res, w')"
  shows "manager_ok w'"
proof -
  obtain r where r: "request_heap w rp = Some r" using s by (auto simp: accept_if_key_def elim: bind_SomeE)
  obtain b r1 where t: "try_activate r = (b, r1)" by fastforce
  show ?thesis
  proof (cases b)
    case True
    then obtain q rd res' result where "m_internal_packet r1 = Some q"
      and fin: "request_solve rp result None 0 0 (w\<lparr>request_heap := (request_heap w)(rp \<mapsto>
          r1\<lparr>m_internal_packet := Some (q\<lparr>cr_data := rd\<rparr>)\<rparr>)\<rparr>) = Some (res', w')"
      using s r t unfolding accept_if_key_def by (auto elim!: bind_SomeE simp: Let_def split: if_splits)
    have "manager_ok (w\<lparr>request_heap := (request_heap w)(rp \<mapsto> r1\<lparr>m_internal_packet := Some (q\<lparr>cr_data := rd\<rparr>)\<rparr>)\<rparr>)"
      by (rule request_upd_ok [OF ok r]) (use activated_ok(3) [OF ok r t] in simp_all)
    then show ?thesis using request_solve_ok fin by blast
  next
    case False
    with s r t ok show ?thesis by (simp add: accept_if_key_def)
  qed
qed

lemma connect_new_ok:
  assumes ok: "manager_ok w" and c: "connect_new n address data w = Some (res, w')" and free: "m_peers w (akey address) = None"
  shows "manager_ok w'"
proof -
  obtain xs where xs: "mgr_ok w [] xs" using ok by (auto simp: manager_ok_def)
  obtain i w1 where i: "get_next_peer_id w = (i, w1)" by fastforce
  note w1 = next_id_mgr [OF xs i]
  obtain pp w2 where w2: "new_peer_connect address i n data w1 = Some (pp, w2)" and w3: "add_peer pp w2 = Some w'"
    using c i by (auto simp: connect_new_def elim!: bind_SomeE)
  have "made w2 i (akey address) pp xs" using connect_made [OF w1(1) w2] free w1(2) by simp
  then show ?thesis using add_made [OF _ w3] manager_okI by blast
qed

lemma removed_free:
  assumes ok: "manager_ok w" and r: "remove_peer_internal addr w = Some w'"
  shows "m_peers w' (akey addr) = None"
proof -
  obtain xs where xs: "mgr_ok w [] xs" using ok by (auto simp: manager_ok_def)
  then have t: "table_ok w [] xs" by (simp add: mgr_ok_def)
  then have "relinked w (peer_heap w')" using remove_peer_ok [OF t, of addr] r by auto
  then have k: "key_of w' = key_of w" by (rule relinked_of(2)) simp
  have t': "table_ok w' [] (List.filter (\<lambda>qq. key_of w qq \<noteq> akey addr) xs)"
    using remove_mgr_ok [OF xs r] by (simp add: mgr_ok_def)
  show ?thesis
  proof (cases "m_peers w' (akey addr)")
    case (Some pp)
    with table_ok_lookup [OF t'] k show ?thesis by auto
  qed simp
qed

lemma connect_ok:
  assumes ok: "manager_ok w" and c: "connect n address data w = Some (res, w')"
  shows "manager_ok w'"
proof (cases "m_running w \<and> m_connection_requests w (akey address) = None")
  case True
  show ?thesis
  proof (cases "m_peers w (akey address)")
    case None
    with c True show ?thesis by (auto simp: connect_def intro: connect_new_ok [OF ok])
  next
    case (Some pp)
    then obtain p where p: "get_peer pp w = Some p" using c True by (auto simp: connect_def elim: bind_SomeE)
    show ?thesis
    proof (cases "m_connection_state p = CONNECTED \<or> m_connection_state p = OUTGOING")
      case True
      with c Some p ok \<open>m_running w \<and> _\<close> show ?thesis by (auto simp: connect_def)
    next
      case False
      then obtain w1 m where "remove_peer_internal address w = Some w1" "connect_new m address data w1 = Some (res, w')"
        using c Some p True by (auto simp: connect_def elim!: bind_SomeE)
      then show ?thesis
        using connect_new_ok remove_manager [OF ok, unfolded remove_peer_def] removed_free [OF ok] by blast
    qed
  qed
qed (use c ok in \<open>auto simp: connect_def split: if_splits\<close>)

end
