(* ===== verification/Manager_Run.thy ===== *)
theory Manager_Run
  imports Manager_Inv
begin

text \<open>
  Whole runs of a manager: the calls the application may make (\<open>app_step\<close>), what they leave alone, the
  processing of events by a listener that only makes such calls, the changes of the environment, and
  the step relation \<open>net_step\<close> whose reachable states the invariant of the manager holds in.
\<close>

section \<open>What the calls of the application leave alone\<close>

definition app_frame :: "world \<Rightarrow> world \<Rightarrow> bool" where
  "app_frame w w' \<longleftrightarrow> auto_recycle w' = auto_recycle w \<and> m_events_consume_queue w' = m_events_consume_queue w \<and>
     (\<forall>rp. request_heap w rp \<noteq> None \<longrightarrow> request_heap w' rp \<noteq> None)"

lemma app_frame_refl [simp]: "app_frame w w"
  by (simp add: app_frame_def)

lemma app_frame_trans: "app_frame w1 w2 \<Longrightarrow> app_frame w2 w3 \<Longrightarrow> app_frame w1 w3"
  by (simp add: app_frame_def)

lemma quiet_frame: "quiet w w' \<Longrightarrow> app_frame w w'"
  by (simp add: quiet_def tables_def app_frame_def)

lemma table_frame: "table_change w w' \<Longrightarrow> app_frame w w'"
  by (simp add: table_change_def app_frame_def)

lemma app_frame_upd [simp]:
  "app_frame w (w1\<lparr>m_connection_requests := mr\<rparr>) = app_frame w w1"
  "app_frame w (w1\<lparr>m_connection_requests := mr, next_object := n\<rparr>) = app_frame w w1"
  "app_frame w (w1\<lparr>m_peers := mp\<rparr>) = app_frame w w1"
  "app_frame w (w1\<lparr>peer_heap := h, next_object := n\<rparr>) = app_frame w w1"
  by (simp_all add: app_frame_def)

lemma request_upd_frame [simp]: "app_frame w (w\<lparr>request_heap := (request_heap w)(rp \<mapsto> r)\<rparr>)"
  by (simp add: app_frame_def)

lemma next_id_frame: "get_next_peer_id w = (i, w') \<Longrightarrow> app_frame w w'"
  by (auto dest: next_id_change intro: table_frame)

lemma alloc_frame: "alloc_peer p w = (pp, w') \<Longrightarrow> app_frame w w'"
  by (auto simp: alloc_peer_def)

lemmas frames = quiet_frame table_frame next_id_frame alloc_frame

lemma new_connect_frame: "new_peer_connect endpoint i n data w = Some (pp, w') \<Longrightarrow> app_frame w w'"
  unfolding new_peer_connect_def
  by (auto elim!: bind_SomeE split: prod.splits simp: Let_def)
    (auto intro: app_frame_trans [OF alloc_frame quiet_frame [OF quiet.send_packet_R]])

lemma new_accept_frame: "new_peer_accept request i w = Some (pp, w') \<Longrightarrow> app_frame w w'"
  unfolding new_peer_accept_def
  by (auto elim!: bind_SomeE split: prod.splits simp: Let_def)
    (auto intro: app_frame_trans [OF alloc_frame app_frame_trans [OF quiet_frame [OF quiet.send_packet_R]
       table_frame [OF modify_change]]])

lemma connect_new_frame: "connect_new n address data w = Some (r, w') \<Longrightarrow> app_frame w w'"
  unfolding connect_new_def
  by (auto elim!: bind_SomeE split: prod.splits simp: Let_def)
    (auto intro: app_frame_trans [OF next_id_frame app_frame_trans [OF new_connect_frame table_frame [OF add_change]]])

lemma connect_frame: "connect n address data w = Some (r, w') \<Longrightarrow> app_frame w w'"
  unfolding connect_def
  by (auto elim!: bind_SomeE split: option.splits if_splits)
    (auto intro: connect_new_frame app_frame_trans [OF table_frame [OF remove_change] connect_new_frame])

lemma peer_reject_frame: "peer_reject pp q data off n w = Some w' \<Longrightarrow> app_frame w w'"
  unfolding peer_reject_def
  by (auto elim!: bind_SomeE split: prod.splits)
    (auto intro: app_frame_trans [OF table_frame [OF modify_change] quiet_frame [OF quiet.shutdown_R]])

lemma solve_frame:
  assumes "solve_with_peer request data off n w = Some (r, w')"
  shows "app_frame w w'"
proof -
  obtain i w1 where i: "get_next_peer_id w = (i, w1)" by fastforce
  have 1: "app_frame w w1" by (rule next_id_frame [OF i])
  show ?thesis
  proof (cases "m_peers w (akey (m_remote_endpoint request))")
    case (Some pp)
    with assms show ?thesis by (simp add: solve_with_peer_def)
  next
    case None
    show ?thesis
    proof (cases "m_result request = REJECT")
      case True
      then obtain p pp q w2 w3 where "alloc_peer p w1 = (pp, w2)" "peer_reject pp q data off n w2 = Some w3" "add_peer pp w3 = Some w'"
        using assms None i by (auto simp: solve_with_peer_def elim!: bind_SomeE split: prod.splits)
      then show ?thesis
        using 1 alloc_frame peer_reject_frame table_frame [OF add_change] by (meson app_frame_trans)
    next
      case False
      then obtain pp w2 w3 where "new_peer_accept request i w1 = Some (pp, w2)" "add_peer pp w2 = Some w3"
        "create_event (default_event\<lparr>ev_type := EVENT_CONNECT, ev_peer := Some pp\<rparr>) w3 = Some w'"
        using assms None i by (auto simp: solve_with_peer_def elim!: bind_SomeE)
      then show ?thesis
        using 1 new_accept_frame table_frame [OF add_change] quiet_frame [OF connect_event_quiet] by (meson app_frame_trans)
    qed
  qed
qed

lemma solved_frame: "on_connection_solved request data off n w = Some (r, w') \<Longrightarrow> app_frame w w'"
  unfolding on_connection_solved_def
  by (auto elim!: bind_SomeE split: if_splits) (auto intro: solve_frame quiet_frame [OF refuse_quiet])

lemma request_solve_frame: "request_solve rp res data off n w = Some (r, w') \<Longrightarrow> app_frame w w'"
  unfolding request_solve_def
  by (auto elim!: bind_SomeE simp: Let_def) (auto dest!: solved_frame intro: app_frame_trans [OF request_upd_frame])

lemma accept_frame: "request_accept rp w = Some (r, w') \<Longrightarrow> app_frame w w'"
  unfolding request_accept_def
  by (auto elim!: bind_SomeE split: prod.splits if_splits)
    (auto dest!: request_solve_frame intro: app_frame_trans [OF request_upd_frame])

lemma reject_frame: "request_reject rp data off n force w = Some w' \<Longrightarrow> app_frame w w'"
  unfolding request_reject_def
  by (auto elim!: bind_SomeE split: prod.splits if_splits)
    (auto dest!: request_solve_frame intro: app_frame_trans [OF request_upd_frame])

lemma accept_key_frame: "accept_if_key rp key w = Some (r, w') \<Longrightarrow> app_frame w w'"
  unfolding accept_if_key_def
  by (auto elim!: bind_SomeE split: prod.splits if_splits simp: Let_def)
    (auto dest!: request_solve_frame intro: app_frame_trans [OF request_upd_frame])

section \<open>The calls of the application\<close>

text \<open>
  One call of the application, from its own thread or from a callback. \<open>poll_events\<close> is not among them:
  a callback that calls it would change the queue its caller walks over.
\<close>

inductive app_step :: "world \<Rightarrow> world \<Rightarrow> bool" where
  app_connect: "connect n address data w = Some (r, w') \<Longrightarrow> app_step w w'"
| app_accept: "request_accept rp w = Some (r, w') \<Longrightarrow> app_step w w'"
| app_accept_key: "accept_if_key rp key w = Some (r, w') \<Longrightarrow> app_step w w'"
| app_reject: "request_reject rp data off n force w = Some w' \<Longrightarrow> app_step w w'"
| app_send: "send_internal pp data off n c dm ud w = Some w' \<Longrightarrow> app_step w w'"
| app_disconnect: "disconnect_peer a reason e force data off n None w = Some w' \<Longrightarrow> app_step w w'"
| app_disconnect_all: "disconnect_all data off n w = Some w' \<Longrightarrow> app_step w w'"

inductive_cases app_stepE: "app_step w w'"

lemma app_step_ok: "app_step w w' \<Longrightarrow> manager_ok w \<Longrightarrow> manager_ok w' \<and> app_frame w w'"
proof (induction rule: app_step.induct)
  case (app_send pp data off n c dm ud w w')
  then show ?case using quiet.send_internal_R manager_quiet quiet_frame by blast
next
  case (app_disconnect a reason e force data off n w w')
  then show ?case using quiet.disconnect_R manager_quiet quiet_frame by blast
next
  case (app_disconnect_all data off n w w')
  then show ?case using quiet.disconnect_all_R manager_quiet quiet_frame by blast
qed (auto intro: connect_ok accept_ok accept_key_ok reject_ok connect_frame accept_frame accept_key_frame reject_frame)

lemma app_steps_ok: "app_step\<^sup>*\<^sup>* w w' \<Longrightarrow> manager_ok w \<Longrightarrow> manager_ok w' \<and> app_frame w w'"
  by (induction rule: rtranclp_induct) (auto dest: app_step_ok intro: app_frame_trans)

text \<open>A listener whose callbacks only make such calls.\<close>

definition app_listener :: "(callback \<Rightarrow> world \<Rightarrow> world option) \<Rightarrow> bool" where
  "app_listener listener \<longleftrightarrow> (\<forall>c w w'. listener c w = Some w' \<longrightarrow> app_step\<^sup>*\<^sup>* w w')"

section \<open>Events\<close>

lemma event_recycle_ok:
  assumes "manager_ok w" "event_recycle e w = Some (e', w')"
  shows "manager_ok w' \<and> app_frame w w' \<and> m_recycled e'"
proof -
  let ?w1 = "pool_recycle_ptr (m_reader_source e) w"
  have q: "quiet w ?w1" by (rule quiet.recycle_ptr_R)
  have ok1: "manager_ok ?w1" by (rule manager_quiet [OF q assms(1)])
  have "app_frame ?w1 w'" if "request_recycle rp ?w1 = Some w'" for rp
    using that by (auto simp: request_recycle_def request_packet_recycle_def app_frame_def pool_recycle_def Let_def
        elim!: bind_SomeE split: option.splits if_splits)
  then show ?thesis
    using assms(2) ok1 request_recycle_ok [OF ok1] quiet_frame [OF q]
    by (auto simp: event_recycle_def Let_def elim!: bind_SomeE split: option.splits intro: app_frame_trans)
qed

lemma event_recycle_total:
  assumes "manager_ok w" "event_known w e"
  shows "event_recycle e w \<noteq> None"
proof -
  let ?w1 = "pool_recycle_ptr (m_reader_source e) w"
  have q: "quiet w ?w1" by (rule quiet.recycle_ptr_R)
  then have heap: "request_heap ?w1 = request_heap w" by (simp add: quiet_def tables_def)
  have "request_recycle rp ?w1 \<noteq> None" if rp: "connectionRequest e = Some rp" for rp
  proof -
    obtain r where "request_heap w rp = Some r" using assms(2) rp by (auto simp: event_known_def)
    then show ?thesis using manager_request [OF assms(1), of rp r] heap
      by (auto simp: request_recycle_def split_beta Let_def)
  qed
  then show ?thesis by (cases "connectionRequest e") (auto simp: event_recycle_def)
qed

lemma event_known_frame: "app_frame w w' \<Longrightarrow> event_known w e \<Longrightarrow> event_known w' e"
  by (auto simp: app_frame_def event_known_def)

lemma process_event_ok:
  assumes l: "app_listener listener" and ok: "manager_ok w" and p: "process_event listener e w = Some w'"
  shows "manager_ok w' \<and> app_frame w w'"
proof -
  obtain cb w1 where w1: "(case cb of None \<Rightarrow> Some w | Some c \<Rightarrow> listener c w) = Some w1"
    and rest: "(if auto_recycle w1 then event_recycle e w1 else Some (e, w1))
      \<bind> (\<lambda>(e', w2). if m_recycled e' then Some w2 else None) = Some w'"
    using p by (auto simp: process_event_def elim!: bind_SomeE)
  have "app_step\<^sup>*\<^sup>* w w1" using l w1 by (auto simp: app_listener_def split: option.splits)
  then have 1: "manager_ok w1" "app_frame w w1" using app_steps_ok ok by blast+
  have "manager_ok w' \<and> app_frame w1 w'"
    using rest 1 event_recycle_ok [OF 1(1)] by (auto elim!: bind_SomeE split: if_splits prod.splits)
  with 1 show ?thesis by (blast intro: app_frame_trans)
qed

lemma process_event_total:
  assumes l: "app_listener listener" "\<And>c w. manager_ok w \<Longrightarrow> listener c w \<noteq> None" and ok: "manager_ok w" "event_known w e"
    and a: "auto_recycle w"
  shows "process_event listener e w \<noteq> None"
proof -
  have "event_callback e \<noteq> None"
    using ok(2) by (cases "ev_type e") (auto simp: event_callback_def event_known_def event_ok_def reads_data_def)
  then obtain cb where cb: "event_callback e = Some cb" by auto
  obtain w1 where w1: "(case cb of None \<Rightarrow> Some w | Some c \<Rightarrow> listener c w) = Some w1"
    using l(2) [OF ok(1)] by (cases cb) auto
  have "app_step\<^sup>*\<^sup>* w w1" using l(1) w1 by (auto simp: app_listener_def split: option.splits)
  then have 1: "manager_ok w1" "app_frame w w1" using app_steps_ok ok by blast+
  obtain e' w2 where e': "event_recycle e w1 = Some (e', w2)"
    using event_recycle_total [OF 1(1)] event_known_frame [OF 1(2) ok(2)] by fastforce
  have "auto_recycle w1" using 1(2) a by (simp add: app_frame_def)
  then show ?thesis using cb w1 e' event_recycle_ok [OF 1(1) e'] by (simp add: process_event_def)
qed

lemma process_events_ok:
  "app_listener listener \<Longrightarrow> manager_ok w \<Longrightarrow> process_events listener es w = Some w' \<Longrightarrow> manager_ok w' \<and> app_frame w w'"
  by (induction es arbitrary: w)
    (auto elim!: bind_SomeE dest!: process_event_ok intro: app_frame_trans)

lemma process_events_total:
  assumes "app_listener listener" "\<And>c w. manager_ok w \<Longrightarrow> listener c w \<noteq> None"
  shows "manager_ok w \<Longrightarrow> auto_recycle w \<Longrightarrow> \<forall>e \<in> set es. event_known w e \<Longrightarrow> process_events listener es w \<noteq> None"
proof (induction es arbitrary: w)
  case (Cons e es)
  obtain w1 where w1: "process_event listener e w = Some w1"
    using process_event_total [OF assms Cons.prems(1) _ Cons.prems(2)] Cons.prems(3) by fastforce
  note 1 = process_event_ok [OF assms(1) Cons.prems(1) w1]
  then have "auto_recycle w1" "\<forall>e \<in> set es. event_known w1 e"
    using Cons.prems(2,3) event_known_frame by (auto simp: app_frame_def)
  then show ?case using Cons.IH 1 w1 by simp
qed simp

lemma queues_ok:
  assumes ok: "manager_ok w" and es: "set consume \<union> set produce \<subseteq> set (m_events_consume_queue w) \<union> set (m_events_produce_queue w)"
  shows "manager_ok (w\<lparr>m_events_produce_queue := produce, m_events_consume_queue := consume\<rparr>)" (is "manager_ok ?w'")
proof -
  obtain xs where xs: "mgr_ok w [] xs" using ok by (auto simp: manager_ok_def)
  then have a: "around_ok w" by (simp add: mgr_ok_def)
  then have "pool_ok ?w'" "requests_ok ?w'" "objects_ok ?w'"
    by (simp_all add: around_ok_def pool_ok_def requests_ok_def objects_ok_def)
  moreover have "events_ok ?w'"
    using a es unfolding around_ok_def events_ok_def event_known_def by simp blast
  ultimately have "mgr_ok ?w' [] xs" by (intro mgr_cong [OF xs]) (simp_all add: around_ok_def)
  then show ?thesis by (auto simp: manager_ok_def)
qed

lemma poll_ok:
  assumes l: "app_listener listener" and ok: "manager_ok w" and p: "poll_events listener w = Some w'"
  shows "manager_ok w'"
proof -
  let ?w1 = "w\<lparr>m_events_produce_queue := m_events_consume_queue w, m_events_consume_queue := m_events_produce_queue w\<rparr>"
  obtain w2 where w2: "process_events listener (m_events_consume_queue ?w1) ?w1 = Some w2"
    and w': "w' = w2\<lparr>m_events_consume_queue := []\<rparr>"
    using p by (auto simp: poll_events_def Let_def elim!: bind_SomeE)
  have "manager_ok ?w1" by (rule queues_ok [OF ok]) auto
  then have "manager_ok w2" using process_events_ok [OF l _ w2] by blast
  from queues_ok [OF this, of "[]" "m_events_produce_queue w2"] show ?thesis by (simp add: w')
qed

lemma poll_total:
  assumes l: "app_listener listener" "\<And>c w. manager_ok w \<Longrightarrow> listener c w \<noteq> None" and ok: "manager_ok w" and a: "auto_recycle w"
  shows "poll_events listener w \<noteq> None"
proof -
  let ?w1 = "w\<lparr>m_events_produce_queue := m_events_consume_queue w, m_events_consume_queue := m_events_produce_queue w\<rparr>"
  have "manager_ok ?w1" by (rule queues_ok [OF ok]) auto
  moreover have "\<forall>e \<in> set (m_events_consume_queue ?w1). event_known ?w1 e"
    using ok by (auto simp: manager_ok_def mgr_ok_def around_ok_def events_ok_def event_known_def)
  ultimately have "process_events listener (m_events_consume_queue ?w1) ?w1 \<noteq> None"
    using process_events_total [OF l] a by simp
  then show ?thesis by (auto simp: poll_events_def Let_def)
qed

section \<open>Datagrams\<close>

lemma made_event_quiet:
  assumes "create_event (default_event\<lparr>ev_type := t, remoteEndpoint := addr, m_reader_source := Some packet\<rparr>) w = Some w'"
    "t \<noteq> EVENT_NETWORK_ERROR"
  shows "quiet w w'"
  by (rule quiet.R_event [OF assms(1)]) (simp add: args_ok_def default_event_def assms(2))

lemma dispatch_quiet:
  assumes d: "dispatch_message packet addr w = Some w'" and "property packet \<noteq> CONNECT_REQUEST"
  shows "quiet w w'"
  using assms unfolding dispatch_message_def Let_def
  by (cases "property packet")
    (auto elim!: bind_SomeE split: option.splits if_splits simp: quiet.R_refl quiet.R_recycle
      intro: quiet.R_trans [OF quiet.R_recycle quiet.reply_R] quiet.process_packet_R quiet.on_disconnect_R
        quiet.on_accept_R quiet.not_found_R quiet.force_R)

lemma dispatch_ok:
  assumes ok: "manager_ok w" and d: "dispatch_message packet addr w = Some w'"
  shows "manager_ok w'"
proof (cases "property packet = CONNECT_REQUEST")
  case True
  then show ?thesis
    using d ok manager_quiet [OF quiet.R_recycle] process_connect_request_ok [OF ok]
    by (auto simp: dispatch_message_def Let_def elim!: bind_SomeE split: option.splits)
next
  case False
  then show ?thesis using manager_quiet dispatch_quiet d ok by blast
qed

lemma received_ok:
  assumes ok: "manager_ok w" and d: "on_message_received packet addr w = Some w'"
  shows "manager_ok w'"
  using d ok unfolding on_message_received_def
  by (auto elim!: bind_SomeE split: if_splits)
    (auto intro: dispatch_ok manager_quiet [OF quiet.R_recycle] manager_quiet [OF made_event_quiet]
      manager_quiet [OF quiet.R_then_recycle [OF quiet.reply_R]])

lemma receive_ok:
  assumes ok: "manager_ok w" and d: "receive_datagram r w = Some w'"
  shows "manager_ok w'"
proof -
  obtain packet w1 where p: "pool_get_packet MAX_PACKET_SIZE w = (packet, w1)" by fastforce
  have 1: "manager_ok w1" by (rule manager_quiet [OF quiet.get_R [OF p] ok])
  then show ?thesis
    using d p received_ok [OF 1] manager_quiet [OF quiet.R_recycle 1]
    by (auto simp: receive_datagram_def elim!: bind_SomeE split: option.splits)
qed

section \<open>The logic thread\<close>

lemma remove_peers_ok: "manager_ok w \<Longrightarrow> remove_peers as w = Some w' \<Longrightarrow> manager_ok w'"
  by (induction as arbitrary: w) (auto elim!: bind_SomeE dest: remove_manager [unfolded remove_peer_def])

lemma logic_ok:
  assumes ok: "manager_ok w" and u: "update_logic_turn sw w = Some (t, sw', w')"
  shows "manager_ok w'"
proof -
  obtain dt as w1 where w1: "update_peers dt (m_head_peer w) w = Some (as, w1)" and w2: "remove_peers as w1 = Some w'"
    using u by (auto simp: update_logic_turn_def Let_def elim!: bind_SomeE)
  have "quiet w w1" using quiet.update_peers_R [OF w1] by simp
  then show ?thesis using remove_peers_ok [OF manager_quiet [OF _ ok] w2] by simp
qed

section \<open>The runs of a manager\<close>

text \<open>What lies outside the library: time passes, and the application sets the public fields. The one field it is
  taken to leave alone is \<open>packet_pool_size\<close>, which keeps its value of 1000.\<close>

definition env_change :: "world \<Rightarrow> world \<Rightarrow> bool" where
  "env_change w w' \<longleftrightarrow> (\<exists>st ck so run br un cc dt ut rd mc pi ar du.
     w' = w\<lparr>system_time := st, clock := ck, sendto := so, m_running := run, broadcast_receive_enabled := br,
        unconnected_messages_enabled := un, channels_count := cc, disconnect_timeout := dt, update_time := ut,
        reconnect_delay := rd, max_connect_attempts := mc, ping_interval := pi, auto_recycle := ar,
        disconnect_on_unreachable := du\<rparr>)"

inductive net_step :: "world \<Rightarrow> world \<Rightarrow> bool" where
  step_receive: "receive_datagram r w = Some w' \<Longrightarrow> net_step w w'"
| step_logic: "update_logic_turn sw w = Some (t, sw', w') \<Longrightarrow> net_step w w'"
| step_poll: "app_listener listener \<Longrightarrow> poll_events listener w = Some w' \<Longrightarrow> net_step w w'"
| step_app: "app_step w w' \<Longrightarrow> net_step w w'"
| step_env: "env_change w w' \<Longrightarrow> net_step w w'"

inductive_cases net_stepE: "net_step w w'"

lemma env_fields:
  assumes "env_change w w'"
  shows "peer_heap w' = peer_heap w" "m_head_peer w' = m_head_peer w" "m_peers w' = m_peers w"
    "m_peers_array w' = m_peers_array w" "m_peer_ids w' = m_peer_ids w" "m_peer_id_counter w' = m_peer_id_counter w"
    "m_packet_pool_head w' = m_packet_pool_head w" "m_packet_pool_size w' = m_packet_pool_size w"
    "packet_pool_size w' = packet_pool_size w" "m_connection_requests w' = m_connection_requests w"
    "request_heap w' = request_heap w" "next_object w' = next_object w"
    "m_events_consume_queue w' = m_events_consume_queue w" "m_events_produce_queue w' = m_events_produce_queue w"
    "wire w' = wire w"
  using assms unfolding env_change_def by (elim exE; simp)+

lemma env_ok: "env_change w w' \<Longrightarrow> manager_ok w \<Longrightarrow> manager_ok w'"
proof -
  assume e: "env_change w w'" and ok: "manager_ok w"
  obtain xs where xs: "mgr_ok w [] xs" using ok by (auto simp: manager_ok_def)
  then have "around_ok w" by (simp add: mgr_ok_def)
  then have "around_ok w'"
    by (simp add: env_fields [OF e] around_ok_def pool_ok_def requests_ok_def events_ok_def event_known_def objects_ok_def)
  then have "mgr_ok w' [] xs" by (intro mgr_cong [OF xs]) (simp_all add: env_fields [OF e])
  then show ?thesis by (auto simp: manager_ok_def)
qed

lemma net_step_ok: "net_step w w' \<Longrightarrow> manager_ok w \<Longrightarrow> manager_ok w'"
  by (auto elim!: net_stepE intro: receive_ok logic_ok poll_ok env_ok dest: app_step_ok)

lemma new_manager_ok: "manager_ok (new_manager time0 clock0 sendto0)"
proof -
  let ?w = "new_manager time0 clock0 sendto0"
  have "table_ok ?w [] []"
    by (simp add: table_ok_def list_ok_def map_ok_def ids_ok_def array_ok_def new_manager_def)
  moreover have "around_ok ?w"
    by (simp add: around_ok_def pool_ok_def requests_ok_def events_ok_def objects_ok_def new_manager_def)
  ultimately have "mgr_ok ?w [] []" by (simp add: mgr_ok_def)
  then show ?thesis by (auto simp: manager_ok_def)
qed

definition init_world :: "world \<Rightarrow> bool" where
  "init_world w \<longleftrightarrow> (\<exists>time0 clock0 sendto0. w = new_manager time0 clock0 sendto0)"

interpretation net: inductive_invariant init_world net_step manager_ok
  by unfold_locales (auto simp: init_world_def new_manager_ok intro: net_step_ok)

end
