(* ===== verification/Sample_World.thy ===== *)
theory Sample_World
  imports Manager_Run
begin

text \<open>Concrete runs of a manager, for the instances of the properties of whole runs.\<close>

definition sample_server :: sockaddr_in where
  "sample_server = default_address\<lparr>s_addr := 127, sin_port := 9000\<rparr>"

definition sample_client :: sockaddr_in where
  "sample_client = default_address\<lparr>s_addr := 128, sin_port := 9001\<rparr>"

definition sample_start :: world where
  "sample_start = (new_manager 5 0 (\<lambda>_. Inl 1))\<lparr>m_running := True\<rparr>"

text \<open>A client that asks for a connection, and a server that got its datagram.\<close>

definition sample_outgoing :: world where
  "sample_outgoing = (case connect 7 sample_server new_writer sample_start of Some (_, w) \<Rightarrow> w | None \<Rightarrow> sample_start)"

definition sample_asked :: world where
  "sample_asked =
     (case receive_datagram (Some (snd (wire sample_outgoing ! 0), sample_client)) sample_start of
        Some w \<Rightarrow> w | None \<Rightarrow> sample_start)"

definition sample_accepted :: world where
  "sample_accepted = (case request_accept 0 sample_asked of Some (_, w) \<Rightarrow> w | None \<Rightarrow> sample_asked)"

definition sample_connected :: world where
  "sample_connected =
     (case receive_datagram (Some (snd (wire sample_accepted ! 0), sample_server)) sample_outgoing of
        Some w \<Rightarrow> w | None \<Rightarrow> sample_outgoing)"

text \<open>The calls return, and what the worlds hold.\<close>

lemma sample_outgoing_run:
  "(case connect 7 sample_server new_writer sample_start of
      Some (r, w) \<Rightarrow> r = Some 0 \<and> m_peers w (akey sample_server) = Some 0 \<and> length (wire w) = 1 \<and>
        (case get_peer 0 w of Some p \<Rightarrow> m_connection_state p = OUTGOING | None \<Rightarrow> False)
    | None \<Rightarrow> False)"
  by code_simp

lemma sample_asked_run:
  "(case receive_datagram (Some (snd (wire sample_outgoing ! 0), sample_client)) sample_start of
      Some w \<Rightarrow> List.map ev_type (m_events_produce_queue w) = [EVENT_CONNECTION_REQUEST] \<and> auto_recycle w
        \<and> (case request_heap w 0 of Some r \<Rightarrow> m_used r = 0 | None \<Rightarrow> False)
    | None \<Rightarrow> False)"
  by code_simp

lemma sample_accepted_run:
  "(case request_accept 0 sample_asked of
      Some (r, w) \<Rightarrow> r = Some 1 \<and> m_peers w (akey sample_client) = Some 1 \<and>
        List.map ev_type (m_events_produce_queue w) = [EVENT_CONNECTION_REQUEST, EVENT_CONNECT] \<and>
        (case get_peer 1 w of
           Some p \<Rightarrow> m_connection_state p = CONNECTED \<and> m_connect_number p = 3 \<and> akey (m_endpoint p) = akey sample_client \<and>
             length (m_channels p) = 4 \<and> (case m_channels p ! 2 of None \<Rightarrow> True | Some _ \<Rightarrow> False)
         | None \<Rightarrow> False)
    | None \<Rightarrow> False)"
  by code_simp

lemma sample_connected_run:
  "(case receive_datagram (Some (snd (wire sample_accepted ! 0), sample_server)) sample_outgoing of
      Some w \<Rightarrow> m_running w \<and> m_peers w (akey sample_server) = Some 0 \<and> sendto w (sends w) = Inl 1 \<and>
        (case get_peer 0 w of
           Some p \<Rightarrow> m_connection_state p = CONNECTED \<and> m_connect_time p = 5 \<and> length (m_channels p) = 4 \<and>
             (case m_channels p ! 2 of None \<Rightarrow> True | Some _ \<Rightarrow> False) \<and> m_endpoint p = sample_server \<and> (case m_connect_accept_packet p of None \<Rightarrow> True | Some _ \<Rightarrow> False) \<and>
             m_time_since_last_packet p + 15 \<le> disconnect_timeout w \<and> m_ping_send_timer p + 15 < ping_interval w \<and>
             m_mtu_check_timer p + 15 < MTU_CHECK_DELAY \<and> length (m_channel_send_queue p) = 0 \<and>
             length (m_unreliable_channel p) = 0 \<and> m_merge_count p = 0 \<and> m_merge_pos p = 0 \<and> m_mtu p = 508 \<and>
             m_connect_number p = 3 \<and> byte0 (m_merge_data p) = property_code MERGED \<and> 0 < buffer_size (m_merge_data p)
         | None \<Rightarrow> False)
    | None \<Rightarrow> False)"
  by code_simp

lemma sample_outgoing_facts:
  "connect 7 sample_server new_writer sample_start = Some (Some 0, sample_outgoing)"
  "m_peers sample_outgoing (akey sample_server) = Some 0"
  "\<exists>p. get_peer 0 sample_outgoing = Some p \<and> m_connection_state p = OUTGOING"
  using sample_outgoing_run unfolding sample_outgoing_def by (auto split: option.splits prod.splits)

lemma sample_asked_facts:
  "receive_datagram (Some (snd (wire sample_outgoing ! 0), sample_client)) sample_start = Some sample_asked"
  "List.map ev_type (m_events_produce_queue sample_asked) = [EVENT_CONNECTION_REQUEST]" "auto_recycle sample_asked"
  using sample_asked_run unfolding sample_asked_def by (auto split: option.splits)

lemma sample_accepted_facts:
  "request_accept 0 sample_asked = Some (Some 1, sample_accepted)"
  "m_peers sample_accepted (akey sample_client) = Some 1"
  "\<exists>p. get_peer 1 sample_accepted = Some p \<and> m_connection_state p = CONNECTED"
  using sample_accepted_run unfolding sample_accepted_def by (auto split: option.splits prod.splits)

lemma sample_connected_facts:
  "receive_datagram (Some (snd (wire sample_accepted ! 0), sample_server)) sample_outgoing = Some sample_connected"
  "m_running sample_connected" "m_peers sample_connected (akey sample_server) = Some 0"
  "sendto sample_connected (sends sample_connected) = Inl 1"
  "\<exists>p. get_peer 0 sample_connected = Some p \<and> m_connection_state p = CONNECTED \<and> m_connect_time p = 5 \<and>
     length (m_channels p) = 4 \<and> m_endpoint p = sample_server \<and> m_connect_accept_packet p = None"
  using sample_connected_run unfolding sample_connected_def by (auto split: option.splits)

lemma sample_steps:
  "net_step sample_start sample_outgoing" "net_step sample_start sample_asked"
  "net_step sample_asked sample_accepted" "net_step sample_outgoing sample_connected"
  using sample_outgoing_facts(1) sample_asked_facts(1) sample_accepted_facts(1) sample_connected_facts(1)
  by (auto intro: net_step.intros app_step.intros)

lemma sample_peer:
  obtains p where "get_peer 0 sample_connected = Some p" "m_connection_state p = CONNECTED" "m_connect_time p = 5"
    "length (m_channels p) = 4" "m_endpoint p = sample_server" "m_connect_accept_packet p = None"
  using sample_connected_facts(5) by blast

lemma sample_reach:
  "reach init_world net_step sample_start" "reach init_world net_step sample_outgoing"
  "reach init_world net_step sample_asked" "reach init_world net_step sample_accepted"
  "reach init_world net_step sample_connected"
proof -
  let ?w = "new_manager 5 0 (\<lambda>_. Inl 1)"
  have "env_change ?w sample_start"
    unfolding env_change_def sample_start_def
    by (rule exI [of _ 5], rule exI [of _ 0], rule exI [of _ "\<lambda>_. Inl 1"], rule exI [of _ True], rule exI [of _ False],
        rule exI [of _ False], rule exI [of _ 1], rule exI [of _ 5000], rule exI [of _ 15], rule exI [of _ 500],
        rule exI [of _ 10], rule exI [of _ 1000], rule exI [of _ True], rule exI [of _ False]) (simp add: new_manager_def)
  moreover have "init_world ?w" by (auto simp: init_world_def)
  ultimately show "reach init_world net_step sample_start" by (blast intro: reach.intros step_env)
  then show "reach init_world net_step sample_outgoing" "reach init_world net_step sample_asked"
    using sample_steps by (blast intro: reach_step)+
  then show "reach init_world net_step sample_accepted" "reach init_world net_step sample_connected"
    using sample_steps by (blast intro: reach_step)+
qed

end
