(* ===== verification/Peer_Life.thy ===== *)
theory Peer_Life
  imports Sample_World
begin

text \<open>
  What holds of a peer and of a connection request over a whole run of the manager: the relation
  \<open>kept\<close> holds between the worlds before and after every step. The lists of the logic thread and of
  \<open>disconnect_all\<close> are walks over exactly the peers of the table.
\<close>

section \<open>Peers that are already there\<close>

definition same_peer :: "net_peer \<Rightarrow> net_peer \<Rightarrow> bool" where
  "same_peer p p' \<longleftrightarrow> m_peer_id p' = m_peer_id p \<and> m_endpoint p' = m_endpoint p \<and>
     length (m_channels p') = length (m_channels p) \<and> state_le (m_connection_state p) (m_connection_state p')"

lemma same_peer_refl [simp]: "same_peer p p"
  by (simp add: same_peer_def)

lemma same_peer_trans: "same_peer p q \<Longrightarrow> same_peer q r \<Longrightarrow> same_peer p r"
  by (auto simp: same_peer_def intro: state_le_trans)

text \<open>A request that was taken stays taken.\<close>

definition same_request :: "net_connection_request \<Rightarrow> net_connection_request \<Rightarrow> bool" where
  "same_request r r' \<longleftrightarrow> m_remote_endpoint r' = m_remote_endpoint r \<and> (m_used r \<noteq> 0 \<longrightarrow> m_used r' \<noteq> 0)"

lemma same_request_refl [simp]: "same_request r r"
  by (simp add: same_request_def)

lemma same_request_trans: "same_request p q \<Longrightarrow> same_request q r \<Longrightarrow> same_request p r"
  by (auto simp: same_request_def)

text \<open>Of the objects below \<open>n\<close> none is lost, and each stays the same.\<close>

definition kept :: "nat \<Rightarrow> world \<Rightarrow> world \<Rightarrow> bool" where
  "kept n w w' \<longleftrightarrow> next_object w \<le> next_object w' \<and>
     (\<forall>pp p. pp < n \<longrightarrow> get_peer pp w = Some p \<longrightarrow> (\<exists>p'. get_peer pp w' = Some p' \<and> same_peer p p')) \<and>
     (\<forall>rp r. rp < n \<longrightarrow> request_heap w rp = Some r \<longrightarrow> (\<exists>r'. request_heap w' rp = Some r' \<and> same_request r r'))"

lemma keptD:
  assumes "kept n w w'"
  shows "pp < n \<Longrightarrow> get_peer pp w = Some p \<Longrightarrow> \<exists>p'. get_peer pp w' = Some p' \<and> same_peer p p'"
    "rp < n \<Longrightarrow> request_heap w rp = Some r \<Longrightarrow> \<exists>r'. request_heap w' rp = Some r' \<and> same_request r r'"
  using assms by (simp_all add: kept_def)

lemma kept_refl [simp]: "kept n w w"
  by (simp add: kept_def)

lemma kept_trans: "kept n w1 w2 \<Longrightarrow> kept n w2 w3 \<Longrightarrow> kept n w1 w3"
  unfolding kept_def using same_peer_trans same_request_trans by (meson order_trans)

lemma kept_same:
  "peer_heap w' = peer_heap w \<Longrightarrow> request_heap w' = request_heap w \<Longrightarrow> next_object w \<le> next_object w' \<Longrightarrow> kept n w w'"
  by (auto simp: kept_def get_peer_def)

lemma kept_quiet:
  assumes "quiet w w'" shows "kept n w w'"
proof -
  have t: "tables w w'" using assms by (simp add: quiet_def)
  have "\<exists>p'. get_peer pp w' = Some p' \<and> same_peer p p'" if "get_peer pp w = Some p" for pp p
  proof -
    have "rel_option peer_evolves (peer_heap w pp) (peer_heap w' pp)" using t by (simp add: tables_def)
    with that show ?thesis by (cases "peer_heap w' pp") (auto simp: get_peer_def peer_evolves_def same_peer_def)
  qed
  moreover have "next_object w' = next_object w" "request_heap w' = request_heap w" using t by (simp_all add: tables_def)
  ultimately show ?thesis by (simp add: kept_def)
qed

lemma kept_modify:
  assumes "modify_peer pp f w = Some w'" "n \<le> pp \<or> (\<forall>p. same_peer p (f p))"
  shows "kept n w w'"
  using assms by (auto simp: modify_peer_def put_peer_def kept_def get_peer_def elim!: bind_SomeE)

lemma kept_alloc: "alloc_peer p w = (pp, w') \<Longrightarrow> n \<le> next_object w \<Longrightarrow> kept n w w' \<and> n \<le> pp"
  by (auto simp: alloc_peer_def kept_def get_peer_def)

lemma relink_same: "same_peer p (p\<lparr>m_next_peer := a\<rparr>)" "same_peer p (p\<lparr>m_prev_peer := a\<rparr>)"
  by (simp_all add: same_peer_def)

lemma kept_next_id: "get_next_peer_id w = (i, w') \<Longrightarrow> kept n w w' \<and> next_object w' = next_object w"
  by (auto simp: get_next_peer_id_def kept_def get_peer_def split: prod.splits option.splits)

lemma kept_upd [simp]:
  "kept n w (w1\<lparr>m_peers_array := arr\<rparr>) = kept n w w1"
  "kept n w (w1\<lparr>m_peers_array := arr, m_peer_ids := ids\<rparr>) = kept n w w1"
  "kept n w (w1\<lparr>m_connection_requests := mr\<rparr>) = kept n w w1"
  "kept n w (w1\<lparr>m_peers := mp\<rparr>) = kept n w w1"
  "kept n w (w1\<lparr>m_head_peer := mh\<rparr>) = kept n w w1"
  "kept n w (w1\<lparr>m_head_peer := mh, m_peers := mp\<rparr>) = kept n w w1"
  "kept n w (w1\<lparr>m_events_consume_queue := q\<rparr>) = kept n w w1"
  by (simp_all add: kept_def get_peer_def)

lemma kept_request_upd:
  "(n \<le> rp \<or> (\<forall>r. request_heap w rp = Some r \<longrightarrow> same_request r r')) \<Longrightarrow>
   kept n w (w\<lparr>request_heap := (request_heap w)(rp \<mapsto> r')\<rparr>)"
  by (auto simp: kept_def get_peer_def)

lemma kept_add:
  assumes "add_peer pp w = Some w'" shows "kept n w w'"
proof -
  obtain w1 where w1: "(case m_head_peer w of
         None \<Rightarrow> Some w
       | Some h \<Rightarrow> do {
           w1 \<leftarrow> modify_peer pp (\<lambda>p. p\<lparr>m_next_peer := Some h\<rparr>) w;
           modify_peer h (\<lambda>p. p\<lparr>m_prev_peer := Some pp\<rparr>) w1
         }) = Some w1" and "kept n w1 w'"
    using assms by (auto simp: add_peer_def Let_def elim!: bind_SomeE)
  moreover have "kept n w w1"
    using w1 by (auto elim!: bind_SomeE split: option.splits)
      (rule kept_trans, erule kept_modify, simp add: relink_same, erule kept_modify, simp add: relink_same)
  ultimately show ?thesis by (blast intro: kept_trans)
qed

lemma kept_link:
  "(case q of None \<Rightarrow> Some v | Some x \<Rightarrow> modify_peer x f v) = Some v' \<Longrightarrow> (\<And>p. same_peer p (f p)) \<Longrightarrow> kept n v v'"
  by (auto split: option.splits intro: kept_modify)

lemma kept_remove:
  assumes "remove_peer_internal addr w = Some w'" shows "kept n w w'"
proof (cases "m_peers w (akey addr)")
  case None
  with assms show ?thesis by (simp add: remove_peer_internal_def)
next
  case (Some pp)
  with assms show ?thesis
    unfolding remove_peer_internal_def Let_def
    apply (auto elim!: bind_SomeE simp del: not_None_eq split del: if_split)
    apply (rule kept_trans [rotated], erule kept_modify, simp add: relink_same)
    apply (rule kept_trans [rotated], erule kept_link, simp add: relink_same)
    apply (rule kept_trans [rotated], erule kept_link, simp add: relink_same)
    apply (simp add: kept_def get_peer_def)
    done
qed

lemma kept_remove_peer: "remove_peer addr w = Some w' \<Longrightarrow> kept n w w'"
  by (simp add: remove_peer_def kept_remove)

lemma kept_new_connect: "new_peer_connect endpoint i m data w = Some (pp, w') \<Longrightarrow> n \<le> next_object w \<Longrightarrow> kept n w w'"
  unfolding new_peer_connect_def
  by (auto elim!: bind_SomeE split: prod.splits simp: Let_def)
    (meson kept_trans kept_alloc kept_quiet quiet.send_packet_R)

lemma kept_new_accept:
  assumes new: "new_peer_accept request i w = Some (pp, w')" and n: "n \<le> next_object w"
  shows "kept n w w'"
proof -
  obtain p w1 acc e r w2 where w1: "alloc_peer p w = (pp, w1)" and w2: "send_packet acc e w1 = Some (r, w2)"
    and w': "modify_peer pp (\<lambda>p. p\<lparr>m_connection_state := CONNECTED\<rparr>) w2 = Some w'"
    using new unfolding new_peer_accept_def by (auto elim!: bind_SomeE split: prod.splits simp: Let_def)
  have "kept n w w1" "n \<le> pp" using kept_alloc [OF w1 n] by simp_all
  then show ?thesis using kept_quiet [OF quiet.send_packet_R [OF w2]] kept_modify [OF w'] by (blast intro: kept_trans)
qed

lemma kept_connect_new: "connect_new m address data w = Some (r, w') \<Longrightarrow> n \<le> next_object w \<Longrightarrow> kept n w w'"
  unfolding connect_new_def
  by (auto elim!: bind_SomeE split: prod.splits simp: Let_def)
    (metis kept_trans kept_next_id kept_new_connect kept_add)

lemma kept_connect: "connect m address data w = Some (r, w') \<Longrightarrow> n \<le> next_object w \<Longrightarrow> kept n w w'"
  unfolding connect_def
  by (auto elim!: bind_SomeE split: option.splits if_splits intro: kept_connect_new)
    (metis kept_def kept_trans kept_remove kept_connect_new order_trans)

lemma kept_reject:
  assumes "peer_reject pp q data off m w = Some w'" "n \<le> pp" shows "kept n w w'"
proof -
  obtain v r where v: "modify_peer pp (\<lambda>p. p\<lparr>m_connect_time := cr_connection_time q,
          m_connect_number := cr_connection_number q\<rparr>) w = Some v" "peer_shutdown pp data off m False v = Some (r, w')"
    using assms by (auto simp: peer_reject_def elim!: bind_SomeE)
  show ?thesis by (rule kept_trans [OF kept_modify [OF v(1)] kept_quiet [OF quiet.shutdown_R [OF v(2)]]]) (use assms in simp)
qed

lemma kept_solve:
  assumes "solve_with_peer request data off m w = Some (r, w')" "n \<le> next_object w"
  shows "kept n w w'"
proof -
  obtain i w1 where i: "get_next_peer_id w = (i, w1)" by fastforce
  have 1: "kept n w w1" "n \<le> next_object w1" using kept_next_id [OF i] assms(2) by simp_all
  show ?thesis
  proof (cases "m_peers w (akey (m_remote_endpoint request))")
    case (Some pp)
    with assms show ?thesis by (simp add: solve_with_peer_def)
  next
    case None
    show ?thesis
    proof (cases "m_result request = REJECT")
      case True
      then obtain p pp q w2 w3 where "alloc_peer p w1 = (pp, w2)" "peer_reject pp q data off m w2 = Some w3" "add_peer pp w3 = Some w'"
        using assms None i by (auto simp: solve_with_peer_def elim!: bind_SomeE split: prod.splits)
      then show ?thesis using 1 kept_alloc kept_reject kept_add by (meson kept_trans)
    next
      case False
      then obtain pp w2 w3 where "new_peer_accept request i w1 = Some (pp, w2)" "add_peer pp w2 = Some w3"
        "create_event (default_event\<lparr>ev_type := EVENT_CONNECT, ev_peer := Some pp\<rparr>) w3 = Some w'"
        using assms None i by (auto simp: solve_with_peer_def elim!: bind_SomeE)
      then show ?thesis using 1 kept_new_accept kept_add kept_quiet [OF connect_event_quiet] by (meson kept_trans)
    qed
  qed
qed

lemma kept_solved: "on_connection_solved request data off m w = Some (r, w') \<Longrightarrow> n \<le> next_object w \<Longrightarrow> kept n w w'"
  unfolding on_connection_solved_def
  by (auto elim!: bind_SomeE split: if_splits) (auto intro: kept_solve kept_quiet [OF refuse_quiet])

lemma kept_request_solve:
  assumes "request_solve rp res data off m w = Some (r, w')" "n \<le> next_object w" shows "kept n w w'"
proof -
  obtain rq where rq: "request_heap w rp = Some rq" and s: "on_connection_solved (rq\<lparr>m_result := res\<rparr>) data off m
      (w\<lparr>request_heap := (request_heap w)(rp \<mapsto> rq\<lparr>m_result := res\<rparr>)\<rparr>) = Some (r, w')"
    using assms by (auto simp: request_solve_def Let_def elim!: bind_SomeE)
  have k: "kept n (w\<lparr>request_heap := (request_heap w)(rp \<mapsto> rq\<lparr>m_result := res\<rparr>)\<rparr>) w'"
    by (rule kept_solved [OF s]) (use assms(2) in simp)
  show ?thesis by (rule kept_trans [OF kept_request_upd k]) (use rq in \<open>simp add: same_request_def\<close>)
qed

lemma kept_after_request:
  assumes s: "request_solve rp res data off m (w\<lparr>request_heap := (request_heap w)(rp \<mapsto> r')\<rparr>) = Some (x, w')"
    and "n \<le> next_object w" "request_heap w rp = Some r" "same_request r r'"
  shows "kept n w w'"
  by (rule kept_trans [OF kept_request_upd kept_request_solve [OF s]]) (use assms in simp_all)

lemma activated_same: "try_activate r = (b, r') \<Longrightarrow> same_request r r'"
  by (auto simp: try_activate_def same_request_def split: if_splits)

lemma kept_accept: "request_accept rp w = Some (r, w') \<Longrightarrow> n \<le> next_object w \<Longrightarrow> kept n w w'"
  unfolding request_accept_def
  by (auto elim!: bind_SomeE split: prod.splits if_splits) (auto intro: kept_after_request activated_same)

lemma kept_accept_key: "accept_if_key rp key w = Some (r, w') \<Longrightarrow> n \<le> next_object w \<Longrightarrow> kept n w w'"
  unfolding accept_if_key_def
  by (auto elim!: bind_SomeE split: prod.splits if_splits simp: Let_def)
    (auto elim!: kept_after_request simp: same_request_def dest!: activated_same)

lemma kept_reject_request: "request_reject rp data off m force w = Some w' \<Longrightarrow> n \<le> next_object w \<Longrightarrow> kept n w w'"
  unfolding request_reject_def
  by (auto elim!: bind_SomeE split: prod.splits if_splits) (auto intro: kept_after_request activated_same)

lemma kept_app:
  assumes "app_step w w'" "n \<le> next_object w" shows "kept n w w'"
  using assms by (cases rule: app_step.cases)
    (auto intro: kept_connect kept_accept kept_accept_key kept_reject_request kept_quiet [OF quiet.send_internal_R]
       kept_quiet [OF quiet.disconnect_R] kept_quiet [OF quiet.disconnect_all_R])


lemma kept_apps: "app_step\<^sup>*\<^sup>* w w' \<Longrightarrow> n \<le> next_object w \<Longrightarrow> kept n w w'"
proof (induction rule: rtranclp_induct)
  case (step w1 w2)
  then have 1: "kept n w w1" by simp
  then have "n \<le> next_object w1" using step.prems by (simp add: kept_def)
  then show ?case using 1 kept_app [OF step.hyps(2)] by (blast intro: kept_trans)
qed simp

lemma kept_recycle_event:
  assumes "event_recycle e w = Some (e', w')" shows "kept n w w'"
proof -
  have r: "kept n v v'" if "request_recycle rp v = Some v'" for rp v v'
    using that by (auto simp: request_recycle_def request_packet_recycle_def pool_recycle_def Let_def
        elim!: bind_SomeE split: option.splits if_splits)
      (simp_all add: kept_def get_peer_def same_request_def)
  have q: "kept n w (pool_recycle_ptr (m_reader_source e) w)" by (rule kept_quiet [OF quiet.recycle_ptr_R])
  then show ?thesis using assms r
    by (auto simp: event_recycle_def Let_def elim!: bind_SomeE split: option.splits intro: kept_trans)
qed

lemma kept_event:
  assumes l: "app_listener listener" and p: "process_event listener e w = Some w'" and n: "n \<le> next_object w"
  shows "kept n w w'"
proof -
  obtain cb w1 where w1: "(case cb of None \<Rightarrow> Some w | Some c \<Rightarrow> listener c w) = Some w1"
    and rest: "(if auto_recycle w1 then event_recycle e w1 else Some (e, w1))
      \<bind> (\<lambda>(e', w2). if m_recycled e' then Some w2 else None) = Some w'"
    using p by (auto simp: process_event_def elim!: bind_SomeE)
  have "app_step\<^sup>*\<^sup>* w w1" using l w1 by (auto simp: app_listener_def split: option.splits)
  then have 1: "kept n w w1" by (rule kept_apps [OF _ n])
  have "kept n w1 w'" using rest kept_recycle_event by (auto elim!: bind_SomeE split: if_splits prod.splits)
  with 1 show ?thesis by (rule kept_trans)
qed

lemma kept_events:
  "app_listener listener \<Longrightarrow> process_events listener es w = Some w' \<Longrightarrow> n \<le> next_object w \<Longrightarrow> kept n w w'"
proof (induction es arbitrary: w)
  case (Cons e es)
  then obtain w1 where w1: "process_event listener e w = Some w1" "process_events listener es w1 = Some w'"
    by (auto elim!: bind_SomeE)
  have 1: "kept n w w1" by (rule kept_event [OF Cons.prems(1) w1(1) Cons.prems(3)])
  then have "n \<le> next_object w1" using Cons.prems(3) by (simp add: kept_def)
  then show ?case using Cons.IH [OF Cons.prems(1) w1(2)] 1 by (blast intro: kept_trans)
qed simp

lemma kept_poll:
  assumes l: "app_listener listener" and p: "poll_events listener w = Some w'" and n: "n \<le> next_object w"
  shows "kept n w w'"
proof -
  let ?w1 = "w\<lparr>m_events_produce_queue := m_events_consume_queue w, m_events_consume_queue := m_events_produce_queue w\<rparr>"
  obtain w2 where w2: "process_events listener (m_events_consume_queue ?w1) ?w1 = Some w2"
    and w': "w' = w2\<lparr>m_events_consume_queue := []\<rparr>"
    using p by (auto simp: poll_events_def Let_def elim!: bind_SomeE)
  have "kept n ?w1 w2" by (rule kept_events [OF l w2]) (use n in simp)
  then show ?thesis by (simp add: w' kept_def get_peer_def)
qed

lemma kept_judge:
  assumes "judge_request addr peer q w = Some (nxt, w')" shows "kept n w w'"
proof (cases peer)
  case (Some pp)
  then obtain r w1 where r: "peer_process_connect_request pp q w = Some (r, w1)"
    using assms by (auto simp: judge_request_def elim: bind_SomeE)
  have 1: "kept n w w1" by (rule kept_quiet [OF quiet.connect_request_R [OF r]])
  have forced: "kept n w1 w3"
    if "disconnect_peer_force addr reason 0 None w1 = Some w2" "remove_peer addr w2 = Some w3" for reason w2 w3
    by (rule kept_trans [OF kept_quiet [OF quiet.force_R [OF that(1)]] kept_remove_peer [OF that(2)]])
  have rec: "kept n w1 (snd (request_packet_recycle q w1))"
    using kept_quiet [OF recycle_packet_quiet [of q w1]] by (cases "request_packet_recycle q w1") simp
  have "kept n w1 w'"
    using assms Some r rec forced kept_remove_peer
    by (cases r) (auto simp: judge_request_def Let_def elim!: bind_SomeE)
  with 1 show ?thesis by (rule kept_trans)
qed (use assms in \<open>simp add: judge_request_def\<close>)

lemma update_request_same: "update_request q r = Some r' \<Longrightarrow> same_request r r'"
  by (auto simp: update_request_def same_request_def elim!: bind_SomeE split: if_splits)

lemma kept_file:
  assumes f: "file_request addr request w = Some w'" and n: "n \<le> next_object w"
  shows "kept n w w'"
proof (cases "m_connection_requests w (akey addr)")
  case None
  with f n show ?thesis
    by (auto simp: file_request_def Let_def create_event_def default_event_def kept_def get_peer_def elim!: bind_SomeE)
next
  case (Some rp)
  then obtain r r' where "request_heap w rp = Some r" "update_request request r = Some r'"
    "w' = w\<lparr>request_heap := (request_heap w)(rp \<mapsto> r')\<rparr>"
    using f by (auto simp: file_request_def elim!: bind_SomeE)
  then show ?thesis using update_request_same by (auto intro!: kept_request_upd)
qed

lemma kept_connect_request:
  assumes "process_connect_request addr peer q w = Some w'" "n \<le> next_object w"
  shows "kept n w w'"
proof -
  obtain nxt w1 where w1: "judge_request addr peer q w = Some (nxt, w1)"
    and rest: "(case nxt of None \<Rightarrow> Some w1 | Some r \<Rightarrow> file_request addr r w1) = Some w'"
    using assms by (auto simp: process_connect_request_def elim!: bind_SomeE)
  have 1: "kept n w w1" by (rule kept_judge [OF w1])
  then have "n \<le> next_object w1" using assms(2) by (simp add: kept_def)
  then have "kept n w1 w'" using rest by (auto split: option.splits intro: kept_file)
  with 1 show ?thesis by (rule kept_trans)
qed

lemma kept_dispatch:
  assumes d: "dispatch_message packet addr w = Some w'" and n: "n \<le> next_object w" shows "kept n w w'"
proof (cases "property packet = CONNECT_REQUEST")
  case True
  then show ?thesis
    using d n kept_connect_request kept_quiet [OF quiet.R_recycle]
    by (auto simp: dispatch_message_def Let_def elim!: bind_SomeE split: option.splits)
next
  case False
  then show ?thesis using kept_quiet dispatch_quiet d by blast
qed

lemma kept_received: "on_message_received packet addr w = Some w' \<Longrightarrow> n \<le> next_object w \<Longrightarrow> kept n w w'"
  unfolding on_message_received_def
  by (auto elim!: bind_SomeE split: if_splits)
    (auto intro: kept_dispatch kept_quiet [OF quiet.R_recycle] kept_quiet [OF made_event_quiet]
      kept_quiet [OF quiet.R_then_recycle [OF quiet.reply_R]])

lemma kept_receive:
  assumes d: "receive_datagram r w = Some w'" and n: "n \<le> next_object w" shows "kept n w w'"
proof -
  obtain packet w1 where p: "pool_get_packet MAX_PACKET_SIZE w = (packet, w1)" by fastforce
  have 1: "kept n w w1" by (rule kept_quiet [OF quiet.get_R [OF p]])
  then have "n \<le> next_object w1" using n by (simp add: kept_def)
  then have "kept n w1 w'"
    using d p kept_received kept_quiet [OF quiet.R_recycle]
    by (auto simp: receive_datagram_def elim!: bind_SomeE split: option.splits)
  with 1 show ?thesis by (rule kept_trans)
qed

lemma kept_remove_peers: "remove_peers as w = Some w' \<Longrightarrow> kept n w w'"
  by (induction as arbitrary: w) (auto elim!: bind_SomeE intro: kept_trans kept_remove)

lemma kept_logic:
  assumes u: "update_logic_turn sw w = Some (t, sw', w')" shows "kept n w w'"
proof -
  obtain dt as w1 where w1: "update_peers dt (m_head_peer w) w = Some (as, w1)" and w2: "remove_peers as w1 = Some w'"
    using u by (auto simp: update_logic_turn_def Let_def elim!: bind_SomeE)
  have "quiet w w1" using quiet.update_peers_R [OF w1] by simp
  then show ?thesis using kept_trans [OF kept_quiet kept_remove_peers [OF w2]] by simp
qed

lemma kept_net:
  assumes "net_step w w'" "n \<le> next_object w" shows "kept n w w'"
  using assms by (cases rule: net_stepE)
    (auto intro: kept_receive kept_logic kept_poll kept_app kept_same simp: env_fields)

lemma peer_below: "manager_ok w \<Longrightarrow> get_peer pp w = Some p \<Longrightarrow> pp < next_object w"
  unfolding manager_ok_def mgr_ok_def around_ok_def objects_ok_def get_peer_def by (metis leI option.discI)

lemma kept_nets: "net_step\<^sup>*\<^sup>* w w' \<Longrightarrow> kept (next_object w) w w'"
proof (induction rule: rtranclp_induct)
  case (step w1 w2)
  then have "next_object w \<le> next_object w1" by (simp add: kept_def)
  then show ?case using step.IH kept_net [OF step.hyps(2)] by (blast intro: kept_trans)
qed simp

text \<open>C16: Whatever a manager goes through, a peer object keeps its id and its address, and its connection
  state never goes back: \<open>DISCONNECTED\<close> is final, a requested shutdown can only end in it, and a
  connected peer is never asking for its connection again.\<close>

theorem peer_life:
  assumes "reach init_world net_step w" "net_step\<^sup>*\<^sup>* w w'" "get_peer pp w = Some p"
  shows "\<exists>p'. get_peer pp w' = Some p' \<and> m_peer_id p' = m_peer_id p \<and> m_endpoint p' = m_endpoint p \<and>
     (m_connection_state p = DISCONNECTED \<longrightarrow> m_connection_state p' = DISCONNECTED) \<and>
     (m_connection_state p = SHUTDOWN_REQUESTED \<longrightarrow> m_connection_state p' \<in> {SHUTDOWN_REQUESTED, DISCONNECTED}) \<and>
     (m_connection_state p = CONNECTED \<longrightarrow> m_connection_state p' \<noteq> OUTGOING)"
proof -
  have "pp < next_object w" using peer_below net.reach_inv [OF assms(1)] assms(3) by blast
  then obtain p' where "get_peer pp w' = Some p'" "same_peer p p'"
    using keptD(1) [OF kept_nets [OF assms(2)]] assms(3) by blast
  then show ?thesis by (auto simp: same_peer_def state_le_def)
qed

theorem peer_life_witness:
  "\<exists>p p'. get_peer 0 sample_outgoing = Some p \<and> m_connection_state p = OUTGOING \<and>
     get_peer 0 sample_connected = Some p' \<and> m_connection_state p' = CONNECTED \<and> m_peer_id p' = m_peer_id p"
proof -
  obtain p where p: "get_peer 0 sample_outgoing = Some p" "m_connection_state p = OUTGOING"
    using sample_outgoing_facts(3) by blast
  have "net_step\<^sup>*\<^sup>* sample_outgoing sample_connected" using sample_steps(4) by (rule r_into_rtranclp)
  from peer_life [OF sample_reach(2) this p(1)] show ?thesis using p sample_connected_facts(5) by auto
qed

section \<open>A request is taken once\<close>

lemma request_below: "manager_ok w \<Longrightarrow> request_heap w rp = Some r \<Longrightarrow> rp < next_object w"
  unfolding manager_ok_def mgr_ok_def around_ok_def objects_ok_def by (metis leI option.discI)

lemma solve_taken:
  assumes s: "request_solve rp res data off m (w\<lparr>request_heap := (request_heap w)(rp \<mapsto> r')\<rparr>) = Some (x, w')"
    and n: "rp < next_object w" and used: "m_used r' \<noteq> 0"
  shows "\<exists>r. request_heap w' rp = Some r \<and> m_used r \<noteq> 0"
  using keptD(2) [OF kept_request_solve [OF s, of "next_object w"] n, of r'] used by (auto simp: same_request_def)

lemma accept_taken:
  assumes ok: "manager_ok w" and a: "request_accept rp w = Some (x, w')"
  shows "\<exists>r. request_heap w' rp = Some r \<and> m_used r \<noteq> 0"
proof -
  obtain r where r: "request_heap w rp = Some r" using a by (auto simp: request_accept_def elim: bind_SomeE)
  show ?thesis
  proof (cases "m_used r = 0")
    case True
    then show ?thesis using a r solve_taken [OF _ request_below [OF ok r]]
      by (auto simp: request_accept_def try_activate_def)
  qed (use a r in \<open>auto simp: request_accept_def try_activate_def\<close>)
qed

lemma reject_taken:
  assumes ok: "manager_ok w" and a: "request_reject rp data off m force w = Some w'"
  shows "\<exists>r. request_heap w' rp = Some r \<and> m_used r \<noteq> 0"
proof -
  obtain r where r: "request_heap w rp = Some r" using a by (auto simp: request_reject_def elim: bind_SomeE)
  show ?thesis
  proof (cases "m_used r = 0")
    case True
    then show ?thesis using a r solve_taken [OF _ request_below [OF ok r]]
      by (auto simp: request_reject_def try_activate_def elim!: bind_SomeE)
  qed (use a r in \<open>auto simp: request_reject_def try_activate_def\<close>)
qed

lemma accept_key_taken:
  assumes ok: "manager_ok w" and a: "accept_if_key rp key w = Some (x, w')"
  shows "\<exists>r. request_heap w' rp = Some r \<and> m_used r \<noteq> 0"
proof -
  obtain r where r: "request_heap w rp = Some r" using a by (auto simp: accept_if_key_def elim: bind_SomeE)
  show ?thesis
  proof (cases "m_used r = 0")
    case True
    then show ?thesis using a r solve_taken [OF _ request_below [OF ok r]]
      by (auto simp: accept_if_key_def try_activate_def Let_def elim!: bind_SomeE split: if_splits)
  qed (use a r in \<open>auto simp: accept_if_key_def try_activate_def\<close>)
qed

lemma taken_refused:
  assumes "request_heap w rp = Some r" "m_used r \<noteq> 0"
  shows "request_accept rp w = Some (None, w)" "request_reject rp data off m force w = Some w"
    "accept_if_key rp key w = Some (None, w)"
  using assms by (simp_all add: request_accept_def request_reject_def accept_if_key_def try_activate_def)

text \<open>C17: A connection request is solved once: after a call of \<open>accept\<close>, \<open>reject\<close> or \<open>accept_if_key\<close> on it,
  and whatever happened since, all three calls on it return at once and change nothing.\<close>

theorem request_taken_once:
  assumes "reach init_world net_step w"
    and "(\<exists>x. request_accept rp w = Some (x, w1)) \<or> (\<exists>data off m force. request_reject rp data off m force w = Some w1) \<or>
      (\<exists>key x. accept_if_key rp key w = Some (x, w1))"
    and "net_step\<^sup>*\<^sup>* w1 w2"
  shows "request_accept rp w2 = Some (None, w2) \<and> request_reject rp data off m force w2 = Some w2 \<and>
    accept_if_key rp key w2 = Some (None, w2)"
proof -
  have ok: "manager_ok w" by (rule net.reach_inv [OF assms(1)])
  have "net_step w w1" using assms(2) by (elim disjE exE) (rule step_app, erule app_step.intros)+
  then have ok1: "manager_ok w1" using net_step_ok ok by blast
  have "\<exists>r. request_heap w1 rp = Some r \<and> m_used r \<noteq> 0"
    using assms(2) accept_taken [OF ok] reject_taken [OF ok] accept_key_taken [OF ok] by (elim disjE exE) simp_all
  then obtain r where r: "request_heap w1 rp = Some r" "m_used r \<noteq> 0" by blast
  obtain r2 where "request_heap w2 rp = Some r2" "same_request r r2"
    using keptD(2) [OF kept_nets [OF assms(3)] request_below [OF ok1 r(1)] r(1)] by blast
  then have "request_heap w2 rp = Some r2" "m_used r2 \<noteq> 0" using r(2) by (simp_all add: same_request_def)
  then show ?thesis using taken_refused by simp
qed

theorem request_taken_once_witness:
  "request_accept 0 sample_accepted = Some (None, sample_accepted)"
proof -
  have "\<exists>x. request_accept 0 sample_asked = Some (x, sample_accepted)" using sample_accepted_facts(1) by blast
  then show ?thesis using request_taken_once [OF sample_reach(3) disjI1 rtranclp.rtrancl_refl, of 0 sample_accepted] by blast
qed

section \<open>Disconnecting all\<close>

definition ending :: "net_peer \<Rightarrow> bool" where
  "ending p \<longleftrightarrow> m_connection_state p = SHUTDOWN_REQUESTED \<or> m_connection_state p = DISCONNECTED"

lemma same_peer_ending: "same_peer p p' \<Longrightarrow> ending p \<Longrightarrow> ending p'"
  by (auto simp: same_peer_def ending_def state_le_def)

lemma shutdown_ends:
  assumes "peer_shutdown pp data off n force w = Some (r, w')" "get_peer pp w' = Some p'"
  shows "ending p'"
proof -
  obtain p where p: "get_peer pp w = Some p" using assms(1) by (auto simp: peer_shutdown_def elim: bind_SomeE)
  show ?thesis
  proof (cases "m_connection_state p = DISCONNECTED \<or> m_connection_state p = SHUTDOWN_REQUESTED")
    case True
    with assms p show ?thesis by (auto simp: peer_shutdown_def ending_def)
  next
    case False
    show ?thesis
    proof (cases force)
      case True
      with assms p False show ?thesis by (auto simp: peer_shutdown_def ending_def)
    next
      case nf: False
      then obtain pk r' where s: "send_packet pk (m_endpoint p) (put_peer pp (p\<lparr>m_time_since_last_packet := 0,
          m_shutdown_packet := pk, m_connection_state := SHUTDOWN_REQUESTED\<rparr>) w) = Some (r', w')"
        using assms(1) p False unfolding peer_shutdown_def Let_def by (auto elim!: bind_SomeE)
      let ?q = "p\<lparr>m_time_since_last_packet := 0, m_shutdown_packet := pk, m_connection_state := SHUTDOWN_REQUESTED\<rparr>"
      have "\<exists>p''. get_peer pp w' = Some p'' \<and> same_peer ?q p''"
        using kept_quiet [OF quiet.send_packet_R [OF s], of "Suc pp"] by (simp add: kept_def)
      then show ?thesis using assms(2) same_peer_ending [of ?q p'] by (auto simp: ending_def)
    qed
  qed
qed


lemma disconnect_ends:
  assumes d: "disconnect_peer a reason e force data off n q w = Some w'" and pp: "m_peers w (akey a) = Some pp"
    and p: "get_peer pp w' = Some p"
  shows "ending p"
proof -
  obtain r w1 where w1: "peer_shutdown pp data off n force w = Some (r, w1)"
    and rest: "(if r = SHUTDOWN_NONE then Some (pool_recycle_ptr q w1)
          else create_event (default_event\<lparr>ev_type := EVENT_DISCONNECT, ev_peer := Some pp,
                 socketErrorCode := e, disconnectReason := reason, m_reader_source := q\<rparr>) w1) = Some w'"
    using d pp by (auto simp: disconnect_peer_def try_get_peer_def elim!: bind_SomeE)
  have "peer_heap w' = peer_heap w1" using rest create_event_heap by (auto split: if_splits)
  then show ?thesis using shutdown_ends [OF w1] p by (simp add: get_peer_def)
qed

lemma disconnect_each_ends:
  "disconnect_each data off n as w = Some w' \<Longrightarrow> a \<in> set as \<Longrightarrow> m_peers w (akey a) = Some pp \<Longrightarrow>
   get_peer pp w' = Some p \<Longrightarrow> ending p"
proof (induction as arbitrary: w)
  case (Cons b as)
  then obtain w1 where w1: "disconnect_peer b DISCONNECT_PEER_CALLED 0 False data off n None w = Some w1"
    and w': "disconnect_each data off n as w1 = Some w'" by (auto elim!: bind_SomeE)
  have q: "quiet w w1" by (rule quiet.disconnect_R [OF w1])
  then have m: "m_peers w1 = m_peers w" by (simp add: quiet_def tables_def)
  show ?case
  proof (cases "a \<in> set as")
    case True
    with Cons.IH [OF w'] m Cons.prems show ?thesis by simp
  next
    case False
    have "kept (Suc pp) w1 w'" by (rule kept_quiet [OF quiet.disconnect_each_R [OF w']])
    moreover have "\<exists>p1. get_peer pp w1 = Some p1"
    proof -
      have "\<exists>p0. get_peer pp w = Some p0"
        using w1 False Cons.prems(2,3) by (auto simp: disconnect_peer_def try_get_peer_def peer_shutdown_def elim!: bind_SomeE)
      then show ?thesis using keptD(1) [OF kept_quiet [OF q, of "Suc pp"]] by blast
    qed
    ultimately obtain p1 where "get_peer pp w1 = Some p1" "same_peer p1 p"
      using Cons.prems(4) by (fastforce simp: kept_def)
    moreover have "ending p1" if "get_peer pp w1 = Some p1" for p1
      using disconnect_ends [OF w1 _ that] False Cons.prems(2,3) by simp
    ultimately show ?thesis using same_peer_ending by blast
  qed
qed simp

text \<open>The walk along the links is the walk along the list.\<close>

lemma walk_addresses:
  "dlseg (next_of w) (prev_of w) h a xs None l \<Longrightarrow> \<forall>pp \<in> set xs. peer_heap w pp \<noteq> None \<Longrightarrow>
   peer_addresses h w = Some (List.map (\<lambda>pp. m_endpoint (the (peer_heap w pp))) xs)"
proof (induction xs arbitrary: h a)
  case Nil
  then show ?case by (simp add: peer_addresses.simps)
next
  case (Cons x xs)
  then obtain p where p: "peer_heap w x = Some p" by auto
  have "next_of w x = m_next_peer p" using p by (simp add: next_of_def)
  then show ?case using Cons p by (auto simp: peer_addresses.simps [of "Some x"] get_peer_def)
qed


fun update_list :: "int \<Rightarrow> nat list \<Rightarrow> world \<Rightarrow> (sockaddr_in list \<times> world) option" where
  "update_list elapsed [] w = Some ([], w)"
| "update_list elapsed (pp # pps) w = do {
     p \<leftarrow> get_peer pp w;
     if m_connection_state p = DISCONNECTED \<and> m_time_since_last_packet p > disconnect_timeout w then do {
       (rest, w1) \<leftarrow> update_list elapsed pps w;
       Some (m_endpoint p # rest, w1)
     }
     else do {
       w1 \<leftarrow> peer_update pp elapsed w;
       update_list elapsed pps w1
     }
   }"

lemma quiet_links:
  assumes "quiet w w'" shows "next_of w' = next_of w" "prev_of w' = prev_of w" "peer_heap w' pp = None \<longleftrightarrow> peer_heap w pp = None"
proof -
  have r: "rel_option peer_evolves (peer_heap w pp) (peer_heap w' pp)" for pp
    using assms by (simp add: quiet_def tables_def)
  have "next_of w' pp = next_of w pp \<and> prev_of w' pp = prev_of w pp \<and> (peer_heap w' pp = None \<longleftrightarrow> peer_heap w pp = None)" for pp
    using r [of pp] by (cases "peer_heap w pp"; cases "peer_heap w' pp") (auto simp: next_of_def prev_of_def peer_evolves_def)
  then show "next_of w' = next_of w" "prev_of w' = prev_of w" "peer_heap w' pp = None \<longleftrightarrow> peer_heap w pp = None" by auto
qed

lemma walk_updates:
  "dlseg (next_of w) (prev_of w) h a xs None l \<Longrightarrow> \<forall>pp \<in> set xs. peer_heap w pp \<noteq> None \<Longrightarrow>
   update_peers dt h w = update_list dt xs w"
proof (induction xs arbitrary: h a w)
  case Nil
  then show ?case by (simp add: update_peers.simps)
next
  case (Cons x xs)
  then obtain p where p: "get_peer x w = Some p" by (auto simp: get_peer_def)
  have nx: "m_next_peer q = next_of v x" if "get_peer x v = Some q" for v q
    using that by (simp add: next_of_def get_peer_def)
  show ?case
  proof (cases "m_connection_state p = DISCONNECTED \<and> m_time_since_last_packet p > disconnect_timeout w")
    case True
    have "update_peers dt (m_next_peer p) w = update_list dt xs w"
      using Cons.IH [of w "next_of w x" "Some x"] Cons.prems nx [OF p] by simp
    with True p Cons.prems show ?thesis by (simp add: update_peers.simps [of dt "Some x"])
  next
    case False
    show ?thesis
    proof (cases "peer_update x dt w")
      case None
      with False p Cons.prems show ?thesis by (auto simp: update_peers.simps [of dt "Some x"])
    next
      case (Some w1)
      note q = quiet_links [OF quiet.update_R [OF Some]]
      obtain p1 where p1: "get_peer x w1 = Some p1" using q(3) [of x] p by (auto simp: get_peer_def)
      have "update_peers dt (m_next_peer p1) w1 = update_list dt xs w1"
        using Cons.IH [of w1 "next_of w x" "Some x"] Cons.prems nx [OF p1] q by simp
      then have "update_peers dt (m_next_peer p1) w1 \<bind> (\<lambda>(rest, w2). Some ([] @ rest, w2)) = update_list dt xs w1"
        by (cases "update_list dt xs w1") auto
      with False p p1 Some Cons.prems show ?thesis by (auto simp: update_peers.simps [of dt "Some x"])
    qed
  qed
qed

lemma manager_list:
  assumes "manager_ok w"
  obtains xs l where "dlseg (next_of w) (prev_of w) (m_head_peer w) None xs None l" "distinct xs"
    "\<forall>pp \<in> set xs. peer_heap w pp \<noteq> None" "\<And>k pp. m_peers w k = Some pp \<longleftrightarrow> pp \<in> set xs \<and> key_of w pp = k"
proof -
  obtain xs where "mgr_ok w [] xs" using assms by (auto simp: manager_ok_def)
  then have t: "table_ok w [] xs" by (simp add: mgr_ok_def)
  then obtain l where "dlseg (next_of w) (prev_of w) (m_head_peer w) None xs None l" "distinct xs"
    using table_okD(1) [OF t] by (auto simp: list_ok_def)
  then show thesis using that [of xs l] table_ok_heap [OF t] table_ok_lookup [OF t] by blast
qed

text \<open>C32: The loops over the links of the peers end, and they meet every peer of the address map once and
  no other: there is one list of them such that a turn of the logic thread is the recursion over it, though
  the turn changes the peers it walks over, and \<open>disconnect_all\<close> collects the addresses of the same list.\<close>

theorem logic_walk:
  assumes "reach init_world net_step w"
  shows "\<exists>pps. distinct pps \<and> set pps = ran (m_peers w) \<and>
     (\<forall>dt. update_peers dt (m_head_peer w) w = update_list dt pps w) \<and>
     peer_addresses (m_head_peer w) w = Some (List.map (\<lambda>pp. m_endpoint (the (get_peer pp w))) pps)"
proof -
  obtain xs l where xs: "dlseg (next_of w) (prev_of w) (m_head_peer w) None xs None l" "distinct xs"
    "\<forall>pp \<in> set xs. peer_heap w pp \<noteq> None" and m: "\<And>k pp. m_peers w k = Some pp \<longleftrightarrow> pp \<in> set xs \<and> key_of w pp = k"
    by (rule manager_list [OF net.reach_inv [OF assms]]) (rule that)
  have r: "set xs = ran (m_peers w)"
  proof (intro set_eqI iffI)
    fix pp assume "pp \<in> set xs"
    then have "m_peers w (key_of w pp) = Some pp" by (simp add: m)
    then show "pp \<in> ran (m_peers w)" by (rule ranI)
  next
    fix pp assume "pp \<in> ran (m_peers w)"
    then obtain k where "m_peers w k = Some pp" by (auto simp: ran_def simp del: split_paired_Ex)
    then show "pp \<in> set xs" by (simp add: m)
  qed
  have "peer_addresses (m_head_peer w) w = Some (List.map (\<lambda>pp. m_endpoint (the (get_peer pp w))) xs)"
    using walk_addresses [OF xs(1,3)] by (simp add: get_peer_def)
  then show ?thesis
    by (intro exI [of _ xs] conjI allI xs(2) r walk_updates [OF xs(1,3)])
qed

theorem logic_walk_witness:
  "\<exists>pps. distinct pps \<and> set pps = ran (m_peers sample_outgoing) \<and> 0 \<in> set pps \<and>
     update_peers 20 (m_head_peer sample_outgoing) sample_outgoing = update_list 20 pps sample_outgoing"
  using logic_walk [OF sample_reach(2)] ranI [of "m_peers sample_outgoing", OF sample_outgoing_facts(2)] by auto

text \<open>C33: After \<open>disconnect_all\<close> no peer of the table is connected or connecting.\<close>

theorem disconnect_all_ends:
  assumes "reach init_world net_step w" "disconnect_all data off n w = Some w'" "m_peers w' k = Some pp" "get_peer pp w' = Some p"
  shows "m_connection_state p = SHUTDOWN_REQUESTED \<or> m_connection_state p = DISCONNECTED"
proof -
  obtain xs l where seg: "dlseg (next_of w) (prev_of w) (m_head_peer w) None xs None l" and "distinct xs"
    and heap: "\<forall>pp \<in> set xs. peer_heap w pp \<noteq> None" and m: "\<And>k pp. m_peers w k = Some pp \<longleftrightarrow> pp \<in> set xs \<and> key_of w pp = k"
    by (rule manager_list [OF net.reach_inv [OF assms(1)]]) (rule that)
  let ?as = "List.map (\<lambda>pp. m_endpoint (the (peer_heap w pp))) xs"
  have d: "disconnect_each data off n ?as w = Some w'"
    using assms(2) walk_addresses [OF seg heap] by (simp add: disconnect_all_def)
  have k: "m_peers w k = Some pp"
    using quiet.disconnect_each_R [OF d] assms(3) by (simp add: quiet_def tables_def)
  then have pp: "pp \<in> set xs" "key_of w pp = k" using m by simp_all
  then obtain q where q: "peer_heap w pp = Some q" using heap by blast
  then have "m_endpoint q \<in> set ?as" "akey (m_endpoint q) = k" using pp by (force, simp add: key_of_def)
  then have "ending p" using disconnect_each_ends [OF d _ _ assms(4)] k by blast
  then show ?thesis by (simp add: ending_def)
qed

theorem disconnect_all_ends_witness:
  "\<exists>w p. disconnect_all None 0 0 sample_outgoing = Some w \<and> get_peer 0 w = Some p \<and>
     (m_connection_state p = SHUTDOWN_REQUESTED \<or> m_connection_state p = DISCONNECTED)"
proof -
  have "case disconnect_all None 0 0 sample_outgoing of
      Some w \<Rightarrow> m_peers w (akey sample_server) = Some 0 \<and> (case get_peer 0 w of Some p \<Rightarrow> True | None \<Rightarrow> False)
    | None \<Rightarrow> False" by code_simp
  then obtain w p where "disconnect_all None 0 0 sample_outgoing = Some w" "m_peers w (akey sample_server) = Some 0"
    "get_peer 0 w = Some p" by (auto split: option.splits)
  with disconnect_all_ends [OF sample_reach(2)] show ?thesis by blast
qed

end
