(* ===== verification/Peer_Properties.thy ===== *)
theory Peer_Properties
  imports Sample_World
begin

text \<open>
  What single operations of a peer and of the manager do, among them the places where the code runs into
  undefined behaviour or does less than it means to.
\<close>

section \<open>Pings\<close>

lemma relative_after: "relative_sequence_number (s0 + 1) s0 = 1"
  by (simp add: relative_sequence_number_def seq_consts)

lemma relative_wrapped:
  assumes "0 \<le> s" "s < 32768" shows "relative_sequence_number s 65535 \<le> 0"
proof (cases "s < 16383")
  case True
  then have "(s - 16383) smod 32768 = s - 16383" using assms
    by (simp add: signed_modulo_int_def signed_divide_int_def)
  then show ?thesis using True by (simp add: relative_sequence_number_def seq_consts)
next
  case False
  then have "(s - 16383) smod 32768 = s - 16383" using assms by (subst smod_nonneg) simp_all
  then show ?thesis using assms by (simp add: relative_sequence_number_def seq_consts)
qed

lemma sample_peer_ok: "get_peer 0 sample_connected = Some p \<Longrightarrow> peer_ok p"
proof -
  assume p: "get_peer 0 sample_connected = Some p"
  obtain xs where "mgr_ok sample_connected [] xs" using net.reach_inv [OF sample_reach(5)] by (auto simp: manager_ok_def)
  then have t: "table_ok sample_connected [] xs" by (simp add: mgr_ok_def)
  then have "0 \<in> set xs" using table_ok_lookup [OF t] sample_connected_facts(3) by blast
  then show ?thesis using table_okD(1) [OF t] p by (auto simp: list_ok_def get_peer_def)
qed

lemma next_u16: "s0 \<noteq> 65535 \<Longrightarrow> uint (s0 + 1 :: u16) = uint s0 + 1"
proof -
  assume "s0 \<noteq> 65535"
  then have "uint s0 \<noteq> uint (65535 :: u16)" using word_uint_eq_iff by blast
  then have "uint s0 + 1 < 2 ^ 16" using uint_lt2p [of s0] by simp
  then show ?thesis by (simp add: uint_word_ariths)
qed

text \<open>C40: Pings are numbered with 16 bits and compared with the 15-bit distance of the channels. The ping
  behind the last answered one is answered, as long as the number of the last one is below 65535; once
  65535 was answered, every ping with a number below 32768 is dropped without an answer.\<close>

theorem ping_answered:
  assumes p: "get_peer pp w = Some p" and ok: "peer_ok p"
    and s: "sequence packet = Some s" "sequence (m_pong_packet p) = Some s0"
    and sends: "m_running w" "sendto w (sends w) = Inl n"
  shows "(s0 \<noteq> 65535 \<and> s = s0 + 1 \<longrightarrow>
      (\<exists>w' q. process_ping pp packet w = Some w' \<and> get_peer pp w' = Some (p\<lparr>m_pong_packet := q\<rparr>) \<and> sequence q = Some s \<and>
         wire w' = wire w @ [(m_endpoint p, take 11 (m_data q))])) \<and>
    (s0 = 65535 \<and> s < 32768 \<longrightarrow> process_ping pp packet w = Some (pool_recycle packet w))"
proof (intro conjI impI)
  assume a: "s0 \<noteq> 65535 \<and> s = s0 + 1"
  have u: "uint s = uint s0 + 1" using next_u16 a by simp
  note sz = peer_okD [OF ok]
  have len: "length bs' = length bs" if "wr_bytes bs i xs = Some bs'" for bs bs' xs i
    using wr_bytes_length that by blast
  obtain bs1 where bs1: "wr_bytes (m_data (m_pong_packet p)) 3 (le_bytes 8 (word_of_int (system_time w) :: i64)) = Some bs1"
    using wr_bytes_ok [of 3 "le_bytes 8 (word_of_int (system_time w) :: i64)" "m_data (m_pong_packet p)"] sz by auto
  then obtain q1 where q1: "set_i64_at (word_of_int (system_time w)) 3 (m_pong_packet p) = Some q1"
    "buffer_size q1 = buffer_size (m_pong_packet p)" "m_size q1 = 11"
    using len [OF bs1] sz by (simp add: set_i64_at_def set_data_def wr64_def)
  obtain bs2 where bs2: "wr_bytes (m_data q1) 1 (le_bytes 2 s) = Some bs2"
    using wr_bytes_ok [of 1 "le_bytes 2 s" "m_data q1"] sz q1 by auto
  then obtain q where q: "set_sequence s q1 = Some q" "buffer_size q = buffer_size q1" "m_size q = 11" "sequence q = Some s"
    using len [OF bs2] q1 rd16_wr16_same [of "m_data q1" 1 s bs2]
    by (simp add: set_sequence_def set_data_def wr16_def sequence_def)
  let ?w1 = "put_peer pp (p\<lparr>m_pong_packet := q\<rparr>) w"
  have send: "send_packet q (m_endpoint p) ?w1 =
      Some (n, ?w1\<lparr>sends := sends w + 1, wire := wire w @ [(m_endpoint p, take 11 (m_data q))]\<rparr>)"
    using sends sz q q1 by (simp add: send_packet_def send_raw_def rd_bytes_SomeI put_peer_def)
  have "0 < relative_sequence_number (uint s) (uint s0)" by (simp add: u relative_after)
  then have "process_ping pp packet w = Some (pool_recycle packet
      (?w1\<lparr>sends := sends w + 1, wire := wire w @ [(m_endpoint p, take 11 (m_data q))]\<rparr>))"
    using p s q q1 send by (simp add: process_ping_def)
  then show "\<exists>w' q. process_ping pp packet w = Some w' \<and> get_peer pp w' = Some (p\<lparr>m_pong_packet := q\<rparr>) \<and> sequence q = Some s \<and>
         wire w' = wire w @ [(m_endpoint p, take 11 (m_data q))]"
    using q(4) by (auto simp: get_peer_def put_peer_def pool_recycle_def)
next
  assume "s0 = 65535 \<and> s < 32768"
  then have "relative_sequence_number (uint s) (uint s0) \<le> 0"
    using relative_wrapped [of "uint s"] by (simp add: word_less_def)
  then show "process_ping pp packet w = Some (pool_recycle packet w)" using p s by (simp add: process_ping_def)
qed

theorem ping_answered_witness:
  "\<exists>p. m_connection_state p = CONNECTED \<and>
     process_ping 0 \<lparr>m_data = [3, 0, 0], m_size = 3, user_data = None\<rparr> (put_peer 0 p sample_connected) =
       Some (pool_recycle \<lparr>m_data = [3, 0, 0], m_size = 3, user_data = None\<rparr> (put_peer 0 p sample_connected))"
proof -
  obtain q where q: "get_peer 0 sample_connected = Some q" "m_connection_state q = CONNECTED" by (rule sample_peer)
  let ?p = "q\<lparr>m_pong_packet := \<lparr>m_data = [4, 255, 255, 0, 0, 0, 0, 0, 0, 0, 0], m_size = 11, user_data = None\<rparr>\<rparr>"
  have "peer_ok q" by (rule sample_peer_ok [OF q(1)])
  then have ok: "peer_ok ?p" by (simp add: peer_ok_defs)
  have s: "sequence \<lparr>m_data = [3, 0, 0], m_size = 3, user_data = None\<rparr> = Some 0" "sequence (m_pong_packet ?p) = Some 65535"
    by (simp_all add: sequence_def rd16_def rd_bytes_def)
  show ?thesis
    using ping_answered [OF get_put_peer ok s, of 0 sample_connected 1] sample_connected_facts(2,4) q(2)
    by (intro exI [of _ ?p]) (simp add: put_peer_def)
qed

section \<open>Connect requests\<close>

lemma tie_break_iff: "tie_break xs \<longleftrightarrow> (\<exists>(r, l) \<in> set xs. r < l)"
  by (induction xs rule: tie_break.induct) auto

text \<open>When both ends connect to each other at the same time and the connect times agree, the answer
  depends on whether any byte of the remote address is below the byte of the local address at
  the same place, not on the order of the addresses; so both ends can lose.\<close>

lemma tie_break_any_byte:
  assumes "get_peer pp w = Some p" "m_connection_state p = OUTGOING" "cr_connection_time r = m_connect_time p"
  shows "peer_process_connect_request pp r w =
    Some (if \<exists>i < 16. encode_sockaddr (m_endpoint p) ! i < encode_sockaddr (cr_target_address r) ! i
          then P2P_LOSE else REQUEST_NONE, w)"
proof -
  have "(\<exists>(a, b) \<in> set (rev (zip (encode_sockaddr (m_endpoint p)) (encode_sockaddr (cr_target_address r)))). a < b) \<longleftrightarrow>
    (\<exists>i < 16. encode_sockaddr (m_endpoint p) ! i < encode_sockaddr (cr_target_address r) ! i)"
    by (auto simp: set_zip)
  then show ?thesis using assms by (simp add: peer_process_connect_request_def tie_break_iff)
qed

text \<open>Both ends of a pair of addresses: each finds a smaller byte in the address of the other.\<close>

definition sample_wish :: "sockaddr_in \<Rightarrow> sockaddr_in \<Rightarrow> world \<times> net_connect_request_packet" where
  "sample_wish remote own =
     (put_peer 0 ((blank_peer remote 0)\<lparr>m_connection_state := OUTGOING\<rparr>) sample_start,
      \<lparr>cr_connection_time = 0, cr_connection_number = 0, cr_target_address = own,
       cr_data = \<lparr>r_data = [], r_size = 0, r_position = 0\<rparr>, cr_peer_id = 0, cr_packet = None\<rparr>)"

definition loses :: "sockaddr_in \<Rightarrow> sockaddr_in \<Rightarrow> bool" where
  "loses remote own \<longleftrightarrow> peer_process_connect_request 0 (snd (sample_wish remote own)) (fst (sample_wish remote own)) =
     Some (P2P_LOSE, fst (sample_wish remote own))"

lemma tie_break_any_byte_witness:
  "loses (zero_sockaddr\<lparr>sin_port := 1\<rparr>) (zero_sockaddr\<lparr>s_addr := 1\<rparr>) \<and>
   loses (zero_sockaddr\<lparr>s_addr := 1\<rparr>) (zero_sockaddr\<lparr>sin_port := 1\<rparr>)"
proof -
  have lose: "loses a b" if "i < 16" "encode_sockaddr a ! i < encode_sockaddr b ! i" for a b i
    using tie_break_any_byte [of 0 "fst (sample_wish a b)" "(blank_peer a 0)\<lparr>m_connection_state := OUTGOING\<rparr>" "snd (sample_wish a b)"]
      that by (auto simp: sample_wish_def blank_peer_def loses_def)
  have "encode_sockaddr (zero_sockaddr\<lparr>sin_port := 1\<rparr>) ! 4 < encode_sockaddr (zero_sockaddr\<lparr>s_addr := 1\<rparr>) ! 4"
    "encode_sockaddr (zero_sockaddr\<lparr>s_addr := 1\<rparr>) ! 2 < encode_sockaddr (zero_sockaddr\<lparr>sin_port := 1\<rparr>) ! 2"
    by code_simp+
  then show ?thesis using lose [of 4] lose [of 2] by simp
qed

text \<open>A connected peer that was made by \<open>connect\<close> has no accept packet. A connect request with its own
  connect time makes the code read that packet: undefined behaviour, which the other end can cause.\<close>

lemma repeated_request_undefined:
  assumes "get_peer pp w = Some p" "m_connection_state p = CONNECTED" "m_connect_accept_packet p = None"
    "cr_connection_time r = m_connect_time p"
  shows "peer_process_connect_request pp r w = None"
  using assms by (simp add: peer_process_connect_request_def)

lemma repeated_request_undefined_witness:
  "\<exists>r. peer_process_connect_request 0 r sample_connected = None"
proof -
  obtain p where p: "get_peer 0 sample_connected = Some p" "m_connection_state p = CONNECTED" "m_connect_time p = 5"
    "m_connect_accept_packet p = None" by (rule sample_peer)
  have "\<exists>r :: net_connect_request_packet. cr_connection_time r = m_connect_time p"
    by (rule exI [of _ "r\<lparr>cr_connection_time := m_connect_time p\<rparr>" for r]) simp
  then show ?thesis using repeated_request_undefined [OF p(1,2,4)] by blast
qed

section \<open>Channel numbers\<close>

text \<open>The channel number of a received packet is checked with \<open>>\<close> against the number of channels: above
  it the packet is dropped, at it the access is outside the vector, which is undefined.\<close>

lemma received_channel_bound:
  assumes p: "get_peer pp w = Some p" and c: "channel_id packet = Some c"
  shows "(length (m_channels p) < unat c \<longrightarrow> process_channeled pp packet w = Some (pool_recycle packet w)) \<and>
     (unat c = length (m_channels p) \<longrightarrow> process_channeled pp packet w = None)"
  using assms by (simp add: process_channeled_def vget_def flip: uint_nat)

lemma received_channel_bound_witness:
  "process_channeled 0 \<lparr>m_data = [1, 0, 0, 4], m_size = 4, user_data = None\<rparr> sample_connected = None"
proof -
  obtain p where p: "get_peer 0 sample_connected = Some p" "length (m_channels p) = 4" by (rule sample_peer)
  have c: "channel_id \<lparr>m_data = [1, 0, 0, 4], m_size = 4, user_data = None\<rparr> = Some 4"
    by (simp add: channel_id_def rd8_def)
  show ?thesis using received_channel_bound [OF p(1) c] p(2) by simp
qed

text \<open>\<open>send\<close> compares the channel number, not the index computed from it, with the number of channels
  of all delivery methods: an application with one channel that sends on channel number 1 to 3 makes
  the code access memory behind the vector.\<close>

lemma sent_channel_unchecked:
  assumes "get_peer pp w = Some p" "m_connection_state p = CONNECTED" "unat c < length (m_channels p)"
    "dm \<noteq> UNRELIABLE_DELIVERY" "length (m_channels p) \<le> unat (c * of_nat CHANNEL_TYPE_COUNT + of_nat (delivery_code dm) :: u8)"
  shows "send_internal pp data off n c dm ud w = None"
  using assms by (simp add: send_internal_def Let_def create_channel_def vget_def)

lemma sent_channel_unchecked_witness:
  "send_internal 0 [1, 2, 3] 0 3 1 RELIABLE_ORDERED None sample_connected = None"
proof -
  obtain p where p: "get_peer 0 sample_connected = Some p" "m_connection_state p = CONNECTED" "length (m_channels p) = 4"
    by (rule sample_peer)
  show ?thesis
    by (rule sent_channel_unchecked [OF p(1,2)]) (use p(3) in \<open>simp_all add: CHANNEL_TYPE_COUNT_def\<close>)
qed

section \<open>Forced disconnection\<close>

text \<open>\<open>disconnect_peer\<close> with \<open>force\<close> set does not depend on the data of the shutdown packet: it is
  \<open>disconnect_peer_force\<close>.\<close>

lemma force_ignores_data:
  "disconnect_peer a reason e True data off n q w = disconnect_peer_force a reason e q w"
proof (cases "try_get_peer a w")
  case (Some pp)
  have "peer_shutdown pp data off n True w = shutdown_force pp w"
    by (cases "get_peer pp w") (simp_all add: peer_shutdown_def shutdown_force_def Let_def)
  with Some show ?thesis by (simp add: disconnect_peer_def disconnect_peer_force_def)
qed (simp add: disconnect_peer_def disconnect_peer_force_def)

section \<open>The pool\<close>

text \<open>A packet that the empty pool made is never put into the pool: its buffer has at least 2048 bytes
  and the pool only takes buffers of at most \<open>MAX_PACKET_SIZE\<close>; so while nothing else fills it, the pool stays
  empty.\<close>

lemma fresh_packet_not_pooled:
  assumes "m_packet_pool_head w = []" "pool_get_packet n w = (packet, w1)" "buffer_size packet \<le> buffer_size packet'"
  shows "w1 = w \<and> pool_recycle packet' w1 = w"
proof -
  have "w1 = w" "packet = resize n new_packet" using assms(1,2) by (simp_all add: pool_get_packet_def)
  moreover have "2048 \<le> buffer_size (resize n new_packet)"
    using ensure_length(2) [of "m_data new_packet" n] by (simp add: resize_def new_packet_buffer)
  ultimately show ?thesis using assms(3) by (simp add: pool_recycle_def MAX_PACKET_SIZE_def)
qed

lemma fresh_packet_not_pooled_witness:
  "pool_recycle (fst (pool_get_packet 10 sample_start)) sample_start = sample_start"
  using fresh_packet_not_pooled [of sample_start 10 "fst (pool_get_packet 10 sample_start)" sample_start]
  by (simp add: sample_start_def new_manager_def pool_get_packet_def)

section \<open>Events without automatic recycling\<close>

text \<open>With \<open>auto_recycle\<close> off, the assertion at the end of \<open>process_event\<close> fails for every event
  that was not recycled before, whatever the listener does: it is never given the event.\<close>

lemma unrecycled_event_asserts:
  assumes "app_listener listener" "manager_ok w" "\<not> auto_recycle w" "\<not> m_recycled e"
  shows "process_event listener e w = None"
proof (cases "event_callback e")
  case (Some cb)
  show ?thesis
  proof (cases "case cb of None \<Rightarrow> Some w | Some c \<Rightarrow> listener c w")
    case None
    with Some show ?thesis by (simp add: process_event_def)
  next
    case w1: (Some w1)
    have "app_step\<^sup>*\<^sup>* w w1" using assms(1) w1 by (auto simp: app_listener_def split: option.splits)
    then have "auto_recycle w1 = auto_recycle w" using app_steps_ok assms(2) by (auto simp: app_frame_def)
    then show ?thesis using Some w1 assms(3,4) by (simp add: process_event_def)
  qed
qed (simp add: process_event_def)

lemma unrecycled_event_asserts_witness:
  "process_event (\<lambda>c w. Some w) default_event (sample_start\<lparr>auto_recycle := False\<rparr>) = None"
proof (rule unrecycled_event_asserts)
  show "app_listener (\<lambda>c w. Some w)" by (simp add: app_listener_def)
  have "env_change sample_start (sample_start\<lparr>auto_recycle := False\<rparr>)"
    unfolding env_change_def sample_start_def
    by (rule exI [of _ 5], rule exI [of _ 0], rule exI [of _ "\<lambda>_. Inl 1"], rule exI [of _ True], rule exI [of _ False],
        rule exI [of _ False], rule exI [of _ 1], rule exI [of _ 5000], rule exI [of _ 15], rule exI [of _ 500],
        rule exI [of _ 10], rule exI [of _ 1000], rule exI [of _ False], rule exI [of _ False]) (simp add: new_manager_def)
  then show "manager_ok (sample_start\<lparr>auto_recycle := False\<rparr>)"
    using env_ok net.reach_inv [OF sample_reach(1)] by blast
qed (simp_all add: default_event_def)

end
