(* ===== verification/Manager_Properties.thy ===== *)
theory Manager_Properties
  imports Sample_World
begin

text \<open>
  The properties of the manager's table of peers, of its pool and of its events, in every reachable world.
\<close>

section \<open>The invariant\<close>

text \<open>C2: In every reachable world of a manager there is one list of peers that the links, the address map,
  the array of ids and the queue of free ids all agree on: each peer is linked in both directions, found under its
  address and under its id, and no id is lost or used twice. The packets of the pool are zeroed and within its bounds;
  every filed request exists under its address; every queued event can be processed.\<close>

theorem manager_invariant:
  assumes "reach init_world net_step w"
  shows "\<exists>pps. table_ok w [] pps \<and> pool_ok w \<and> requests_ok w \<and> events_ok w"
  using net.reach_inv [OF assms] unfolding manager_ok_def mgr_ok_def around_ok_def by blast

theorem manager_invariant_witness:
  "\<exists>pps. table_ok sample_accepted [] pps \<and> 1 \<in> set pps \<and> events_ok sample_accepted \<and>
     List.map ev_type (m_events_produce_queue sample_asked) = [EVENT_CONNECTION_REQUEST]"
proof -
  obtain pps where t: "table_ok sample_accepted [] pps" and e: "events_ok sample_accepted"
    using manager_invariant [OF sample_reach(4)] by (elim exE conjE)
  then have "1 \<in> set pps" using table_ok_lookup [OF t(1), of "akey sample_client" 1] sample_accepted_facts(2) by simp
  then show ?thesis using t e sample_asked_facts(2) by (intro exI [of _ pps]) simp
qed

text \<open>C34: Every peer of the table of a reachable world is well formed: it is filed under its address, its MTU is
  the entry of the table of MTUs its index names, hence at least the smallest and at most \<open>MAX_PACKET_SIZE\<close>, its merge buffer has
  room for a whole packet behind its position, and its ping and pong packets have the sizes of their headers.\<close>

theorem table_peer_type:
  assumes "reach init_world net_step w" "m_peers w k = Some pp"
  shows "\<exists>p. get_peer pp w = Some p \<and> akey (m_endpoint p) = k \<and>
     m_mtu_idx p < length POSSIBLE_MTU \<and> m_mtu p = POSSIBLE_MTU ! m_mtu_idx p \<and> POSSIBLE_MTU ! 0 \<le> m_mtu p \<and> m_mtu p \<le> MAX_PACKET_SIZE \<and>
     HEADER_SIZE + m_merge_pos p \<le> MAX_PACKET_SIZE \<and> MAX_PACKET_SIZE \<le> buffer_size (m_merge_data p) \<and>
     m_size (m_pong_packet p) = 11 \<and> m_size (m_ping_packet p) = 3"
proof -
  obtain pps where t: "table_ok w [] pps" using net.reach_inv [OF assms(1)] unfolding manager_ok_def mgr_ok_def by blast
  have pp: "pp \<in> set pps" "key_of w pp = k" using table_ok_lookup [OF t, of k pp] assms(2) by simp_all
  then obtain p where p: "peer_heap w pp = Some p" "peer_ok p" using table_okD(1) [OF t] by (auto simp: list_ok_def)
  have "akey (m_endpoint p) = k" using pp p by (simp add: key_of_def)
  moreover have "POSSIBLE_MTU ! 0 \<le> POSSIBLE_MTU ! i" if "i < length POSSIBLE_MTU" for i
    using that by (auto simp: POSSIBLE_MTU_def less_Suc_eq)
  ultimately show ?thesis using p mtu_ok_le [of p] by (auto simp: get_peer_def peer_ok_defs)
qed

theorem table_peer_type_witness:
  "\<exists>p. get_peer 0 sample_connected = Some p \<and> akey (m_endpoint p) = akey sample_server \<and> m_mtu p = POSSIBLE_MTU ! m_mtu_idx p"
  using table_peer_type [OF sample_reach(5) sample_connected_facts(3)] by auto

section \<open>Insertion and removal refine the list\<close>

text \<open>C18: Adding a peer refines insertion at the front of the list: for a fresh peer with an id that was drawn and an
  address that is not in the map, \<open>add_peer\<close> succeeds, whatever the id and the length of the array, and
  the links, the map, the array and the ids describe the longer list.\<close>

theorem add_peer_refines:
  assumes "table_ok w [i] pps" "fresh_peer w pp i" "pp \<notin> set pps"
  shows "\<exists>w'. add_peer pp w = Some w' \<and> table_ok w' [] (pp # pps)"
  using assms by (rule add_peer_ok)

theorem add_peer_refines_witness:
  "\<exists>w p pp w1 w'. get_next_peer_id sample_start = (0, w) \<and> new_peer 1 sample_server 0 = Some p \<and>
     alloc_peer p w = (pp, w1) \<and> add_peer pp w1 = Some w' \<and> table_ok w' [] [pp]"
proof -
  have start: "m_peers sample_start = Map.empty" "mgr_ok sample_start [] []"
  proof -
    show m: "m_peers sample_start = Map.empty" by (simp add: sample_start_def new_manager_def)
    obtain pps where pps: "mgr_ok sample_start [] pps" using net.reach_inv [OF sample_reach(1)] by (auto simp: manager_ok_def)
    then have "table_ok sample_start [] pps" by (simp add: mgr_ok_def)
    then have "pp \<notin> set pps" for pp using table_ok_lookup [of sample_start "[]" pps "key_of sample_start pp" pp] m by simp
    then have "pps = []" by (cases pps) auto
    with pps show "mgr_ok sample_start [] []" by simp
  qed
  obtain w where w: "get_next_peer_id sample_start = (0, w)"
    by (simp add: get_next_peer_id_def sample_start_def new_manager_def)
  obtain p where p: "new_peer 1 sample_server 0 = Some p" using new_peer_total by blast
  obtain pp w1 where w1: "alloc_peer p w = (pp, w1)" by fastforce
  have ok: "mgr_ok w [0] []" "m_peers w = Map.empty" using next_id_mgr [OF start(2) w] start(1) by simp_all
  note al = alloc_ok [OF ok(1) w1]
  have "fresh_peer w1 pp 0" using al new_peer_ok [OF p] ok(2) by (simp add: fresh_peer_def get_peer_def)
  moreover have "table_ok w1 [0] []" using al(1) by (simp add: mgr_ok_def)
  ultimately show ?thesis using add_peer_refines w p w1 by fastforce
qed

text \<open>C19: Removing a peer refines filtering the list by the address: \<open>remove_peer\<close> always succeeds, and the
  links, the map, the array and the free ids describe the list without the peer of that address.\<close>

theorem remove_peer_refines:
  assumes "table_ok w [] pps"
  shows "\<exists>w'. remove_peer addr w = Some w' \<and> table_ok w' [] (List.filter (\<lambda>pp. key_of w pp \<noteq> akey addr) pps) \<and>
     relinked w (peer_heap w')"
  using remove_peer_ok [OF assms, of addr] by (auto simp: remove_peer_def)

theorem remove_peer_refines_witness:
  "\<exists>pps w'. 0 \<in> set pps \<and> table_ok sample_outgoing [] pps \<and> remove_peer sample_server sample_outgoing = Some w' \<and>
     table_ok w' [] (List.filter (\<lambda>pp. key_of sample_outgoing pp \<noteq> akey sample_server) pps)"
proof -
  obtain pps where t: "table_ok sample_outgoing [] pps"
    using net.reach_inv [OF sample_reach(2)] unfolding manager_ok_def mgr_ok_def by blast
  then have "0 \<in> set pps" using table_ok_lookup [OF t, of "akey sample_server" 0] sample_outgoing_facts(2) by simp
  with t show ?thesis using remove_peer_refines [OF t] by blast
qed

section \<open>Events\<close>

text \<open>With \<open>auto_recycle\<close> on, \<open>poll_events\<close> never meets undefined behaviour or a failed assertion in a
  reachable world, for any listener whose callbacks only make calls of the library, and return
  in every world that satisfies the invariant; it empties the queue
  and leaves a world that satisfies the invariant.\<close>

lemma poll_events_safe:
  assumes "reach init_world net_step w" "auto_recycle w" "app_listener listener" "\<And>c w. manager_ok w \<Longrightarrow> listener c w \<noteq> None"
  shows "\<exists>w'. poll_events listener w = Some w' \<and> m_events_consume_queue w' = [] \<and> manager_ok w'"
proof -
  have ok: "manager_ok w" by (rule net.reach_inv [OF assms(1)])
  obtain w' where w': "poll_events listener w = Some w'" using poll_total [OF assms(3,4) ok assms(2)] by auto
  then have "m_events_consume_queue w' = []" by (auto simp: poll_events_def Let_def elim!: bind_SomeE)
  with w' poll_ok [OF assms(3) ok w'] show ?thesis by blast
qed

lemma poll_events_safe_witness:
  "\<exists>w'. poll_events (\<lambda>c w. Some w) sample_asked = Some w' \<and> m_events_consume_queue w' = [] \<and> manager_ok w'"
  by (rule poll_events_safe [OF sample_reach(3) sample_asked_facts(3)]) (simp_all add: app_listener_def)

end
