(* ===== verification/Merging.thy ===== *)
theory Merging
  imports Sample_World
begin

text \<open>
  Small packets are collected in the merge buffer of a peer and leave in one datagram, which the other
  end takes apart again.
\<close>

section \<open>The format\<close>

definition part_bytes :: "net_packet \<Rightarrow> bytes" where
  "part_bytes q = take (m_size q) (m_data q)"

definition merged_bytes :: "bytes list \<Rightarrow> bytes" where
  "merged_bytes bss = concat (List.map (\<lambda>bs. le_bytes 2 (of_nat (length bs) :: u16) @ bs) bss)"

lemma merged_bytes_simps [simp]:
  "merged_bytes [] = []"
  "merged_bytes (bs # bss) = le_bytes 2 (of_nat (length bs) :: u16) @ bs @ merged_bytes bss"
  "merged_bytes (bss @ css) = merged_bytes bss @ merged_bytes css"
  by (simp_all add: merged_bytes_def)

definition merge_holds :: "net_peer \<Rightarrow> bytes list \<Rightarrow> bool" where
  "merge_holds p bss \<longleftrightarrow> m_merge_count p = int (length bss) \<and> m_merge_pos p = length (merged_bytes bss) \<and>
     prefix (property_code MERGED # merged_bytes bss) (m_data (m_merge_data p))"

section \<open>Collecting\<close>

lemma copy_prefix:
  assumes "prefix pre (m_data p)" "length pre = i" "i + n \<le> buffer_size p" "n \<le> length src"
  obtains q where "copy_from src 0 i n p = Some q" "prefix (pre @ take n src) (m_data q)"
    "m_size q = m_size p" "buffer_size q = buffer_size p"
proof (cases "n = 0")
  case True
  with assms that [of p] show ?thesis by (simp add: copy_from_def)
next
  case False
  obtain q where "set_data p (wr_bytes (m_data p) i (take n src)) = Some q" "prefix (pre @ take n src) (m_data q)"
    "m_size q = m_size p" "buffer_size q = buffer_size p"
    using set_data_wr_prefix [OF assms(1,2), of "take n src"] assms(3,4) by auto
  with False that [of q] assms(4) show ?thesis by (simp add: copy_from_def rd_bytes_def)
qed

lemma collect_step:
  assumes p: "get_peer pp w = Some p" and ok: "peer_ok p" and h: "merge_holds p bss"
    and q: "wf_packet q" "HEADER_SIZE + m_size q + 2 + sizeTreshold < m_mtu p"
    and fits: "HEADER_SIZE + length (merged_bytes bss) + m_size q + 2 \<le> m_mtu p"
  shows "\<exists>p'. send_user_data pp q w = Some (set_connection_number (m_connect_number p) q, put_peer pp p' w) \<and>
     merge_holds p' (bss @ [part_bytes (set_connection_number (m_connect_number p) q)]) \<and>
     (\<exists>md n c. p' = p\<lparr>m_merge_data := md, m_merge_pos := n, m_merge_count := c\<rparr>)"
proof -
  let ?q = "set_connection_number (m_connect_number p) q" and ?md = "m_merge_data p"
  have fr: "m_size ?q = m_size q" "buffer_size ?q = buffer_size q" by (simp_all add: byte0_setters)
  have sz: "m_size q \<le> buffer_size q" using q(1) by (simp add: wf_packet_def)
  have mtu: "m_mtu p \<le> MAX_PACKET_SIZE" by (rule mtu_ok_le [OF peer_okD(1) [OF ok]])
  have buf: "buffer_size ?md = 2048" using peer_okD(2) [OF ok] by (simp add: merge_ok_def)
  let ?pre = "property_code MERGED # merged_bytes bss"
  have pre: "prefix ?pre (m_data ?md)" "length ?pre = m_merge_pos p + HEADER_SIZE"
    using h by (simp_all add: merge_holds_def)
  let ?n = "of_nat (m_size q) :: u16"
  obtain md1 where md1: "set_u16_at ?n (m_merge_pos p + HEADER_SIZE) ?md = Some md1"
    "prefix (?pre @ le_bytes 2 ?n) (m_data md1)" "buffer_size md1 = 2048"
    using set_data_wr_prefix [OF pre, of "le_bytes 2 ?n"] buf fits mtu pre(2)
    by (auto simp: set_u16_at_def wr16_def)
  obtain md2 where md2: "copy_from (m_data ?q) 0 (m_merge_pos p + HEADER_SIZE + 2) (m_size q) md1 = Some md2"
    "prefix ((?pre @ le_bytes 2 ?n) @ take (m_size q) (m_data ?q)) (m_data md2)"
    using copy_prefix [OF md1(2), of "m_merge_pos p + HEADER_SIZE + 2" "m_size q" "m_data ?q"] md1(3) pre(2) fits mtu sz fr
    by auto
  let ?p' = "p\<lparr>m_merge_data := md2, m_merge_pos := m_merge_pos p + m_size q + 2, m_merge_count := m_merge_count p + 1\<rparr>"
  have "send_user_data pp q w = Some (?q, put_peer pp ?p' w)"
    using p q(2) fits pre(2) md1 md2 fr by (simp add: send_user_data_def Let_def)
  moreover have "merge_holds ?p' (bss @ [part_bytes ?q])"
    using h md2 fr sz by (simp add: merge_holds_def part_bytes_def)
  ultimately show ?thesis by blast
qed

fun send_all :: "nat \<Rightarrow> net_packet list \<Rightarrow> world \<Rightarrow> world option" where
  "send_all pp [] w = Some w"
| "send_all pp (q # qs) w = do { (_, w1) \<leftarrow> send_user_data pp q w; send_all pp qs w1 }"

lemma collect_all:
  assumes "get_peer pp w = Some p" "peer_ok p" "merge_holds p bss"
    and "\<forall>q \<in> set qs. wf_packet q \<and> HEADER_SIZE + m_size q + 2 + sizeTreshold < m_mtu p"
    and "HEADER_SIZE + length (merged_bytes bss) + (\<Sum>q\<leftarrow>qs. m_size q + 2) \<le> m_mtu p"
  shows "\<exists>p'. send_all pp qs w = Some (put_peer pp p' w) \<and> m_endpoint p' = m_endpoint p \<and> peer_ok p' \<and>
     merge_holds p' (bss @ List.map (\<lambda>q. part_bytes (set_connection_number (m_connect_number p) q)) qs)"
  using assms
proof (induction qs arbitrary: w p bss)
  case Nil
  have "put_peer pp p w = w" using Nil.prems(1) by (simp add: put_peer_def get_peer_def fun_upd_idem)
  with Nil show ?case by (intro exI [of _ p]) simp
next
  case (Cons q qs)
  let ?bs = "part_bytes (set_connection_number (m_connect_number p) q)"
  obtain p1 md n c where p1: "send_user_data pp q w = Some (set_connection_number (m_connect_number p) q, put_peer pp p1 w)"
    and h1: "merge_holds p1 (bss @ [?bs])" and e: "p1 = p\<lparr>m_merge_data := md, m_merge_pos := n, m_merge_count := c\<rparr>"
    using collect_step [OF Cons.prems(1-3), of q] Cons.prems(4,5) by auto
  have l: "length ?bs = m_size q" using Cons.prems(4) by (simp add: part_bytes_def wf_packet_def byte0_setters)
  have "quiet w (put_peer pp p1 w)" by (rule quiet.send_user_data_R [OF p1])
  then have "rel_option peer_evolves (peer_heap w pp) (peer_heap (put_peer pp p1 w) pp)" by (simp add: quiet_def tables_def)
  then have ok1: "peer_ok p1" using Cons.prems(1,2) by (simp add: get_peer_def put_peer_def peer_evolves_def)
  obtain p' where "send_all pp qs (put_peer pp p1 w) = Some (put_peer pp p' (put_peer pp p1 w))" "m_endpoint p' = m_endpoint p1"
    "peer_ok p'" "merge_holds p' ((bss @ [?bs]) @ List.map (\<lambda>q. part_bytes (set_connection_number (m_connect_number p1) q)) qs)"
    using Cons.IH [OF get_put_peer ok1 h1] Cons.prems(4,5) l e by auto
  moreover have "put_peer pp p' (put_peer pp p1 w) = put_peer pp p' w" by (simp add: put_peer_def)
  ultimately show ?case using p1 e by (intro exI [of _ p']) simp
qed

lemma flush:
  assumes p: "get_peer pp w = Some p" and ok: "peer_ok p" and h: "merge_holds p bss" and two: "2 \<le> length bss"
    and sends: "m_running w" "sendto w (sends w) = Inl n"
  shows "\<exists>w'. send_merged pp w = Some w' \<and> wire w' = wire w @ [(m_endpoint p, property_code MERGED # merged_bytes bss)] \<and>
     (\<exists>p'. get_peer pp w' = Some p' \<and> merge_holds p' [])"
proof -
  let ?d = "property_code MERGED # merged_bytes bss"
  have rd: "rd_bytes (m_data (m_merge_data p)) 0 (HEADER_SIZE + m_merge_pos p) = Some ?d"
    using prefix_rd_bytes [of ?d "m_data (m_merge_data p)" 0 "length ?d"] h by (simp add: merge_holds_def)
  let ?w1 = "w\<lparr>sends := sends w + 1, wire := wire w @ [(m_endpoint p, ?d)]\<rparr>"
  have s: "send_raw (m_data (m_merge_data p)) 0 (HEADER_SIZE + m_merge_pos p) (m_endpoint p) w = Some (n, ?w1)"
    using rd sends by (simp add: send_raw_def)
  have c: "m_merge_count p > 1" using h two by (simp add: merge_holds_def)
  have "prefix [property_code MERGED] (m_data (m_merge_data p))" using h by (auto simp: merge_holds_def prefix_def)
  then have "merge_holds (p\<lparr>m_merge_pos := 0, m_merge_count := 0\<rparr>) []" by (simp add: merge_holds_def)
  then show ?thesis
    using p s c by (simp add: send_merged_def modify_peer_def get_peer_def put_peer_def)
qed

section \<open>Taking apart\<close>

fun unpack :: "nat \<Rightarrow> bytes list \<Rightarrow> world \<Rightarrow> world option" where
  "unpack pp [] w = Some w"
| "unpack pp (bs # bss) w =
     (let (mp, w1) = pool_get_packet (length bs) w
      in do { w2 \<leftarrow> peer_process_packet pp (mp\<lparr>m_data := bs @ drop (length bs) (m_data mp)\<rparr>) w1; unpack pp bss w2 })"

definition verified :: "bytes \<Rightarrow> bool" where
  "verified bs \<longleftrightarrow> bs \<noteq> [] \<and> length bs < 65536 \<and> verify \<lparr>m_data = bs, m_size = length bs, user_data = None\<rparr>"

lemma verify_cong: "byte0 p = byte0 q \<Longrightarrow> m_size p = m_size q \<Longrightarrow> verify p = verify q"
  by (simp add: verify_def)

lemma take_apart:
  assumes "prefix (pre @ merged_bytes bss) (m_data packet)" "m_size packet = length pre + length (merged_bytes bss)"
    and "\<forall>bs \<in> set bss. verified bs"
  shows "process_packet_at pp packet (Some (length pre)) w =
     unpack pp bss w \<bind> (\<lambda>w'. Some (pool_recycle packet w'))"
  using assms
proof (induction bss arbitrary: pre w)
  case Nil
  then show ?case by (subst process_packet_at.simps) simp
next
  case (Cons bs bss)
  have v: "bs \<noteq> []" "length bs < 65536" "verify \<lparr>m_data = bs, m_size = length bs, user_data = None\<rparr>"
    using Cons.prems(3) by (simp_all add: verified_def)
  let ?n = "of_nat (length bs) :: u16"
  have n: "unat ?n = length bs" using v(2) by (simp add: unsigned_of_nat take_bit_nat_eq_self)
  obtain rest where data: "m_data packet = pre @ le_bytes 2 ?n @ bs @ merged_bytes bss @ rest"
    using Cons.prems(1) by (auto simp: prefix_def)
  have pos: "length pre < m_size packet" using Cons.prems(2) by simp
  have rd: "rd16 (m_data packet) (length pre) = Some ?n" by (simp add: rd16_def rd_bytes_def data)
  have small: "\<not> usub (buffer_size packet) (length pre + 2) < unat ?n" by (simp add: data n)
  obtain mp w1 where mp: "pool_get_packet (length bs) w = (mp, w1)" by fastforce
  have mps: "m_size mp = length bs" "length bs \<le> buffer_size mp"
    using mp ensure_length(1) by (auto simp: pool_get_packet_def split: list.splits)
  let ?q = "mp\<lparr>m_data := bs @ drop (length bs) (m_data mp)\<rparr>"
  have copy: "copy_from (m_data packet) (length pre + 2) 0 (length bs) mp = Some ?q"
    using v(1) mps(2) by (simp add: copy_from_def rd_bytes_def data wr_bytes_def set_data_def)
  have "verify ?q = verify \<lparr>m_data = bs, m_size = length bs, user_data = None\<rparr>"
    using v(1) mps(1) by (intro verify_cong) (cases bs; simp add: byte0_def)+
  then have ver: "verify ?q" using v(3) by simp
  let ?pre = "pre @ le_bytes 2 ?n @ bs"
  have IH: "process_packet_at pp packet (Some (length ?pre)) w2 = unpack pp bss w2 \<bind> (\<lambda>w'. Some (pool_recycle packet w'))" for w2
    by (rule Cons.IH) (use Cons.prems in simp_all)
  have IH': "process_packet_at pp packet (Some (length ?pre)) = (\<lambda>w2. unpack pp bss w2 \<bind> (\<lambda>w'. Some (pool_recycle packet w')))"
    by (rule ext) (rule IH)
  have len: "length pre + 2 + unat ?n = length ?pre" by (simp add: n)
  show ?case
    using pos rd small copy ver mp n len IH'
    by (subst process_packet_at.simps) (simp add: peer_process_packet_def Let_def)
qed


lemma merged_header:
  assumes "prefix (property_code MERGED # bs) (m_data packet)"
  shows "property packet = MERGED" "connection_number packet = 0" "property packet \<noteq> SHUTDOWN_OK"
proof -
  have b: "byte0 packet = property_code MERGED" by (rule prefix_byte0 [OF assms])
  have "property_code MERGED AND 0x1F = property_code MERGED" "property_code MERGED AND 0x60 = 0" by simp_all
  then show "property packet = MERGED" "connection_number packet = 0"
    using b property_of_code_code [of MERGED] by (simp_all add: property_def connection_number_def named_property_def)
  then show "property packet \<noteq> SHUTDOWN_OK" by simp
qed

text \<open>C13: Merging loses nothing and changes nothing, for a connection with number 0: two or more small packets that fit into one
  datagram leave the sender together when the merge buffer is flushed, and a connected peer takes the datagram apart
  into exactly those packets, in order, and handles each as if it had come alone. But the datagram itself carries the
  connection number 0, whatever the number of the connection: every other peer drops it, and the packets in it.\<close>

theorem merging_roundtrip:
  assumes "get_peer pp w = Some p" "peer_ok p" "merge_holds p []" "2 \<le> length qs"
    and "\<forall>q \<in> set qs. wf_packet q \<and> verify q \<and> 0 < m_size q \<and> HEADER_SIZE + m_size q + 2 + sizeTreshold < m_mtu p"
    and "HEADER_SIZE + (\<Sum>q\<leftarrow>qs. m_size q + 2) \<le> m_mtu p"
    and "m_connect_number p < 4" "m_running w" "sendto w (sends w) = Inl n"
    and r: "get_peer rp v = Some r" "m_connection_state r = CONNECTED"
  shows "\<exists>w1 w2 d. send_all pp qs w = Some w1 \<and> send_merged pp w1 = Some w2 \<and> wire w2 = wire w @ [(m_endpoint p, d)] \<and>
     (\<forall>packet. prefix d (m_data packet) \<and> m_size packet = length d \<longrightarrow>
        peer_process_packet rp packet v =
          (if m_connect_number r = 0
           then unpack rp (List.map (\<lambda>q. part_bytes (set_connection_number (m_connect_number p) q)) qs)
                  (put_peer rp (r\<lparr>m_time_since_last_packet := 0\<rparr>) v) \<bind> (\<lambda>v'. Some (pool_recycle packet v'))
           else Some (pool_recycle packet v)))"
proof -
  let ?bss = "List.map (\<lambda>q. part_bytes (set_connection_number (m_connect_number p) q)) qs"
  obtain p1 where p1: "send_all pp qs w = Some (put_peer pp p1 w)" "m_endpoint p1 = m_endpoint p" "peer_ok p1" "merge_holds p1 ?bss"
    using collect_all [OF assms(1-3), of qs] assms(5,6) by auto
  let ?w1 = "put_peer pp p1 w" and ?d = "property_code MERGED # merged_bytes ?bss"
  obtain w2 where w2: "send_merged pp ?w1 = Some w2" "wire w2 = wire w @ [(m_endpoint p, ?d)]"
    using flush [OF get_put_peer [of pp p1 w] p1(3,4), of n] assms(4,8,9) p1(2) by (auto simp: put_peer_def)
  have mtu: "m_mtu p \<le> MAX_PACKET_SIZE" by (rule mtu_ok_le [OF peer_okD(1) [OF assms(2)]])
  have ver: "verified (part_bytes (set_connection_number (m_connect_number p) q))" if "q \<in> set qs" for q
  proof -
    let ?q = "set_connection_number (m_connect_number p) q"
    have q: "wf_packet q" "verify q" "m_size q < 65536" using assms(5) that mtu by fastforce+
    have ne: "m_data q \<noteq> []" "m_size ?q = m_size q" "buffer_size ?q = buffer_size q" "m_size q \<le> buffer_size q"
      using q(1) by (simp_all add: wf_packet_def byte0_setters)
    have vq: "verify ?q"
      using q(2) ne by (simp add: verify_iff property_set_connection_number is_fragmented_set_connection_number
          small_connection_number [OF assms(7)])
    have "0 < m_size q" using assms(5) that by blast
    then have t: "part_bytes ?q \<noteq> []" "length (part_bytes ?q) = m_size q"
      "byte0 \<lparr>m_data = part_bytes ?q, m_size = m_size q, user_data = None\<rparr> = byte0 ?q"
      using ne by (auto simp: part_bytes_def byte0_def take_Cons' split: list.splits)
    have "verify \<lparr>m_data = part_bytes ?q, m_size = m_size q, user_data = None\<rparr> = verify ?q"
      by (rule verify_cong) (simp_all add: t ne)
    then show ?thesis using vq t q(3) by (simp add: verified_def)
  qed
  have "peer_process_packet rp packet v =
          (if m_connect_number r = 0
           then unpack rp ?bss (put_peer rp (r\<lparr>m_time_since_last_packet := 0\<rparr>) v) \<bind> (\<lambda>v'. Some (pool_recycle packet v'))
           else Some (pool_recycle packet v))"
    if d: "prefix ?d (m_data packet)" "m_size packet = length ?d" for packet
  proof -
    note h = merged_header [OF d(1)]
    have "process_packet_at rp packet (Some HEADER_SIZE) v1 = unpack rp ?bss v1 \<bind> (\<lambda>v'. Some (pool_recycle packet v'))" for v1
      using take_apart [of "[property_code MERGED]" ?bss packet rp v1] d ver by simp
    then show ?thesis
      using r h unfolding peer_process_packet_def
      by (subst process_packet_at.simps) (auto simp: admit_packet_def Let_def)
  qed
  then show ?thesis using p1(1) w2 by blast
qed

theorem merging_roundtrip_witness:
  "\<exists>p w1 w2 d packet. new_peer 1 sample_server 0 = Some p \<and>
     send_all 0 [\<lparr>m_data = [0, 10], m_size = 2, user_data = None\<rparr>, \<lparr>m_data = [0, 20], m_size = 2, user_data = None\<rparr>]
       (put_peer 0 p sample_start) = Some w1 \<and> send_merged 0 w1 = Some w2 \<and>
     wire w2 = [(sample_server, d)] \<and> m_data packet = d \<and> m_size packet = length d \<and>
     peer_process_packet 0 packet (put_peer 0 p sample_start) =
       unpack 0 [[0, 10], [0, 20]] (put_peer 0 (p\<lparr>m_time_since_last_packet := 0\<rparr>) (put_peer 0 p sample_start))
         \<bind> (\<lambda>v'. Some (pool_recycle packet v'))"
proof -
  obtain p where p: "new_peer 1 sample_server 0 = Some p" using new_peer_total by blast
  note ok = new_peer_ok [OF p]
  have f: "m_merge_pos p = 0" "m_merge_count p = 0" "m_merge_data p = new_packet_with MERGED MAX_PACKET_SIZE"
    "m_connect_number p = 0" "m_connection_state p = CONNECTED" "m_mtu p = 508"
    using p by (auto simp: new_peer_def reset_mtu_def set_mtu_def blank_peer_def POSSIBLE_MTU_def elim!: bind_SomeE)
  have "prefix [property_code MERGED] (m_data (m_merge_data p))"
    unfolding f by (rule new_packet_with_head) (simp_all add: named_property_def)
  then have m: "merge_holds p []" by (simp add: merge_holds_def f)
  let ?q = "\<lambda>b. \<lparr>m_data = [0 :: u8, b], m_size = 2, user_data = None :: nat option\<rparr>"
  let ?qs = "[?q 10, ?q 20]" and ?w = "put_peer 0 p sample_start"
  have v: "wf_packet (?q b)" "verify (?q b)" "part_bytes (set_connection_number 0 (?q b)) = [0, b]" for b
    by (simp_all add: wf_packet_def verify_def byte0_def PROPERTY_COUNT_def HEADER_SIZES_def part_bytes_def
        set_connection_number_def upd_byte0_def)
  have s: "m_running ?w" "sendto ?w (sends ?w) = Inl 1" "wire ?w = []" by (simp_all add: put_peer_def sample_start_def new_manager_def)
  have g: "get_peer 0 ?w = Some p" by simp
  obtain w1 w2 d where r: "send_all 0 ?qs ?w = Some w1" "send_merged 0 w1 = Some w2" "wire w2 = wire ?w @ [(m_endpoint p, d)]"
    and u: "\<And>packet. prefix d (m_data packet) \<and> m_size packet = length d \<Longrightarrow> peer_process_packet 0 packet ?w =
      (if m_connect_number p = 0
           then unpack 0 (List.map (\<lambda>q. part_bytes (set_connection_number (m_connect_number p) q)) ?qs)
                  (put_peer 0 (p\<lparr>m_time_since_last_packet := 0\<rparr>) ?w) \<bind> (\<lambda>v'. Some (pool_recycle packet v'))
           else Some (pool_recycle packet ?w))"
    using merging_roundtrip [OF g ok(1) m, of ?qs, OF _ _ _ _ s(1,2) g f(5)] v f(4,6) by (auto simp: sizeTreshold_def)
  have "peer_process_packet 0 \<lparr>m_data = d, m_size = length d, user_data = None\<rparr> ?w =
       unpack 0 [[0, 10], [0, 20]] (put_peer 0 (p\<lparr>m_time_since_last_packet := 0\<rparr>) ?w)
         \<bind> (\<lambda>v'. Some (pool_recycle \<lparr>m_data = d, m_size = length d, user_data = None\<rparr> v'))"
    using u [of "\<lparr>m_data = d, m_size = length d, user_data = None\<rparr>"] f(4) v(3) by simp
  then show ?thesis
    using p r ok(5) s(3)
    by (intro exI [of _ p] exI [of _ w1] exI [of _ w2] exI [of _ d] exI [of _ "\<lparr>m_data = d, m_size = length d, user_data = None\<rparr>"]) simp
qed

end
