(* ===== verification/Fragments.thy ===== *)
theory Fragments
  imports Sample_World Reliable_Sender
begin

text \<open>
  A message that does not fit into one packet is cut into fragments, which the other end puts together
  again, in whatever order they arrive.
\<close>

section \<open>Fragments\<close>

definition is_fragment :: "u8 \<Rightarrow> u16 \<Rightarrow> nat \<Rightarrow> nat \<Rightarrow> net_packet \<Rightarrow> bool" where
  "is_fragment c fid n k f \<longleftrightarrow> is_fragmented f \<and> channel_id f = Some c \<and> fragment_id f = Some fid \<and>
     fragment_part f = Some (of_nat k) \<and> total_fragments f = Some (of_nat n) \<and>
     FRAGMENTED_HEADER_TOTAL_SIZE \<le> m_size f \<and> m_size f \<le> buffer_size f"

definition payload :: "net_packet \<Rightarrow> bytes" where
  "payload f = drop FRAGMENTED_HEADER_TOTAL_SIZE (take (m_size f) (m_data f))"

lemma length_payload:
  "is_fragment c fid n k f \<Longrightarrow> length (payload f) = m_size f - FRAGMENTED_HEADER_TOTAL_SIZE"
  by (simp add: payload_def is_fragment_def)

section \<open>Putting together\<close>

lemma world_frame_pool:
  "m_events_produce_queue (pool_recycle q w) = m_events_produce_queue w" "m_peers (pool_recycle q w) = m_peers w"
  "get_peer pp (pool_recycle q w) = get_peer pp w"
  "m_events_produce_queue (snd (pool_get_packet n w)) = m_events_produce_queue w"
  "m_peers (snd (pool_get_packet n w)) = m_peers w" "get_peer pp (snd (pool_get_packet n w)) = get_peer pp w"
  by (simp_all add: pool_recycle_def pool_get_packet_def get_peer_def split: list.splits)

lemma put_peer_frame [simp]:
  "m_events_produce_queue (put_peer pp p w) = m_events_produce_queue w" "m_peers (put_peer pp p w) = m_peers w"
  by (simp_all add: put_peer_def)

lemma assemble_ok:
  assumes "\<forall>f \<in> set fs. \<exists>k. is_fragment c fid n k f"
    and "prefix acc (m_data result)" "length acc = pos" "pos + length (concat (List.map payload fs)) \<le> buffer_size result"
  shows "\<exists>q w'. assemble (List.map Some fs) result pos w = Some (Some q, w') \<and>
     prefix (acc @ concat (List.map payload fs)) (m_data q) \<and> m_size q = m_size result \<and>
     m_events_produce_queue w' = m_events_produce_queue w \<and> m_peers w' = m_peers w \<and> get_peer pp w' = get_peer pp w"
  using assms
proof (induction fs arbitrary: acc result pos w)
  case (Cons f fs)
  let ?n = "m_size f - FRAGMENTED_HEADER_TOTAL_SIZE"
  obtain k where f: "is_fragment c fid n k f" using Cons.prems(1) by auto
  then have sz: "FRAGMENTED_HEADER_TOTAL_SIZE \<le> m_size f" "m_size f \<le> buffer_size f" and l: "length (payload f) = ?n"
    using length_payload by (simp_all add: is_fragment_def)
  have fit: "pos + ?n \<le> buffer_size result" using Cons.prems(4) l by simp
  obtain r where r: "copy_from (m_data f) FRAGMENTED_HEADER_TOTAL_SIZE pos ?n result = Some r"
    "prefix (acc @ payload f) (m_data r)" "m_size r = m_size result" "buffer_size r = buffer_size result"
  proof (cases "?n = 0")
    case True
    then have "payload f = []" using l by simp
    with True that [of result] Cons.prems(2) show ?thesis by (simp add: copy_from_def)
  next
    case False
    have "rd_bytes (m_data f) FRAGMENTED_HEADER_TOTAL_SIZE ?n = Some (payload f)"
      using sz by (simp add: rd_bytes_def payload_def drop_take)
    moreover obtain r where "set_data result (wr_bytes (m_data result) pos (payload f)) = Some r" "prefix (acc @ payload f) (m_data r)"
      "m_size r = m_size result" "buffer_size r = buffer_size result"
      using set_data_wr_prefix [OF Cons.prems(2,3), of "payload f"] fit l by auto
    ultimately show ?thesis using that [of r] False by (simp add: copy_from_def)
  qed
  obtain q w' where "assemble (List.map Some fs) r (pos + ?n) (pool_recycle f w) = Some (Some q, w')"
    "prefix ((acc @ payload f) @ concat (List.map payload fs)) (m_data q)" "m_size q = m_size r"
    "m_events_produce_queue w' = m_events_produce_queue (pool_recycle f w)" "m_peers w' = m_peers (pool_recycle f w)"
    "get_peer pp w' = get_peer pp (pool_recycle f w)"
    using Cons.IH [OF _ r(2), of "pos + ?n" "pool_recycle f w"] Cons.prems(1,3,4) l r(4) by auto
  then show ?case using r sz fit by (simp add: Let_def world_frame_pool del: size_consts)
qed simp

text \<open>What is held while some of the fragments \<open>fs\<close>, those with an index in \<open>S\<close>, have arrived.\<close>

definition held :: "u8 \<Rightarrow> net_packet list \<Rightarrow> nat set \<Rightarrow> incoming_fragments" where
  "held c fs S = \<lparr>fragments = List.map (\<lambda>k. if k \<in> S then Some (fs ! k) else None) [0..<length fs],
     received_count = int (card S), total_size = (\<Sum>k \<in> S. length (payload (fs ! k))), frag_channel_id = c\<rparr>"

lemma hold_step:
  assumes f: "is_fragment c fid (length fs) k (fs ! k)" and k: "k < length fs" "k \<notin> S" "S \<subseteq> {..<length fs}" "length fs < 65536"
    and tot: "(\<Sum>k < length fs. length (payload (fs ! k))) < 2 ^ 64"
  shows "hold_fragment (fs ! k) (held c fs S) = Some (Some (held c fs (insert k S)))"
proof -
  have fin: "finite S" using k(3) finite_subset by blast
  have u: "unat (of_nat k :: u16) = k" using k(1,4) by (simp add: unsigned_of_nat take_bit_nat_eq_self)
  have "(\<Sum>k \<in> insert k S. length (payload (fs ! k))) \<le> (\<Sum>k < length fs. length (payload (fs ! k)))"
    using k by (intro sum_mono2) auto
  then have "(\<Sum>k \<in> S. length (payload (fs ! k))) + length (payload (fs ! k)) < 2 ^ 64" using tot fin k(2) by simp
  moreover have "usub (m_size (fs ! k)) FRAGMENTED_HEADER_TOTAL_SIZE = length (payload (fs ! k))"
    using f length_payload [OF f] by (simp add: is_fragment_def del: size_consts)
  ultimately have t: "((\<Sum>k \<in> S. length (payload (fs ! k))) + usub (m_size (fs ! k)) FRAGMENTED_HEADER_TOTAL_SIZE) mod 2 ^ 64 =
      (\<Sum>k \<in> insert k S. length (payload (fs ! k)))" using fin k(2) by simp
  have l: "(List.map (\<lambda>k. if k \<in> S then Some (fs ! k) else None) [0..<length fs])[k := Some (fs ! k)] =
      List.map (\<lambda>j. if j \<in> insert k S then Some (fs ! j) else None) [0..<length fs]"
    using k(1,2) by (intro nth_equalityI) (auto simp: nth_list_update)
  show ?thesis
    using f k u fin t l by (simp add: hold_fragment_def is_fragment_def held_def del: size_consts)
qed

fun add_all :: "nat \<Rightarrow> delivery_method \<Rightarrow> net_packet list \<Rightarrow> world \<Rightarrow> world option" where
  "add_all pp dm [] w = Some w"
| "add_all pp dm (f # fs) w = do { w1 \<leftarrow> add_reliable_packet pp dm f w; add_all pp dm fs w1 }"

definition message_event :: "net_packet list \<Rightarrow> delivery_method \<Rightarrow> u8 \<Rightarrow> nat option \<Rightarrow> net_event \<Rightarrow> bool" where
  "message_event fs dm c peer e \<longleftrightarrow> ev_type e = EVENT_RECEIVE \<and> deliveryMethod e = dm \<and>
     channelNumber e = c div of_nat CHANNEL_TYPE_COUNT \<and> ev_peer e = peer \<and>
     (\<exists>r. ev_reader e = Some r \<and> r_position r = 0 \<and> take (r_size r) (r_data r) = concat (List.map payload fs))"

lemma sum_nth_payload: "(\<Sum>k < length fs. length (payload (fs ! k))) = length (concat (List.map payload fs))"
  by (simp add: length_concat sum_list_sum_nth comp_def atLeast0LessThan)

lemma last_fragment:
  assumes fs: "\<forall>k < length fs. is_fragment c fid (length fs) k (fs ! k)" and q: "p2 = p\<lparr>m_holded_fragments := (m_holded_fragments p)(fid := None)\<rparr>"
  shows "\<exists>w'. (do {
              let (resultingPacket, w1) = pool_get_packet (total_size (held c fs {..<length fs})) (put_peer pp p2 w);
              (result, w2) \<leftarrow> assemble (fragments (held c fs {..<length fs})) resultingPacket 0 w1;
              (case result of
                 None \<Rightarrow> Some w2
               | Some q \<Rightarrow> create_receive_event q dm (c div of_nat CHANNEL_TYPE_COUNT) 0 (m_endpoint p) w2)
            }) = Some w' \<and> get_peer pp w' = Some p2 \<and>
     (\<exists>e. m_events_produce_queue w' = m_events_produce_queue w @ [e] \<and> message_event fs dm c (m_peers w (akey (m_endpoint p))) e)"
proof -
  let ?n = "length (concat (List.map payload fs))"
  have tot: "total_size (held c fs {..<length fs}) = ?n" by (simp add: held_def sum_nth_payload)
  have frs: "fragments (held c fs {..<length fs}) = List.map Some fs"
    by (intro nth_equalityI) (simp_all add: held_def)
  obtain r w1 where r: "pool_get_packet ?n (put_peer pp p2 w) = (r, w1)" by fastforce
  then have rs: "m_size r = ?n" "?n \<le> buffer_size r"
    using ensure_length(1) by (auto simp: pool_get_packet_def split: list.splits)
  have w1: "m_events_produce_queue w1 = m_events_produce_queue w" "m_peers w1 = m_peers w" "get_peer pp w1 = Some p2"
    using world_frame_pool(4-6) [where n = ?n and w = "put_peer pp p2 w"] r by simp_all
  have "\<forall>f \<in> set fs. \<exists>k. is_fragment c fid (length fs) k f" using fs by (fastforce simp: in_set_conv_nth)
  then obtain q w2 where q: "assemble (List.map Some fs) r 0 w1 = Some (Some q, w2)"
    "prefix (concat (List.map payload fs)) (m_data q)" "m_size q = ?n"
    "m_events_produce_queue w2 = m_events_produce_queue w1" "m_peers w2 = m_peers w1" "get_peer pp w2 = get_peer pp w1"
    using assemble_ok [of fs c fid "length fs" "[]" r 0 w1 pp] rs by auto
  have "take ?n (m_data q) = concat (List.map payload fs)" using q(2) by (auto simp: prefix_def)
  then show ?thesis
    using r q w1 tot frs
    by (simp add: create_receive_event_def create_event_def try_get_peer_def message_event_def default_event_def get_peer_def)
qed


lemma held_empty: "\<lparr>fragments = replicate (length fs) None, received_count = 0, total_size = 0, frag_channel_id = c\<rparr> = held c fs {}"
  by (simp add: held_def map_replicate_const)

definition holding :: "net_peer \<Rightarrow> u16 \<Rightarrow> u8 \<Rightarrow> net_packet list \<Rightarrow> nat set \<Rightarrow> net_peer" where
  "holding p fid c fs S = (if S = {} then p else p\<lparr>m_holded_fragments := (m_holded_fragments p)(fid \<mapsto> held c fs S)\<rparr>)"

lemma add_step:
  assumes none: "m_holded_fragments p fid = None" and pp: "get_peer pp w = Some (holding p fid c fs S)"
    and fs: "\<forall>k < length fs. is_fragment c fid (length fs) k (fs ! k)" "length fs < 65536"
    and tot: "length (concat (List.map payload fs)) < 2 ^ 64"
    and k: "k < length fs" "k \<notin> S" "S \<subseteq> {..<length fs}"
  shows "\<exists>w'. add_reliable_packet pp dm (fs ! k) w = Some w' \<and>
     (if insert k S = {..<length fs} then get_peer pp w' = Some p \<and>
        (\<exists>e. m_events_produce_queue w' = m_events_produce_queue w @ [e] \<and> message_event fs dm c (m_peers w (akey (m_endpoint p))) e)
      else get_peer pp w' = Some (holding p fid c fs (insert k S)) \<and> m_events_produce_queue w' = m_events_produce_queue w \<and>
        m_peers w' = m_peers w)"
proof -
  let ?h = "holding p fid c fs S" and ?f = "fs ! k"
  have f: "is_fragment c fid (length fs) k ?f" using fs(1) k(1) by blast
  then have fr: "is_fragmented ?f" "channel_id ?f = Some c" "fragment_id ?f = Some fid" "total_fragments ?f = Some (of_nat (length fs))"
    by (simp_all add: is_fragment_def)
  have n: "unat (of_nat (length fs) :: u16) = length fs" using fs(2) by (simp add: unsigned_of_nat take_bit_nat_eq_self)
  have inc: "(case m_holded_fragments ?h fid of
           Some inc \<Rightarrow> Some inc
         | None \<Rightarrow> do {
             total \<leftarrow> total_fragments ?f;
             Some \<lparr>fragments = replicate (unat total) None, received_count = 0, total_size = 0, frag_channel_id = c\<rparr>
           }) = Some (held c fs S)"
    using none fr n held_empty [of fs c] by (simp add: holding_def)
  have hold: "hold_fragment ?f (held c fs S) = Some (Some (held c fs (insert k S)))"
    using hold_step [OF f k fs(2)] tot by (simp add: sum_nth_payload)
  have up: "?h\<lparr>m_holded_fragments := (m_holded_fragments ?h)(fid := x)\<rparr> = p\<lparr>m_holded_fragments := (m_holded_fragments p)(fid := x)\<rparr>" for x
    by (simp add: holding_def)
  have ep: "m_endpoint ?h = m_endpoint p" by (simp add: holding_def)
  have cnt: "received_count (held c fs (insert k S)) = int (length (fragments (held c fs (insert k S)))) \<longleftrightarrow> insert k S = {..<length fs}"
  proof -
    have "insert k S = {..<length fs} \<longleftrightarrow> card (insert k S) = length fs"
      using k card_subset_eq [of "{..<length fs}" "insert k S"] by (metis card_lessThan finite_lessThan insert_subset lessThan_iff)
    then show ?thesis by (simp add: held_def)
  qed
  have e: "add_reliable_packet pp dm ?f w =
      (if received_count (held c fs (insert k S)) \<noteq> int (length (fragments (held c fs (insert k S)))) then
         Some (put_peer pp (p\<lparr>m_holded_fragments := (m_holded_fragments p)(fid \<mapsto> held c fs (insert k S))\<rparr>) w)
       else do {
              let (resultingPacket, w1) = pool_get_packet (total_size (held c fs (insert k S)))
                    (put_peer pp (p\<lparr>m_holded_fragments := (m_holded_fragments p)(fid := None)\<rparr>) w);
              (result, w2) \<leftarrow> assemble (fragments (held c fs (insert k S))) resultingPacket 0 w1;
              (case result of
                 None \<Rightarrow> Some w2
               | Some q \<Rightarrow> create_receive_event q dm (c div of_nat CHANNEL_TYPE_COUNT) 0 (m_endpoint p) w2)
            })"
    unfolding add_reliable_packet_def using pp fr inc hold ep
    by (simp split del: if_split) (simp only: up)
  show ?thesis
  proof (cases "insert k S = {..<length fs}")
    case True
    have "p\<lparr>m_holded_fragments := (m_holded_fragments p)(fid := None)\<rparr> = p" using none by (simp add: fun_upd_idem)
    then show ?thesis
      using last_fragment [OF fs(1) refl, where p = p and pp = pp and w = w and dm = dm] e cnt True by simp
  next
    case False
    with e cnt show ?thesis by (simp add: holding_def put_peer_def get_peer_def)
  qed
qed

lemma add_rest:
  assumes none: "m_holded_fragments p fid = None"
    and fs: "\<forall>k < length fs. is_fragment c fid (length fs) k (fs ! k)" "length fs < 65536"
    and tot: "length (concat (List.map payload fs)) < 2 ^ 64"
  shows "get_peer pp w = Some (holding p fid c fs S) \<Longrightarrow> distinct ks \<Longrightarrow> ks \<noteq> [] \<Longrightarrow> set ks \<inter> S = {} \<Longrightarrow> set ks \<union> S = {..<length fs} \<Longrightarrow>
    \<exists>w'. add_all pp dm (List.map ((!) fs) ks) w = Some w' \<and> get_peer pp w' = Some p \<and>
      (\<exists>e. m_events_produce_queue w' = m_events_produce_queue w @ [e] \<and> message_event fs dm c (m_peers w (akey (m_endpoint p))) e)"
proof (induction ks arbitrary: w S)
  case (Cons k ks)
  have k: "k < length fs" "k \<notin> S" "S \<subseteq> {..<length fs}" using Cons.prems(4,5) by auto
  obtain w1 where w1: "add_reliable_packet pp dm (fs ! k) w = Some w1"
    "if insert k S = {..<length fs} then get_peer pp w1 = Some p \<and>
        (\<exists>e. m_events_produce_queue w1 = m_events_produce_queue w @ [e] \<and> message_event fs dm c (m_peers w (akey (m_endpoint p))) e)
      else get_peer pp w1 = Some (holding p fid c fs (insert k S)) \<and> m_events_produce_queue w1 = m_events_produce_queue w \<and>
        m_peers w1 = m_peers w"
    using add_step [OF none Cons.prems(1) fs tot k] by blast
  show ?case
  proof (cases "ks = []")
    case True
    then have "insert k S = {..<length fs}" using Cons.prems(5) by simp
    with w1 True show ?thesis by simp
  next
    case False
    then obtain j where "j \<in> set ks" by (cases ks) auto
    then have "j \<notin> insert k S" "j \<in> {..<length fs}" using Cons.prems(2,4) Cons.prems(5) [symmetric] by auto
    then have "insert k S \<noteq> {..<length fs}" by blast
    with w1 have 1: "get_peer pp w1 = Some (holding p fid c fs (insert k S))"
      "m_events_produce_queue w1 = m_events_produce_queue w" "m_peers w1 = m_peers w" by simp_all
    have "\<exists>w'. add_all pp dm (List.map ((!) fs) ks) w1 = Some w' \<and> get_peer pp w' = Some p \<and>
      (\<exists>e. m_events_produce_queue w' = m_events_produce_queue w1 @ [e] \<and> message_event fs dm c (m_peers w1 (akey (m_endpoint p))) e)"
      by (rule Cons.IH [OF 1(1)]) (use Cons.prems False in auto)
    with 1 w1(1) show ?thesis by simp
  qed
qed simp


section \<open>Cutting\<close>

text \<open>A fragment as it is queued, before the channel writes its number and its sequence number into it.\<close>

definition fragment_body :: "u16 \<Rightarrow> nat \<Rightarrow> nat \<Rightarrow> net_packet \<Rightarrow> bool" where
  "fragment_body fid n k f \<longleftrightarrow> is_fragmented f \<and> fragment_id f = Some fid \<and> fragment_part f = Some (of_nat k) \<and>
     total_fragments f = Some (of_nat n) \<and> FRAGMENTED_HEADER_TOTAL_SIZE \<le> m_size f \<and> m_size f \<le> buffer_size f"

definition stamped :: "u8 \<Rightarrow> net_packet \<Rightarrow> net_packet \<Rightarrow> bool" where
  "stamped c f g \<longleftrightarrow> m_size g = m_size f \<and> drop 4 (m_data g) = drop 4 (m_data f) \<and> is_fragmented g \<and> channel_id g = Some c"

lemma rd16_drop:
  assumes "drop 4 xs = drop 4 ys" "4 \<le> i" shows "rd16 xs i = rd16 ys i"
proof -
  have l: "length xs - 4 = length ys - 4" using assms(1) by (metis length_drop)
  have "drop i xs = drop i ys" using assms by (metis drop_drop le_add_diff_inverse2)
  moreover have "i + 2 \<le> length xs \<longleftrightarrow> i + 2 \<le> length ys" using l assms(2) by auto
  ultimately show ?thesis by (simp add: rd16_def rd_bytes_def)
qed

lemma stamped_fragment:
  assumes b: "fragment_body fid n k f" and s: "stamped c f g"
  shows "is_fragment c fid n k g" "payload g = payload f"
proof -
  have d: "drop 4 (m_data g) = drop 4 (m_data f)" using s by (simp add: stamped_def)
  then have l: "length (m_data g) - 4 = length (m_data f) - 4" by (metis length_drop)
  have "drop 6 (drop 4 (m_data g)) = drop 6 (drop 4 (m_data f))" using d by simp
  then have "drop FRAGMENTED_HEADER_TOTAL_SIZE (m_data g) = drop FRAGMENTED_HEADER_TOTAL_SIZE (m_data f)" by simp
  then show "payload g = payload f" using s by (simp add: payload_def stamped_def drop_take)
  show "is_fragment c fid n k g"
    using b s l rd16_drop [OF d] by (auto simp: is_fragment_def fragment_body_def stamped_def fragment_id_def fragment_part_def
        total_fragments_def size_consts)
qed

text \<open>The fields of a fragment are written one behind the other.\<close>

lemma set_field:
  assumes "i + 2 \<le> buffer_size p" "0 < i"
  obtains q where "set_data p (wr16 (m_data p) i v) = Some q" "rd16 (m_data q) i = Some v" "m_size q = m_size p"
    "buffer_size q = buffer_size p" "byte0 q = byte0 p"
    "\<And>j n. j + n \<le> i \<or> i + 2 \<le> j \<Longrightarrow> rd_bytes (m_data q) j n = rd_bytes (m_data p) j n"
proof -
  obtain bs where bs: "wr_bytes (m_data p) i (le_bytes 2 v) = Some bs" using wr_bytes_ok [of i "le_bytes 2 v"] assms(1) by auto
  show ?thesis
    by (rule that [of "p\<lparr>m_data := bs\<rparr>"])
      (use bs assms rd16_wr16_same [of "m_data p" i v bs] rd_wr_other [OF bs] wr_bytes_length [OF bs] byte0_wr_bytes [OF bs]
       in \<open>simp_all add: wr16_def set_data_def\<close>)
qed

lemma made_fragment:
  assumes p0: "m_size p0 = FRAGMENTED_HEADER_TOTAL_SIZE + len" "m_size p0 \<le> buffer_size p0" and src: "len = 0 \<or> off + len \<le> length data"
  shows "\<exists>p5. (do {
     p2 \<leftarrow> set_fragment_id fid ((set_property CHANNELED p0)\<lparr>user_data := ud\<rparr>);
     p3 \<leftarrow> set_fragment_part (of_nat k) p2;
     p4 \<leftarrow> set_total_fragments (of_nat n) p3;
     copy_from data off FRAGMENTED_HEADER_TOTAL_SIZE len (mark_fragmented p4)
   }) = Some p5 \<and> fragment_body fid n k p5 \<and> payload p5 = take len (drop off data)"
proof -
  let ?p1 = "(set_property CHANNELED p0)\<lparr>user_data := ud\<rparr>"
  have p1: "m_size ?p1 = 10 + len" "buffer_size ?p1 = buffer_size p0" "10 + len \<le> buffer_size p0"
    using p0 by (simp_all add: byte0_setters size_consts)
  obtain p2 where p2: "set_data ?p1 (wr16 (m_data ?p1) 4 fid) = Some p2" "rd16 (m_data p2) 4 = Some fid" "m_size p2 = m_size ?p1"
    "buffer_size p2 = buffer_size ?p1"
    by (rule set_field [of 4 ?p1 fid]) (use p1 in simp_all)
  obtain p3 where p3: "set_data p2 (wr16 (m_data p2) 6 (of_nat k)) = Some p3" "rd16 (m_data p3) 6 = Some (of_nat k)" "m_size p3 = m_size p2"
    "buffer_size p3 = buffer_size p2" "\<And>j n. j + n \<le> 6 \<or> 8 \<le> j \<Longrightarrow> rd_bytes (m_data p3) j n = rd_bytes (m_data p2) j n"
    by (rule set_field [of 6 p2 "of_nat k"]) (use p1 p2 in simp_all)
  obtain p4 where p4: "set_data p3 (wr16 (m_data p3) 8 (of_nat n)) = Some p4" "rd16 (m_data p4) 8 = Some (of_nat n)" "m_size p4 = m_size p3"
    "buffer_size p4 = buffer_size p3" "\<And>j n. j + n \<le> 8 \<or> 10 \<le> j \<Longrightarrow> rd_bytes (m_data p4) j n = rd_bytes (m_data p3) j n"
    by (rule set_field [of 8 p3 "of_nat n"]) (use p1 p2 p3 in simp_all)
  let ?m = "mark_fragmented p4"
  have m: "m_size ?m = 10 + len" "buffer_size ?m = buffer_size p0" using p1 p2 p3 p4 by (simp_all add: byte0_setters)
  have fields: "rd16 (m_data ?m) 4 = Some fid" "rd16 (m_data ?m) 6 = Some (of_nat k)" "rd16 (m_data ?m) 8 = Some (of_nat n)"
    using p2(2) p3(2,5) p4(2,5) by (simp_all add: rd16_def mark_fragmented_def)
  have ne: "m_data p4 \<noteq> []" using m(2) p1(3) by (auto simp: byte0_setters)
  then have marked: "is_fragmented ?m" by (rule is_fragmented_mark)
  have e: "(do {
     p2 \<leftarrow> set_fragment_id fid ?p1;
     p3 \<leftarrow> set_fragment_part (of_nat k) p2;
     p4 \<leftarrow> set_total_fragments (of_nat n) p3;
     copy_from data off FRAGMENTED_HEADER_TOTAL_SIZE len (mark_fragmented p4)
   }) = copy_from data off 10 len ?m"
    using p2(1) p3(1) p4(1) by (simp add: set_fragment_id_def set_fragment_part_def set_total_fragments_def size_consts)
  show ?thesis
  proof (cases "len = 0")
    case True
    then have "fragment_body fid n k ?m" "payload ?m = take len (drop off data)"
      using m marked fields p1(3) by (simp_all add: fragment_body_def fragment_id_def fragment_part_def total_fragments_def
          payload_def size_consts)
    then show ?thesis unfolding e using True by (simp add: copy_from_def)
  next
    case False
    then have src': "off + len \<le> length data" using src by simp
    let ?s = "take len (drop off data)"
    have l: "length ?s = len" using src' by simp
    obtain bs where bs: "wr_bytes (m_data ?m) 10 ?s = Some bs" using wr_bytes_ok [of 10 ?s "m_data ?m"] m p1(3) l by auto
    have c: "copy_from data off 10 len ?m = Some (?m\<lparr>m_data := bs\<rparr>)"
      using False src' bs by (simp add: copy_from_def rd_bytes_def set_data_def)
    have lb: "length bs = buffer_size p0" using wr_bytes_length [OF bs] m by simp
    have "rd_bytes bs 10 len = Some ?s" using rd_wr_same [OF bs] l by simp
    then have "payload (?m\<lparr>m_data := bs\<rparr>) = ?s"
      using m by (simp add: payload_def rd_bytes_def size_consts drop_take split: if_splits)
    moreover have "fragment_body fid n k (?m\<lparr>m_data := bs\<rparr>)"
      using m marked fields p1(3) lb rd_wr_other [OF bs] byte0_wr_bytes [OF bs]
      by (simp add: fragment_body_def fragment_id_def fragment_part_def total_fragments_def size_consts rd16_def is_fragmented_def)
    ultimately show ?thesis unfolding e c by blast
  qed
qed

fun chan_queue :: "net_channel \<Rightarrow> net_packet list" where
  "chan_queue (Reliable ch) = m_outgoing_queue ch"
| "chan_queue (Sequenced ch) = m_outgoing_queue ch"

fun chan_open :: "net_channel \<Rightarrow> bool" where
  "chan_open (Reliable ch) = m_can_enqueue ch"
| "chan_open (Sequenced ch) = m_can_enqueue ch"

lemma channel_add:
  assumes "chan_open ch"
  shows "\<exists>ch' acts. channel_add_to_queue f ch = (ch', acts) \<and> chan_queue ch' = chan_queue ch @ [f] \<and> chan_open ch' \<and>
    (acts = [] \<or> acts = [Add_to_reliable_channel_send_queue])"
  using assms by (cases ch) (auto simp: add_to_queue_def add_to_peer_channel_send_queue_def q_push_def)

lemma enqueue_ok:
  assumes p: "get_peer pp w = Some p" "idx < length (m_channels p)" "m_channels p ! idx = Some ch" "chan_open ch"
  shows "\<exists>w' p' ch'. enqueue_on_channel pp idx f w = Some w' \<and> get_peer pp w' = Some p' \<and>
     idx < length (m_channels p') \<and> m_channels p' ! idx = Some ch' \<and> chan_open ch' \<and> chan_queue ch' = chan_queue ch @ [f]"
proof -
  obtain ch' acts where c: "channel_add_to_queue f ch = (ch', acts)" "chan_queue ch' = chan_queue ch @ [f]" "chan_open ch'"
    "acts = [] \<or> acts = [Add_to_reliable_channel_send_queue]" using channel_add [OF p(4)] by blast
  from c(4) show ?thesis
    using p c(1-3) by (elim disjE)
      (simp_all add: enqueue_on_channel_def perform_action_def modify_peer_def set_channel_def)
qed

lemma send_fragments_ok:
  assumes "get_peer pp w = Some p" "idx < length (m_channels p)" "m_channels p ! idx = Some ch" "chan_open ch"
    and "sz \<le> parts * ds" "sz = 0 \<or> off + k * ds + sz \<le> length data"
  shows "\<exists>w' p' ch' fs. send_fragments pp idx data off ds ud fid n parts k sz w = Some w' \<and> get_peer pp w' = Some p' \<and>
     m_channels p' ! idx = Some ch' \<and> chan_queue ch' = chan_queue ch @ fs \<and> length fs = parts \<and>
     (\<forall>j < parts. fragment_body fid n (k + j) (fs ! j)) \<and> concat (List.map payload fs) = take sz (drop (off + k * ds) data)"
  using assms
proof (induction parts arbitrary: w p ch k sz)
  case 0
  then show ?case by (intro exI [of _ w] exI [of _ p] exI [of _ ch] exI [of _ "[]"]) simp
next
  case (Suc parts)
  let ?L = "if sz > ds then ds else sz"
  obtain p0 w1 where p0: "pool_get_packet (static_header_size CHANNELED + ?L + FRAGMENT_HEADER_SIZE) w = (p0, w1)" by fastforce
  have s0: "m_size p0 = FRAGMENTED_HEADER_TOTAL_SIZE + ?L" "m_size p0 \<le> buffer_size p0"
    using p0 ensure_length(1) [of "4 + ?L + 6"] by (auto simp: pool_get_packet_def split: list.splits)
  have "?L = 0 \<or> off + k * ds + ?L \<le> length data" using Suc.prems(6) by auto
  from made_fragment [OF s0 this, of fid ud k n] obtain p5 where p5: "(do {
     p2 \<leftarrow> set_fragment_id fid ((set_property CHANNELED p0)\<lparr>user_data := ud\<rparr>);
     p3 \<leftarrow> set_fragment_part (of_nat k) p2;
     p4 \<leftarrow> set_total_fragments (of_nat n) p3;
     copy_from data (off + k * ds) FRAGMENTED_HEADER_TOTAL_SIZE ?L (mark_fragmented p4)
   }) = Some p5" and body: "fragment_body fid n k p5" and pay: "payload p5 = take ?L (drop (off + k * ds) data)" by blast
  have g1: "get_peer pp w1 = Some p" using world_frame_pool(6) [where n = "static_header_size CHANNELED + ?L + FRAGMENT_HEADER_SIZE" and w = w]
    p0 Suc.prems(1) by simp
  obtain w2 p2 ch2 where w2: "enqueue_on_channel pp idx p5 w1 = Some w2" "get_peer pp w2 = Some p2"
     "idx < length (m_channels p2)" "m_channels p2 ! idx = Some ch2" "chan_open ch2" "chan_queue ch2 = chan_queue ch @ [p5]"
    using enqueue_ok [OF g1 Suc.prems(2-4), of p5] by blast
  have rest: "sz - ?L \<le> parts * ds" "sz - ?L = 0 \<or> off + (k + 1) * ds + (sz - ?L) \<le> length data"
    using Suc.prems(5,6) by (auto simp: algebra_simps)
  obtain w' p' ch' fs where w': "send_fragments pp idx data off ds ud fid n parts (k + 1) (sz - ?L) w2 = Some w'"
    "get_peer pp w' = Some p'" "m_channels p' ! idx = Some ch'" "chan_queue ch' = chan_queue ch2 @ fs" "length fs = parts"
    and bodies: "\<And>j. j < parts \<Longrightarrow> fragment_body fid n (k + 1 + j) (fs ! j)"
    and pays: "concat (List.map payload fs) = take (sz - ?L) (drop (off + (k + 1) * ds) data)"
    using Suc.IH [OF w2(2-5) rest] by blast
  have step: "send_fragments pp idx data off ds ud fid n (Suc parts) k sz w = Some w'"
    using p0 p5 w2(1) w'(1) by (auto simp: Let_def bind_eq_Some_conv split del: if_split) 
  have all: "fragment_body fid n (k + j) ((p5 # fs) ! j)" if "j < Suc parts" for j
    using that body bodies [of "j - 1"] by (cases j) simp_all
  have "concat (List.map payload (p5 # fs)) = take sz (drop (off + k * ds) data)"
  proof (cases "sz > ds")
    case True
    have d: "drop (off + (k + 1) * ds) data = drop ds (drop (off + k * ds) data)" by (simp add: algebra_simps)
    have "concat (List.map payload (p5 # fs)) = take ds (drop (off + k * ds) data) @ take (sz - ds) (drop ds (drop (off + k * ds) data))"
      using True pay pays unfolding d by simp
    also have "\<dots> = take (ds + (sz - ds)) (drop (off + k * ds) data)" by (rule take_add [symmetric])
    finally show ?thesis using True by simp
  next
    case False
    with pay pays show ?thesis by simp
  qed
  then show ?case using step w' w2(6) all
    by (intro exI [of _ w'] exI [of _ p'] exI [of _ ch'] exI [of _ "p5 # fs"]) simp
qed

lemma parts_enough: "0 < ds \<Longrightarrow> sz \<le> (sz div ds + (if sz mod ds = 0 then 0 else 1)) * ds" for ds sz :: nat
proof -
  assume "0 < ds"
  then have l: "sz mod ds < ds" by simp
  have e: "sz = sz div ds * ds + sz mod ds" by simp
  show ?thesis
  proof (cases "sz mod ds = 0")
    case True
    then have "sz div ds * ds = sz" using e by linarith
    with True show ?thesis by simp
  next
    case False
    have "sz \<le> sz div ds * ds + ds" using e l by linarith
    with False show ?thesis by (simp add: add.commute)
  qed
qed

lemma parts_few: "sz \<le> m * ds \<Longrightarrow> 0 < ds \<Longrightarrow> sz div ds + (if sz mod ds = 0 then 0 else 1) \<le> m" for ds sz m :: nat
proof -
  assume a: "sz \<le> m * ds" "0 < ds"
  show ?thesis
  proof (cases "sz mod ds = 0")
    case True
    have "sz div ds \<le> m * ds div ds" by (rule div_le_mono [OF a(1)])
    then show ?thesis using True a(2) by simp
  next
    case False
    have "sz div ds < m" using a False by (metis div_less_iff_less_mult le_neq_implies_less mod_mult_self2_is_0)
    then show ?thesis using False by simp
  qed
qed

lemma map_rev_nth: "List.map ((!) xs) (rev [0..<length xs]) = rev xs"
  using map_nth [of xs] rev_map [of "(!) xs" "[0..<length xs]"] by simp

text \<open>Handing the packets \<open>gs\<close> to the peer \<open>r\<close> gives one receive event with the message, and leaves the peer as it was.\<close>

definition delivered_once :: "nat \<Rightarrow> delivery_method \<Rightarrow> u8 \<Rightarrow> net_packet list \<Rightarrow> net_peer \<Rightarrow> world \<Rightarrow> bytes \<Rightarrow> bool" where
  "delivered_once rp dm c gs r v msg \<longleftrightarrow>
     (\<exists>v' e d. add_all rp dm gs v = Some v' \<and> get_peer rp v' = Some r \<and>
        m_events_produce_queue v' = m_events_produce_queue v @ [e] \<and> ev_type e = EVENT_RECEIVE \<and> deliveryMethod e = dm \<and>
        channelNumber e = c div of_nat CHANNEL_TYPE_COUNT \<and> ev_peer e = m_peers v (akey (m_endpoint r)) \<and>
        ev_reader e = Some d \<and> r_position d = 0 \<and> take (r_size d) (r_data d) = msg)"

text \<open>C10: A message of at most 65534 fragments survives fragmentation in every order: \<open>send\<close> with a reliable method queues fragments
  on the channel; and if they reach a peer that holds none of that message, in any order and with whatever sequence numbers
  the channel gave them, each once, then exactly one receive event comes out, it carries the message, and the peer is as before.\<close>

theorem fragmentation_roundtrip:
  assumes "get_peer pp w = Some p" "peer_ok p" "idx < length (m_channels p)" "m_channels p ! idx = Some ch" "chan_open ch"
    and "dm = RELIABLE_ORDERED \<or> dm = RELIABLE_UNORDERED" "m_mtu p < sz + 4" "sz \<le> 65534 * (m_mtu p - 10)" "off + sz \<le> length data"
    and "get_peer rp v = Some r" "m_holded_fragments r (word_of_int (m_fragment_id p + 1)) = None"
  shows "\<exists>w' p' ch' fs. send_payload pp p idx data off sz dm ud w = Some w' \<and> get_peer pp w' = Some p' \<and>
     m_channels p' ! idx = Some ch' \<and> chan_queue ch' = chan_queue ch @ fs \<and>
     (\<forall>f \<in> set fs. is_fragmented f \<and> FRAGMENTED_HEADER_TOTAL_SIZE \<le> m_size f \<and> m_size f \<le> buffer_size f) \<and>
     (\<forall>c gs ks. list_all2 (stamped c) fs gs \<and> distinct ks \<and> set ks = {..<length gs} \<longrightarrow>
        delivered_once rp dm c (List.map ((!) gs) ks) r v (take sz (drop off data)))"
proof -
  let ?ds = "m_mtu p - 10" and ?fid = "word_of_int (m_fragment_id p + 1) :: u16"
  let ?n = "sz div ?ds + (if sz mod ?ds = 0 then 0 else 1)"
  let ?p1 = "p\<lparr>m_fragment_id := m_fragment_id p + 1\<rparr>"
  have mtu: "508 \<le> m_mtu p" "m_mtu p \<le> 1432"
    using peer_okD(1) [OF assms(2)] mtu_ok_le [of p] by (auto simp: mtu_ok_def POSSIBLE_MTU_def less_Suc_eq MAX_PACKET_SIZE_def)
  have n: "sz \<le> ?n * ?ds" "?n \<le> 65534" using parts_enough [of ?ds sz] parts_few [OF assms(8)] mtu by simp_all
  obtain w' p' ch' fs where send: "send_fragments pp idx data off ?ds ud ?fid ?n ?n 0 sz (put_peer pp ?p1 w) = Some w'"
    "get_peer pp w' = Some p'" "m_channels p' ! idx = Some ch'" "chan_queue ch' = chan_queue ch @ fs" "length fs = ?n"
    and bodies: "\<forall>j < ?n. fragment_body ?fid ?n (0 + j) (fs ! j)"
    and pay: "concat (List.map payload fs) = take sz (drop (off + 0 * ?ds) data)"
    using send_fragments_ok [where pp = pp and w = "put_peer pp ?p1 w" and p = ?p1 and idx = idx and ch = ch and sz = sz
        and parts = ?n and ds = ?ds and off = off and k = 0 and data = data and ud = ud and fid = ?fid and n = ?n] assms(3-5,9) n(1) by auto
  have e: "send_payload pp p idx data off sz dm ud w = Some w'"
  proof -
    have "m_mtu p - 4 - 6 = ?ds" by simp
    moreover have "modify_peer pp (\<lambda>p. p\<lparr>m_fragment_id := m_fragment_id p + 1\<rparr>) w = Some (put_peer pp ?p1 w)"
      using assms(1) by (simp add: modify_peer_def)
    ultimately show ?thesis using assms(1,6,7) n(2) send(1) mtu
      by (auto simp: send_payload_def Let_def modify_peer_def simp del: send_fragments.simps)
  qed
  have "delivered_once rp dm c (List.map ((!) gs) ks) r v (take sz (drop off data))"
    if gs: "list_all2 (stamped c) fs gs" and ks: "distinct ks" "set ks = {..<length gs}" for c gs ks
  proof -
    have l: "length gs = ?n" using list_all2_lengthD [OF gs] send(5) by simp
    have st: "is_fragment c ?fid ?n k (gs ! k) \<and> payload (gs ! k) = payload (fs ! k)" if "k < length gs" for k
      using stamped_fragment [of ?fid ?n k "fs ! k" c "gs ! k"] bodies list_all2_nthD2 [OF gs that] that l by simp
    then have frs: "\<forall>k < length gs. is_fragment c ?fid (length gs) k (gs ! k)" using l by simp
    have "List.map payload gs = List.map payload fs" using st send(5) l by (intro nth_equalityI) simp_all
    then have m: "concat (List.map payload gs) = take sz (drop off data)" using pay by simp
    then have "length (concat (List.map payload gs)) < 2 ^ 64" using assms(8,9) mtu(2) by simp
    moreover have "ks \<noteq> []"
    proof
      assume "ks = []"
      then have "?n = 0" using ks(2) unfolding l by (metis bot_nat_0.not_eq_extremum empty_iff empty_set lessThan_iff)
      then have "sz \<le> 0 * ?ds" using n(1) by (simp only:)
      then show False using assms(7) mtu(1) by simp
    qed
    moreover have "get_peer rp v = Some (holding r ?fid c gs {})" using assms(10) by (simp add: holding_def)
    moreover have "length gs < 65536" using l n(2) by simp
    ultimately have "\<exists>v'. add_all rp dm (List.map ((!) gs) ks) v = Some v' \<and> get_peer rp v' = Some r \<and>
      (\<exists>e. m_events_produce_queue v' = m_events_produce_queue v @ [e] \<and> message_event gs dm c (m_peers v (akey (m_endpoint r))) e)"
      by (intro add_rest [OF assms(11) frs, where S = "{}"]) (auto simp: ks)
    then obtain v' ev where v': "add_all rp dm (List.map ((!) gs) ks) v = Some v'" "get_peer rp v' = Some r"
      "m_events_produce_queue v' = m_events_produce_queue v @ [ev]" "message_event gs dm c (m_peers v (akey (m_endpoint r))) ev"
      by (elim exE conjE)
    from v'(4) obtain d where "ev_reader ev = Some d" "r_position d = 0" "take (r_size d) (r_data d) = take sz (drop off data)"
      using m by (auto simp: message_event_def)
    with v' show ?thesis
      unfolding delivered_once_def by (intro exI [of _ v'] exI [of _ ev] exI [of _ d]) (simp add: message_event_def)
  qed
  moreover have "\<forall>f \<in> set fs. is_fragmented f \<and> FRAGMENTED_HEADER_TOTAL_SIZE \<le> m_size f \<and> m_size f \<le> buffer_size f"
    using bodies send(5) by (auto simp: in_set_conv_nth fragment_body_def)
  ultimately show ?thesis using e send(2-4) by blast
qed

theorem fragmentation_roundtrip_witness:
  "\<exists>p w' p' ch fs. send_payload 0 p 2 (replicate 1000 7) 0 1000 RELIABLE_ORDERED None (put_peer 0 p sample_start) = Some w' \<and>
     get_peer 0 w' = Some p' \<and> m_channels p' ! 2 = Some ch \<and> chan_queue ch = fs \<and>
     delivered_once 0 RELIABLE_ORDERED 2 (rev (List.map (\<lambda>f. f\<lparr>m_data := (m_data f)[3 := 2]\<rparr>) fs)) p (put_peer 0 p sample_start)
       (replicate 1000 7)"
proof -
  obtain p0 where p0: "new_peer 1 sample_server 0 = Some p0" using new_peer_total by blast
  obtain ch where "new_reliable_channel True 2 = Some ch" using new_reliable_channel_ok by blast
  then have ch: "m_can_enqueue ch" "m_outgoing_queue ch = []" by (auto simp: new_reliable_channel_def elim!: bind_SomeE)
  let ?p = "p0\<lparr>m_channels := [None, None, Some (Reliable ch), None]\<rparr>"
  let ?w = "put_peer 0 ?p sample_start"
  have f: "m_mtu p0 = 508" "m_fragment_id p0 = 0" "m_holded_fragments p0 = Map.empty"
    using p0 by (auto simp: new_peer_def reset_mtu_def set_mtu_def blank_peer_def POSSIBLE_MTU_def elim!: bind_SomeE)
  have ok: "peer_ok ?p" using new_peer_ok(1) [OF p0] by (simp add: peer_ok_defs)
  have g: "get_peer 0 ?w = Some ?p" by simp
  have h: "2 < length (m_channels ?p)" "m_channels ?p ! 2 = Some (Reliable ch)" "chan_open (Reliable ch)" "m_mtu ?p < 1000 + 4"
    "1000 \<le> 65534 * (m_mtu ?p - 10)" "0 + 1000 \<le> length (replicate 1000 (7 :: u8))"
    "m_holded_fragments ?p (word_of_int (m_fragment_id ?p + 1)) = None" using f ch by simp_all
  obtain w' p' ch' fs where s: "send_payload 0 ?p 2 (replicate 1000 7) 0 1000 RELIABLE_ORDERED None ?w = Some w'"
    "get_peer 0 w' = Some p'" "m_channels p' ! 2 = Some ch'" "chan_queue ch' = chan_queue (Reliable ch) @ fs"
    and fs: "\<forall>f \<in> set fs. is_fragmented f \<and> FRAGMENTED_HEADER_TOTAL_SIZE \<le> m_size f \<and> m_size f \<le> buffer_size f"
    and r: "\<forall>c gs ks. list_all2 (stamped c) fs gs \<and> distinct ks \<and> set ks = {..<length gs} \<longrightarrow>
        delivered_once 0 RELIABLE_ORDERED c (List.map ((!) gs) ks) ?p ?w (take 1000 (drop 0 (replicate 1000 7)))"
    using fragmentation_roundtrip [OF g ok h(1-3) disjI1 [OF refl] h(4-6) g h(7), of None] by blast
  let ?gs = "List.map (\<lambda>f. f\<lparr>m_data := (m_data f)[3 := 2]\<rparr>) fs"
  have st: "stamped 2 f (f\<lparr>m_data := (m_data f)[3 := 2]\<rparr>)" if "f \<in> set fs" for f
  proof -
    have l: "10 \<le> buffer_size f" "is_fragmented f" using fs that by fastforce+
    then have "byte0 (f\<lparr>m_data := (m_data f)[3 := 2]\<rparr>) = byte0 f" by (cases "m_data f") (simp_all add: byte0_def)
    with l show ?thesis by (simp add: stamped_def is_fragmented_def channel_id_def rd8_def)
  qed
  have "list_all2 (stamped 2) fs ?gs" using st by (simp add: list_all2_map2 list_all2_same)
  moreover have "distinct (rev [0..<length ?gs])" "set (rev [0..<length ?gs]) = {..<length ?gs}" by (simp_all add: atLeast0LessThan)
  moreover have "List.map ((!) ?gs) (rev [0..<length ?gs]) = rev ?gs" by (rule map_rev_nth)
  ultimately have "delivered_once 0 RELIABLE_ORDERED 2 (rev ?gs) ?p ?w (replicate 1000 7)"
    using r [THEN spec, THEN spec, THEN spec, of 2 ?gs "rev [0..<length ?gs]"] by simp
  moreover have "chan_queue ch' = fs" using s(4) ch(2) by simp
  ultimately show ?thesis using s(1-3) by blast
qed

end
