(* ===== verification/Handshake.thy ===== *)
theory Handshake
  imports Merging
begin

text \<open>The handshake of two managers, from \<open>connect\<close> to two connected peers.\<close>

section \<open>The datagrams\<close>

definition request_bytes :: "u8 \<Rightarrow> i64 \<Rightarrow> i32 \<Rightarrow> sockaddr_in \<Rightarrow> bytes \<Rightarrow> bytes" where
  "request_bytes c t i addr user =
     ((5 AND 0x9F) OR push_bit 5 c) # le_bytes 4 PROTOCOL_ID @ le_bytes 8 t @ le_bytes 4 i @ [16] @ encode_sockaddr addr @ user"

lemma request_made:
  assumes "writer_ok w"
  shows "\<exists>p. connect_request_make w addr t i = Some p \<and> m_size (set_connection_number c p) = 34 + w_position w \<and>
     m_size (set_connection_number c p) \<le> buffer_size (set_connection_number c p) \<and>
     prefix (request_bytes c t i addr (written w)) (m_data (set_connection_number c p))"
proof -
  obtain p where p: "connect_request_make w addr t i = Some p" "m_size p = 34 + w_position w" "m_size p \<le> buffer_size p"
    "prefix ([5] @ le_bytes 4 PROTOCOL_ID @ le_bytes 8 t @ le_bytes 4 i @ [16] @ encode_sockaddr addr @ written w) (m_data p)"
    using connect_request_layout [OF assms] by blast
  have "byte0 p = 5" using p(4) prefix_byte0 by simp
  then have "prefix (request_bytes c t i addr (written w)) (m_data (set_connection_number c p))"
    using p(4) by (auto simp: set_connection_number_def upd_byte0_def request_bytes_def prefix_def)
  then show ?thesis using p by (auto simp: set_connection_number_def)
qed

lemma byte0_only:
  assumes "byte0 p = byte0 q"
  shows "property p = property q" "connection_number p = connection_number q" "is_fragmented p = is_fragmented q"
  using assms by (simp_all add: property_def connection_number_def is_fragmented_def)

lemma request_parse:
  assumes pre: "prefix (request_bytes c t i addr user) (m_data q)" and sz: "m_size q = 34 + length user" and c: "c < 4"
  shows "verify q" "property q = CONNECT_REQUEST" "get_protocol_id q = Some PROTOCOL_ID"
    "connect_request_from_data q = Some (Some \<lparr>cr_connection_time = t, cr_connection_number = c, cr_target_address = addr,
       cr_data = \<lparr>r_data = m_data q, r_size = m_size q, r_position = 34\<rparr>, cr_peer_id = i, cr_packet = Some q\<rparr>)"
proof -
  let ?p = "\<lparr>m_data = [5 :: u8], m_size = 100, user_data = None :: nat option\<rparr>"
  have b: "byte0 q = byte0 (set_connection_number c ?p)"
    using prefix_byte0 [OF pre [unfolded request_bytes_def]] by (simp add: set_connection_number_def upd_byte0_def byte0_def)
  have p: "property ?p = CONNECT_REQUEST" "\<not> is_fragmented ?p" by (simp_all add: property_def byte0_def property_of_code_def is_fragmented_def)
  have h: "property q = CONNECT_REQUEST" "connection_number q = c" "\<not> is_fragmented q"
    using byte0_only [OF b] p small_connection_number [OF c] connection_number_set [of ?p c]
    by (simp_all add: property_set_connection_number is_fragmented_set_connection_number)
  then show "property q = CONNECT_REQUEST" "verify q" using sz by (simp_all add: verify_iff named_property_def)
  note R = prefix_rd_bytes [OF pre] prefix_rd8 [OF pre]
  have l: "length (request_bytes c t i addr user) = 34 + length user" by (simp add: request_bytes_def)
  show "get_protocol_id q = Some PROTOCOL_ID" by (simp add: get_protocol_id_def rd32_def R l) (simp add: request_bytes_def)
  have "\<not> MAX_CONNECTION_NUMBER \<le> connection_number q" using h c by (simp add: MAX_CONNECTION_NUMBER_def)
  then show "connect_request_from_data q = Some (Some \<lparr>cr_connection_time = t, cr_connection_number = c, cr_target_address = addr,
       cr_data = \<lparr>r_data = m_data q, r_size = m_size q, r_position = 34\<rparr>, cr_peer_id = i, cr_packet = Some q\<rparr>)"
    by (simp add: connect_request_from_data_def rd64_def rd32_def R l h) (simp add: request_bytes_def nth_append)
qed

lemma accept_parse_prefix:
  assumes pre: "prefix (take 15 (accept_bytes 6 t n 0 i)) (m_data q)" and sz: "m_size q = 15" and c: "n < 4" "0 \<le>s i"
  shows "verify q" "property q = CONNECT_ACCEPT"
    "connect_accept_from_data q = Some (Some \<lparr>ca_connection_time = t, ca_connection_number = n, ca_peer_id = i, ca_peer_network_changed = False\<rparr>)"
proof -
  have b: "byte0 q = 6" using pre prefix_byte0 by (simp add: accept_bytes_def)
  then have h: "property q = CONNECT_ACCEPT" "\<not> is_fragmented q"
    by (simp_all add: property_def property_of_code_def is_fragmented_def)
  then show "property q = CONNECT_ACCEPT" "verify q" using sz by (simp_all add: verify_iff named_property_def)
  have l: "length (accept_bytes 6 t n 0 i) = 16" by (simp add: accept_bytes_def)
  have r: "rd_bytes (m_data q) k m = rd_bytes (accept_bytes 6 t n 0 i) k m" if "k + m \<le> 15" for k m
    using prefix_rd_bytes [OF pre, of k m] that l by (simp add: rd_bytes_def drop_take min_def)
  have r8: "rd8 (m_data q) k = rd8 (accept_bytes 6 t n 0 i) k" if "k < 15" for k
    using prefix_rd8 [OF pre, of k] that l by (simp add: rd8_def)
  have f: "rd64 (m_data q) 1 = Some t" "rd8 (m_data q) 9 = Some n" "rd8 (m_data q) 10 = Some 0" "rd32 (m_data q) 11 = Some i"
    using accept_bytes_read [of 6 t n 0 i] by (simp_all add: rd64_def rd32_def r r8)
  then show "connect_accept_from_data q = Some (Some \<lparr>ca_connection_time = t, ca_connection_number = n, ca_peer_id = i, ca_peer_network_changed = False\<rparr>)"
    using sz c by (simp add: connect_accept_from_data_def MAX_CONNECTION_NUMBER_def not_le not_less word_sless_alt word_sle_eq)
qed

section \<open>Receiving a datagram\<close>

definition same_but_pool :: "world \<Rightarrow> world \<Rightarrow> bool" where
  "same_but_pool w w' \<longleftrightarrow> (\<exists>x y. w' = w\<lparr>m_packet_pool_head := x, m_packet_pool_size := y\<rparr>)"

lemma same_but_poolE:
  assumes "same_but_pool w w'"
  obtains x y where "w' = w\<lparr>m_packet_pool_head := x, m_packet_pool_size := y\<rparr>"
  using assms by (auto simp: same_but_pool_def)

lemma same_but_pool_refl: "same_but_pool w w"
  unfolding same_but_pool_def by (rule exI [of _ "m_packet_pool_head w"], rule exI [of _ "m_packet_pool_size w"]) simp

lemma pool_same: "same_but_pool w (snd (pool_get_packet n w))" "same_but_pool w (pool_recycle q w)"
  using same_but_pool_refl [of w]
  by (auto simp: pool_get_packet_def pool_recycle_def split: list.splits) (auto simp: same_but_pool_def)

lemma receive_packet:
  assumes "d \<noteq> []" "length d \<le> MAX_PACKET_SIZE"
  shows "\<exists>q w'. receive_datagram (Some (d, a)) w = on_message_received q a w' \<and> same_but_pool w w' \<and> quiet w w' \<and>
     prefix d (m_data q) \<and> m_size q = length d"
proof -
  obtain p w' where p: "pool_get_packet MAX_PACKET_SIZE w = (p, w')" by fastforce
  have sz: "MAX_PACKET_SIZE \<le> buffer_size p"
    using p ensure_length(1) by (auto simp: pool_get_packet_def split: list.splits)
  obtain q where q: "copy_from d 0 0 (length d) p = Some q" "prefix ([] @ take (length d) d) (m_data q)" "buffer_size q = buffer_size p"
    using copy_prefix [of "[]" p 0 "length d" d] sz assms(2) by auto
  have "receive_datagram (Some (d, a)) w = on_message_received (resize (length d) q) a w'"
    using p q(1) assms(2) by (simp add: receive_datagram_def min_def)
  moreover have "prefix d (m_data (resize (length d) q))" using q(2,3) sz assms(2) by simp
  ultimately show ?thesis using pool_same(1) [of w MAX_PACKET_SIZE] quiet.get_R [OF p] p by fastforce
qed

section \<open>Adding the peer\<close>

lemma add_peer_heap:
  assumes "add_peer pp w = Some w'" shows "relinked w (peer_heap w')"
proof (cases "m_head_peer w")
  case None
  with assms show ?thesis using relinked_refl by (auto simp: add_peer_def Let_def elim!: bind_SomeE)
next
  case (Some h)
  then obtain w1 w2 where w1: "modify_peer pp (\<lambda>p. p\<lparr>m_next_peer := Some h\<rparr>) w = Some w1"
    and w2: "modify_peer h (\<lambda>p. p\<lparr>m_prev_peer := Some pp\<rparr>) w1 = Some w2" and "peer_heap w' = peer_heap w2"
    using assms by (auto simp: add_peer_def Let_def elim!: bind_SomeE)
  moreover have "relinked w (peer_heap w1)" using w1 relinked_upd(1) [OF relinked_refl, of w pp]
    by (auto simp: modify_peer_def put_peer_def get_peer_def elim!: bind_SomeE)
  ultimately show ?thesis using relinked_upd(2) [of w "peer_heap w1" h]
    by (auto simp: modify_peer_def put_peer_def get_peer_def elim!: bind_SomeE)
qed

lemma add_peer_new:
  assumes m: "made w i a pp xs" and p: "get_peer pp w = Some p"
  obtains w' p' b e where "add_peer pp w = Some w'" "manager_ok w'" "m_peers w' a = Some pp" "table_change w w'"
    "get_peer pp w' = Some (p\<lparr>m_next_peer := b, m_prev_peer := e\<rparr>)"
proof -
  have ok: "mgr_ok w [i] xs" and notin: "pp \<notin> set xs" and free: "m_peers w a = None" using m by (simp_all add: made_def)
  have pk: "peer_ok p" "m_next_peer p = None" "m_prev_peer p = None" "m_peer_id p = i" "akey (m_endpoint p) = a"
    using m p by (auto simp: made_def)
  then have "fresh_peer w pp i" using p free by (simp add: fresh_peer_def get_peer_def key_of_def)
  then obtain w' where w': "add_peer pp w = Some w'" using add_peer_ok [of w i xs pp] ok notin by (auto simp: mgr_ok_def)
  have ok': "mgr_ok w' [] (pp # xs)" by (rule add_made [OF m w'])
  have r: "relinked w (peer_heap w')" by (rule add_peer_heap [OF w'])
  then have "rel_option (\<lambda>p p'. \<exists>a b. p' = p\<lparr>m_next_peer := a, m_prev_peer := b\<rparr>) (peer_heap w pp) (peer_heap w' pp)"
    by (simp add: relinked_def)
  then obtain b e where "get_peer pp w' = Some (p\<lparr>m_next_peer := b, m_prev_peer := e\<rparr>)"
    using p by (cases "peer_heap w' pp") (auto simp: get_peer_def)
  moreover have "key_of w' pp = a" using relinked_of(2) [OF r refl] p pk(5) by (simp add: key_of_def get_peer_def)
  then have "m_peers w' a = Some pp" using table_ok_lookup [of w' "[]" "pp # xs" a pp] ok' by (simp add: mgr_ok_def)
  ultimately show ?thesis using that w' ok' manager_okI add_change [OF w'] by blast
qed

section \<open>The four stages\<close>

lemma next_id_env:
  "get_next_peer_id w = (i, w') \<Longrightarrow> sendto w' = sendto w \<and> sends w' = sends w \<and> system_time w' = system_time w \<and>
     m_running w' = m_running w \<and> wire w' = wire w \<and> channels_count w' = channels_count w \<and> m_events_produce_queue w' = m_events_produce_queue w \<and>
     m_connection_requests w' = m_connection_requests w"
  by (auto simp: get_next_peer_id_def split: prod.splits option.splits)

lemma alloc_env:
  "alloc_peer p w = (pp, w') \<Longrightarrow> w' = w\<lparr>peer_heap := (peer_heap w)(pp \<mapsto> p), next_object := pp + 1\<rparr> \<and> pp = next_object w"
  by (auto simp: alloc_peer_def)

lemma send_ok:
  assumes "m_running w" "sendto w (sends w) = Inl k" "prefix d (m_data q)" "m_size q = length d"
  shows "send_packet q a w = Some (k, w\<lparr>sends := sends w + 1, wire := wire w @ [(a, d)]\<rparr>)"
  using assms by (auto simp: send_packet_def send_raw_def rd_bytes_def prefix_def)

lemma connect_sends:
  assumes ok: "manager_ok w" and w: "m_running w" "m_connection_requests w (akey addr) = None" "m_peers w (akey addr) = None"
    "sendto w (sends w) = Inl k" and data: "writer_ok data"
  shows "\<exists>w' pp p. connect c addr data w = Some (Some pp, w') \<and> manager_ok w' \<and> m_peers w' (akey addr) = Some pp \<and>
     get_peer pp w' = Some p \<and> m_connection_state p = OUTGOING \<and> m_connect_time p = word_of_int (system_time w) \<and>
     wire w' = wire w @ [(addr, request_bytes c (word_of_int (system_time w)) (word_of_int (m_peer_id p)) addr (written data))]"
proof -
  obtain xs where xs: "mgr_ok w [] xs" using ok by (auto simp: manager_ok_def)
  obtain i w1 where i: "get_next_peer_id w = (i, w1)" by fastforce
  note w1 = next_id_mgr [OF xs i] and e1 = next_id_env [OF i]
  let ?t = "word_of_int (system_time w) :: i64"
  obtain p0 where p0: "new_peer (channels_count w1) addr i = Some p0" using new_peer_total by blast
  obtain r where r: "connect_request_make data addr ?t (word_of_int i) = Some r"
    "m_size (set_connection_number c r) = 34 + w_position data"
    "prefix (request_bytes c ?t (word_of_int i) addr (written data)) (m_data (set_connection_number c r))"
    using request_made [OF data] by blast
  let ?d = "request_bytes c ?t (word_of_int i) addr (written data)"
  have "length ?d = 34 + w_position data" using data by (simp add: request_bytes_def written_def writer_ok_def)
  then have sz: "m_size (set_connection_number c r) = length ?d" using r(2) by simp
  let ?p = "p0\<lparr>m_connect_time := ?t, m_connection_state := OUTGOING, m_connect_number := c,
                 m_connect_request_packet := Some (set_connection_number c r)\<rparr>"
  obtain pp w2 where w2: "alloc_peer ?p w1 = (pp, w2)" by fastforce
  let ?w3 = "w2\<lparr>sends := sends w2 + 1, wire := wire w2 @ [(addr, ?d)]\<rparr>"
  have s: "send_packet (set_connection_number c r) addr w2 = Some (k, ?w3)"
    by (rule send_ok) (use alloc_env [OF w2] e1 w r(3) sz in simp_all)
  have new: "new_peer_connect addr i c data w1 = Some (pp, ?w3)"
    using p0 r(1) w2 s e1 by (simp add: new_peer_connect_def Let_def)
  have m: "made ?w3 i (akey addr) pp xs" using connect_made [OF w1(1) new] w(3) w1(2) by simp
  have "get_peer pp ?w3 = Some ?p" using alloc_env [OF w2] by (simp add: get_peer_def)
  from add_peer_new [OF m this] obtain w' b e where w': "add_peer pp ?w3 = Some w'" "manager_ok w'" "m_peers w' (akey addr) = Some pp"
    "table_change ?w3 w'" "get_peer pp w' = Some (?p\<lparr>m_next_peer := b, m_prev_peer := e\<rparr>)" .
  have "connect c addr data w = Some (Some pp, w')" using w i new w'(1) by (simp add: connect_def connect_new_def)
  moreover have "wire w' = wire w @ [(addr, ?d)]" using w'(4) alloc_env [OF w2] e1 by (simp add: table_change_def)
  moreover have "m_peer_id p0 = i" by (rule new_peer_ok(4) [OF p0])
  ultimately show ?thesis using w' by fastforce
qed

definition filed :: "u8 \<Rightarrow> i64 \<Rightarrow> i32 \<Rightarrow> sockaddr_in \<Rightarrow> bytes \<Rightarrow> net_connect_request_packet \<Rightarrow> bool" where
  "filed c t i addr user r \<longleftrightarrow> cr_connection_time r = t \<and> cr_connection_number r = c \<and> cr_target_address r = addr \<and> cr_peer_id r = i \<and>
     drop (r_position (cr_data r)) (take (r_size (cr_data r)) (r_data (cr_data r))) = user"

lemma request_received:
  assumes ok: "manager_ok v" and c: "c < 4" and v: "m_peers v (akey a) = None" "m_connection_requests v (akey a) = None"
    and len: "34 + length user \<le> MAX_PACKET_SIZE"
  shows "\<exists>v' r. receive_datagram (Some (request_bytes c t i addr user, a)) v = Some v' \<and> manager_ok v' \<and>
     request_heap v' (next_object v) = Some \<lparr>m_used = 0, m_internal_packet = Some r, m_remote_endpoint = a, m_result = NO_RESULT\<rparr> \<and>
     filed c t i addr user r \<and>
     m_events_produce_queue v' = m_events_produce_queue v @ [default_event\<lparr>ev_type := EVENT_CONNECTION_REQUEST,
       remoteEndpoint := a, connectionRequest := Some (next_object v)\<rparr>] \<and>
     m_peers v' = m_peers v \<and> m_running v' = m_running v \<and> sendto v' = sendto v \<and> sends v' = sends v \<and> wire v' = wire v"
proof -
  let ?d = "request_bytes c t i addr user"
  have l: "length ?d = 34 + length user" "?d \<noteq> []" by (simp_all add: request_bytes_def)
  obtain q v0 where q: "receive_datagram (Some (?d, a)) v = on_message_received q a v0" "same_but_pool v v0" "quiet v v0"
    "prefix ?d (m_data q)" "m_size q = length ?d" using receive_packet [OF l(2), of a v] l(1) len by auto
  have sz: "m_size q = 34 + length user" using q(5) l(1) by simp
  note pr = request_parse [OF q(4) sz c]
  let ?r = "\<lparr>cr_connection_time = t, cr_connection_number = c, cr_target_address = addr,
       cr_data = \<lparr>r_data = m_data q, r_size = m_size q, r_position = 34\<rparr>, cr_peer_id = i, cr_packet = Some q\<rparr>"
  obtain x y where v0: "v0 = v\<lparr>m_packet_pool_head := x, m_packet_pool_size := y\<rparr>" using q(2) by (rule same_but_poolE)
  let ?req = "\<lparr>m_used = 0, m_internal_packet = Some ?r, m_remote_endpoint = a, m_result = NO_RESULT\<rparr>"
  let ?e = "default_event\<lparr>ev_type := EVENT_CONNECTION_REQUEST, remoteEndpoint := a, connectionRequest := Some (next_object v)\<rparr>"
  let ?v' = "v0\<lparr>request_heap := (request_heap v)(next_object v \<mapsto> ?req), next_object := next_object v + 1,
       m_connection_requests := (m_connection_requests v)(akey a \<mapsto> next_object v),
       m_events_produce_queue := m_events_produce_queue v @ [?e]\<rparr>"
  have "on_message_received q a v0 = dispatch_message q a v0" using pr by (simp add: on_message_received_def)
  also have "\<dots> = process_connect_request a None ?r v0"
    using pr v(1) by (simp add: dispatch_message_def v0)
  also have "\<dots> = Some ?v'"
    using v by (simp add: process_connect_request_def judge_request_def file_request_def v0 create_event_def default_event_def Let_def)
  finally have rc: "receive_datagram (Some (?d, a)) v = Some ?v'" using q(1) by simp
  have "manager_ok ?v'" by (rule receive_ok [OF ok rc])
  moreover have "take (m_size q) (m_data q) = ?d" using q(4,5) by (auto simp: prefix_def)
  then have "filed c t i addr user ?r" by (simp add: filed_def) (simp add: request_bytes_def)
  ultimately show ?thesis using rc by (intro exI [of _ ?v'] exI [of _ ?r]) (simp add: v0)
qed

definition accept_answer :: "net_connect_request_packet \<Rightarrow> net_peer \<Rightarrow> bytes" where
  "accept_answer q s = take 15 (accept_bytes 6 (cr_connection_time q) (cr_connection_number q) 0
       (ucast (ucast (word_of_int (m_peer_id s) :: i32) :: u8)))"

definition accepted_as :: "net_connect_request_packet \<Rightarrow> net_peer \<Rightarrow> bool" where
  "accepted_as q s \<longleftrightarrow> m_connection_state s = CONNECTED \<and> m_connect_number s = cr_connection_number q \<and>
     m_connect_time s = cr_connection_time q \<and> m_remote_id s = cr_peer_id q"

definition connect_event :: "nat \<Rightarrow> net_event" where
  "connect_event pp = default_event\<lparr>ev_type := EVENT_CONNECT, ev_peer := Some pp\<rparr>"

lemma solve_accepts:
  assumes ok: "manager_ok v" and r: "m_internal_packet r = Some q" "m_remote_endpoint r = a" "m_result r = ACCEPT"
    and v: "m_peers v (akey a) = None" "m_running v" "sendto v (sends v) = Inl k"
  shows "\<exists>sp v' s. solve_with_peer r d off n v = Some (Some sp, v') \<and> m_peers v' (akey a) = Some sp \<and> get_peer sp v' = Some s \<and>
     accepted_as q s \<and> wire v' = wire v @ [(a, accept_answer q s)] \<and>
     m_events_produce_queue v' = m_events_produce_queue v @ [connect_event sp]"
proof -
  obtain xs where xs: "mgr_ok v [] xs" using ok by (auto simp: manager_ok_def)
  obtain i w1 where i: "get_next_peer_id v = (i, w1)" by fastforce
  note w1 = next_id_mgr [OF xs i] and e1 = next_id_env [OF i]
  obtain p0 where p0: "new_peer (channels_count w1) a i = Some p0" using new_peer_total by blast
  let ?t = "cr_connection_time q" and ?c = "cr_connection_number q"
  let ?acc = "\<lparr>m_data = accept_bytes 6 ?t ?c 0 (ucast (ucast (word_of_int i :: i32) :: u8)), m_size = 15, user_data = None\<rparr>"
  let ?p = "p0\<lparr>m_connect_time := ?t, m_connect_number := ?c, m_remote_id := cr_peer_id q, m_connect_accept_packet := Some ?acc\<rparr>"
  let ?d = "take 15 (m_data ?acc)"
  obtain pp w2 where w2: "alloc_peer ?p w1 = (pp, w2)" by fastforce
  let ?w3 = "w2\<lparr>sends := sends w2 + 1, wire := wire w2 @ [(a, ?d)]\<rparr>"
  have s: "send_packet ?acc a w2 = Some (k, ?w3)"
    by (rule send_ok) (use alloc_env [OF w2] e1 v in \<open>simp_all add: take_is_prefix accept_bytes_def\<close>)
  let ?s = "?p\<lparr>m_connection_state := CONNECTED\<rparr>" and ?w4 = "put_peer pp (?p\<lparr>m_connection_state := CONNECTED\<rparr>) ?w3"
  have g: "get_peer pp ?w3 = Some ?p" using alloc_env [OF w2] by (simp add: get_peer_def)
  then have m4: "modify_peer pp (\<lambda>p. p\<lparr>m_connection_state := CONNECTED\<rparr>) ?w3 = Some ?w4" by (simp add: modify_peer_def)
  have new: "new_peer_accept r i w1 = Some (pp, ?w4)"
    using p0 r w2 s m4 by (simp add: new_peer_accept_def Let_def connect_accept_layout)
  have "made ?w4 i (akey a) pp xs" using accept_made [OF w1(1) new] r v(1) w1(2) by simp
  moreover have "get_peer pp ?w4 = Some ?s" by (simp add: get_peer_def put_peer_def)
  ultimately obtain w5 b e where w5: "add_peer pp ?w4 = Some w5" "m_peers w5 (akey a) = Some pp"
    "table_change ?w4 w5" "get_peer pp w5 = Some (?s\<lparr>m_next_peer := b, m_prev_peer := e\<rparr>)" by (rule add_peer_new)
  let ?v' = "w5\<lparr>m_events_produce_queue := m_events_produce_queue w5 @ [connect_event pp]\<rparr>"
  have "solve_with_peer r d off n v = Some (Some pp, ?v')"
    using v(1) r i new w5(1) by (simp add: solve_with_peer_def create_event_def default_event_def connect_event_def)
  moreover have "wire w5 = wire v @ [(a, ?d)]" "m_events_produce_queue w5 = m_events_produce_queue v"
    using w5(3) alloc_env [OF w2] e1 by (simp_all add: table_change_def put_peer_def)
  moreover have "m_peer_id p0 = i" by (rule new_peer_ok(4) [OF p0])
  ultimately show ?thesis using w5(2,4) by (intro exI [of _ pp] exI [of _ ?v'] exI [of _ "?s\<lparr>m_next_peer := b, m_prev_peer := e\<rparr>"])
    (simp add: accepted_as_def accept_answer_def get_peer_def)
qed

lemma accept_sends:
  assumes ok: "manager_ok v" and r: "request_heap v rp = Some r" "m_used r = 0" "m_internal_packet r = Some q" "m_remote_endpoint r = a"
    and v: "m_peers v (akey a) = None" "m_running v" "sendto v (sends v) = Inl k"
  shows "\<exists>sp v' s. request_accept rp v = Some (Some sp, v') \<and> manager_ok v' \<and> m_peers v' (akey a) = Some sp \<and> get_peer sp v' = Some s \<and>
     accepted_as q s \<and> wire v' = wire v @ [(a, accept_answer q s)] \<and>
     m_events_produce_queue v' = m_events_produce_queue v @ [connect_event sp]"
proof -
  let ?r1 = "r\<lparr>m_used := 1\<rparr>" and ?r2 = "r\<lparr>m_used := 1, m_result := ACCEPT\<rparr>"
  let ?v1 = "v\<lparr>request_heap := (request_heap v)(rp \<mapsto> ?r1)\<rparr>"
  let ?v2 = "?v1\<lparr>request_heap := (request_heap ?v1)(rp \<mapsto> ?r2)\<rparr>"
  have t: "try_activate r = (True, ?r1)" using r(2) by (simp add: try_activate_def)
  have ok1: "manager_ok ?v1" by (rule activated_ok(1) [OF ok r(1) t])
  have "request_heap ?v1 rp = Some ?r1" by simp
  then have ok2: "manager_ok ?v2" by (rule request_upd_ok [OF ok1]) (use manager_request [OF ok r(1)] in simp_all)
  have "\<exists>sp v' s. solve_with_peer ?r2 None 0 0 ?v2 = Some (Some sp, v') \<and> m_peers v' (akey a) = Some sp \<and> get_peer sp v' = Some s \<and>
     accepted_as q s \<and> wire v' = wire ?v2 @ [(a, accept_answer q s)] \<and>
     m_events_produce_queue v' = m_events_produce_queue ?v2 @ [connect_event sp]"
    by (rule solve_accepts [OF ok2]) (use r v in simp_all)
  then obtain sp v' s where s: "solve_with_peer ?r2 None 0 0 ?v2 = Some (Some sp, v')" "m_peers v' (akey a) = Some sp" "get_peer sp v' = Some s"
     "accepted_as q s" "wire v' = wire v @ [(a, accept_answer q s)]"
     "m_events_produce_queue v' = m_events_produce_queue v @ [connect_event sp]" by (elim exE conjE) simp
  let ?w = "v'\<lparr>m_connection_requests := (m_connection_requests v')(akey a := None)\<rparr>"
  have a: "request_accept rp v = Some (Some sp, ?w)"
    using r t s(1) by (simp add: request_accept_def request_solve_def on_connection_solved_def Let_def)
  moreover have "manager_ok ?w" by (rule accept_ok [OF ok a])
  ultimately show ?thesis using s by (intro exI [of _ sp] exI [of _ ?w] exI [of _ s]) (simp add: get_peer_def)
qed

lemma accept_received:
  assumes w: "m_peers w (akey addr) = Some pp" "get_peer pp w = Some p" "m_connection_state p = OUTGOING" "m_connect_time p = t" and n: "n < 4"
  shows "\<exists>w' p'. receive_datagram (Some (take 15 (accept_bytes 6 t n 0 (ucast (b :: u8))), addr)) w = Some w' \<and> get_peer pp w' = Some p' \<and>
     m_connection_state p' = CONNECTED \<and> m_connect_number p' = n \<and> m_remote_id p' = ucast b \<and>
     m_connect_time p' = t \<and> m_peer_id p' = m_peer_id p \<and> m_peers w' = m_peers w \<and>
     m_events_produce_queue w' = m_events_produce_queue w @ [connect_event pp]"
proof -
  let ?d = "take 15 (accept_bytes 6 t n 0 (ucast b))"
  have l: "length ?d = 15" "?d \<noteq> []" by (simp_all add: accept_bytes_def)
  obtain q v0 where q: "receive_datagram (Some (?d, addr)) w = on_message_received q addr v0" "same_but_pool w v0"
    "prefix ?d (m_data q)" "m_size q = length ?d" using receive_packet [OF l(2), of addr w] l(1) by (auto simp: MAX_PACKET_SIZE_def)
  have sz: "m_size q = 15" using q(4) l(1) by simp
  note pr = accept_parse_prefix [OF q(3) sz n byte_not_negative]
  obtain x y where v0: "v0 = w\<lparr>m_packet_pool_head := x, m_packet_pool_size := y\<rparr>" using q(2) by (rule same_but_poolE)
  let ?p' = "p\<lparr>m_connect_number := n, m_remote_id := ucast b, m_time_since_last_packet := 0, m_connection_state := CONNECTED\<rparr>"
  let ?e = "default_event\<lparr>ev_type := EVENT_CONNECT, ev_peer := Some pp\<rparr>"
  let ?w1 = "put_peer pp ?p' v0\<lparr>m_events_produce_queue := m_events_produce_queue w @ [?e]\<rparr>"
  have "on_message_received q addr v0 = on_connect_accept pp q v0"
    using pr w(1) by (simp add: on_message_received_def dispatch_message_def v0)
  also have "\<dots> = Some (pool_recycle q ?w1)"
    using pr(3) w(2-4) by (simp add: on_connect_accept_def process_connect_accept_def v0 get_peer_def create_event_def default_event_def put_peer_def)
  finally have rc: "receive_datagram (Some (?d, addr)) w = Some (pool_recycle q ?w1)" using q(1) by simp
  obtain x' y' where pl: "pool_recycle q ?w1 = ?w1\<lparr>m_packet_pool_head := x', m_packet_pool_size := y'\<rparr>"
    using pool_same(2) [of ?w1 q] by (rule same_but_poolE)
  show ?thesis using rc unfolding pl by (intro exI [of _ "?w1\<lparr>m_packet_pool_head := x', m_packet_pool_size := y'\<rparr>"] exI [of _ ?p'])
     (simp add: get_peer_def put_peer_def connect_event_def v0 w(4))
qed

section \<open>The handshake\<close>

definition opened :: "world \<Rightarrow> sockaddr_in \<Rightarrow> nat \<Rightarrow> net_peer \<Rightarrow> bool" where
  "opened w a pp p \<longleftrightarrow> manager_ok w \<and> m_peers w (akey a) = Some pp \<and> get_peer pp w = Some p \<and> m_connection_state p = CONNECTED \<and>
     last (m_events_produce_queue w) = connect_event pp"

definition can_open :: "world \<Rightarrow> sockaddr_in \<Rightarrow> bool" where
  "can_open w a \<longleftrightarrow> manager_ok w \<and> m_running w \<and> m_peers w (akey a) = None \<and> m_connection_requests w (akey a) = None \<and>
     (\<exists>k. sendto w (sends w) = Inl k)"

text \<open>C9: Two running managers that do not know each other connect in four steps, if the connection number of the client is below 4,
  its data fits one packet, and the two datagrams can be sent. (The number of a first \<open>connect\<close> is a local variable that the
  code does not initialise, here the argument \<open>c\<close>; from 4 on it changes the fragment bit of the request.) \<open>connect\<close> at the client
  sends one datagram; the server that receives it files a request, which holds the data of the
  client; \<open>accept\<close> makes a connected peer and sends one datagram back; and the client that
  receives it has a connected peer too. Both ends agree on the connection number and time, the
  server knows the id of the client, the client the low byte of the id of the server, each
  is told by an event, and neither manager loses its invariant.
\<close>

theorem handshake_connects:
  assumes client: "can_open w server" and data: "writer_ok data" "34 + w_position data \<le> MAX_PACKET_SIZE" and c: "c < 4"
    and serv: "can_open v client"
  shows "\<exists>cp w1 d r q v1 sp v2 e w2 p s.
     connect c server data w = Some (Some cp, w1) \<and> wire w1 = wire w @ [(server, d)] \<and>
     receive_datagram (Some (d, client)) v = Some v1 \<and>
     last (m_events_produce_queue v1) =
       default_event\<lparr>ev_type := EVENT_CONNECTION_REQUEST, remoteEndpoint := client, connectionRequest := Some r\<rparr> \<and>
     map_option m_internal_packet (request_heap v1 r) = Some (Some q) \<and> cr_connection_number q = c \<and>
     drop (r_position (cr_data q)) (take (r_size (cr_data q)) (r_data (cr_data q))) = written data \<and>
     request_accept r v1 = Some (Some sp, v2) \<and> wire v2 = wire v @ [(client, e)] \<and>
     receive_datagram (Some (e, server)) w1 = Some w2 \<and>
     opened w2 server cp p \<and> opened v2 client sp s \<and>
     m_connect_number p = c \<and> m_connect_number s = c \<and> m_connect_time s = m_connect_time p \<and>
     m_remote_id s = word_of_int (m_peer_id p) \<and> m_remote_id p = ucast (ucast (word_of_int (m_peer_id s) :: i32) :: u8)"
proof -
  obtain k where w: "manager_ok w" "m_running w" "m_peers w (akey server) = None" "m_connection_requests w (akey server) = None"
    "sendto w (sends w) = Inl k" using client by (auto simp: can_open_def)
  obtain l where v: "manager_ok v" "m_running v" "m_peers v (akey client) = None" "m_connection_requests v (akey client) = None"
    "sendto v (sends v) = Inl l" using serv by (auto simp: can_open_def)
  let ?t = "word_of_int (system_time w) :: i64"
  obtain w1 cp p where w1: "connect c server data w = Some (Some cp, w1)" "manager_ok w1" "m_peers w1 (akey server) = Some cp"
     "get_peer cp w1 = Some p" "m_connection_state p = OUTGOING" "m_connect_time p = ?t"
     "wire w1 = wire w @ [(server, request_bytes c ?t (word_of_int (m_peer_id p)) server (written data))]"
    using connect_sends [OF w(1,2,4,3,5) data(1)] by blast
  have "34 + length (written data) \<le> MAX_PACKET_SIZE" using data by (simp add: written_def writer_ok_def)
  from request_received [OF v(1) c v(3,4) this, of ?t "word_of_int (m_peer_id p)" server]
  obtain v1 q where v1: "receive_datagram (Some (request_bytes c ?t (word_of_int (m_peer_id p)) server (written data), client)) v = Some v1"
     "manager_ok v1" "request_heap v1 (next_object v) =
       Some \<lparr>m_used = 0, m_internal_packet = Some q, m_remote_endpoint = client, m_result = NO_RESULT\<rparr>"
     "filed c ?t (word_of_int (m_peer_id p)) server (written data) q"
     "m_events_produce_queue v1 = m_events_produce_queue v @ [default_event\<lparr>ev_type := EVENT_CONNECTION_REQUEST,
       remoteEndpoint := client, connectionRequest := Some (next_object v)\<rparr>]"
     "m_peers v1 = m_peers v" "m_running v1" "sendto v1 (sends v1) = Inl l" "wire v1 = wire v" using v(2,5) by (elim exE conjE) simp
  have "m_peers v1 (akey client) = None" using v1(6) v(3) by simp
  note acc = accept_sends [OF v1(2,3) _ _ _ this v1(7,8), of q, simplified]
  from acc
  obtain sp v2 s where v2: "request_accept (next_object v) v1 = Some (Some sp, v2)" "manager_ok v2" "m_peers v2 (akey client) = Some sp"
    "get_peer sp v2 = Some s" "accepted_as q s" "wire v2 = wire v1 @ [(client, accept_answer q s)]"
    "m_events_produce_queue v2 = m_events_produce_queue v1 @ [connect_event sp]" by (elim exE conjE) simp
  have q: "cr_connection_time q = ?t" "cr_connection_number q = c" "cr_peer_id q = word_of_int (m_peer_id p)"
    "drop (r_position (cr_data q)) (take (r_size (cr_data q)) (r_data (cr_data q))) = written data"
    using v1(4) by (simp_all add: filed_def)
  obtain w2 p' where w2: "receive_datagram (Some (accept_answer q s, server)) w1 = Some w2" "get_peer cp w2 = Some p'"
    "m_connection_state p' = CONNECTED" "m_connect_number p' = c" "m_remote_id p' = ucast (ucast (word_of_int (m_peer_id s) :: i32) :: u8)"
    "m_connect_time p' = ?t" "m_peer_id p' = m_peer_id p" "m_peers w2 = m_peers w1"
    "m_events_produce_queue w2 = m_events_produce_queue w1 @ [connect_event cp]"
    using accept_received [OF w1(3-6) c, of "ucast (word_of_int (m_peer_id s) :: i32)"]
    unfolding accept_answer_def q(1,2) by (elim exE conjE)
  have "manager_ok w2" by (rule receive_ok [OF w1(2) w2(1)])
  then have "opened w2 server cp p'" using w2 w1(3) by (simp add: opened_def)
  moreover have "opened v2 client sp s" using v2 by (simp add: opened_def accepted_as_def)
  moreover have "m_connect_number s = c" "m_connect_time s = m_connect_time p'" "m_remote_id s = word_of_int (m_peer_id p')"
    using v2(5) q w2(6,7) by (simp_all add: accepted_as_def)
  moreover have "last (m_events_produce_queue v1) =
      default_event\<lparr>ev_type := EVENT_CONNECTION_REQUEST, remoteEndpoint := client, connectionRequest := Some (next_object v)\<rparr>"
    "map_option m_internal_packet (request_heap v1 (next_object v)) = Some (Some q)" "wire v2 = wire v @ [(client, accept_answer q s)]"
    using v1(3,5,9) v2(6) by simp_all
  ultimately show ?thesis using w1(1,7) v1(1) q(2,4) v2(1) w2(1,4,5) by (intro exI conjI)
qed

theorem handshake_connects_witness:
  "can_open sample_start sample_server \<and> can_open sample_start sample_client \<and>
   (\<exists>cp w1 w2 p. connect 3 sample_server new_writer sample_start = Some (Some cp, w1) \<and>
      opened w2 sample_server cp p \<and> m_connect_number p = 3)"
proof -
  have o: "can_open sample_start a" for a
    using net.reach_inv [OF sample_reach(1)] by (auto simp: can_open_def sample_start_def new_manager_def)
  have d: "writer_ok new_writer" "34 + w_position new_writer \<le> MAX_PACKET_SIZE"
    by (simp_all add: new_writer_def writer_ok_def MAX_PACKET_SIZE_def)
  have c: "(3 :: u8) < 4" by simp
  show ?thesis using o handshake_connects [OF o d c o, of sample_server sample_client] by blast
qed

end
