(* ===== verification/Messages.thy ===== *)
theory Messages
  imports Handshake Merging
begin

text \<open>
  An unreliable message on its way from \<open>send\<close> at one end, through an update of the peer, to the event at the
  other end.
\<close>

section \<open>The packet\<close>

lemma pool_fresh:
  assumes "pool_ok w" "pool_get_packet n w = (p, w')"
  shows "m_size p = n" "n \<le> buffer_size p" "set (m_data p) \<subseteq> {0}" "same_but_pool w w'"
proof -
  have z: "set (ensure n bs) \<subseteq> insert 0 (set bs)" for bs by (auto simp: ensure_def)
  have "set (m_data p) \<subseteq> {0} \<and> m_size p = n \<and> n \<le> buffer_size p"
    using assms z [of "m_data new_packet"] z [of "m_data (hd (m_packet_pool_head w))"] set_ensure_Nil [of MAX_PACKET_SIZE] ensure_length(1)
    by (cases "m_packet_pool_head w") (auto simp: pool_get_packet_def pool_ok_def new_packet_def blank_packet_def)
  then show "m_size p = n" "n \<le> buffer_size p" "set (m_data p) \<subseteq> {0}" by simp_all
  show "same_but_pool w w'" using pool_same(1) [of w n] assms(2) by simp
qed

text \<open>The datagram of an unreliable message: one byte of header with the connection number.\<close>

definition message_bytes :: "u8 \<Rightarrow> bytes \<Rightarrow> bytes" where
  "message_bytes c data = push_bit 5 c # data"

definition carries_message :: "bytes \<Rightarrow> net_packet \<Rightarrow> bool" where
  "carries_message data q \<longleftrightarrow> wf_packet q \<and> m_size q = 1 + length data \<and> prefix (0 # data) (m_data q)"

lemma numbered_message:
  assumes "carries_message data q"
  shows "part_bytes (set_connection_number c q) = message_bytes c data"
proof -
  obtain rest where "m_data q = 0 # data @ rest" using assms by (auto simp: carries_message_def prefix_def)
  then show ?thesis using assms
    by (simp add: part_bytes_def message_bytes_def set_connection_number_def upd_byte0_def byte0_def carries_message_def)
qed

lemma message_packet:
  assumes "pool_ok w"
  obtains p0 w1 q where "pool_get_packet (1 + length data) w = (p0, w1)" "same_but_pool w w1"
    "copy_from data 0 1 (length data) ((set_property UNRELIABLE p0)\<lparr>user_data := ud\<rparr>) = Some q" "carries_message data q"
proof -
  obtain p0 w1 where p0: "pool_get_packet (1 + length data) w = (p0, w1)" by fastforce
  note f = pool_fresh [OF assms p0]
  then obtain b bs where bs: "m_data p0 = b # bs" by (cases "m_data p0") auto
  then have b: "b = 0" using f(3) by simp
  let ?p = "(set_property UNRELIABLE p0)\<lparr>user_data := ud\<rparr>"
  have pre: "prefix [0] (m_data ?p)" "m_size ?p = 1 + length data" "buffer_size ?p = buffer_size p0"
    using bs b f(1) by (simp_all add: set_property_def upd_byte0_def byte0_def)
  obtain q where "copy_from data 0 1 (length data) ?p = Some q" "prefix ([0] @ take (length data) data) (m_data q)"
    "m_size q = m_size ?p" "buffer_size q = buffer_size ?p"
    using copy_prefix [OF pre(1), of 1 "length data" data] pre f(2) by auto
  with that [OF p0 f(4)] show ?thesis using pre f(2) by (force simp: carries_message_def wf_packet_def)
qed

section \<open>The update of a peer with no timer due\<close>

lemma table_peer_ok:
  assumes "manager_ok w" "m_peers w k = Some pp" "get_peer pp w = Some p" shows "peer_ok p" "pool_ok w"
proof -
  obtain xs where xs: "mgr_ok w [] xs" using assms(1) by (auto simp: manager_ok_def)
  then have t: "table_ok w [] xs" "pool_ok w" by (simp_all add: mgr_ok_def around_ok_def)
  have "pp \<in> set xs" using table_ok_lookup [OF t(1), of k pp] assms(2) by simp
  then show "peer_ok p" using table_okD(1) [OF t(1)] assms(3) by (auto simp: list_ok_def get_peer_def)
  show "pool_ok w" by (rule t(2))
qed

definition idle :: "int \<Rightarrow> world \<Rightarrow> net_peer \<Rightarrow> bool" where
  "idle dt w p \<longleftrightarrow> m_connection_state p = CONNECTED \<and> m_time_since_last_packet p + dt \<le> disconnect_timeout w \<and>
     m_ping_send_timer p + dt < ping_interval w \<and> (m_finish_mtu p \<or> m_mtu_check_timer p + dt < MTU_CHECK_DELAY) \<and>
     m_channel_send_queue p = [] \<and> merge_holds p []"

definition same_sending :: "net_peer \<Rightarrow> net_peer \<Rightarrow> bool" where
  "same_sending p p' \<longleftrightarrow> m_endpoint p' = m_endpoint p \<and> m_connect_number p' = m_connect_number p \<and>
     m_mtu_idx p' = m_mtu_idx p \<and> m_mtu p' = m_mtu p \<and> m_finish_mtu p' = m_finish_mtu p \<and>
     m_mtu_check_timer p' = m_mtu_check_timer p \<and> m_merge_data p' = m_merge_data p \<and>
     m_merge_pos p' = m_merge_pos p \<and> m_merge_count p' = m_merge_count p \<and> m_ping_packet p' = m_ping_packet p \<and>
     m_pong_packet p' = m_pong_packet p \<and> m_channel_send_queue p' = m_channel_send_queue p \<and>
     m_unreliable_channel p' = m_unreliable_channel p"

lemma put_put [simp]: "put_peer pp q (put_peer pp p w) = put_peer pp q w"
  by (simp add: put_peer_def)

definition calm :: "int \<Rightarrow> world \<Rightarrow> net_peer \<Rightarrow> bool" where
  "calm dt w p \<longleftrightarrow> m_connection_state p = CONNECTED \<and> m_time_since_last_packet p + dt \<le> disconnect_timeout w \<and>
     m_ping_send_timer p + dt < ping_interval w \<and> (m_finish_mtu p \<or> m_mtu_check_timer p + dt < MTU_CHECK_DELAY)"

lemma calm_update:
  assumes p: "get_peer pp w = Some p" and i: "calm dt w p"
  shows "\<exists>p' t. same_sending (p\<lparr>m_mtu_check_timer := t\<rparr>) p' \<and> m_channels p' = m_channels p \<and>
     peer_update pp dt w = do {
       w4 \<leftarrow> send_channels pp (length (m_channel_send_queue p)) (put_peer pp p' w);
       p4 \<leftarrow> get_peer pp w4;
       w5 \<leftarrow> send_unreliable pp (m_unreliable_channel p4) w4;
       send_merged pp w5
     }"
proof -
  let ?p1 = "p\<lparr>m_time_since_last_packet := m_time_since_last_packet p + dt\<rparr>"
  let ?p2 = "?p1\<lparr>m_ping_send_timer := m_ping_send_timer p + dt\<rparr>"
  let ?p3 = "update_rtt dt (put_peer pp ?p2 w) ?p2"
  let ?p4 = "if m_finish_mtu p then ?p3 else ?p3\<lparr>m_mtu_check_timer := m_mtu_check_timer p + dt\<rparr>"
  have s3: "same_sending p ?p3" "m_channels ?p3 = m_channels p" by (simp_all add: same_sending_def update_rtt_def Let_def)
  then have s: "same_sending (p\<lparr>m_mtu_check_timer := m_mtu_check_timer ?p4\<rparr>) ?p4" "m_channels ?p4 = m_channels p"
    by (simp_all add: same_sending_def)
  have 1: "update_ping pp dt (put_peer pp ?p1 w) = Some (put_peer pp ?p2 w)"
    using i by (simp add: update_ping_def get_put_peer calm_def) (simp add: put_peer_def)
  have 2: "modify_peer pp (update_rtt dt (put_peer pp ?p2 w)) (put_peer pp ?p2 w) = Some (put_peer pp ?p3 w)"
    by (simp add: modify_peer_def get_put_peer)
  have 3: "update_mtu_logic pp dt (put_peer pp ?p3 w) = Some (put_peer pp ?p4 w)"
    using i s3 by (auto simp: update_mtu_logic_def get_put_peer calm_def same_sending_def Let_def)
  have 4: "m_channel_send_queue ?p4 = m_channel_send_queue p" using s by (simp add: same_sending_def)
  have "update_connected pp dt (put_peer pp ?p1 w) = do {
       w4 \<leftarrow> send_channels pp (length (m_channel_send_queue p)) (put_peer pp ?p4 w);
       p4 \<leftarrow> get_peer pp w4;
       w5 \<leftarrow> send_unreliable pp (m_unreliable_channel p4) w4;
       send_merged pp w5
     }"
    unfolding update_connected_def 1 bind.bind_lunit 2 3 get_put_peer q_size_def 4 ..
  moreover have "peer_update pp dt w = update_connected pp dt (put_peer pp ?p1 w)"
    using p i by (simp add: peer_update_def calm_def Let_def)
  ultimately show ?thesis using s by (intro exI [of _ ?p4] exI [of _ "m_mtu_check_timer ?p4"] conjI) simp_all
qed

lemma idle_update:
  assumes p: "get_peer pp w = Some p" and i: "idle dt w p"
  shows "\<exists>p' t. same_sending (p\<lparr>m_mtu_check_timer := t\<rparr>) p' \<and>
     peer_update pp dt w = send_unreliable pp (m_unreliable_channel p) (put_peer pp p' w) \<bind> send_merged pp"
proof -
  have c: "calm dt w p" "m_channel_send_queue p = []" using i by (simp_all add: idle_def calm_def)
  obtain p' t where p': "same_sending (p\<lparr>m_mtu_check_timer := t\<rparr>) p'"
    and u: "peer_update pp dt w = do {
       w4 \<leftarrow> send_channels pp (length (m_channel_send_queue p)) (put_peer pp p' w);
       p4 \<leftarrow> get_peer pp w4;
       w5 \<leftarrow> send_unreliable pp (m_unreliable_channel p4) w4;
       send_merged pp w5
     }" using calm_update [OF p c(1)] by blast
  have "m_unreliable_channel p' = m_unreliable_channel p" using p' by (simp add: same_sending_def)
  then have "peer_update pp dt w = send_unreliable pp (m_unreliable_channel p) (put_peer pp p' w) \<bind> send_merged pp"
    using u c(2) by (simp add: get_put_peer)
  with p' show ?thesis by blast
qed

section \<open>Out and in\<close>

lemma same_but_pool_fields:
  assumes "same_but_pool w w'"
  shows "get_peer pp w' = get_peer pp w" "m_running w' = m_running w" "sendto w' = sendto w" "sends w' = sends w" "wire w' = wire w"
  using assms by (auto simp: same_but_pool_def get_peer_def)

lemma flush_alone:
  assumes p: "get_peer pp w = Some p" "merge_holds p [bs]" and w: "m_running w" "sendto w (sends w) = Inl n"
  shows "send_merged pp w = Some (put_peer pp (p\<lparr>m_merge_pos := 0, m_merge_count := 0\<rparr>)
    (w\<lparr>sends := sends w + 1, wire := wire w @ [(m_endpoint p, bs)]\<rparr>))"
proof -
  have pos: "m_merge_count p = 1" "m_merge_pos p = 2 + length bs" using p(2) by (simp_all add: merge_holds_def)
  have "rd_bytes (m_data (m_merge_data p)) (HEADER_SIZE + 2) (length bs) = Some bs"
    using p(2) by (auto simp: merge_holds_def prefix_def rd_bytes_def)
  then have "send_raw (m_data (m_merge_data p)) (HEADER_SIZE + 2) (usub (m_merge_pos p) 2) (m_endpoint p) w =
      Some (n, w\<lparr>sends := sends w + 1, wire := wire w @ [(m_endpoint p, bs)]\<rparr>)"
    using w pos by (simp add: send_raw_def)
  then show ?thesis using p(1) pos by (simp add: send_merged_def modify_peer_def get_peer_def)
qed

lemma flush_one:
  assumes "get_peer pp w = Some p" "merge_holds p [bs]" "m_running w" "sendto w (sends w) = Inl n"
  shows "\<exists>w'. send_merged pp w = Some w' \<and> wire w' = wire w @ [(m_endpoint p, bs)]"
  using flush_alone [OF assms] by (simp add: put_peer_def)

lemma message_out:
  assumes p: "get_peer pp w = Some p" "peer_ok p" "merge_holds p []" and q: "carries_message data q" "1 + length data \<le> m_mtu p"
    and w: "m_running w" "sendto w (sends w) = Inl n"
  shows "\<exists>w'. send_unreliable pp [q] w \<bind> send_merged pp = Some w' \<and>
     wire w' = wire w @ [(m_endpoint p, message_bytes (m_connect_number p) data)]"
proof -
  let ?c = "m_connect_number p" and ?p0 = "p\<lparr>m_unreliable_channel := []\<rparr>"
  let ?q = "set_connection_number ?c q" and ?w0 = "put_peer pp ?p0 w"
  have m: "modify_peer pp (\<lambda>p. p\<lparr>m_unreliable_channel := []\<rparr>) w = Some ?w0" using p by (simp add: modify_peer_def)
  have q': "wf_packet q" "m_size q = 1 + length data" using q by (simp_all add: carries_message_def)
  have bytes: "part_bytes ?q = message_bytes ?c data" by (rule numbered_message [OF q(1)])
  have g: "get_peer pp ?w0 = Some ?p0" by (simp add: get_put_peer)
  have w0: "m_running ?w0" "sendto ?w0 (sends ?w0) = Inl n" "wire ?w0 = wire w" using w by (simp_all add: put_peer_def)
  have sz: "m_size ?q \<le> buffer_size ?q" "m_size ?q = 1 + length data" using q' by (simp_all add: wf_packet_def byte0_setters)
  show ?thesis
  proof (cases "HEADER_SIZE + m_size q + 2 + sizeTreshold \<ge> m_mtu p")
    case True
    let ?w1 = "?w0\<lparr>sends := sends ?w0 + 1, wire := wire ?w0 @ [(m_endpoint p, message_bytes ?c data)]\<rparr>"
    have "send_packet ?q (m_endpoint p) ?w0 = Some (n, ?w1)"
      by (rule send_ok [OF w0(1,2)]) (use sz bytes take_is_prefix [of "m_size ?q" "m_data ?q"] in \<open>simp_all add: part_bytes_def message_bytes_def\<close>)
    then have s: "send_user_data pp q ?w0 = Some (?q, ?w1)" using g True by (simp add: send_user_data_def Let_def)
    obtain w2 where w2: "pool_recycle ?q ?w1 = w2" "get_peer pp w2 = Some ?p0"
      "wire w2 = wire w @ [(m_endpoint p, message_bytes ?c data)]"
      using same_but_pool_fields(1,5) [OF pool_same(2) [of ?w1 ?q]] g w0(3) by (simp add: get_peer_def)
    then have "send_merged pp w2 = Some w2" using p(3) by (simp add: send_merged_def merge_holds_def)
    then show ?thesis using m s w2(1,3) by simp
  next
    case False
    obtain p1 md k c where s: "send_user_data pp q ?w0 = Some (?q, put_peer pp p1 ?w0)"
      and h: "merge_holds p1 [part_bytes ?q]" and e: "p1 = ?p0\<lparr>m_merge_data := md, m_merge_pos := k, m_merge_count := c\<rparr>"
    proof -
      have 1: "peer_ok ?p0" "merge_holds ?p0 []" using p(2,3) by (simp_all add: peer_ok_defs merge_holds_def)
      have 2: "HEADER_SIZE + m_size q + 2 + sizeTreshold < m_mtu ?p0"
        "HEADER_SIZE + length (merged_bytes []) + m_size q + 2 \<le> m_mtu ?p0" using False by simp_all
      from collect_step [OF g 1 q'(1) 2] that show ?thesis by fastforce
    qed
    let ?w1 = "put_peer pp p1 ?w0"
    note f = same_but_pool_fields [OF pool_same(2) [of ?w1 ?q]]
    obtain w2 where w2: "pool_recycle ?q ?w1 = w2" "get_peer pp w2 = Some p1" "m_running w2" "sendto w2 (sends w2) = Inl n" "wire w2 = wire w"
      using f(1) [of pp] f(2-5) w by (simp add: put_peer_def get_peer_def)
    obtain w3 where "send_merged pp w2 = Some w3" "wire w3 = wire w @ [(m_endpoint p, message_bytes ?c data)]"
      using flush_one [OF w2(2) h w2(3,4)] w2(5) e bytes by auto
    then show ?thesis using m s w2(1) by simp
  qed
qed

lemma message_in:
  assumes v: "m_peers v (akey a) = Some rp" "get_peer rp v = Some r" "m_connection_state r = CONNECTED" "m_connect_number r = c"
    "akey (m_endpoint r) = akey a" and c: "c < 4" and len: "1 + length data \<le> MAX_PACKET_SIZE"
  shows "\<exists>v' e reader. receive_datagram (Some (message_bytes c data, a)) v = Some v' \<and>
     m_events_produce_queue v' = m_events_produce_queue v @ [e] \<and> ev_type e = EVENT_RECEIVE \<and> ev_peer e = Some rp \<and>
     deliveryMethod e = UNRELIABLE_DELIVERY \<and> ev_reader e = Some reader \<and>
     drop (r_position reader) (take (r_size reader) (r_data reader)) = data"
proof -
  let ?d = "message_bytes c data"
  have l: "length ?d = 1 + length data" "?d \<noteq> []" by (simp_all add: message_bytes_def)
  obtain q v0 where q: "receive_datagram (Some (?d, a)) v = on_message_received q a v0" "same_but_pool v v0"
    "prefix ?d (m_data q)" "m_size q = length ?d" using receive_packet [OF l(2), of a v] l(1) len by auto
  obtain x y where v0: "v0 = v\<lparr>m_packet_pool_head := x, m_packet_pool_size := y\<rparr>" using q(2) by (rule same_but_poolE)
  let ?z = "\<lparr>m_data = [0 :: u8], m_size = 1, user_data = None :: nat option\<rparr>"
  have b: "byte0 q = byte0 (set_connection_number c ?z)"
    using prefix_byte0 [OF q(3) [unfolded message_bytes_def]] by (simp add: set_connection_number_def upd_byte0_def byte0_def)
  have z: "property ?z = UNRELIABLE" "\<not> is_fragmented ?z" by (simp_all add: property_def byte0_def property_of_code_def is_fragmented_def)
  have h: "property q = UNRELIABLE" "connection_number q = c" "\<not> is_fragmented q"
    using byte0_only [OF b] z small_connection_number [OF c] connection_number_set [of ?z c]
    by (simp_all add: property_set_connection_number is_fragmented_set_connection_number)
  then have ver: "verify q" using q(4) l(1) by (simp add: verify_iff named_property_def)
  let ?r = "r\<lparr>m_time_since_last_packet := 0\<rparr>" and ?reader = "\<lparr>r_data = m_data q, r_size = m_size q, r_position = HEADER_SIZE\<rparr>"
  let ?e = "default_event\<lparr>ev_type := EVENT_RECEIVE, deliveryMethod := UNRELIABLE_DELIVERY, channelNumber := 0, ev_peer := Some rp,
     m_reader_source := Some q, ev_reader := Some ?reader\<rparr>"
  have g: "get_peer rp v0 = Some r" using v(2) by (simp add: v0 get_peer_def)
  have "peer_process_packet rp q v0 = process_single rp q (put_peer rp ?r v0)"
    unfolding peer_process_packet_def using g v(3,4) h by (subst process_packet_at.simps) (simp add: admit_packet_def Let_def)
  also have "\<dots> = Some ((put_peer rp ?r v0)\<lparr>m_events_produce_queue := m_events_produce_queue v @ [?e]\<rparr>)"
    using h v(1,5) by (simp add: process_single_def get_put_peer create_receive_event_def create_event_def default_event_def try_get_peer_def)
      (simp add: put_peer_def v0)
  finally have "receive_datagram (Some (?d, a)) v = Some ((put_peer rp ?r v0)\<lparr>m_events_produce_queue := m_events_produce_queue v @ [?e]\<rparr>)"
    using q(1) ver h v(1) by (simp add: on_message_received_def dispatch_message_def v0)
  moreover have "drop HEADER_SIZE (take (m_size q) (m_data q)) = data"
    using q(3,4) by (auto simp: prefix_def message_bytes_def)
  ultimately show ?thesis
    by (intro exI [of _ "(put_peer rp ?r v0)\<lparr>m_events_produce_queue := m_events_produce_queue v @ [?e]\<rparr>"] exI [of _ ?e] exI [of _ ?reader])
      (simp add: default_event_def)
qed

text \<open>C12: An unreliable message of a peer with nothing else to send arrives if its datagram does. The peer of the table is connected; its
  send queue and its merge buffer are empty, no other unreliable message waits, and no timer is due (\<open>idle\<close>); the message fits the
  MTU and the datagram can be sent. Then after \<open>send\<close> and one update of the peer exactly one datagram has left, whether the
  message was merged or not; and the other end of the connection, a connected peer with the same connection number (below 4), when it
  receives that datagram, puts one event into its queue whose reader holds exactly the message. (Two small messages that
  wait together leave as one merged datagram, which the other end drops unless its connection number is 0: \<open>merging_roundtrip\<close>.)\<close>

theorem unreliable_message_arrives:
  assumes w: "manager_ok w" "m_peers w k = Some pp" "get_peer pp w = Some p" "idle dt w p" "m_unreliable_channel p = []"
    and ch: "unat channel < length (m_channels p)" and len: "1 + length data \<le> m_mtu p"
    and s: "m_running w" "sendto w (sends w) = Inl n"
    and v: "m_peers v (akey a) = Some rp" "get_peer rp v = Some r" "m_connection_state r = CONNECTED" "akey (m_endpoint r) = akey a"
      "m_connect_number r = m_connect_number p" "m_connect_number p < 4"
  shows "\<exists>w1 w2 d v' e reader. peer_send pp data channel UNRELIABLE_DELIVERY w = Some w1 \<and> peer_update pp dt w1 = Some w2 \<and>
     wire w2 = wire w @ [(m_endpoint p, d)] \<and> receive_datagram (Some (d, a)) v = Some v' \<and>
     m_events_produce_queue v' = m_events_produce_queue v @ [e] \<and> ev_type e = EVENT_RECEIVE \<and> ev_peer e = Some rp \<and>
     deliveryMethod e = UNRELIABLE_DELIVERY \<and> ev_reader e = Some reader \<and>
     drop (r_position reader) (take (r_size reader) (r_data reader)) = data"
proof -
  note ok = table_peer_ok(1) [OF w(1-3)] and pool = table_peer_ok(2) [OF w(1-3)]
  obtain p0 w0 q where q: "pool_get_packet (1 + length data) w = (p0, w0)" "same_but_pool w w0"
    "copy_from data 0 1 (length data) ((set_property UNRELIABLE p0)\<lparr>user_data := None\<rparr>) = Some q" "carries_message data q"
    by (rule message_packet [OF pool])
  obtain x y where w0: "w0 = w\<lparr>m_packet_pool_head := x, m_packet_pool_size := y\<rparr>" using q(2) by (rule same_but_poolE)
  let ?p1 = "p\<lparr>m_unreliable_channel := [q]\<rparr>" and ?w1 = "put_peer pp (p\<lparr>m_unreliable_channel := [q]\<rparr>) w0"
  have g0: "get_peer pp w0 = Some p" using w(3) by (simp add: w0 get_peer_def)
  have con: "m_connection_state p = CONNECTED" "merge_holds p []" using w(4) by (simp_all add: idle_def)
  have send: "peer_send pp data channel UNRELIABLE_DELIVERY w = Some ?w1"
    using w(3,5) ch con(1) len q(1,3) g0 by (simp add: peer_send_def send_internal_def send_payload_def Let_def modify_peer_def)
  have "idle dt ?w1 ?p1" using w(4) by (simp add: idle_def merge_holds_def put_peer_def w0)
  then obtain p2 t where p2: "same_sending (?p1\<lparr>m_mtu_check_timer := t\<rparr>) p2"
    "peer_update pp dt ?w1 = send_unreliable pp [q] (put_peer pp p2 ?w1) \<bind> send_merged pp"
    using idle_update [of pp ?w1 ?p1 dt, OF get_put_peer] by auto
  have f: "peer_ok p2" "merge_holds p2 []" "m_mtu p2 = m_mtu p" "m_endpoint p2 = m_endpoint p" "m_connect_number p2 = m_connect_number p"
    using ok con(2) p2(1) by (simp_all add: same_sending_def peer_ok_defs merge_holds_def)
  obtain w2 where w2: "peer_update pp dt ?w1 = Some w2" "wire w2 = wire w @ [(m_endpoint p, message_bytes (m_connect_number p) data)]"
    using message_out [OF get_put_peer f(1,2) q(4), of pp ?w1 n] len s f(3-5) p2(2) by (auto simp: put_peer_def w0)
  have "1 + length data \<le> MAX_PACKET_SIZE" using len mtu_ok_le [OF peer_okD(1) [OF ok]] by simp
  from message_in [OF v(1-3,5,4,6) this] send w2 show ?thesis by blast
qed

theorem unreliable_message_arrives_witness:
  "\<exists>w1 w2 d v' e reader. peer_send 0 [1, 2, 3] 0 UNRELIABLE_DELIVERY sample_connected = Some w1 \<and> peer_update 0 15 w1 = Some w2 \<and>
     wire w2 = wire sample_connected @ [(sample_server, d)] \<and> receive_datagram (Some (d, sample_client)) sample_accepted = Some v' \<and>
     m_events_produce_queue v' = m_events_produce_queue sample_accepted @ [e] \<and> ev_peer e = Some 1 \<and> ev_reader e = Some reader \<and>
     drop (r_position reader) (take (r_size reader) (r_data reader)) = [1, 2, 3]"
proof -
  obtain p where p: "get_peer 0 sample_connected = Some p" "m_endpoint p = sample_server" using sample_connected_facts(5) by blast
  note run = sample_connected_run [unfolded sample_connected_facts(1) option.case p(1)]
  then have f: "idle 15 sample_connected p" "m_unreliable_channel p = []" "length (m_channels p) = 4" "m_mtu p = 508" "m_connect_number p = 3"
    by (auto simp: idle_def merge_holds_def byte0_def split: list.splits)
  obtain r where r: "get_peer 1 sample_accepted = Some r" using sample_accepted_facts(3) by blast
  have r': "m_connection_state r = CONNECTED" "m_connect_number r = 3" "akey (m_endpoint r) = akey sample_client"
    using sample_accepted_run [unfolded sample_accepted_facts(1) option.case prod.case r] by simp_all
  have m: "manager_ok sample_connected" by (rule net.reach_inv [OF sample_reach(5)])
  have l: "unat (0 :: u8) < length (m_channels p)" "1 + length [1 :: u8, 2, 3] \<le> m_mtu p" "m_connect_number r = m_connect_number p" "m_connect_number p < 4"
    using f r' by simp_all
  from unreliable_message_arrives [OF m sample_connected_facts(3) p(1) f(1,2) l(1,2) sample_connected_facts(2,4)
      sample_accepted_facts(2) r r'(1,3) l(3,4)] show ?thesis unfolding p(2) by (elim exE conjE) (intro exI conjI)
qed

end
