(* ===== verification/Reliable_Messages.thy ===== *)
theory Reliable_Messages
  imports Messages Fragments
begin

text \<open>
  A reliable message on its way: from \<open>send\<close> through the channel and the update of the peer into a datagram, and
  from the datagram through the channel of the other end into an event.
\<close>

section \<open>The packet\<close>

definition channeled_bytes :: "u8 \<Rightarrow> u8 \<Rightarrow> int \<Rightarrow> bytes \<Rightarrow> bytes" where
  "channeled_bytes c i s data = (1 OR push_bit 5 c) # le_bytes 2 (word_of_int (seq_of s) :: u16) @ i # data"

text \<open>A packet with a message whose number and channel are not yet written.\<close>

definition channeled_message :: "bytes \<Rightarrow> net_packet \<Rightarrow> bool" where
  "channeled_message data q \<longleftrightarrow> m_size q = 4 + length data \<and> (\<exists>x y z rest. m_data q = 1 # x # y # z # data @ rest)"

lemma channeled_packet:
  assumes "pool_ok w"
  obtains p0 w1 q where "pool_get_packet (4 + length data) w = (p0, w1)" "same_but_pool w w1"
    "copy_from data 0 4 (length data) ((set_property CHANNELED p0)\<lparr>user_data := ud\<rparr>) = Some q" "channeled_message data q"
proof -
  obtain p0 w1 where p0: "pool_get_packet (4 + length data) w = (p0, w1)" by fastforce
  note f = pool_fresh [OF assms p0]
  have "Suc (Suc (Suc (Suc 0))) \<le> length (m_data p0)" using f(2) by simp
  then obtain b x y z bs where bs: "m_data p0 = b # x # y # z # bs" unfolding Suc_le_length_iff by blast
  then have b: "b = 0" using f(3) by simp
  let ?p = "(set_property CHANNELED p0)\<lparr>user_data := ud\<rparr>"
  have pre: "prefix [1, x, y, z] (m_data ?p)" "m_size ?p = 4 + length data" "buffer_size ?p = buffer_size p0"
    using bs b f(1) by (simp_all add: set_property_def upd_byte0_def byte0_def)
  obtain q where "copy_from data 0 4 (length data) ?p = Some q" "prefix ([1, x, y, z] @ take (length data) data) (m_data q)"
    "m_size q = m_size ?p"
    using copy_prefix [OF pre(1), of 4 "length data" data] pre f(2) by auto
  note q = this
  have "channeled_message data q" using q(2,3) pre(2) unfolding channeled_message_def prefix_def by auto
  with that [OF p0 f(4) q(1)] show ?thesis by simp
qed

text \<open>The number, the channel and the connection number.\<close>

lemma numbered_channeled:
  assumes "channeled_message data q"
  obtains q1 q2 where "set_sequence (word_of_int (seq_of s)) q = Some q1" "set_channel_id i q1 = Some q2"
    "wf_packet (set_connection_number c q2)" "m_size (set_connection_number c q2) = 4 + length data"
    "part_bytes (set_connection_number c q2) = channeled_bytes c i s data"
proof -
  obtain x y z rest where q: "m_size q = 4 + length data" "m_data q = 1 # x # y # z # data @ rest"
    using assms by (auto simp: channeled_message_def)
  obtain u v where uv: "le_bytes 2 (word_of_int (seq_of s) :: u16) = [u, v]" by (simp add: numeral_eq_Suc)
  let ?q1 = "q\<lparr>m_data := 1 # u # v # z # data @ rest\<rparr>" and ?q2 = "q\<lparr>m_data := 1 # u # v # i # data @ rest\<rparr>"
  have 1: "set_sequence (word_of_int (seq_of s)) q = Some ?q1"
    by (simp add: set_sequence_def set_data_def wr16_def wr_bytes_def uv q(2))
  have 2: "set_channel_id i ?q1 = Some ?q2" by (simp add: set_channel_id_def set_data_def wr8_def numeral_eq_Suc)
  have d: "m_data (set_connection_number c ?q2) = (1 OR push_bit 5 c) # u # v # i # data @ rest"
    by (simp add: set_connection_number_def upd_byte0_def byte0_def)
  have s: "m_size (set_connection_number c ?q2) = 4 + length data" using q(1) by (simp add: byte0_setters)
  have "take (4 + length data) (h # u # v # i # data @ rest) = h # u # v # i # data" for h by (simp add: numeral_eq_Suc)
  with that [OF 1 2 _ s] d s show ?thesis by (simp add: wf_packet_def part_bytes_def channeled_bytes_def uv)
qed


section \<open>The channel\<close>

text \<open>A channel that has sent all it was given and has nothing to acknowledge; \<open>s\<close> is its next number.\<close>

definition ready_out :: "u8 \<Rightarrow> int \<Rightarrow> net_reliable_channel \<Rightarrow> bool" where
  "ready_out i s ch \<longleftrightarrow> m_window_size ch = DEFAULT_WINDOW_SIZE \<and> m_id ch = i \<and> m_outgoing_queue ch = [] \<and> m_can_enqueue ch \<and>
     \<not> m_must_send_acks ch \<and> \<not> m_is_added_to_peer_channel_send_queue ch \<and>
     m_local_sequence ch = seq_of s \<and> m_local_window_start ch = seq_of s \<and> length (m_pending_packets ch) = 64"

lemma ready_enqueues:
  assumes "ready_out i s ch"
  shows "add_to_queue q ch =
    (ch\<lparr>m_outgoing_queue := [q], m_is_added_to_peer_channel_send_queue := True\<rparr>, [Add_to_reliable_channel_send_queue])"
  using assms by (simp add: ready_out_def add_to_queue_def add_to_peer_channel_send_queue_def q_push_def)

lemma ready_sends:
  assumes ch: "ready_out i s ch" and q: "channeled_message data q"
  shows "\<exists>ch' p. reliable_send_next_packets now delay c (ch\<lparr>m_outgoing_queue := [q], m_is_added_to_peer_channel_send_queue := True\<rparr>) =
      Some (True, ch', [Send_user_data p]) \<and> wf_packet p \<and> m_size p = 4 + length data \<and> part_bytes p = channeled_bytes c i s data \<and>
      (\<exists>p0. p = set_connection_number c p0)"
proof -
  obtain q1 q2 where q: "set_sequence (word_of_int (seq_of s)) q = Some q1" "set_channel_id i q1 = Some q2"
    "wf_packet (set_connection_number c q2)" "m_size (set_connection_number c q2) = 4 + length data"
    "part_bytes (set_connection_number c q2) = channeled_bytes c i s data" by (rule numbered_channeled [OF q])
  note f = ch [unfolded ready_out_def]
  let ?n = "nat (idx_of s)" and ?ps = "m_pending_packets ch"
  let ?pp = "init_pending q2 (?ps ! ?n)" and ?p = "set_connection_number c q2"
  have n: "?n < length ?ps" using f by simp
  have v: "vget xs (idx_of s) = Some (xs ! ?n)" "vset xs (idx_of s) y = Some (xs[?n := y])" if "length xs = 64" for xs :: "pending_packet list" and y
    using that by simp_all
  have r: "\<not> relative_sequence_number (seq_of s) (seq_of s) \<ge> DEFAULT_WINDOW_SIZE"
    using seqno.rel_true [of s s] by (simp add: seq_consts)
  have fill: "fill_pending DEFAULT_WINDOW_SIZE i (seq_of s) [q] (seq_of s) ?ps = Some ([], seq_of (s + 1), ?ps[?n := ?pp])"
    using r q(1,2) v f by (simp add: Let_def)
  have ne: "seq_of s \<noteq> seq_of (s + 1)" using seq_of_inj [of s "s + 1"] by (auto simp: seq_consts)
  let ?pp' = "?pp\<lparr>m_packet := Some ?p, m_timestamp := now, m_is_sent := True\<rparr>"
  have "send_loop DEFAULT_WINDOW_SIZE now delay c (seq_of (s + 1)) (seq_of s) (?ps[?n := ?pp]) =
      Some (True, ?ps[?n := ?pp'], [Send_user_data ?p])"
    using ne n v f by (subst send_loop.simps, subst send_loop.simps) (simp add: try_send_def init_pending_def Let_def)
  then show ?thesis using fill f q(3-5)
    by (intro exI [of _ "ch\<lparr>m_outgoing_queue := [], m_is_added_to_peer_channel_send_queue := True, m_local_sequence := seq_of (s + 1),
        m_pending_packets := ?ps[?n := ?pp']\<rparr>"] exI [of _ ?p]) (auto simp: reliable_send_next_packets_def Let_def)
qed


section \<open>Out\<close>

text \<open>A packet of a peer with an empty merge buffer leaves at once, or waits there alone.\<close>

definition leaves :: "nat \<Rightarrow> bytes \<Rightarrow> net_peer \<Rightarrow> world \<Rightarrow> world \<Rightarrow> bool" where
  "leaves pp d p w w1 \<longleftrightarrow> (\<exists>md k c. get_peer pp w1 = Some (p\<lparr>m_merge_data := md, m_merge_pos := k, m_merge_count := c\<rparr>) \<and>
     m_running w1 = m_running w \<and> (c = 0 \<and> wire w1 = wire w @ [(m_endpoint p, d)] \<or>
       merge_holds (p\<lparr>m_merge_data := md, m_merge_pos := k, m_merge_count := c\<rparr>) [d] \<and> wire w1 = wire w \<and>
       sendto w1 = sendto w \<and> sends w1 = sends w))"

lemma user_data_leaves:
  assumes p: "get_peer pp w = Some p" "peer_ok p" "merge_holds p []" and q: "wf_packet q" "m_size q \<le> m_mtu p" "0 < m_size q"
    and w: "m_running w" "sendto w (sends w) = Inl n" and d: "d = part_bytes (set_connection_number (m_connect_number p) q)"
  shows "\<exists>w1. send_user_data pp q w = Some (set_connection_number (m_connect_number p) q, w1) \<and> leaves pp d p w w1"
proof -
  let ?q = "set_connection_number (m_connect_number p) q"
  have sz: "m_size ?q \<le> buffer_size ?q" "m_size ?q = m_size q" using q(1) by (simp_all add: wf_packet_def byte0_setters)
  show ?thesis
  proof (cases "HEADER_SIZE + m_size q + 2 + sizeTreshold \<ge> m_mtu p")
    case True
    let ?w1 = "w\<lparr>sends := sends w + 1, wire := wire w @ [(m_endpoint p, d)]\<rparr>"
    have "send_packet ?q (m_endpoint p) w = Some (n, ?w1)"
      by (rule send_ok [OF w]) (use sz d take_is_prefix [of "m_size ?q" "m_data ?q"] in \<open>simp_all add: part_bytes_def\<close>)
    then have "send_user_data pp q w = Some (?q, ?w1)" using p(1) True sz by (simp add: send_user_data_def Let_def)
    moreover have "leaves pp d p w ?w1" using p(1,3)
      by (auto simp: leaves_def get_peer_def merge_holds_def intro!: exI [of _ "m_merge_data p"] exI [of _ "m_merge_pos p"] exI [of _ "0 :: int"])
    ultimately show ?thesis by blast
  next
    case False
    then have 2: "HEADER_SIZE + m_size q + 2 + sizeTreshold < m_mtu p"
        "HEADER_SIZE + length (merged_bytes []) + m_size q + 2 \<le> m_mtu p" by simp_all
    from collect_step [OF p q(1) this] obtain md k c where
      "send_user_data pp q w = Some (?q, put_peer pp (p\<lparr>m_merge_data := md, m_merge_pos := k, m_merge_count := c\<rparr>) w)"
      "merge_holds (p\<lparr>m_merge_data := md, m_merge_pos := k, m_merge_count := c\<rparr>) [d]" using d by auto
    moreover from this(2) have "leaves pp d p w (put_peer pp (p\<lparr>m_merge_data := md, m_merge_pos := k, m_merge_count := c\<rparr>) w)"
      unfolding leaves_def get_put_peer
      by (intro exI [of _ md] exI [of _ k] exI [of _ c]) (simp add: put_peer_def)
    ultimately show ?thesis by blast
  qed
qed

lemma leaves_flush:
  assumes l: "leaves pp d p w w1" and w: "m_running w" "sendto w (sends w) = Inl n"
    and v: "get_peer pp w1 = Some p1" "v = put_peer pp (p1\<lparr>m_channel_send_queue := x\<rparr>) w1"
  shows "\<exists>w2. send_merged pp v = Some w2 \<and> wire w2 = wire w @ [(m_endpoint p, d)] \<and>
    (\<exists>p2. get_peer pp w2 = Some p2 \<and> m_channels p2 = m_channels p \<and> m_channel_send_queue p2 = x)"
proof -
  obtain md k c where 1: "get_peer pp w1 = Some (p\<lparr>m_merge_data := md, m_merge_pos := k, m_merge_count := c\<rparr>)" "m_running w1 = m_running w"
    and 2: "c = 0 \<and> wire w1 = wire w @ [(m_endpoint p, d)] \<or>
       merge_holds (p\<lparr>m_merge_data := md, m_merge_pos := k, m_merge_count := c\<rparr>) [d] \<and> wire w1 = wire w \<and>
       sendto w1 = sendto w \<and> sends w1 = sends w" using l by (auto simp: leaves_def)
  let ?p2 = "p1\<lparr>m_channel_send_queue := x\<rparr>"
  have p1: "p1 = p\<lparr>m_merge_data := md, m_merge_pos := k, m_merge_count := c\<rparr>" using v(1) 1(1) by simp
  have g: "get_peer pp v = Some ?p2" using v(2) by (simp add: get_put_peer)
  from 2 show ?thesis
  proof (elim disjE conjE)
    assume "c = 0" "wire w1 = wire w @ [(m_endpoint p, d)]"
    then show ?thesis using g v(2) p1 by (simp add: send_merged_def put_peer_def)
  next
    assume a: "merge_holds (p\<lparr>m_merge_data := md, m_merge_pos := k, m_merge_count := c\<rparr>) [d]" "wire w1 = wire w" "sendto w1 = sendto w" "sends w1 = sends w"
    have h: "merge_holds ?p2 [d]" using a(1) p1 by (simp add: merge_holds_def)
    have r: "m_running v" "sendto v (sends v) = Inl n" "wire v = wire w" using v(2) w a 1(2) by (simp_all add: put_peer_def)
    show ?thesis using flush_alone [OF g h r(1,2)] r(3) p1 by (simp add: get_put_peer) (simp add: put_peer_def)
  qed
qed

text \<open>The channel a peer uses under an index: the one it has, or the one it makes.\<close>

definition channel_for :: "nat \<Rightarrow> net_peer \<Rightarrow> net_channel option" where
  "channel_for idx p = (case m_channels p ! idx of Some ch \<Rightarrow> Some ch | None \<Rightarrow> make_channel idx)"

lemma create_channel_for:
  assumes "idx < length (m_channels p)" "channel_for idx p = Some ch"
  shows "create_channel idx p = Some (p\<lparr>m_channels := (m_channels p)[idx := Some ch]\<rparr>)"
proof (cases "m_channels p ! idx")
  case (Some c)
  then have "m_channels p ! idx = Some ch" using assms(2) by (simp add: channel_for_def)
  then have "(m_channels p)[idx := Some ch] = m_channels p" using list_update_id [of "m_channels p" idx] by simp
  then show ?thesis using Some assms(1) by (simp add: create_channel_def)
qed (use assms in \<open>simp add: create_channel_def channel_for_def\<close>)

text \<open>\<open>send\<close> puts the message into its channel, and the channel into the send queue of the peer.\<close>

lemma reliable_queued:
  assumes w: "pool_ok w" "get_peer pp w = Some p" "m_connection_state p = CONNECTED" "m_channel_send_queue p = []"
    and dm: "dm \<noteq> UNRELIABLE_DELIVERY" "idx = 4 * unat channel + delivery_code dm" "idx < 256" "idx < length (m_channels p)"
    and ch: "channel_for idx p = Some (Reliable ch)" "ready_out i s ch" and len: "4 + length data \<le> m_mtu p"
  shows "\<exists>w0 q p1. same_but_pool w w0 \<and> peer_send pp data channel dm w = Some (put_peer pp p1 w0) \<and> channeled_message data q \<and>
    p1 = p\<lparr>m_channels := (m_channels p)[idx := Some (Reliable (ch\<lparr>m_outgoing_queue := [q], m_is_added_to_peer_channel_send_queue := True\<rparr>))],
           m_channel_send_queue := [idx]\<rparr>"
proof -
  let ?p0 = "p\<lparr>m_channels := (m_channels p)[idx := Some (Reliable ch)]\<rparr>" and ?w0 = "put_peer pp (p\<lparr>m_channels := (m_channels p)[idx := Some (Reliable ch)]\<rparr>) w"
  have "pool_ok ?w0" using w(1) by (simp add: pool_ok_def put_peer_def)
  then obtain q0 w1 q where q: "pool_get_packet (4 + length data) ?w0 = (q0, w1)" "same_but_pool ?w0 w1"
    "copy_from data 0 4 (length data) ((set_property CHANNELED q0)\<lparr>user_data := None\<rparr>) = Some q" "channeled_message data q"
    by (rule channeled_packet)
  obtain x y where w1: "w1 = ?w0\<lparr>m_packet_pool_head := x, m_packet_pool_size := y\<rparr>" using q(2) by (rule same_but_poolE)
  have g: "get_peer pp w1 = Some ?p0" by (simp add: w1 get_peer_def put_peer_def)
  have c: "unat channel < length (m_channels p)" using dm(2,4) by simp
  have code: "delivery_code dm < 4" using dm(1) by (cases dm) simp_all
  have "unat (channel * of_nat CHANNEL_TYPE_COUNT + of_nat (delivery_code dm) :: u8) = idx"
    using dm(2,3) by (simp add: CHANNEL_TYPE_COUNT_def unat_word_ariths unat_of_nat)
  then have "peer_send pp data channel dm w = enqueue_on_channel pp idx q w1"
    using w(2,3) c dm(1) create_channel_for [OF dm(4) ch(1)] q(1,3) len
    by (simp add: peer_send_def send_internal_def send_payload_def Let_def)
  also have "\<dots> = Some (put_peer pp (?p0\<lparr>m_channels := (m_channels p)[idx := Some (Reliable (ch\<lparr>m_outgoing_queue := [q], m_is_added_to_peer_channel_send_queue := True\<rparr>))],
           m_channel_send_queue := [idx]\<rparr>) w1)"
    using g dm(4) ready_enqueues [OF ch(2)] w(4)
    by (simp add: enqueue_on_channel_def perform_action_def modify_peer_def set_channel_def q_push_def get_put_peer)
  finally have 1: "peer_send pp data channel dm w = Some (put_peer pp (?p0\<lparr>m_channels := (m_channels p)[idx := Some (Reliable (ch\<lparr>m_outgoing_queue := [q], m_is_added_to_peer_channel_send_queue := True\<rparr>))],
           m_channel_send_queue := [idx]\<rparr>) w1)" .
  let ?w2 = "w\<lparr>m_packet_pool_head := x, m_packet_pool_size := y\<rparr>"
  have 2: "put_peer pp r w1 = put_peer pp r ?w2" for r by (simp add: w1 put_peer_def)
  have "same_but_pool w ?w2" by (auto simp: same_but_pool_def)
  with 1 q(4) show ?thesis unfolding 2 by (intro exI [of _ ?w2] exI [of _ q]) simp
qed

lemma number_twice: "set_connection_number c (set_connection_number c q) = set_connection_number c q"
proof -
  have "(b AND 0x9F OR push_bit 5 c) AND 0x9F OR push_bit 5 c = b AND 0x9F OR push_bit 5 c" for b :: u8
    by (rule bit_eqI) (auto simp: bit_or_iff bit_and_iff)
  then show ?thesis by (cases "m_data q") (simp_all add: set_connection_number_def upd_byte0_def byte0_def)
qed

text \<open>The update of the peer sends it, and keeps the channel in the send queue until it is acknowledged.\<close>

lemma reliable_out:
  assumes w: "manager_ok w" "m_peers w k = Some pp" "get_peer pp w = Some p" "calm dt w p"
      "m_channel_send_queue p = []" "merge_holds p []" "m_unreliable_channel p = []"
    and dm: "dm \<noteq> UNRELIABLE_DELIVERY" "idx = 4 * unat channel + delivery_code dm" "idx < 256" "idx < length (m_channels p)"
    and ch: "channel_for idx p = Some (Reliable ch)" "ready_out i s ch" and len: "4 + length data \<le> m_mtu p"
    and r: "m_running w" "sendto w (sends w) = Inl n"
  shows "\<exists>w1 w2 p2. peer_send pp data channel dm w = Some w1 \<and> peer_update pp dt w1 = Some w2 \<and>
    wire w2 = wire w @ [(m_endpoint p, channeled_bytes (m_connect_number p) i s data)] \<and>
    get_peer pp w2 = Some p2 \<and> m_channel_send_queue p2 = [idx]"
proof -
  note ok = table_peer_ok [OF w(1-3)]
  have con: "m_connection_state p = CONNECTED" using w(4) by (simp add: calm_def)
  obtain w0 q p1 where send: "same_but_pool w w0" "peer_send pp data channel dm w = Some (put_peer pp p1 w0)" "channeled_message data q"
    and p1: "p1 = p\<lparr>m_channels := (m_channels p)[idx := Some (Reliable (ch\<lparr>m_outgoing_queue := [q], m_is_added_to_peer_channel_send_queue := True\<rparr>))],
           m_channel_send_queue := [idx]\<rparr>"
    using reliable_queued [OF ok(2) w(3) con w(5) dm ch len] by blast
  obtain x y where w0: "w0 = w\<lparr>m_packet_pool_head := x, m_packet_pool_size := y\<rparr>" using send(1) by (rule same_but_poolE)
  have calm: "calm dt (put_peer pp p1 w0) p1" using w(4) by (simp add: calm_def p1 w0 put_peer_def)
  obtain p2 t where p2: "same_sending (p1\<lparr>m_mtu_check_timer := t\<rparr>) p2" "m_channels p2 = m_channels p1"
    and upd: "peer_update pp dt (put_peer pp p1 w0) = do {
       w4 \<leftarrow> send_channels pp (length (m_channel_send_queue p1)) (put_peer pp p2 (put_peer pp p1 w0));
       p4 \<leftarrow> get_peer pp w4;
       w5 \<leftarrow> send_unreliable pp (m_unreliable_channel p4) w4;
       send_merged pp w5
     }" using calm_update [OF get_put_peer calm] by blast
  have f: "m_channel_send_queue p2 = [idx]" "m_unreliable_channel p2 = []" "m_mtu p2 = m_mtu p" "m_endpoint p2 = m_endpoint p"
    "m_connect_number p2 = m_connect_number p" "merge_holds p2 []" "peer_ok p2"
    using p2(1) w(6,7) ok(1) by (simp_all add: same_sending_def p1 merge_holds_def peer_ok_defs)
  let ?c = "m_connect_number p" and ?w1 = "put_peer pp p2 w0"
  obtain ch' pk pk0 where snd: "reliable_send_next_packets (system_time ?w1) (m_resend_delay p2) ?c
        (ch\<lparr>m_outgoing_queue := [q], m_is_added_to_peer_channel_send_queue := True\<rparr>) = Some (True, ch', [Send_user_data pk])"
      and pk: "wf_packet pk" "m_size pk = 4 + length data" "part_bytes pk = channeled_bytes ?c i s data" "pk = set_connection_number ?c pk0"
    using ready_sends [OF ch(2) send(3)] by blast
  let ?p3 = "set_channel idx (Reliable ch') (p2\<lparr>m_channel_send_queue := []\<rparr>)"
  let ?w3 = "put_peer pp ?p3 w0"
  have p3: "peer_ok ?p3" "merge_holds ?p3 []" "m_connect_number ?p3 = ?c" "m_mtu ?p3 = m_mtu p" "m_endpoint ?p3 = m_endpoint p"
    "m_unreliable_channel ?p3 = []"
    using f by (simp_all add: set_channel_def peer_ok_defs merge_holds_def)
  have r3: "m_running ?w3" "sendto ?w3 (sends ?w3) = Inl n" "wire ?w3 = wire w" using r by (simp_all add: put_peer_def w0)
  have sz: "m_size pk \<le> m_mtu ?p3" "0 < m_size pk" using pk(2) len p3(4) by simp_all
  have d: "channeled_bytes ?c i s data = part_bytes (set_connection_number (m_connect_number ?p3) pk)"
    unfolding p3(3) using pk(3) by (simp only: pk(4) number_twice)
  obtain w4 where w4: "send_user_data pp pk ?w3 = Some (set_connection_number (m_connect_number ?p3) pk, w4)"
      "leaves pp (channeled_bytes ?c i s data) ?p3 ?w3 w4"
    using user_data_leaves [OF get_put_peer p3(1,2) pk(1) sz r3(1,2) d] by blast
  obtain p4 where p4: "get_peer pp w4 = Some p4" "m_channel_send_queue p4 = []" "m_unreliable_channel p4 = []"
    using w4(2) p3(6) by (auto simp: leaves_def set_channel_def)
  let ?w5 = "put_peer pp (p4\<lparr>m_channel_send_queue := [idx]\<rparr>) w4"
  have slot: "vget (m_channels p2) (int idx) = Some (Some (Reliable (ch\<lparr>m_outgoing_queue := [q], m_is_added_to_peer_channel_send_queue := True\<rparr>)))"
    using dm(4) by (simp add: p2(2) p1)
  have "send_channels pp (length (m_channel_send_queue p1)) ?w1 = Some ?w5"
    using slot f(1,5) snd w4(1) p4(1,2)
    by (simp add: p1 get_put_peer q_dequeue_def q_empty_def send_and_check_queue_def perform_action_def modify_peer_def q_push_def)
  then have "peer_update pp dt (put_peer pp p1 w0) = send_merged pp ?w5" using p4(3) by (simp add: upd get_put_peer)
  moreover obtain w6 p6 where "send_merged pp ?w5 = Some w6" "wire w6 = wire ?w3 @ [(m_endpoint ?p3, channeled_bytes ?c i s data)]"
    "get_peer pp w6 = Some p6" "m_channel_send_queue p6 = [idx]"
    using leaves_flush [OF w4(2) r3(1,2) p4(1) refl] by blast
  ultimately show ?thesis using send(2) r3(3) p3(5) by (intro exI conjI) simp_all
qed


section \<open>In\<close>

text \<open>What the receiving side of a reliable channel asks of its peer.\<close>

definition data_acts :: "delivery_method \<Rightarrow> chan_action list \<Rightarrow> bool" where
  "data_acts dm acts \<longleftrightarrow> (\<exists>pre. acts = pre @ List.map (Add_reliable_packet dm) (deliveries acts) \<and>
     (pre = [] \<or> pre = [Add_to_reliable_channel_send_queue]))"

lemma data_actsI:
  "acts = snd (add_to_peer_channel_send_queue ch) @ List.map (Add_reliable_packet dm) qs \<Longrightarrow> data_acts dm acts"
proof -
  assume a: "acts = snd (add_to_peer_channel_send_queue ch) @ List.map (Add_reliable_packet dm) qs"
  have "deliveries (List.map (Add_reliable_packet dm) qs) = qs" by (induction qs) (simp_all add: deliveries_def)
  then have "deliveries acts = qs" using a by (simp add: add_to_peer_channel_send_queue_def deliveries_def)
  then show ?thesis using a unfolding data_acts_def by (auto simp: add_to_peer_channel_send_queue_def)
qed

lemma deliver_held_acts:
  "deliver_held W dm received r = Some y \<Longrightarrow> \<exists>qs. snd (snd y) = List.map (Add_reliable_packet dm) qs"
proof (erule deliver_held.raw_induct [where P = "\<lambda>_ dm _ _ y. \<exists>qs. snd (snd y) = List.map (Add_reliable_packet dm) qs", rotated])
  fix self W dm received r y
  assume IH: "\<And>W dm received r y. self W dm received r = Some y \<Longrightarrow> \<exists>qs. snd (snd y) = List.map (Add_reliable_packet dm) qs"
    and step: "vget received (r smod W) \<bind> (\<lambda>slot. case slot of None \<Rightarrow> Some (received, r, [])
        | Some p \<Rightarrow> vset received (r smod W) None \<bind> (\<lambda>received'. self W dm received' (next_seq r) \<bind>
            (\<lambda>(received'', remote_sequence'', acts). Some (received'', remote_sequence'', Add_reliable_packet dm p # acts)))) = Some y"
  then obtain slot where s: "vget received (r smod W) = Some slot" by (auto elim: bind_SomeE)
  show "\<exists>qs. snd (snd y) = List.map (Add_reliable_packet dm) qs"
  proof (cases slot)
    case None
    then show ?thesis using step s by auto
  next
    case (Some q)
    then obtain rc a b acts' where "self W dm rc (next_seq r) = Some (a, b, acts')" "snd (snd y) = Add_reliable_packet dm q # acts'"
      using step s by (auto elim!: bind_SomeE)
    then obtain qs where "snd (snd y) = List.map (Add_reliable_packet dm) (q # qs)" using IH by fastforce
    then show ?thesis ..
  qed
qed

lemma slide_method: "slide_window n ch = Some ch' \<Longrightarrow> m_delivery_method ch' = m_delivery_method ch"
  by (auto simp: slide_window_def Let_def elim!: bind_SomeE)

lemma accept_acts:
  assumes "accept_in_sequence q ch = Some (ch', acts)"
  shows "m_delivery_method ch' = m_delivery_method ch" "\<exists>qs. acts = List.map (Add_reliable_packet (m_delivery_method ch)) qs"
proof -
  have "m_delivery_method ch' = m_delivery_method ch \<and> (\<exists>qs. acts = List.map (Add_reliable_packet (m_delivery_method ch)) qs)"
  proof (cases "m_ordered ch")
    case True
    then obtain a b acts' where "deliver_held (m_window_size ch) (m_delivery_method ch) (m_received_packets ch) (next_seq (m_remote_sequence ch)) = Some (a, b, acts')"
      "acts = Add_reliable_packet (m_delivery_method ch) q # acts'" "m_delivery_method ch' = m_delivery_method ch"
      using assms by (auto simp: accept_in_sequence_def Let_def elim!: bind_SomeE)
    moreover from this(1) obtain qs where "acts' = List.map (Add_reliable_packet (m_delivery_method ch)) qs" using deliver_held_acts by fastforce
    ultimately show ?thesis by (intro conjI exI [of _ "q # qs"]) simp_all
  next
    case False
    then show ?thesis using assms by (auto simp: accept_in_sequence_def Let_def elim!: bind_SomeE intro!: exI [of _ "[q]"])
  qed
  then show "m_delivery_method ch' = m_delivery_method ch" "\<exists>qs. acts = List.map (Add_reliable_packet (m_delivery_method ch)) qs" by simp_all
qed

lemma hold_acts:
  assumes "hold_packet i q ch = Some (ch', acts)"
  shows "m_delivery_method ch' = m_delivery_method ch" "\<exists>qs. acts = List.map (Add_reliable_packet (m_delivery_method ch)) qs"
  using assms by (auto simp: hold_packet_def elim!: bind_SomeE split: if_splits intro: exI [of _ "[]"] exI [of _ "[q]"])

lemma receive_acts:
  assumes "receive_in_window seq n q ch = Some (b, ch', acts)"
  shows "m_delivery_method ch' = m_delivery_method ch \<and> data_acts (m_delivery_method ch) acts"
proof -
  obtain ch1 where ch1: "(if n \<ge> m_window_size ch then slide_window n ch else Some ch) = Some ch1"
    using assms by (auto simp: receive_in_window_def simp del: if_split elim: bind_SomeE)
  then have m: "m_delivery_method ch1 = m_delivery_method ch" by (auto dest: slide_method split: if_splits)
  let ?i = "seq smod m_window_size ch" and ?ch2 = "ch1\<lparr>m_must_send_acks := True\<rparr>"
  obtain a where a: "rd8 (m_data (m_outgoing_acks ch1)) (ack_byte ?i) = Some a"
    using assms ch1 by (auto simp: receive_in_window_def Let_def simp del: if_split elim: bind_SomeE)
  show ?thesis
  proof (cases "a AND ack_bit ?i = 0")
    case False
    then have "(ch', acts) = add_to_peer_channel_send_queue ?ch2" using assms ch1 a by (simp add: receive_in_window_def Let_def split: prod.splits)
    then show ?thesis using m by (auto simp: add_to_peer_channel_send_queue_def data_acts_def split: if_splits)
  next
    case True
    then obtain bs where bs: "wr8 (m_data (m_outgoing_acks ch1)) (ack_byte ?i) (a OR ack_bit ?i) = Some bs"
      using assms ch1 a by (auto simp: receive_in_window_def Let_def elim: bind_SomeE)
    let ?ch3 = "?ch2\<lparr>m_outgoing_acks := (m_outgoing_acks ch1)\<lparr>m_data := bs\<rparr>\<rparr>"
    let ?ch4 = "fst (add_to_peer_channel_send_queue ?ch3)"
    obtain acts' where t: "(if seq = m_remote_sequence ?ch4 then accept_in_sequence q ?ch4 else hold_packet ?i q ?ch4) = Some (ch', acts')"
      "acts = snd (add_to_peer_channel_send_queue ?ch3) @ acts'"
      using assms ch1 a bs True by (auto simp: receive_in_window_def Let_def case_prod_unfold simp del: if_split elim!: bind_SomeE)
    have m4: "m_delivery_method ?ch4 = m_delivery_method ch" using m by (simp add: add_to_peer_channel_send_queue_def)
    obtain qs where "m_delivery_method ch' = m_delivery_method ch" "acts' = List.map (Add_reliable_packet (m_delivery_method ch)) qs"
      using accept_acts [of q ?ch4 ch' acts'] hold_acts [of ?i q ?ch4 ch' acts'] t(1) m4 by (auto split: if_splits)
    then show ?thesis using t(2) data_actsI by blast
  qed
qed

lemma data_packet_acts:
  assumes "reliable_process_packet q ch = Some (b, ch', acts)" "property q \<noteq> ACK"
  shows "m_delivery_method ch' = m_delivery_method ch \<and> data_acts (m_delivery_method ch) acts"
  using assms receive_acts by (auto simp: reliable_process_packet_def Let_def data_acts_def elim!: bind_SomeE split: if_splits)

text \<open>A channel that has received everything before number \<open>s\<close> and nothing behind it.\<close>

definition expects :: "delivery_method \<Rightarrow> int \<Rightarrow> net_reliable_channel \<Rightarrow> bool" where
  "expects dm s ch \<longleftrightarrow> m_delivery_method ch = dm \<and> (\<exists>ok g. receiver_inv ok s g {0..<s} ch)"

lemma expects_takes:
  assumes ch: "expects dm s ch" and q: "property q = CHANNELED" "sequence q = Some (word_of_int (seq_of s))"
  shows "\<exists>ch' pre. reliable_process_packet q ch = Some (True, ch', pre @ [Add_reliable_packet dm q]) \<and>
    (pre = [] \<or> pre = [Add_to_reliable_channel_send_queue]) \<and> expects dm (s + 1) ch'"
proof -
  let ?ok = "\<lambda>_ x. x = q"
  obtain ok g where i: "m_delivery_method ch = dm" "receiver_inv ok s g {0..<s} ch" using ch by (auto simp: expects_def)
  have "held_ok ?ok s {0..<s} ch"
    using receiver_invD(10) [OF i(2)] unfolding held_ok_def by (auto simp del: not_None_eq split: if_splits)
  then have i': "receiver_inv ?ok s g {0..<s} ch" using i(2) unfolding receiver_inv_def by blast
  have s: "0 \<le> s" using receiver_invD(4,5) [OF i'] by simp
  from reliable_data_ok [where q = q, OF i' refl _ q(2)] q(1) s obtain ch' acts r' g' where
    1: "reliable_process_packet q ch = Some (True, ch', acts)" "receiver_inv ?ok r' g' (insert s {0..<s}) ch'" "s \<le> r'"
    and d: "if m_ordered ch then list_all2 ?ok [s..r' - 1] (deliveries acts) else deliveries acts = [q]"
    by (auto simp: DEFAULT_WINDOW_SIZE_def)
  have ins: "insert s {0..<s} = {0..<s + 1}" using s by auto
  note i1 = receiver_invD [OF 1(2) [unfolded ins]]
  have "r' \<noteq> s" using i1(7) s by auto
  moreover have "\<not> s + 1 < r'" using i1(6) s by (auto dest: subsetD [of _ _ "s + 1"])
  ultimately have r': "r' = s + 1" using 1(3) by simp
  then have "deliveries acts = [q]" using d by (auto simp: list_all2_Cons1 split: if_splits)
  moreover note data_packet_acts [OF 1(1)] q(1) i(1)
  ultimately show ?thesis using 1(1,2) ins r' by (auto simp: data_acts_def expects_def)
qed

definition receive_event :: "net_packet \<Rightarrow> delivery_method \<Rightarrow> u8 \<Rightarrow> nat \<Rightarrow> net_event" where
  "receive_event q dm channel rp =
     default_event\<lparr>ev_type := EVENT_RECEIVE, deliveryMethod := dm, channelNumber := channel, ev_peer := Some rp,
       m_reader_source := Some q, ev_reader := Some \<lparr>r_data = m_data q, r_size = m_size q, r_position = CHANNELED_HEADER_SIZE\<rparr>\<rparr>"

text \<open>The calls of a channel that takes one packet.\<close>

lemma perform_delivery:
  assumes p: "get_peer rp w = Some r" "m_peers w (akey (m_endpoint r)) = Some rp" and q: "channel_id q = Some i" "\<not> is_fragmented q"
    and pre: "pre = [] \<or> pre = [Add_to_reliable_channel_send_queue]"
  shows "\<exists>w' x. perform rp idx (pre @ [Add_reliable_packet dm q]) w = Some w' \<and>
    m_events_produce_queue w' = m_events_produce_queue w @ [receive_event q dm (i div of_nat CHANNEL_TYPE_COUNT) rp] \<and>
    get_peer rp w' = Some (r\<lparr>m_channel_send_queue := x\<rparr>)"
proof -
  have deliver: "perform rp idx [Add_reliable_packet dm q] (put_peer rp (r\<lparr>m_channel_send_queue := x\<rparr>) w) =
      Some ((put_peer rp (r\<lparr>m_channel_send_queue := x\<rparr>) w)\<lparr>m_events_produce_queue := m_events_produce_queue w @ [receive_event q dm (i div of_nat CHANNEL_TYPE_COUNT) rp]\<rparr>)" for x
    using p(2) q by (simp add: perform_action_def add_reliable_packet_def create_receive_event_def create_event_def try_get_peer_def
        get_put_peer receive_event_def default_event_def)
  have "\<exists>x. perform rp idx (pre @ [Add_reliable_packet dm q]) w = perform rp idx [Add_reliable_packet dm q] (put_peer rp (r\<lparr>m_channel_send_queue := x\<rparr>) w)"
    using pre
  proof
    assume "pre = []"
    moreover have "put_peer rp (r\<lparr>m_channel_send_queue := m_channel_send_queue r\<rparr>) w = w"
      using p(1) by (simp add: get_peer_def put_peer_def fun_upd_idem)
    ultimately show ?thesis by (intro exI [of _ "m_channel_send_queue r"]) simp
  next
    assume "pre = [Add_to_reliable_channel_send_queue]"
    then show ?thesis using p(1)
      by (intro exI [of _ "q_push idx (m_channel_send_queue r)"]) (simp add: perform_action_def [of _ _ Add_to_reliable_channel_send_queue] modify_peer_def)
  qed
  then show ?thesis using deliver by (fastforce simp: get_peer_def put_peer_def)
qed

lemma channeled_fields:
  assumes "prefix (channeled_bytes c i s data) (m_data q)" "m_size q = 4 + length data" "c < 4"
  shows "property q = CHANNELED" "connection_number q = c" "\<not> is_fragmented q" "verify q"
    "channel_id q = Some i" "sequence q = Some (word_of_int (seq_of s))" "drop CHANNELED_HEADER_SIZE (take (m_size q) (m_data q)) = data"
proof -
  let ?z = "\<lparr>m_data = [1 :: u8], m_size = 1, user_data = None :: nat option\<rparr>"
  obtain rest where d: "m_data q = (1 OR push_bit 5 c) # le_bytes 2 (word_of_int (seq_of s) :: u16) @ i # data @ rest"
    using assms(1) by (auto simp: channeled_bytes_def prefix_def)
  have b: "byte0 q = byte0 (set_connection_number c ?z)"
    using d by (simp add: set_connection_number_def upd_byte0_def byte0_def)
  have z: "property ?z = CHANNELED" "\<not> is_fragmented ?z" by (simp_all add: property_def byte0_def property_of_code_def is_fragmented_def)
  show h: "property q = CHANNELED" "connection_number q = c" "\<not> is_fragmented q"
    using byte0_only [OF b] z small_connection_number [OF assms(3)] connection_number_set [of ?z c]
    by (simp_all add: property_set_connection_number is_fragmented_set_connection_number)
  show "verify q" using h assms(2) by (simp add: verify_iff named_property_def)
  show "sequence q = Some (word_of_int (seq_of s))" using d by (simp add: sequence_def rd16_def rd_bytes_def)
  show "channel_id q = Some i" using d by (simp add: channel_id_def rd8_def nth_append)
  show "drop CHANNELED_HEADER_SIZE (take (m_size q) (m_data q)) = data" using d assms(2) by (simp add: numeral_eq_Suc)
qed

lemma reliable_in:
  assumes v: "m_peers v (akey a) = Some rp" "get_peer rp v = Some r" "m_connection_state r = CONNECTED" "m_connect_number r = c"
      "akey (m_endpoint r) = akey a" and c: "c < 4" and len: "4 + length data \<le> MAX_PACKET_SIZE"
    and ch: "idx < 256" "idx < length (m_channels r)" "channel_for idx r = Some (Reliable ch)" "expects dm s ch"
  shows "\<exists>v' q r' ch'. receive_datagram (Some (channeled_bytes c (of_nat idx) s data, a)) v = Some v' \<and>
    m_events_produce_queue v' = m_events_produce_queue v @ [receive_event q dm (of_nat idx div of_nat CHANNEL_TYPE_COUNT) rp] \<and>
    drop CHANNELED_HEADER_SIZE (take (m_size q) (m_data q)) = data \<and>
    get_peer rp v' = Some r' \<and> channel_for idx r' = Some (Reliable ch') \<and> expects dm (s + 1) ch'"
proof -
  let ?i = "of_nat idx :: u8" and ?d = "channeled_bytes c (of_nat idx) s data"
  have l: "length ?d = 4 + length data" "?d \<noteq> []" by (simp_all add: channeled_bytes_def)
  obtain q v0 where q: "receive_datagram (Some (?d, a)) v = on_message_received q a v0" "same_but_pool v v0"
    "prefix ?d (m_data q)" "m_size q = length ?d" using receive_packet [OF l(2), of a v] l(1) len by auto
  obtain x y where v0: "v0 = v\<lparr>m_packet_pool_head := x, m_packet_pool_size := y\<rparr>" using q(2) by (rule same_but_poolE)
  note h = channeled_fields [OF q(3) q(4) [unfolded l(1)] c]
  obtain ch' pre where t: "reliable_process_packet q ch = Some (True, ch', pre @ [Add_reliable_packet dm q])"
    "pre = [] \<or> pre = [Add_to_reliable_channel_send_queue]" "expects dm (s + 1) ch'" using expects_takes [OF ch(4) h(1,6)] by blast
  let ?r0 = "r\<lparr>m_time_since_last_packet := 0\<rparr>"
  let ?r1 = "?r0\<lparr>m_channels := (m_channels r)[idx := Some (Reliable ch)]\<rparr>"
  let ?r2 = "set_channel idx (Reliable ch') ?r1" and ?v1 = "put_peer rp ?r0 v0"
  have g: "get_peer rp v0 = Some r" using v(2) by (simp add: v0 get_peer_def)
  have i1: "unat ?i = idx" using ch(1) by (simp add: unat_of_nat)
  have i: "unat ?i = idx" "uint ?i = int idx" using i1 by (simp_all add: uint_nat)
  have cr: "create_channel idx ?r0 = Some ?r1" using create_channel_for [of idx ?r0 "Reliable ch"] ch(2,3) by (simp add: channel_for_def)
  have own: "m_channels r ! idx \<noteq> None \<Longrightarrow> ?r1 = ?r0"
    using ch(3) list_update_id [of "m_channels r" idx] by (cases "m_channels r ! idx") (simp_all add: channel_for_def)
  obtain v2 z where v2: "perform rp idx (pre @ [Add_reliable_packet dm q]) (put_peer rp ?r2 ?v1) = Some v2"
    "m_events_produce_queue v2 = m_events_produce_queue v @ [receive_event q dm (?i div of_nat CHANNEL_TYPE_COUNT) rp]"
    "get_peer rp v2 = Some (?r2\<lparr>m_channel_send_queue := z\<rparr>)"
    using perform_delivery [of rp "put_peer rp ?r2 ?v1" ?r2 q ?i pre idx dm, OF get_put_peer _ h(5,3) t(2)] v(1,5)
    by (auto simp: set_channel_def put_peer_def v0)
  define acts where "acts = pre @ [Add_reliable_packet dm q]"
  have slot: "vget (m_channels ?r0) (uint ?i) = Some (m_channels r ! idx)" "vget (m_channels ?r1) (uint ?i) = Some (Some (Reliable ch))"
    using i ch(2) by simp_all
  have made: "(if m_channels r ! idx = None \<and> property q \<noteq> ACK then create_channel (unat ?i) ?r0 else Some ?r0) = Some ?r1"
  proof (cases "m_channels r ! idx = None")
    case True
    then show ?thesis using cr i(1) h(1) by simp
  next
    case False
    then show ?thesis unfolding own [OF False] using False by auto
  qed
  have cp: "channel_process_packet q (Reliable ch) = Some (True, Reliable ch', acts)" using t(1) by (simp add: acts_def)
  have lt: "\<not> length (m_channels ?r0) < unat ?i" using i(1) ch(2) by simp
  have "process_channeled rp q ?v1 = perform rp (unat ?i) acts (put_peer rp (set_channel (unat ?i) (Reliable ch') ?r1) ?v1) \<bind> Some"
    unfolding process_channeled_def get_put_peer bind.bind_lunit h(5) if_not_P [OF lt] slot(1) made by (simp only: slot(2) bind.bind_lunit option.case cp prod.case if_True)
  then have "process_channeled rp q ?v1 = perform rp idx (pre @ [Add_reliable_packet dm q]) (put_peer rp ?r2 ?v1)"
    unfolding i(1) acts_def by simp
  then have "process_single rp q ?v1 = Some v2" using h(1) v2(1) by (simp add: process_single_def)
  moreover have "peer_process_packet rp q v0 = process_single rp q ?v1"
    unfolding peer_process_packet_def using g v(3,4) h(1,2) by (subst process_packet_at.simps) (simp add: admit_packet_def Let_def)
  ultimately have "receive_datagram (Some (?d, a)) v = Some v2"
    using q(1) h(1-4) v(1) by (simp add: on_message_received_def dispatch_message_def v0)
  then show ?thesis using v2(2,3) h(7) ch(2) t(3)
    by (intro exI [of _ v2] exI [of _ q] exI [of _ "?r2\<lparr>m_channel_send_queue := z\<rparr>"] exI [of _ ch']) (simp add: set_channel_def channel_for_def)
qed

section \<open>The message\<close>

text \<open>C11: A reliable message of a peer with nothing else to send reaches the listener of the other end if its datagram does. The peer of
  the table is connected; its send queue and its merge buffer are empty, no unreliable message waits, and no timer is due
  (\<open>calm\<close>); nothing waits on the channel, nothing is unacknowledged and no acknowledgement is due there (\<open>ready_out\<close>); the message fits the MTU and the datagram can be
  sent. Then after \<open>send\<close> and one update of the peer exactly one datagram has left, and the channel is still in the
  send queue; and the other end, a connected peer with the same connection number (below 4) that has received
  everything the channel sent before (\<open>expects\<close>), puts one event into its queue that names the delivery method and the channel
  and whose reader holds exactly the message, and then expects the next message. (Two small packets that wait together
  leave as one merged datagram, which the other end drops unless its connection number is 0: \<open>merging_roundtrip\<close>.)\<close>

theorem reliable_message_arrives:
  assumes w: "manager_ok w" "m_peers w k = Some pp" "get_peer pp w = Some p" "calm dt w p"
      "m_channel_send_queue p = []" "merge_holds p []" "m_unreliable_channel p = []"
    and dm: "dm \<in> {RELIABLE_ORDERED, RELIABLE_UNORDERED}" "idx = 4 * unat channel + delivery_code dm" "idx < 256" "idx < length (m_channels p)"
    and ch: "channel_for idx p = Some (Reliable ch)" "ready_out (of_nat idx) s ch" and len: "4 + length data \<le> m_mtu p"
    and run: "m_running w" "sendto w (sends w) = Inl n"
    and v: "m_peers v (akey a) = Some rp" "get_peer rp v = Some r" "m_connection_state r = CONNECTED" "akey (m_endpoint r) = akey a"
      "m_connect_number r = m_connect_number p" "m_connect_number p < 4"
    and cv: "idx < length (m_channels r)" "channel_for idx r = Some (Reliable cr)" "expects dm s cr"
  shows "\<exists>w1 w2 p2 d v' q r' cr'. peer_send pp data channel dm w = Some w1 \<and> peer_update pp dt w1 = Some w2 \<and>
     wire w2 = wire w @ [(m_endpoint p, d)] \<and> get_peer pp w2 = Some p2 \<and> m_channel_send_queue p2 = [idx] \<and>
     receive_datagram (Some (d, a)) v = Some v' \<and>
     m_events_produce_queue v' = m_events_produce_queue v @ [receive_event q dm channel rp] \<and>
     drop CHANNELED_HEADER_SIZE (take (m_size q) (m_data q)) = data \<and>
     get_peer rp v' = Some r' \<and> channel_for idx r' = Some (Reliable cr') \<and> expects dm (s + 1) cr'"
proof -
  have dm': "dm \<noteq> UNRELIABLE_DELIVERY" and code: "delivery_code dm < 4" using dm(1) by auto
  have "4 + length data \<le> MAX_PACKET_SIZE" using len mtu_ok_le [OF peer_okD(1) [OF table_peer_ok(1) [OF w(1-3)]]] by simp
  note i = reliable_in [OF v(1-3,5,4,6) this dm(3) cv]
  have "(of_nat idx :: u8) div of_nat CHANNEL_TYPE_COUNT = channel"
  proof (rule word_unat_eq_iff [THEN iffD2])
    have "unat (of_nat idx :: u8) = idx" using dm(3) by (simp add: unat_of_nat)
    moreover have "idx div 4 = unat channel" using dm(2) code by simp
    ultimately show "unat ((of_nat idx :: u8) div of_nat CHANNEL_TYPE_COUNT) = unat channel" by (simp add: unat_div CHANNEL_TYPE_COUNT_def)
  qed
  then obtain v' q r' cr' where "receive_datagram (Some (channeled_bytes (m_connect_number p) (of_nat idx) s data, a)) v = Some v'"
    "m_events_produce_queue v' = m_events_produce_queue v @ [receive_event q dm channel rp]"
    "drop CHANNELED_HEADER_SIZE (take (m_size q) (m_data q)) = data"
    "get_peer rp v' = Some r'" "channel_for idx r' = Some (Reliable cr')" "expects dm (s + 1) cr'"
    using i by (elim exE conjE) (rule that, simp_all)
  moreover note reliable_out [OF w dm' dm(2-4) ch len run]
  ultimately show ?thesis by blast
qed

text \<open>A channel that was never used is ready at both ends.\<close>

lemma fresh_channel:
  assumes "dm \<in> {RELIABLE_ORDERED, RELIABLE_UNORDERED}" "idx = 4 * unat (channel :: u8) + delivery_code dm" "m_channels p ! idx = None"
  shows "\<exists>ch. channel_for idx p = Some (Reliable ch) \<and> ready_out (of_nat idx) 0 ch \<and> expects dm 0 ch"
proof -
  obtain ch where ch: "new_reliable_channel (dm = RELIABLE_ORDERED) (of_nat idx) = Some ch" "sender_inv (of_nat idx) [] 0 0 {} ch"
    "receiver_inv (\<lambda>_ _. True) 0 0 {} ch" using new_reliable_channel_ok [of "dm = RELIABLE_ORDERED" "of_nat idx" "\<lambda>_ _. True"] by blast
  have k: "idx mod CHANNEL_TYPE_COUNT = delivery_code dm" using assms(1,2) by (auto simp: CHANNEL_TYPE_COUNT_def)
  have "channel_for idx p = Some (Reliable ch)" using assms(1,3) ch(1) k by (auto simp: channel_for_def make_channel_def)
  moreover have "ready_out (of_nat idx) 0 ch" using ch(1)
    by (auto simp: new_reliable_channel_def ready_out_def DEFAULT_WINDOW_SIZE_def elim!: bind_SomeE)
  moreover have "m_delivery_method ch = dm" using ch(1) assms(1) by (auto simp: new_reliable_channel_def elim!: bind_SomeE)
  ultimately show ?thesis using ch(3) by (auto simp: expects_def)
qed

theorem reliable_message_arrives_witness:
  "\<exists>w1 w2 p2 d v' q. peer_send 0 [1, 2, 3] 0 RELIABLE_ORDERED sample_connected = Some w1 \<and> peer_update 0 15 w1 = Some w2 \<and>
     wire w2 = wire sample_connected @ [(sample_server, d)] \<and> get_peer 0 w2 = Some p2 \<and> m_channel_send_queue p2 = [2] \<and>
     receive_datagram (Some (d, sample_client)) sample_accepted = Some v' \<and>
     m_events_produce_queue v' = m_events_produce_queue sample_accepted @ [receive_event q RELIABLE_ORDERED 0 1] \<and>
     drop CHANNELED_HEADER_SIZE (take (m_size q) (m_data q)) = [1, 2, 3]"
proof -
  obtain p where p: "get_peer 0 sample_connected = Some p" "m_endpoint p = sample_server" using sample_connected_facts(5) by blast
  note run = sample_connected_run [unfolded sample_connected_facts(1) option.case p(1)]
  then have f: "calm 15 sample_connected p" "m_channel_send_queue p = []" "merge_holds p []" "m_unreliable_channel p = []"
    "length (m_channels p) = 4" "m_mtu p = 508" "m_connect_number p = 3"
    by (auto simp: calm_def merge_holds_def byte0_def split: list.splits)
  obtain r where r: "get_peer 1 sample_accepted = Some r" using sample_accepted_facts(3) by blast
  have r': "m_connection_state r = CONNECTED" "m_connect_number r = 3" "akey (m_endpoint r) = akey sample_client"
    using sample_accepted_run [unfolded sample_accepted_facts(1) option.case prod.case r] by simp_all
  note run' = sample_accepted_run [unfolded sample_accepted_facts(1) option.case prod.case r]
  have n: "m_channels p ! 2 = None" "m_channels r ! 2 = None" "length (m_channels r) = 4"
    using run run' by (auto split: option.splits)
  have idx: "RELIABLE_ORDERED \<in> {RELIABLE_ORDERED, RELIABLE_UNORDERED}" "2 = 4 * unat (0 :: u8) + delivery_code RELIABLE_ORDERED" by simp_all
  obtain ch cr where ch: "channel_for 2 p = Some (Reliable ch)" "ready_out (of_nat 2) 0 ch"
    and cr: "channel_for 2 r = Some (Reliable cr)" "expects RELIABLE_ORDERED 0 cr"
    using fresh_channel [OF idx n(1)] fresh_channel [OF idx n(2)] by blast
  have m: "manager_ok sample_connected" by (rule net.reach_inv [OF sample_reach(5)])
  have l: "(2 :: nat) < 256" "2 < length (m_channels p)" "4 + length [1 :: u8, 2, 3] \<le> m_mtu p" "2 < length (m_channels r)"
    "m_connect_number r = m_connect_number p" "m_connect_number p < 4" using f r' n by simp_all
  from reliable_message_arrives [OF m sample_connected_facts(3) p(1) f(1-4) idx l(1,2) ch l(3) sample_connected_facts(2,4)
      sample_accepted_facts(2) r r'(1,3) l(5,6,4) cr] show ?thesis unfolding p(2) by blast
qed

end
