(* ===== verification/Channel_Safety.thy ===== *)
theory Channel_Safety
  imports Peer_Frame
begin

text \<open>
  What a channel needs to be safe against any packet, also one that no channel would send: its arrays have
  their sizes, its numbers lie on the circle, and its packets have the header that their first byte announces
  (\<open>channel_wf\<close>). Then every operation of the channel returns, and keeps this.
\<close>

section \<open>Packets\<close>

definition framed :: "net_packet \<Rightarrow> bool" where
  "framed q \<longleftrightarrow> wf_packet q \<and> 4 \<le> m_size q \<and> (is_fragmented q \<longrightarrow> 10 \<le> m_size q)"

definition ensures :: "'a option \<Rightarrow> ('a \<Rightarrow> bool) \<Rightarrow> bool" where
  "ensures m Q \<longleftrightarrow> (\<exists>x. m = Some x \<and> Q x)"

lemma ensures_simps [simp]: "ensures (Some x) Q = Q x" "\<not> ensures None Q"
  by (simp_all add: ensures_def)

lemma ensures_bind: "ensures m P \<Longrightarrow> (\<And>x. P x \<Longrightarrow> m = Some x \<Longrightarrow> ensures (f x) Q) \<Longrightarrow> ensures (m \<bind> f) Q"
  by (auto simp: ensures_def)

lemma ensures_mono: "ensures m P \<Longrightarrow> (\<And>x. m = Some x \<Longrightarrow> P x \<Longrightarrow> Q x) \<Longrightarrow> ensures m Q"
  by (auto simp: ensures_def)

lemma ensuresE: "ensures m Q \<Longrightarrow> (\<And>x. m = Some x \<Longrightarrow> Q x \<Longrightarrow> thesis) \<Longrightarrow> thesis"
  by (auto simp: ensures_def)

lemma ensures_sndE: "ensures m (\<lambda>r. Q (snd r)) \<Longrightarrow> (\<And>a b. m = Some (a, b) \<Longrightarrow> Q b \<Longrightarrow> thesis) \<Longrightarrow> thesis"
  by (auto simp: ensures_def)

lemma framed_fields:
  assumes "framed q"
  shows "\<exists>s. sequence q = Some s" "\<exists>c. channel_id q = Some c" "wf_packet q"
    "is_fragmented q \<Longrightarrow> \<exists>f. fragment_id q = Some f" "is_fragmented q \<Longrightarrow> \<exists>k. fragment_part q = Some k"
    "is_fragmented q \<Longrightarrow> \<exists>n. total_fragments q = Some n"
  using assms by (auto simp: framed_def wf_packet_def header_accessors rd_defs)

lemma framed_size: "framed q \<Longrightarrow> 4 \<le> m_size q"
  by (simp add: framed_def)

lemma framed_number: "framed q \<Longrightarrow> v < 4 \<Longrightarrow> framed (set_connection_number v q)"
  using small_connection_number [of v] by (auto simp: framed_def wf_packet_def packet_simps)


lemma framed_data:
  assumes "framed q" "length bs = buffer_size q" "byte0 (q\<lparr>m_data := bs\<rparr>) = byte0 q"
  shows "framed (q\<lparr>m_data := bs\<rparr>)"
  using assms by (cases bs) (auto simp: framed_def wf_packet_def is_fragmented_def)

lemma framed_sequence: "framed q \<Longrightarrow> ensures (set_sequence s q) (\<lambda>q'. framed q' \<and> m_size q' = m_size q)"
proof -
  assume q: "framed q"
  then have "1 + length (le_bytes 2 s) \<le> buffer_size q" by (simp add: framed_def wf_packet_def)
  then obtain bs where bs: "wr_bytes (m_data q) 1 (le_bytes 2 s) = Some bs" using wr_bytes_ok by blast
  have "framed (q\<lparr>m_data := bs\<rparr>)"
    by (rule framed_data [OF q wr_bytes_length [OF bs] byte0_wr_bytes [OF bs]]) simp
  with bs show ?thesis by (simp add: set_sequence_def set_data_def wr16_def)
qed

lemma framed_channel: "framed q \<Longrightarrow> ensures (set_channel_id i q) (\<lambda>q'. framed q' \<and> m_size q' = m_size q)"
proof -
  assume q: "framed q"
  then obtain bs where bs: "wr8 (m_data q) 3 i = Some bs" by (simp add: framed_def wf_packet_def wr8_def)
  have "framed (q\<lparr>m_data := bs\<rparr>)"
    by (rule framed_data [OF q wr8_length [OF bs] byte0_wr8 [OF bs]]) simp
  with bs show ?thesis by (simp add: set_channel_id_def set_data_def)
qed

section \<open>The reliable channel\<close>

definition pending_framed :: "pending_packet list \<Rightarrow> bool" where
  "pending_framed ps \<longleftrightarrow> length ps = 64 \<and> (\<forall>pp \<in> set ps. \<forall>q. m_packet pp = Some q \<longrightarrow> framed q)"

definition held_framed :: "net_packet option list \<Rightarrow> bool" where
  "held_framed qs \<longleftrightarrow> length qs = 64 \<and> (\<forall>q. Some q \<in> set qs \<longrightarrow> framed q)"

definition on_circle :: "int \<Rightarrow> bool" where
  "on_circle x \<longleftrightarrow> (\<exists>n. x = seq_of n)"

lemma on_circle_seq [simp]: "on_circle (seq_of n)"
  by (auto simp: on_circle_def)

lemma on_circle_0 [simp]: "on_circle 0"
  using on_circle_seq [of 0] by simp

lemma on_circleE: "on_circle x \<Longrightarrow> (\<And>n. x = seq_of n \<Longrightarrow> thesis) \<Longrightarrow> thesis"
  by (auto simp: on_circle_def)

definition reliable_wf :: "net_reliable_channel \<Rightarrow> bool" where
  "reliable_wf ch \<longleftrightarrow> m_window_size ch = DEFAULT_WINDOW_SIZE \<and>
     on_circle (m_local_sequence ch) \<and> on_circle (m_remote_sequence ch) \<and>
     on_circle (m_local_window_start ch) \<and> on_circle (m_remote_window_start ch) \<and>
     framed (m_outgoing_acks ch) \<and> m_size (m_outgoing_acks ch) = 13 \<and>
     (\<forall>q \<in> set (m_outgoing_queue ch). framed q) \<and> pending_framed (m_pending_packets ch) \<and>
     (if m_ordered ch then held_framed (m_received_packets ch) else length (m_early_received ch) = 64)"

definition action_safe :: "chan_action \<Rightarrow> bool" where
  "action_safe a \<longleftrightarrow>
     (case a of Add_reliable_packet dm q \<Rightarrow> framed q | Create_receive_event q dm c h \<Rightarrow> wf_packet q \<and> h \<le> m_size q
        | Send_user_data q \<Rightarrow> wf_packet q | Recycle_and_deliver q \<Rightarrow> framed q | _ \<Rightarrow> True)"

lemma action_safe_simps [simp]:
  "action_safe Add_to_reliable_channel_send_queue" "action_safe (Add_reliable_packet dm q) = framed q"
  "action_safe (Create_receive_event q dm c h) = (wf_packet q \<and> h \<le> m_size q)" "action_safe (Send_user_data q) = wf_packet q"
  "action_safe (Recycle_and_deliver q) = framed q" "action_safe (Pool_recycle q)"
  by (simp_all add: action_safe_def)

text \<open>Any two numbers of the circle are a walk apart.\<close>

lemma circle:
  obtains n where "g \<le> n" "n - g < MAX_SEQUENCE" "seq_of n = seq_of m"
proof (rule that)
  show "g \<le> g + seq_of (m - g)" "g + seq_of (m - g) - g < MAX_SEQUENCE" using seq_of_bounds [of "m - g"] by simp_all
  show "seq_of (g + seq_of (m - g)) = seq_of m" by (simp add: mod_add_right_eq)
qed

lemma count_update:
  "i < length xs \<Longrightarrow> length (filter P (xs[i := y])) + (if P (xs ! i) then 1 else 0) = length (filter P xs) + (if P y then 1 else 0)"
proof -
  assume i: "i < length xs"
  have "length (filter P xs) = length (filter P (take i xs @ xs ! i # drop (Suc i) xs))" using id_take_nth_drop [OF i] by simp
  then show ?thesis using i by (simp add: upd_conv_take_nth_drop)
qed

lemma deliver_held_safe:
  "held_framed qs \<Longrightarrow> ensures (deliver_held DEFAULT_WINDOW_SIZE dm qs (seq_of r))
     (\<lambda>(qs', r', acts). held_framed qs' \<and> on_circle r' \<and> (\<forall>a \<in> set acts. action_safe a))"
proof (induction "length (filter (\<lambda>q. q \<noteq> None) qs)" arbitrary: qs r rule: less_induct)
  case less
  have len: "length qs = 64" using less.prems by (simp add: held_framed_def)
  have idx: "vget qs (seq_of r smod DEFAULT_WINDOW_SIZE) = Some (qs ! nat (idx_of r))" using len by simp
  show ?case
  proof (cases "qs ! nat (idx_of r)")
    case None
    then show ?thesis using idx less.prems by (subst deliver_held.simps) auto
  next
    case (Some q)
    let ?qs = "qs[nat (idx_of r) := None]"
    have mem: "Some q \<in> set qs" using Some len by (metis idx_nat nth_mem)
    have ok: "held_framed ?qs"
      using less.prems by (auto simp: held_framed_def dest!: set_update_subset_insert [THEN subsetD])
    have "length (filter (\<lambda>q. q \<noteq> None) ?qs) < length (filter (\<lambda>q. q \<noteq> None) qs)"
      using count_update [of "nat (idx_of r)" qs "\<lambda>q. q \<noteq> None" None] Some len by simp
    from less.hyps [OF this ok, of "r + 1"] obtain qs' r' acts where
      *: "deliver_held DEFAULT_WINDOW_SIZE dm ?qs (seq_of (r + 1)) = Some (qs', r', acts)" "held_framed qs'" "on_circle r'"
      "\<forall>a \<in> set acts. action_safe a" by (auto simp: ensures_def)
    have "framed q" using less.prems mem by (simp add: held_framed_def)
    then show ?thesis using Some idx len * by (subst deliver_held.simps) simp
  qed
qed


lemma skip_early_safe:
  "length es = 64 \<Longrightarrow> ensures (skip_early DEFAULT_WINDOW_SIZE es (seq_of r)) (\<lambda>(es', r'). length es' = 64 \<and> on_circle r')"
proof (induction "length (filter id es)" arbitrary: es r rule: less_induct)
  case less
  have idx: "vget es (seq_of r smod DEFAULT_WINDOW_SIZE) = Some (es ! nat (idx_of r))" using less.prems by simp
  show ?case
  proof (cases "es ! nat (idx_of r)")
    case False
    then show ?thesis using idx less.prems by (subst skip_early.simps) auto
  next
    case True
    let ?es = "es[nat (idx_of r) := False]"
    have "length (filter id ?es) < length (filter id es)"
      using count_update [of "nat (idx_of r)" es id False] True less.prems by simp
    from less.hyps [OF this, of "r + 1"] less.prems show ?thesis using True idx by (subst skip_early.simps) simp
  qed
qed

lemma clean_acks_safe:
  "12 \<le> length bs \<Longrightarrow> ensures (clean_acks DEFAULT_WINDOW_SIZE (seq_of h) (seq_of g) bs) (\<lambda>bs'. length bs' = length bs \<and> bs' ! 0 = bs ! 0)"
proof -
  assume "12 \<le> length bs"
  moreover obtain n where "g \<le> n" "n - g < MAX_SEQUENCE" "seq_of n = seq_of h" by (rule circle)
  ultimately show ?thesis using clean_acks_range [of g n bs] by (auto simp: ensures_def)
qed

lemma framed_acks:
  assumes "framed a" "m_size a = 13" "length bs = buffer_size a" "bs ! 0 = m_data a ! 0"
  shows "framed (a\<lparr>m_data := bs\<rparr>)"
proof (rule framed_data [OF assms(1,3)])
  have "m_data a \<noteq> []" using assms(1) by (simp add: framed_def wf_packet_def)
  then show "byte0 (a\<lparr>m_data := bs\<rparr>) = byte0 a" using assms(3,4) by (intro byte0_cong) auto
qed

lemma acks_room: "framed a \<Longrightarrow> m_size a = 13 \<Longrightarrow> 13 \<le> buffer_size a"
  by (simp add: framed_def wf_packet_def)

lemma reliable_wf_parts:
  "reliable_wf (ch\<lparr>m_must_send_acks := b\<rparr>) = reliable_wf ch"
  "reliable_wf (ch\<lparr>m_is_added_to_peer_channel_send_queue := b\<rparr>) = reliable_wf ch"
  by (simp_all add: reliable_wf_def)

lemma slide_window_safe:
  assumes "reliable_wf ch"
  shows "ensures (if relate \<ge> m_window_size ch then slide_window relate ch else Some ch)
     (\<lambda>ch1. reliable_wf ch1 \<and> m_remote_sequence ch1 = m_remote_sequence ch)"
proof (cases "relate \<ge> m_window_size ch")
  case True
  obtain g where g: "m_remote_window_start ch = seq_of g" using assms by (auto simp: reliable_wf_def elim: on_circleE)
  have W: "m_window_size ch = DEFAULT_WINDOW_SIZE" using assms by (simp add: reliable_wf_def)
  have "0 \<le> m_remote_window_start ch + relate - m_window_size ch + 1" using True g seq_of_bounds(1) [of g] by linarith
  then obtain h where h: "(m_remote_window_start ch + relate - m_window_size ch + 1) smod MAX_SEQUENCE = seq_of h"
    by auto
  have a: "framed (m_outgoing_acks ch)" "m_size (m_outgoing_acks ch) = 13" using assms by (simp_all add: reliable_wf_def)
  obtain q where q: "set_sequence (word_of_int (seq_of h)) (m_outgoing_acks ch) = Some q" "framed q" "m_size q = 13"
    using framed_sequence [OF a(1)] a(2) by (auto simp: ensures_def)
  obtain bs where bs: "clean_acks DEFAULT_WINDOW_SIZE (seq_of h) (seq_of g) (m_data q) = Some bs" "length bs = buffer_size q"
    "bs ! 0 = m_data q ! 0" using clean_acks_safe [of "m_data q" h g] acks_room [OF q(2,3)] by (auto simp: ensures_def)
  have "framed (q\<lparr>m_data := bs\<rparr>)" by (rule framed_acks [OF q(2,3) bs(2,3)])
  then show ?thesis using True assms g W h q bs(1) by (auto simp: slide_window_def Let_def reliable_wf_def)
qed (use assms in simp)


lemma accept_safe:
  assumes "reliable_wf ch" "framed q"
  shows "ensures (accept_in_sequence q ch) (\<lambda>(ch', acts). reliable_wf ch' \<and> (\<forall>a \<in> set acts. action_safe a))"
proof -
  obtain r where r: "m_remote_sequence ch = seq_of r" using assms by (auto simp: reliable_wf_def elim: on_circleE)
  have W: "m_window_size ch = DEFAULT_WINDOW_SIZE" using assms by (simp add: reliable_wf_def)
  show ?thesis
  proof (cases "m_ordered ch")
    case True
    then have "held_framed (m_received_packets ch)" using assms by (simp add: reliable_wf_def)
    from deliver_held_safe [OF this, of "m_delivery_method ch" "r + 1"] obtain qs r' acts where
      "deliver_held DEFAULT_WINDOW_SIZE (m_delivery_method ch) (m_received_packets ch) (seq_of (r + 1)) = Some (qs, r', acts)"
      "held_framed qs" "on_circle r'" "\<forall>a \<in> set acts. action_safe a" by (auto simp: ensures_def)
    with True assms r W show ?thesis by (simp add: accept_in_sequence_def Let_def reliable_wf_def)
  next
    case False
    then have "length (m_early_received ch) = 64" using assms by (simp add: reliable_wf_def)
    from skip_early_safe [OF this, of "r + 1"] obtain es r' where
      "skip_early DEFAULT_WINDOW_SIZE (m_early_received ch) (seq_of (r + 1)) = Some (es, r')" "length es = 64" "on_circle r'"
      by (auto simp: ensures_def)
    with False assms r W show ?thesis by (simp add: accept_in_sequence_def Let_def reliable_wf_def)
  qed
qed

lemma hold_safe:
  assumes "reliable_wf ch" "framed q" "0 \<le> i" "i < 64"
  shows "ensures (hold_packet i q ch) (\<lambda>(ch', acts). reliable_wf ch' \<and> (\<forall>a \<in> set acts. action_safe a))"
  using assms by (auto simp: hold_packet_def reliable_wf_def held_framed_def nat_less_iff
      dest!: set_update_subset_insert [THEN subsetD])

lemma receive_safe:
  assumes ch: "reliable_wf ch" and q: "framed q" and s: "0 \<le> s"
  shows "ensures (receive_in_window s relate q ch) (\<lambda>(b, ch', acts). reliable_wf ch' \<and> (\<forall>a \<in> set acts. action_safe a))"
proof -
  obtain ch1 where ch1: "(if relate \<ge> m_window_size ch then slide_window relate ch else Some ch) = Some ch1" "reliable_wf ch1"
    using slide_window_safe [OF ch, of relate] by (auto simp: ensures_def)
  have W: "m_window_size ch = DEFAULT_WINDOW_SIZE" using ch by (simp add: reliable_wf_def)
  let ?i = "s mod DEFAULT_WINDOW_SIZE" and ?a = "m_outgoing_acks ch1"
  have i: "0 \<le> ?i" "?i < 64" using idx_of_bounds [of s] by (simp_all add: DEFAULT_WINDOW_SIZE_def)
  have a: "framed ?a" "m_size ?a = 13" using ch1(2) by (simp_all add: reliable_wf_def)
  then have room: "12 \<le> buffer_size ?a" using acks_room by fastforce
  let ?bs = "(m_data ?a)[ack_byte ?i := m_data ?a ! ack_byte ?i OR ack_bit ?i]"
  have "framed (?a\<lparr>m_data := ?bs\<rparr>)"
    using ack_byte_bounds [OF i] by (intro framed_acks [OF a]) simp_all
  then have ch3: "reliable_wf (ch1\<lparr>m_must_send_acks := True, m_outgoing_acks := ?a\<lparr>m_data := ?bs\<rparr>\<rparr>)"
    using ch1(2) a(2) by (simp add: reliable_wf_def)
  have flag: "reliable_wf (fst (add_to_peer_channel_send_queue c)) = reliable_wf c"
    "\<forall>a \<in> set (snd (add_to_peer_channel_send_queue c)). action_safe a" for c
    by (simp_all add: add_to_peer_channel_send_queue_def reliable_wf_parts)
  obtain ch4 acts where ch4: "add_to_peer_channel_send_queue (ch1\<lparr>m_must_send_acks := True, m_outgoing_acks := ?a\<lparr>m_data := ?bs\<rparr>\<rparr>) = (ch4, acts)"
    by fastforce
  have w4: "reliable_wf ch4" "\<forall>a \<in> set acts. action_safe a"
    using flag [of "ch1\<lparr>m_must_send_acks := True, m_outgoing_acks := ?a\<lparr>m_data := ?bs\<rparr>\<rparr>"] ch3 ch4 by simp_all
  have take: "ensures (if s = m_remote_sequence ch4 then accept_in_sequence q ch4 else hold_packet ?i q ch4)
      (\<lambda>(ch', acts). reliable_wf ch' \<and> (\<forall>a \<in> set acts. action_safe a))"
    using accept_safe [OF w4(1) q] hold_safe [OF w4(1) q i] by simp
  have idx: "s smod m_window_size ch = ?i" using s W by simp
  show ?thesis
  proof (cases "m_data ?a ! ack_byte ?i AND ack_bit ?i = 0")
    case True
    with take show ?thesis unfolding receive_in_window_def ch1(1) using idx i room ch4 w4(2)
      by (auto simp: ensures_def Let_def split del: if_split)
  next
    case False
    have "reliable_wf (ch1\<lparr>m_must_send_acks := True\<rparr>)" using ch1(2) by (simp add: reliable_wf_parts)
    with False flag [of "ch1\<lparr>m_must_send_acks := True\<rparr>"] show ?thesis unfolding receive_in_window_def ch1(1) using idx i room
      by (cases "add_to_peer_channel_send_queue (ch1\<lparr>m_must_send_acks := True\<rparr>)") (simp add: Let_def)
  qed
qed

text \<open>Acknowledgements.\<close>

lemma pending_framed_slot:
  assumes "pending_framed ps" shows "m_packet (ps ! nat (idx_of g)) = Some q \<Longrightarrow> framed q"
proof -
  have "ps ! nat (idx_of g) \<in> set ps" using assms by (intro nth_mem) (simp add: pending_framed_def)
  then show "m_packet (ps ! nat (idx_of g)) = Some q \<Longrightarrow> framed q" using assms by (auto simp: pending_framed_def)
qed

lemma pending_framed_update:
  "pending_framed ps \<Longrightarrow> (\<And>q. m_packet pp = Some q \<Longrightarrow> framed q) \<Longrightarrow> pending_framed (ps[i := pp])"
  by (auto simp: pending_framed_def dest!: set_update_subset_insert [THEN subsetD])

lemma ack_loop_safe:
  assumes "pending_framed ps" "g \<le> n" "n - g < MAX_SEQUENCE" "13 \<le> length bs" "on_circle ws"
  shows "ensures (ack_loop DEFAULT_WINDOW_SIZE bs a (seq_of n) (seq_of g) ws ps)
     (\<lambda>(ws', ps', acts). pending_framed ps' \<and> on_circle ws' \<and> (\<forall>a \<in> set acts. action_safe a))"
  using assms
proof (induction "nat (n - g)" arbitrary: g ws ps)
  case 0
  then show ?case by (subst ack_loop.simps) simp
next
  case (Suc k)
  have ne: "seq_of g \<noteq> seq_of n" using seq_of_inj [of g n] Suc.hyps(2) Suc.prems by auto
  have idx: "0 \<le> idx_of g" "idx_of g < 64" using idx_of_bounds [of g] by (simp_all add: DEFAULT_WINDOW_SIZE_def)
  have k: "k = nat (n - (g + 1))" "g + 1 \<le> n" "n - (g + 1) < MAX_SEQUENCE" using Suc.hyps(2) Suc.prems by auto
  have len: "length ps = 64" using Suc.prems(1) by (simp add: pending_framed_def)
  let ?pp = "ps ! nat (idx_of g)"
  obtain pp' acts where c: "clear_pending ?pp = (pp', acts)" by (cases "clear_pending ?pp")
  have c': "m_packet pp' = None" "\<forall>a \<in> set acts. action_safe a"
    using c pending_framed_slot [OF Suc.prems(1), of g] by (auto simp: clear_pending_def split: option.splits)
  let ?ws = "if seq_of g = ws then next_seq ws else ws"
  have ws: "on_circle ?ws" using Suc.prems(5) by (auto elim!: on_circleE)
  have ok: "pending_framed (ps[nat (idx_of g) := pp'])" using c'(1) by (intro pending_framed_update [OF Suc.prems(1)]) simp
  note 1 = Suc.hyps(1) [OF k(1) Suc.prems(1) k(2,3) Suc.prems(4,5)]
  obtain ws' ps' acts' where 2: "ack_loop DEFAULT_WINDOW_SIZE bs a (seq_of n) (seq_of (g + 1)) ?ws (ps[nat (idx_of g) := pp']) = Some (ws', ps', acts')"
    "pending_framed ps'" "on_circle ws'" "\<forall>a \<in> set acts'. action_safe a"
    using Suc.hyps(1) [OF k(1) ok k(2,3) Suc.prems(4) ws] by (auto simp: ensures_def)
  show ?case
    using ne idx 1 2 c c'(2) len Suc.prems(1,4,5)
    by (subst ack_loop.simps) (auto simp: Let_def split del: if_split cong: if_cong split: if_split)
qed


definition reliable_result :: "bool \<times> net_reliable_channel \<times> chan_action list \<Rightarrow> bool" where
  "reliable_result r \<longleftrightarrow> reliable_wf (fst (snd r)) \<and> (\<forall>a \<in> set (snd (snd r)). action_safe a)"

lemma process_ack_safe:
  assumes ch: "reliable_wf ch" and q: "framed q"
  shows "ensures (process_ack q ch) (\<lambda>(ch', acts). reliable_wf ch' \<and> (\<forall>a \<in> set acts. action_safe a))"
proof -
  obtain s where s: "sequence q = Some s" using framed_fields(1) [OF q] by blast
  have W: "m_window_size ch = DEFAULT_WINDOW_SIZE" "m_size (m_outgoing_acks ch) = 13" using ch by (simp_all add: reliable_wf_def)
  obtain w where w: "m_local_window_start ch = seq_of w" using ch by (auto simp: reliable_wf_def elim: on_circleE)
  obtain m where m: "m_local_sequence ch = seq_of m" using ch by (auto simp: reliable_wf_def elim: on_circleE)
  obtain n where n: "w \<le> n" "n - w < MAX_SEQUENCE" "seq_of n = seq_of m" by (rule circle)
  show ?thesis
  proof (cases "m_size q = 13")
    case True
    have "13 \<le> length (m_data q)" using q True by (simp add: framed_def wf_packet_def)
    moreover have "pending_framed (m_pending_packets ch)" using ch by (simp add: reliable_wf_def)
    ultimately obtain ws ps acts where "ack_loop DEFAULT_WINDOW_SIZE (m_data q) (uint s) (seq_of n) (seq_of w) (seq_of w) (m_pending_packets ch)
        = Some (ws, ps, acts)" "pending_framed ps" "on_circle ws" "\<forall>a \<in> set acts. action_safe a"
      using ack_loop_safe [OF _ n(1,2), of "m_pending_packets ch" "m_data q" "seq_of w" "uint s"] by (auto simp: ensures_def)
    with True ch s W w m n(3) show ?thesis by (simp add: process_ack_def Let_def reliable_wf_def)
  qed (use ch W in \<open>simp add: process_ack_def\<close>)
qed

lemma reliable_process_safe:
  assumes ch: "reliable_wf ch" and q: "framed q"
  shows "ensures (reliable_process_packet q ch) reliable_result"
proof -
  obtain s where s: "sequence q = Some s" using framed_fields(1) [OF q] by blast
  obtain ch' acts where a: "process_ack q ch = Some (ch', acts)" "reliable_wf ch'" "\<forall>a \<in> set acts. action_safe a"
    using process_ack_safe [OF assms] by (auto simp: ensures_def)
  have "ensures (receive_in_window (uint s) relate q ch) reliable_result" for relate
    by (rule ensures_mono [OF receive_safe [OF assms]]) (auto simp: reliable_result_def)
  with a s ch show ?thesis by (simp add: reliable_process_packet_def Let_def) (simp add: reliable_result_def)
qed

text \<open>Sending.\<close>

lemma fill_pending_safe:
  assumes "\<forall>q \<in> set qs. framed q" "pending_framed ps"
  shows "ensures (fill_pending DEFAULT_WINDOW_SIZE i ws qs (seq_of n) ps)
     (\<lambda>(qs', n', ps'). (\<forall>q \<in> set qs'. framed q) \<and> on_circle n' \<and> pending_framed ps')"
  using assms
proof (induction qs arbitrary: n ps)
  case (Cons q qs)
  obtain q1 where q1: "set_sequence (word_of_int (seq_of n)) q = Some q1" "framed q1"
    using framed_sequence Cons.prems(1) by (fastforce simp: ensures_def)
  obtain q2 where q2: "set_channel_id i q1 = Some q2" "framed q2" using framed_channel [OF q1(2)] by (auto simp: ensures_def)
  have len: "length ps = 64" using Cons.prems(2) by (simp add: pending_framed_def)
  have "pending_framed (ps[nat (idx_of n) := init_pending q2 (ps ! nat (idx_of n))])"
    using q2(2) by (intro pending_framed_update [OF Cons.prems(2)]) (simp add: init_pending_def)
  from Cons.IH [OF _ this, of "n + 1"] Cons.prems q1(1) q2(1) len show ?case by simp
qed simp

lemma try_send_safe:
  assumes "\<And>q. m_packet pp = Some q \<Longrightarrow> framed q" "cn < 4" "try_send now delay cn pp = (b, pp', acts)"
  shows "(\<forall>q. m_packet pp' = Some q \<longrightarrow> framed q) \<and> (\<forall>a \<in> set acts. action_safe a)"
  using assms framed_number [of _ cn] framed_fields(3)
  by (auto simp: try_send_def Let_def split: option.splits if_splits)

lemma send_loop_safe:
  assumes "pending_framed ps" "g \<le> n" "n - g < MAX_SEQUENCE" "cn < 4"
  shows "ensures (send_loop DEFAULT_WINDOW_SIZE now delay cn (seq_of n) (seq_of g) ps)
     (\<lambda>(b, ps', acts). pending_framed ps' \<and> (\<forall>a \<in> set acts. action_safe a))"
  using assms
proof (induction "nat (n - g)" arbitrary: g ps)
  case 0
  then show ?case by (subst send_loop.simps) simp
next
  case (Suc k)
  have ne: "seq_of g \<noteq> seq_of n" using seq_of_inj [of g n] Suc.hyps(2) Suc.prems by auto
  have k: "k = nat (n - (g + 1))" "g + 1 \<le> n" "n - (g + 1) < MAX_SEQUENCE" using Suc.hyps(2) Suc.prems by auto
  have len: "length ps = 64" using Suc.prems(1) by (simp add: pending_framed_def)
  let ?pp = "ps ! nat (idx_of g)"
  obtain b pp' acts where t: "try_send now delay cn ?pp = (b, pp', acts)" by (cases "try_send now delay cn ?pp")
  have t': "\<And>q. m_packet pp' = Some q \<Longrightarrow> framed q" "\<forall>a \<in> set acts. action_safe a"
    using try_send_safe [OF pending_framed_slot [OF Suc.prems(1)] Suc.prems(4) t] by simp_all
  have ok: "pending_framed (ps[nat (idx_of g) := pp'])" by (rule pending_framed_update [OF Suc.prems(1) t'(1)])
  obtain b' ps' acts' where 2: "send_loop DEFAULT_WINDOW_SIZE now delay cn (seq_of n) (seq_of (g + 1)) (ps[nat (idx_of g) := pp'])
      = Some (b', ps', acts')" "pending_framed ps'" "\<forall>a \<in> set acts'. action_safe a"
    using Suc.hyps(1) [OF k(1) ok k(2,3) Suc.prems(4)] by (auto simp: ensures_def)
  show ?case using ne t t'(2) 2 len by (subst send_loop.simps) auto
qed

lemma reliable_send_safe:
  assumes ch: "reliable_wf ch" and cn: "cn < 4"
  shows "ensures (reliable_send_next_packets now delay cn ch) reliable_result"
proof -
  let ?acks = "set_connection_number cn (m_outgoing_acks ch)"
  let ?ch1 = "if m_must_send_acks ch then ch\<lparr>m_must_send_acks := False, m_outgoing_acks := ?acks\<rparr> else ch"
  have acks: "framed ?acks" "wf_packet ?acks" using ch framed_number [OF _ cn] framed_fields(3) by (auto simp: reliable_wf_def)
  have ch1: "reliable_wf ?ch1" using ch acks by (simp add: reliable_wf_def)
  obtain w where w: "m_local_window_start ch = seq_of w" using ch by (auto simp: reliable_wf_def elim: on_circleE)
  obtain k where k: "m_local_sequence ch = seq_of k" using ch by (auto simp: reliable_wf_def elim: on_circleE)
  have W: "m_window_size ch = DEFAULT_WINDOW_SIZE" using ch by (simp add: reliable_wf_def)
  obtain qs n' ps where f: "fill_pending DEFAULT_WINDOW_SIZE (m_id ch) (seq_of w) (m_outgoing_queue ch) (seq_of k) (m_pending_packets ch)
      = Some (qs, n', ps)" "\<forall>q \<in> set qs. framed q" "on_circle n'" "pending_framed ps"
    using fill_pending_safe [of "m_outgoing_queue ch" "m_pending_packets ch" "m_id ch" "seq_of w" k] ch
    by (auto simp: ensures_def reliable_wf_def)
  obtain m where m: "n' = seq_of m" using f(3) by (rule on_circleE)
  obtain n where n: "w \<le> n" "n - w < MAX_SEQUENCE" "seq_of n = seq_of m" by (rule circle)
  obtain b ps' acts where l: "send_loop DEFAULT_WINDOW_SIZE now delay cn (seq_of n) (seq_of w) ps = Some (b, ps', acts)"
    "pending_framed ps'" "\<forall>a \<in> set acts. action_safe a"
    using send_loop_safe [OF f(4) n(1,2) cn, of now delay] by (auto simp: ensures_def)
  have "reliable_wf (?ch1\<lparr>m_outgoing_queue := qs, m_local_sequence := n', m_pending_packets := ps'\<rparr>)"
    using ch1 f(2,3) l(2) by (cases "m_must_send_acks ch"; cases "m_ordered ch") (simp_all add: reliable_wf_def)
  then show ?thesis using acks(2) W w k m n(3) f(1) l(1,3)
    by (cases "m_must_send_acks ch") (simp_all add: reliable_send_next_packets_def Let_def reliable_result_def)
qed

lemma new_reliable_safe: "ensures (new_reliable_channel ord i) reliable_wf"
proof -
  obtain ch where ch: "new_reliable_channel ord i = Some ch" "sender_inv i [] 0 0 {} ch"
    "receiver_inv (\<lambda>s q. framed q) 0 0 {} ch" using new_reliable_channel_ok [of ord i "\<lambda>s q. framed q"] by blast
  note r = receiver_invD [OF ch(3)] and s = sender_invD [OF ch(2)]
  note a = ack_windowD [OF r(9)]
  have ns: "m_packet pp = None" if "pp \<in> set (m_pending_packets ch)" for pp
    using that ch(1) by (auto simp: new_reliable_channel_def new_pending_def DEFAULT_WINDOW_SIZE_def elim!: bind_SomeE)
  have nr: "q = None" if "q \<in> set (m_received_packets ch)" for q
    using that ch(1) by (auto simp: new_reliable_channel_def elim!: bind_SomeE split: if_splits)
  have b: "byte0 (new_packet_with ACK n) = 2" if "0 < n" for n
    using prefix_byte0 [OF new_packet_with_head [of n ACK]] that by (simp add: named_property_def)
  have "\<not> is_fragmented (m_outgoing_acks ch)"
    using ch(1) b [of "nat ((DEFAULT_WINDOW_SIZE - 1) sdiv BITS_IN_BYTE + 2)"] by (auto simp: new_reliable_channel_def elim!: bind_SomeE)
      (auto simp: set_channel_id_def set_data_def is_fragmented_def byte0_wr8 seq_consts BITS_IN_BYTE_def sdiv_nonneg split: option.splits)
  then have "framed (m_outgoing_acks ch)" using a by (simp add: framed_def wf_packet_def)
  then have "reliable_wf ch" using r s a ns nr
    by (auto simp: reliable_wf_def pending_framed_def held_framed_def held_ok_def pending_ok_def)
  with ch(1) show ?thesis by simp
qed


section \<open>The sequenced channel\<close>

definition sequenced_wf :: "net_sequenced_channel \<Rightarrow> bool" where
  "sequenced_wf ch \<longleftrightarrow> on_circle (sq_local_sequence ch) \<and> (\<forall>q \<in> set (m_outgoing_queue ch). framed q) \<and>
     (\<forall>q. m_last_packet ch = Some q \<longrightarrow> framed q) \<and> (\<forall>q. m_ack_packet ch = Some q \<longrightarrow> framed q) \<and>
     (m_reliable ch \<longrightarrow> m_ack_packet ch \<noteq> None)"

definition sequenced_result :: "bool \<times> net_sequenced_channel \<times> chan_action list \<Rightarrow> bool" where
  "sequenced_result r \<longleftrightarrow> sequenced_wf (fst (snd r)) \<and> (\<forall>a \<in> set (snd (snd r)). action_safe a)"

lemma sequenced_ack_safe:
  assumes ch: "sequenced_wf ch" and q: "framed q"
  obtains ch' acts where "sequenced_ack q ch = Some (ch', acts)" "sequenced_wf ch'" "\<forall>a \<in> set acts. action_safe a"
proof (cases "m_reliable ch \<and> m_last_packet ch \<noteq> None")
  case False
  then have "sequenced_ack q ch = Some (ch, [])" by (auto simp: sequenced_ack_def)
  with ch that show thesis by simp
next
  case True
  then obtain lp where lp: "m_last_packet ch = Some lp" "m_reliable ch" by blast
  then have "framed lp" using ch by (simp add: sequenced_wf_def)
  then obtain s s' where s: "sequence q = Some s" "sequence lp = Some s'" using framed_fields(1) q by blast
  have "sequenced_wf (ch\<lparr>m_last_packet := None\<rparr>)" using ch by (simp add: sequenced_wf_def)
  with that s lp ch show thesis by (cases "s = s'") (simp_all add: sequenced_ack_def)
qed

lemma sequenced_process_safe:
  assumes ch: "sequenced_wf ch" and q: "framed q"
  shows "ensures (sequenced_process_packet q ch) sequenced_result"
proof -
  obtain s c where s: "sequence q = Some s" "channel_id q = Some c" using framed_fields(1,2) [OF q] by blast
  obtain ch' acts where a: "sequenced_ack q ch = Some (ch', acts)" "sequenced_wf ch'" "\<forall>a \<in> set acts. action_safe a"
    using ch q by (rule sequenced_ack_safe)
  have put: "sequenced_wf (ch\<lparr>sq_remote_sequence := n\<rparr>)" "sequenced_wf (c\<lparr>m_must_send_ack := b\<rparr>) = sequenced_wf c"
    "sequenced_wf (c\<lparr>m_is_added_to_peer_channel_send_queue := b\<rparr>) = sequenced_wf c" for n c b
    using ch by (simp_all add: sequenced_wf_def)
  show ?thesis
  proof (cases "is_fragmented q \<or> property q = ACK")
    case True
    with a ch show ?thesis by (auto simp: sequenced_process_packet_def sequenced_result_def)
  next
    case False
    with ch s put framed_fields(3) [OF q] framed_size [OF q] show ?thesis
      by (simp add: sequenced_process_packet_def Let_def sequenced_result_def add_to_peer_channel_send_queue_def)
  qed
qed

lemma sequenced_drain_safe:
  assumes "\<forall>q \<in> set qs. framed q" "sequenced_wf ch" "cn < 4"
  shows "ensures (sequenced_drain now cn qs ch) (\<lambda>(ch', acts). sequenced_wf ch' \<and> (\<forall>a \<in> set acts. action_safe a))"
  using assms
proof (induction qs arbitrary: ch)
  case Nil
  then show ?case by (simp add: sequenced_wf_def)
next
  case (Cons q qs)
  obtain n where n: "sq_local_sequence ch = seq_of n" using Cons.prems(2) by (auto simp: sequenced_wf_def elim: on_circleE)
  obtain q1 where q1: "set_sequence (word_of_int (seq_of (n + 1))) q = Some q1" "framed q1"
    using framed_sequence Cons.prems(1) by (fastforce simp: ensures_def)
  obtain q2 where q2: "set_channel_id (sq_id ch) q1 = Some q2" "framed q2" using framed_channel [OF q1(2)] by (auto simp: ensures_def)
  let ?q = "set_connection_number cn q2" and ?ch1 = "ch\<lparr>sq_local_sequence := seq_of (n + 1)\<rparr>"
  have q3: "framed ?q" "wf_packet ?q" using framed_number [OF q2(2) Cons.prems(3)] framed_fields(3) by blast+
  have 1: "sequenced_wf ?ch1" "sequenced_wf (?ch1\<lparr>m_last_packet_send_time := now, m_last_packet := Some ?q\<rparr>)"
    using Cons.prems(2) q3(1) by (simp_all add: sequenced_wf_def)
  show ?case
  proof (cases "m_reliable ch \<and> q_empty qs")
    case True
    from Cons.IH [OF _ 1(2) Cons.prems(3)] Cons.prems(1) obtain ch' acts where
      "sequenced_drain now cn qs (?ch1\<lparr>m_last_packet_send_time := now, m_last_packet := Some ?q\<rparr>) = Some (ch', acts)"
      "sequenced_wf ch'" "\<forall>a \<in> set acts. action_safe a" by (auto simp: ensures_def)
    with True n q1(1) q2(1) q3(2) show ?thesis by (simp add: Let_def)
  next
    case False
    from Cons.IH [OF _ 1(1) Cons.prems(3)] Cons.prems(1) obtain ch' acts where
      "sequenced_drain now cn qs ?ch1 = Some (ch', acts)" "sequenced_wf ch'" "\<forall>a \<in> set acts. action_safe a"
      by (auto simp: ensures_def)
    with False n q1(1) q2(1) q3(2) show ?thesis by (auto simp: Let_def split del: if_split)
  qed
qed

lemma sequenced_send_safe:
  assumes ch: "sequenced_wf ch" and cn: "cn < 4"
  shows "ensures (sequenced_send_next_packets now delay cn ch) sequenced_result"
proof -
  have q: "\<forall>q \<in> set (m_outgoing_queue ch). framed q" using ch by (simp add: sequenced_wf_def)
  have num: "framed p \<Longrightarrow> framed (set_connection_number cn p) \<and> wf_packet (set_connection_number cn p)" for p
    using framed_number [OF _ cn] framed_fields(3) by blast
  have "ensures (if m_reliable ch \<and> q_empty (m_outgoing_queue ch) then
          Some (if of_int (now - m_last_packet_send_time ch) \<ge> delay * of_int TICKS_PER_MILLISECOND
                then case m_last_packet ch of
                    None \<Rightarrow> (ch, [])
                  | Some lp \<Rightarrow>
                      let lp' = set_connection_number cn lp
                      in (ch\<lparr>m_last_packet_send_time := now, m_last_packet := Some lp'\<rparr>, [Send_user_data lp'])
                else (ch, []))
        else sequenced_drain now cn (m_outgoing_queue ch) ch) (\<lambda>(ch', acts). sequenced_wf ch' \<and> (\<forall>a \<in> set acts. action_safe a))"
  proof (cases "m_reliable ch \<and> q_empty (m_outgoing_queue ch)")
    case True
    with ch num show ?thesis by (auto simp: sequenced_wf_def Let_def split: option.splits)
  qed (use sequenced_drain_safe [OF q ch cn, of now] in auto)
  then obtain ch1 acts1 where 1: "(if m_reliable ch \<and> q_empty (m_outgoing_queue ch) then
          Some (if of_int (now - m_last_packet_send_time ch) \<ge> delay * of_int TICKS_PER_MILLISECOND
                then case m_last_packet ch of
                    None \<Rightarrow> (ch, [])
                  | Some lp \<Rightarrow>
                      let lp' = set_connection_number cn lp
                      in (ch\<lparr>m_last_packet_send_time := now, m_last_packet := Some lp'\<rparr>, [Send_user_data lp'])
                else (ch, []))
        else sequenced_drain now cn (m_outgoing_queue ch) ch) = Some (ch1, acts1)" "sequenced_wf ch1" "\<forall>a \<in> set acts1. action_safe a"
    by (auto simp: ensures_def simp del: not_None_eq split del: if_split)
  show ?thesis
  proof (cases "m_reliable ch1 \<and> m_must_send_ack ch1")
    case True
    then obtain a where a: "m_ack_packet ch1 = Some a" "framed a" using 1(2) by (auto simp: sequenced_wf_def)
    obtain a1 where a1: "set_sequence (sq_remote_sequence ch1) a = Some a1" "framed a1"
      using framed_sequence [OF a(2)] by (auto simp: ensures_def)
    show ?thesis unfolding sequenced_send_next_packets_def 1(1)
      using True a(1) a1(1) num [OF a1(2)] 1(2,3) by (simp add: sequenced_result_def sequenced_wf_def Let_def)
  next
    case False
    then show ?thesis unfolding sequenced_send_next_packets_def 1(1) using 1(2,3) by (auto simp: sequenced_result_def)
  qed
qed

lemma new_sequenced_safe: "sequenced_wf (new_sequenced_channel rel i)"
proof -
  have "byte0 (new_packet_with ACK 0) = 2"
    using prefix_byte0 [OF new_packet_with_head [of 0 ACK]] by (simp add: named_property_def)
  then have "\<not> is_fragmented (new_packet_with ACK 0)" by (simp add: is_fragmented_def)
  then have "framed (new_packet_with ACK 0)" using seq_ack_new by (simp add: framed_def seq_ack_ok_def)
  then show ?thesis by (simp add: sequenced_wf_def new_sequenced_channel_def)
qed

section \<open>Any channel\<close>

fun channel_wf :: "net_channel \<Rightarrow> bool" where
  "channel_wf (Reliable ch) = reliable_wf ch"
| "channel_wf (Sequenced ch) = sequenced_wf ch"

definition channel_result :: "bool \<times> net_channel \<times> chan_action list \<Rightarrow> bool" where
  "channel_result r \<longleftrightarrow> channel_wf (fst (snd r)) \<and> (\<forall>a \<in> set (snd (snd r)). action_safe a)"

lemma channel_process_safe:
  assumes "channel_wf ch" "framed q" shows "ensures (channel_process_packet q ch) channel_result"
  using assms reliable_process_safe [of _ q] sequenced_process_safe [of _ q]
  by (cases ch) (fastforce simp: ensures_def channel_result_def reliable_result_def sequenced_result_def)+

lemma channel_send_safe:
  assumes "channel_wf ch" "cn < 4" shows "ensures (channel_send_and_check_queue now delay cn ch) channel_result"
proof (cases ch)
  case (Reliable c)
  then obtain b c' acts where "reliable_send_next_packets now delay cn c = Some (b, c', acts)" "reliable_wf c'" "\<forall>a \<in> set acts. action_safe a"
    using assms reliable_send_safe [of c cn now delay] by (auto simp: ensures_def reliable_result_def)
  with Reliable show ?thesis by (simp add: send_and_check_queue_def channel_result_def reliable_wf_parts)
next
  case (Sequenced c)
  then obtain b c' acts where "sequenced_send_next_packets now delay cn c = Some (b, c', acts)" "sequenced_wf c'" "\<forall>a \<in> set acts. action_safe a"
    using assms sequenced_send_safe [of c cn now delay] by (auto simp: ensures_def sequenced_result_def)
  with Sequenced show ?thesis by (auto simp: send_and_check_queue_def channel_result_def sequenced_wf_def)
qed

lemma channel_add_safe:
  assumes "channel_wf ch" "framed q" "channel_add_to_queue q ch = (ch', acts)"
  shows "channel_wf ch' \<and> (\<forall>a \<in> set acts. a = Pool_recycle q \<or> a = Add_to_reliable_channel_send_queue)"
  using assms
  by (cases ch) (auto simp: add_to_queue_def add_to_peer_channel_send_queue_def q_push_def reliable_wf_def sequenced_wf_def split: if_splits)

lemma make_channel_safe: "ensures (make_channel idx) channel_wf"
  using new_reliable_safe [of False "of_nat idx"] new_reliable_safe [of True "of_nat idx"] new_sequenced_safe
  by (auto simp: make_channel_def Let_def ensures_def)

end
