(* ===== verification/Peer_Safety.thy ===== *)
theory Peer_Safety
  imports Channel_Safety
begin

text \<open>
  What makes the operations of a peer safe: beyond \<open>peer_ok\<close>, its channels are safe against any packet, its send
  queue names channels that are there, and the packets it keeps lie in their buffers (\<open>peer_rest\<close>). In a world
  whose peers are all of this kind (\<open>safe\<close>) every operation below returns, and leaves a world of this kind.
\<close>

section \<open>Safe peers\<close>

definition frags_ok :: "incoming_fragments \<Rightarrow> bool" where
  "frags_ok inc \<longleftrightarrow> received_count inc = int (length (filter (\<lambda>f. f \<noteq> None) (fragments inc))) \<and>
     (\<forall>f. Some f \<in> set (fragments inc) \<longrightarrow> FRAGMENTED_HEADER_TOTAL_SIZE \<le> m_size f)"

definition packets_ok :: "net_peer \<Rightarrow> bool" where
  "packets_ok p \<longleftrightarrow> (\<forall>q \<in> set (m_unreliable_channel p). wf_packet q) \<and> wf_packet (m_shutdown_packet p) \<and>
     (\<forall>q. m_connect_accept_packet p = Some q \<longrightarrow> wf_packet q) \<and> (\<forall>q. m_connect_request_packet p = Some q \<longrightarrow> wf_packet q)"

definition channels_ok :: "net_peer \<Rightarrow> bool" where
  "channels_ok p \<longleftrightarrow> (\<forall>ch. Some ch \<in> set (m_channels p) \<longrightarrow> channel_wf ch) \<and>
     (\<forall>i \<in> set (m_channel_send_queue p). i < length (m_channels p) \<and> m_channels p ! i \<noteq> None) \<and>
     CHANNEL_TYPE_COUNT dvd length (m_channels p)"

definition state_ok :: "net_peer \<Rightarrow> bool" where
  "state_ok p \<longleftrightarrow> (m_connection_state p = OUTGOING \<longrightarrow> m_connect_request_packet p \<noteq> None) \<and>
     (m_connection_state p = CONNECTED \<longrightarrow> m_connect_number p < 4) \<and> m_connection_state p \<noteq> ENDPOINT_CHANGE \<and>
     m_merge_pos p \<noteq> 1"

definition peer_rest :: "net_peer \<Rightarrow> bool" where
  "peer_rest p \<longleftrightarrow> channels_ok p \<and> packets_ok p \<and> state_ok p \<and> (\<forall>fid inc. m_holded_fragments p fid = Some inc \<longrightarrow> frags_ok inc)"

lemma peer_restD:
  assumes "peer_rest p" shows "channels_ok p" "packets_ok p" "state_ok p" "m_holded_fragments p fid = Some inc \<Longrightarrow> frags_ok inc"
  using assms by (simp_all add: peer_rest_def)

lemmas peer_rest_defs = peer_rest_def channels_ok_def packets_ok_def state_ok_def

text \<open>A change of fields that \<open>peer_rest\<close> does not read.\<close>

definition same_rest :: "net_peer \<Rightarrow> net_peer \<Rightarrow> bool" where
  "same_rest p p' \<longleftrightarrow> m_channels p' = m_channels p \<and> m_channel_send_queue p' = m_channel_send_queue p \<and>
     m_unreliable_channel p' = m_unreliable_channel p \<and> m_shutdown_packet p' = m_shutdown_packet p \<and>
     m_connect_accept_packet p' = m_connect_accept_packet p \<and> m_connect_request_packet p' = m_connect_request_packet p \<and>
     m_holded_fragments p' = m_holded_fragments p \<and> m_connect_number p' = m_connect_number p \<and>
     m_merge_pos p' = m_merge_pos p \<and>
     (m_connection_state p' = m_connection_state p \<or> m_connection_state p' \<in> {SHUTDOWN_REQUESTED, DISCONNECTED})"

lemma same_rest_rest: "same_rest p p' \<Longrightarrow> peer_rest p \<Longrightarrow> peer_rest p'"
  by (auto simp: same_rest_def peer_rest_defs)

section \<open>Safe worlds\<close>

definition rest_ok :: "world \<Rightarrow> bool" where
  "rest_ok w \<longleftrightarrow> (\<forall>pp p. get_peer pp w = Some p \<longrightarrow> peer_rest p)"

text \<open>The address map names peers by their own addresses.\<close>

definition live :: "world \<Rightarrow> bool" where
  "live w \<longleftrightarrow> (\<forall>k pp. m_peers w k = Some pp \<longrightarrow> (\<exists>p. get_peer pp w = Some p \<and> akey (m_endpoint p) = k))"

definition listed :: "nat \<Rightarrow> world \<Rightarrow> bool" where
  "listed pp w \<longleftrightarrow> (\<exists>p. get_peer pp w = Some p \<and> m_peers w (akey (m_endpoint p)) = Some pp)"

definition safe :: "world \<Rightarrow> bool" where
  "safe w \<longleftrightarrow> (\<forall>pp p. get_peer pp w = Some p \<longrightarrow> peer_ok p) \<and> rest_ok w \<and> live w"

lemma safeD:
  assumes "safe w"
  shows "get_peer pp w = Some p \<Longrightarrow> peer_ok p" "get_peer pp w = Some p \<Longrightarrow> peer_rest p" "rest_ok w"
    "m_peers w k = Some pp \<Longrightarrow> \<exists>p. get_peer pp w = Some p" "live w"
proof -
  have s: "\<forall>pp p. get_peer pp w = Some p \<longrightarrow> peer_ok p" "rest_ok w" "live w"
    using assms by (simp_all add: safe_def)
  then show "get_peer pp w = Some p \<Longrightarrow> peer_ok p" "get_peer pp w = Some p \<Longrightarrow> peer_rest p" "rest_ok w" "live w"
    by (simp_all add: rest_ok_def)
  show "m_peers w k = Some pp \<Longrightarrow> \<exists>p. get_peer pp w = Some p" using s(3) unfolding live_def by blast
qed

lemma safe_listed: "safe w \<Longrightarrow> m_peers w k = Some pp \<Longrightarrow> listed pp w"
  using safeD(5) unfolding live_def listed_def by blast

lemma listed_peer: "listed pp w \<Longrightarrow> get_peer pp w = Some p \<Longrightarrow> m_peers w (akey (m_endpoint p)) = Some pp"
  by (simp add: listed_def)

text \<open>An event the listener can be told: the peer or the request it is about is there, and its reader lies in its
  packet.\<close>

definition names_peer :: "net_event_type \<Rightarrow> bool" where
  "names_peer t \<longleftrightarrow> t = EVENT_CONNECT \<or> t = EVENT_DISCONNECT \<or> t = EVENT_RECEIVE \<or>
     t = EVENT_CONNECTION_LATENCY_UPDATED \<or> t = EVENT_MESSAGE_DELIVERED"

definition told :: "world \<Rightarrow> net_event \<Rightarrow> bool" where
  "told w e \<longleftrightarrow> (names_peer (ev_type e) \<longrightarrow> (\<exists>pp. ev_peer e = Some pp \<and> get_peer pp w \<noteq> None)) \<and>
     (ev_type e = EVENT_CONNECTION_REQUEST \<longrightarrow> connectionRequest e \<noteq> None) \<and>
     (\<forall>r. ev_reader e = Some r \<longrightarrow> reader_ok r)"

definition tells :: "world \<Rightarrow> world \<Rightarrow> bool" where
  "tells w w' \<longleftrightarrow> (\<exists>es. m_events_produce_queue w' = m_events_produce_queue w @ es \<and> (\<forall>e \<in> set es. told w' e))"

definition sourced :: "net_packet \<Rightarrow> bool" where
  "sourced q \<longleftrightarrow> (\<exists>h. packet_header_size q = Some h \<and> h \<le> m_size q \<and> m_size q \<le> buffer_size q)"

text \<open>What an operation of a peer does to a safe world.\<close>

definition chans_stay :: "net_peer \<Rightarrow> net_peer \<Rightarrow> bool" where
  "chans_stay p p' \<longleftrightarrow> (\<forall>i < length (m_channels p). m_channels p ! i \<noteq> None \<longrightarrow> m_channels p' ! i \<noteq> None) \<and>
     m_connect_number p' = m_connect_number p"

definition safe_to :: "world \<Rightarrow> world \<Rightarrow> bool" where
  "safe_to w w' \<longleftrightarrow> tables w w' \<and> rest_ok w' \<and> tells w w' \<and>
     (\<forall>pp p p'. get_peer pp w = Some p \<longrightarrow> get_peer pp w' = Some p' \<longrightarrow> chans_stay p p')"

lemma tables_peer:
  assumes "tables w w'"
  shows "get_peer pp w = Some p \<Longrightarrow> \<exists>p'. get_peer pp w' = Some p' \<and> peer_evolves p p'"
    "get_peer pp w' = Some p' \<Longrightarrow> \<exists>p. get_peer pp w = Some p \<and> peer_evolves p p'"
proof -
  have r: "rel_option peer_evolves (peer_heap w pp) (peer_heap w' pp)" using assms by (simp add: tables_def)
  show "get_peer pp w = Some p \<Longrightarrow> \<exists>p'. get_peer pp w' = Some p' \<and> peer_evolves p p'"
    using r by (cases "peer_heap w' pp") (auto simp: get_peer_def)
  show "get_peer pp w' = Some p' \<Longrightarrow> \<exists>p. get_peer pp w = Some p \<and> peer_evolves p p'"
    using r by (cases "peer_heap w pp") (auto simp: get_peer_def)
qed

lemma told_tables: "tables w w' \<Longrightarrow> told w e \<Longrightarrow> told w' e"
  unfolding told_def using tables_peer(1) by (metis not_Some_eq)

lemma live_tables:
  assumes t: "tables w w'" and l: "live w" shows "live w'"
  unfolding live_def
proof (intro allI impI)
  fix k pp assume "m_peers w' k = Some pp"
  then have "m_peers w k = Some pp" using t by (simp add: tables_def)
  then obtain p where "get_peer pp w = Some p" "akey (m_endpoint p) = k" using l unfolding live_def by blast
  then show "\<exists>p. get_peer pp w' = Some p \<and> akey (m_endpoint p) = k"
    using tables_peer(1) [OF t] by (fastforce simp: peer_evolves_def)
qed

lemma listed_to:
  assumes "listed pp w" "safe_to w w'" shows "listed pp w'"
proof -
  have t: "tables w w'" using assms(2) by (simp add: safe_to_def)
  obtain p where p: "get_peer pp w = Some p" "m_peers w (akey (m_endpoint p)) = Some pp" using assms(1) by (auto simp: listed_def)
  obtain p' where "get_peer pp w' = Some p'" "m_endpoint p' = m_endpoint p"
    using tables_peer(1) [OF t p(1)] by (auto simp: peer_evolves_def)
  moreover have "m_peers w' = m_peers w" using t by (simp add: tables_def)
  ultimately show ?thesis using p(2) by (simp add: listed_def)
qed

lemma safe_toD:
  assumes "safe w" "safe_to w w'"
  shows "safe w'" "get_peer pp w = Some p \<Longrightarrow> \<exists>p'. get_peer pp w' = Some p'" "m_peers w' = m_peers w" "m_running w' = m_running w"
proof -
  have t: "tables w w'" and r: "rest_ok w'" using assms(2) by (simp_all add: safe_to_def)
  have "peer_ok p'" if "get_peer pp w' = Some p'" for pp p'
    using tables_peer(2) [OF t that] safeD(1) [OF assms(1)] by (auto simp: peer_evolves_def)
  then show "safe w'" using r live_tables [OF t safeD(5) [OF assms(1)]] by (simp add: safe_def)
  show "get_peer pp w = Some p \<Longrightarrow> \<exists>p'. get_peer pp w' = Some p'" using tables_peer(1) [OF t] by blast
qed (use assms(2) in \<open>simp_all add: safe_to_def tables_def\<close>)

lemma safe_to_channel:
  assumes "safe w" "safe_to w w'" "get_peer pp w = Some p" "i < length (m_channels p)" "m_channels p ! i \<noteq> None"
  shows "\<exists>p'. get_peer pp w' = Some p' \<and> i < length (m_channels p') \<and> m_channels p' ! i \<noteq> None"
proof -
  obtain p' where p': "get_peer pp w' = Some p'" "peer_evolves p p'"
    using tables_peer(1) [of w w'] assms(2,3) unfolding safe_to_def by blast
  moreover have "chans_stay p p'" using assms(2,3) p'(1) by (simp add: safe_to_def)
  ultimately show ?thesis using assms(4,5) by (simp add: peer_evolves_def chans_stay_def)
qed

lemma safe_to_refl: "safe w \<Longrightarrow> safe_to w w"
  by (simp add: safe_to_def tables.R_refl safeD chans_stay_def tells_def)

lemma safe_to_trans:
  assumes 1: "safe_to w1 w2" and 2: "safe_to w2 w3" shows "safe_to w1 w3"
proof -
  have t: "tables w1 w2" "tables w2 w3" using assms by (simp_all add: safe_to_def)
  have "chans_stay p p'" if p: "get_peer pp w1 = Some p" "get_peer pp w3 = Some p'" for pp p p'
  proof -
    obtain q where q: "get_peer pp w2 = Some q" "peer_evolves p q" using tables_peer(1) [OF t(1) p(1)] by blast
    then have "chans_stay p q" "chans_stay q p'" "length (m_channels q) = length (m_channels p)"
      using 1 2 p by (simp_all add: safe_to_def peer_evolves_def)
    then show ?thesis by (simp add: chans_stay_def)
  qed
  moreover have "tells w1 w3"
    using 1 2 told_tables [OF t(2)] unfolding safe_to_def tells_def by (metis Un_iff append.assoc set_append)
  ultimately show ?thesis using tables.R_trans [OF t] 2 by (simp add: safe_to_def)
qed

lemma rest_ok_heap: "rest_ok w \<Longrightarrow> peer_heap w' = peer_heap w \<Longrightarrow> rest_ok w'"
  by (simp add: rest_ok_def get_peer_def)

lemma rest_ok_put: "rest_ok w \<Longrightarrow> peer_rest p \<Longrightarrow> rest_ok (put_peer pp p w)"
  by (simp add: rest_ok_def get_peer_def put_peer_def)

lemma safe_put:
  assumes "safe w" "get_peer pp w = Some p" "peer_evolves p p'" "peer_rest p'" "chans_stay p p'"
  shows "safe_to w (put_peer pp p' w)"
proof -
  have "chans_stay q q'" if "get_peer qq w = Some q" "get_peer qq (put_peer pp p' w) = Some q'" for qq q q'
    using that assms(2,5) by (cases "qq = pp") (simp_all add: get_peer_def put_peer_def chans_stay_def)
  then show ?thesis
    using tables.R_peer [OF assms(2,3)] rest_ok_put [OF safeD(3) [OF assms(1)] assms(4)]
    by (simp add: safe_to_def tells_def put_peer_def)
qed

lemma safe_put_same:
  assumes "safe w" "get_peer pp w = Some p" "peer_evolves p p'" "same_rest p p'"
  shows "safe_to w (put_peer pp p' w)"
proof -
  have "chans_stay p p'" using assms(4) by (simp add: same_rest_def chans_stay_def)
  then show ?thesis using safe_put [OF assms(1-3)] same_rest_rest [OF assms(4)] safeD(2) [OF assms(1,2)] by blast
qed

lemma safe_heap: "safe w \<Longrightarrow> tables w w' \<Longrightarrow> peer_heap w' = peer_heap w \<Longrightarrow> tells w w' \<Longrightarrow> safe_to w w'"
  using rest_ok_heap [OF safeD(3)] by (simp add: safe_to_def get_peer_def chans_stay_def)

lemma tells_same: "m_events_produce_queue w' = m_events_produce_queue w \<Longrightarrow> tells w w'"
  by (simp add: tells_def)

lemma queue_simps [simp]:
  "m_events_produce_queue (snd (pool_get_packet n w)) = m_events_produce_queue w"
  "m_events_produce_queue (pool_recycle q w) = m_events_produce_queue w"
  "m_events_produce_queue (pool_recycle_ptr x w) = m_events_produce_queue w"
  by (auto simp: pool_get_packet_def pool_recycle_def pool_recycle_ptr_def split: list.splits option.splits)

lemma safe_recycle: "safe w \<Longrightarrow> safe_to w (pool_recycle q w)"
  by (rule safe_heap) (simp_all add: tables.R_recycle tells_same)

lemma safe_recycle_ptr: "safe w \<Longrightarrow> safe_to w (pool_recycle_ptr q w)"
  by (rule safe_heap) (simp_all add: tables.recycle_ptr_R tells_same)

lemma safe_pool: "safe w \<Longrightarrow> pool_get_packet n w = (q, w') \<Longrightarrow> safe_to w w'"
  using tables.get_R [of n w q w'] peer_heap_simps(1) [of n w] queue_simps(1) [of n w] by (auto intro: safe_heap tells_same)

text \<open>One operation after another.\<close>

lemma safe_then:
  assumes "safe w" "ensures m (\<lambda>x. safe_to w (f x))"
    and "\<And>x. m = Some x \<Longrightarrow> safe_to w (f x) \<Longrightarrow> safe (f x) \<Longrightarrow> ensures (k x) (\<lambda>y. safe_to (f x) (g y))"
  shows "ensures (m \<bind> k) (\<lambda>y. safe_to w (g y))"
proof -
  obtain x where x: "m = Some x" "safe_to w (f x)" using assms(2) by (auto simp: ensures_def)
  have "ensures (k x) (\<lambda>y. safe_to (f x) (g y))" by (rule assms(3) [OF x safe_toD(1) [OF assms(1) x(2)]])
  with x show ?thesis by (auto simp: ensures_def intro: safe_to_trans)
qed

lemma safe_after:
  assumes "safe_to w v" "ensures m (\<lambda>y. safe_to v (g y))" shows "ensures m (\<lambda>y. safe_to w (g y))"
  using assms by (auto simp: ensures_def intro: safe_to_trans)

section \<open>Events and sending\<close>

lemma safe_event:
  assumes "safe w" "args_ok args" "told w args"
    and "\<And>q. ev_reader args = None \<Longrightarrow> m_reader_source args = Some q \<Longrightarrow> sourced q"
  shows "ensures (create_event args w) (safe_to w)"
proof -
  have r: "ev_reader args = Some r \<Longrightarrow> reader_ok r" for r using assms(3) by (simp add: told_def)
  obtain w' rd where w': "create_event args w = Some w'"
    "w' = w\<lparr>m_events_produce_queue := m_events_produce_queue w @ [args\<lparr>ev_reader := rd\<rparr>]\<rparr>" "\<forall>r. rd = Some r \<longrightarrow> reader_ok r"
  proof (cases "ev_reader args = None \<and> m_reader_source args \<noteq> None")
    case True
    then obtain q where q: "m_reader_source args = Some q" "ev_reader args = None" by blast
    then obtain h where "packet_header_size q = Some h" "h \<le> m_size q" "m_size q \<le> buffer_size q"
      using assms(4) by (auto simp: sourced_def)
    then show thesis by (intro that [OF _ refl]) (use q in \<open>simp add: create_event_def\<close>, auto simp: reader_ok_def)
  next
    case False
    then have "create_event args w =
        Some (w\<lparr>m_events_produce_queue := m_events_produce_queue w @ [args\<lparr>ev_reader := ev_reader args\<rparr>]\<rparr>)"
      by (cases "m_reader_source args"; cases "ev_reader args") (simp_all add: create_event_def)
    then show thesis by (rule that [OF _ refl]) (use r in blast)
  qed
  have "told w' (args\<lparr>ev_reader := rd\<rparr>)" using assms(3) w'(2,3) by (simp add: told_def get_peer_def)
  then have "tells w w'" using w'(2) by (simp add: tells_def)
  with w'(1) show ?thesis
    using safe_heap [OF assms(1) tables.R_event [OF w'(1) assms(2)] create_event_heap [OF w'(1)]] by simp
qed

lemma safe_plain_event:
  "safe w \<Longrightarrow> args_ok args \<Longrightarrow> told w args \<Longrightarrow> m_reader_source args = None \<Longrightarrow> ensures (create_event args w) (safe_to w)"
  by (rule safe_event) simp_all

lemma default_event_fields [simp]: "m_reader_source default_event = None" "ev_reader default_event = None"
  by (simp_all add: default_event_def)

lemma args_ok_default: "args_ok (default_event\<lparr>ev_type := EVENT_DISCONNECT, ev_peer := pp, socketErrorCode := e, disconnectReason := d, m_reader_source := q\<rparr>)"
  "args_ok (default_event\<lparr>ev_type := EVENT_NETWORK_ERROR, socketErrorCode := e, errorMessage := Some msg\<rparr>)"
  "args_ok (default_event\<lparr>ev_type := EVENT_NETWORK_ERROR, socketErrorCode := e, errorMessage := Some msg, remoteEndpoint := a\<rparr>)"
  "args_ok (default_event\<lparr>ev_type := EVENT_CONNECTION_LATENCY_UPDATED, ev_peer := pp, latency := l\<rparr>)"
  "args_ok (default_event\<lparr>ev_type := EVENT_MESSAGE_DELIVERED, ev_peer := pp\<rparr>)"
  "args_ok (default_event\<lparr>ev_type := EVENT_CONNECT, ev_peer := pp\<rparr>)"
  by (simp_all add: args_ok_def default_event_def reads_data_def)

lemma told_default:
  "get_peer qq w \<noteq> None \<Longrightarrow>
     told w (default_event\<lparr>ev_type := EVENT_DISCONNECT, ev_peer := Some qq, socketErrorCode := e, disconnectReason := d, m_reader_source := q\<rparr>)"
  "told w (default_event\<lparr>ev_type := EVENT_NETWORK_ERROR, socketErrorCode := e, errorMessage := Some msg\<rparr>)"
  "told w (default_event\<lparr>ev_type := EVENT_NETWORK_ERROR, socketErrorCode := e, errorMessage := Some msg, remoteEndpoint := a\<rparr>)"
  "get_peer qq w \<noteq> None \<Longrightarrow> told w (default_event\<lparr>ev_type := EVENT_CONNECTION_LATENCY_UPDATED, ev_peer := Some qq, latency := l\<rparr>)"
  "get_peer qq w \<noteq> None \<Longrightarrow> told w (default_event\<lparr>ev_type := EVENT_MESSAGE_DELIVERED, ev_peer := Some qq\<rparr>)"
  "get_peer qq w \<noteq> None \<Longrightarrow> told w (default_event\<lparr>ev_type := EVENT_CONNECT, ev_peer := Some qq\<rparr>)"
  by (simp_all add: told_def names_peer_def default_event_def)

lemma safe_receive_event:
  assumes "safe w" "m_peers w (akey a) = Some qq" "m_size q \<le> buffer_size q" "h \<le> m_size q"
  shows "ensures (create_receive_event q dm c h a w) (safe_to w)"
proof -
  obtain p where "get_peer qq w = Some p" using safeD(4) [OF assms(1,2)] by blast
  then show ?thesis unfolding create_receive_event_def using assms
    by (intro safe_event) (simp_all add: args_ok_def default_event_def told_def try_get_peer_def reader_ok_def)
qed

lemma safe_error_event: "safe w \<Longrightarrow> ensures (create_error_event e msg w) (safe_to w)"
  unfolding create_error_event_def
  by (rule safe_plain_event) (simp_all add: args_ok_default told_default)

lemma known_peer: "safe w \<Longrightarrow> try_get_peer a w = Some qq \<Longrightarrow> get_peer qq w \<noteq> None"
  using safeD(4) by (fastforce simp: try_get_peer_def)

lemma safe_latency: "safe w \<Longrightarrow> ensures (connection_latency_updated a l w) (safe_to w)"
  unfolding connection_latency_updated_def
  by (cases "try_get_peer a w") (simp_all add: safe_to_refl safe_plain_event args_ok_default told_default known_peer del: not_None_eq)

lemma safe_delivered: "safe w \<Longrightarrow> ensures (message_delivered a ud w) (safe_to w)"
  unfolding message_delivered_def
  by (cases "try_get_peer a w") (simp_all add: safe_to_refl safe_plain_event args_ok_default told_default known_peer del: not_None_eq)

lemma safe_shutdown_force:
  assumes "safe w" "get_peer pp w = Some p" shows "ensures (shutdown_force pp w) (\<lambda>r. safe_to w (snd r))"
proof -
  have "safe_to w (put_peer pp (p\<lparr>m_connection_state := DISCONNECTED\<rparr>) w)"
    by (rule safe_put_same [OF assms state_change_evolves]) (simp_all add: state_le_def same_rest_def)
  then show ?thesis using assms safe_to_refl by (simp add: shutdown_force_def)
qed

lemma safe_force:
  assumes w: "safe w" and q: "\<And>q. ev = Some q \<Longrightarrow> sourced q"
  shows "ensures (disconnect_peer_force a reason e ev w) (safe_to w)"
proof (cases "m_peers w (akey a)")
  case None
  then show ?thesis using w safe_to_refl by (simp add: disconnect_peer_force_def try_get_peer_def)
next
  case (Some pp)
  obtain p where p: "get_peer pp w = Some p" using safeD(4) [OF w Some] by blast
  obtain r w1 where r: "shutdown_force pp w = Some (r, w1)" "safe_to w w1"
    using safe_shutdown_force [OF w p] by (auto simp: ensures_def)
  note s1 = safe_toD(1) [OF w r(2)]
  have "get_peer pp w1 \<noteq> None" using safe_toD(2) [OF w r(2) p] by auto
  from safe_event [OF s1 args_ok_default(1) told_default(1) [OF this]]
  have "ensures (if r = SHUTDOWN_NONE then Some (pool_recycle_ptr ev w1)
          else create_event (default_event\<lparr>ev_type := EVENT_DISCONNECT, ev_peer := Some pp,
                 socketErrorCode := e, disconnectReason := reason, m_reader_source := ev\<rparr>) w1) (safe_to w1)"
    using q safe_recycle_ptr [OF s1] by (cases "r = SHUTDOWN_NONE") (simp_all add: default_event_def)
  from safe_after [OF r(2) this] show ?thesis using Some r(1) by (simp add: disconnect_peer_force_def try_get_peer_def)
qed

lemma safe_sent: "safe w \<Longrightarrow> safe_to w (w\<lparr>sends := n, wire := wire w @ xs\<rparr>)" "safe w \<Longrightarrow> safe_to w (w\<lparr>sends := n\<rparr>)"
  using safe_heap [of w "w\<lparr>sends := n, wire := wire w @ xs\<rparr>"] safe_heap [of w "w\<lparr>sends := n\<rparr>"]
    tables.R_sent [where w = w and n = n and xs = xs] tables.R_sent [where w = w and n = n and xs = "[]"]
  by (simp_all add: tells_def)

lemma safe_send_raw:
  assumes w: "safe w" and xs: "off + len \<le> length buf"
  shows "ensures (send_raw buf off len a w) (\<lambda>r. safe_to w (snd r))"
proof (cases "m_running w")
  case False
  then show ?thesis using w safe_to_refl by (simp add: send_raw_def)
next
  case True
  let ?w1 = "w\<lparr>sends := sends w + 1\<rparr>"
  have rd: "rd_bytes buf off len = Some (take len (drop off buf))" using xs by (simp add: rd_bytes_def)
  note w1 = safe_sent(2) [OF w, of "sends w + 1"]
  note s1 = safe_toD(1) [OF w w1]
  show ?thesis
  proof (cases "sendto w (sends w)")
    case (Inl n)
    then show ?thesis using True rd safe_sent(1) [OF w] by (simp add: send_raw_def)
  next
    case (Inr e)
    let ?net = "default_event\<lparr>ev_type := EVENT_NETWORK_ERROR, socketErrorCode := e, errorMessage := Some ''Socket error'', remoteEndpoint := a\<rparr>"
    have ev: "ensures (create_event ?net v \<bind> (\<lambda>w3. Some (- 1, w3))) (\<lambda>r. safe_to v (snd r))" if sv: "safe v" for v
    proof -
      obtain x where "create_event ?net v = Some x" "safe_to v x"
        using safe_plain_event [OF sv args_ok_default(3) [where a = a and e = e and msg = "''Socket error''"] told_default(3)] by (auto simp: ensures_def)
      then show ?thesis by simp
    qed
    let ?m = "if disconnect_on_unreachable ?w1 \<and> try_get_peer a ?w1 \<noteq> None
       then disconnect_peer_force a (if e = EHOSTUNREACH then HOST_UNREACHABLE else NETWORK_UNREACHABLE) e None ?w1 else Some ?w1"
    have "ensures ?m (safe_to ?w1)" using safe_force [OF s1, where ev = None] safe_to_refl [OF s1] by simp
    then have "ensures (?m \<bind> (\<lambda>w2. create_event ?net w2 \<bind> (\<lambda>w3. Some (- 1, w3)))) (\<lambda>r. safe_to ?w1 (snd r))"
      using ev by (rule safe_then [OF s1])
    from safe_after [OF w1 this] show ?thesis
    proof (cases "e = EHOSTUNREACH \<or> e = ENETUNREACH")
      case e: True
      have "send_raw buf off len a w = ?m \<bind> (\<lambda>w2. create_event ?net w2 \<bind> (\<lambda>w3. Some (- 1, w3)))"
        unfolding send_raw_def Let_def rd Inr using True e by simp
      with \<open>ensures (?m \<bind> (\<lambda>w2. create_event ?net w2 \<bind> (\<lambda>w3. Some (- 1, w3)))) (\<lambda>r. safe_to w (snd r))\<close>
      show ?thesis by (simp only:)
    next
      case False
      then show ?thesis using True rd Inr w1 by (simp add: send_raw_def)
    qed
  qed
qed

lemma safe_send_packet: "safe w \<Longrightarrow> wf_packet q \<Longrightarrow> ensures (send_packet q a w) (\<lambda>r. safe_to w (snd r))"
  unfolding send_packet_def by (rule safe_send_raw) (simp_all add: wf_packet_def)

lemma safe_send_recycle: "safe w \<Longrightarrow> wf_packet q \<Longrightarrow> ensures (send_raw_and_recycle q a w) (\<lambda>r. safe_to w (snd r))"
  unfolding send_raw_and_recycle_def
  by (rule safe_then, assumption, rule safe_send_raw) (auto simp: wf_packet_def intro: safe_recycle)

section \<open>Merging\<close>

lemma copy_fits:
  "off + n \<le> length src \<Longrightarrow> i + n \<le> buffer_size r \<Longrightarrow>
   \<exists>q. copy_from src off i n r = Some q \<and> buffer_size q = buffer_size r \<and> m_size q = m_size r"
proof -
  assume a: "off + n \<le> length src" "i + n \<le> buffer_size r"
  then have l: "length (take n (drop off src)) = n" by simp
  then obtain bs where bs: "wr_bytes (m_data r) i (take n (drop off src)) = Some bs" using wr_bytes_ok a(2) by metis
  show ?thesis using a bs wr_bytes_length [OF bs] by (simp add: copy_from_def rd_bytes_def set_data_def)
qed

lemma safe_send_merged:
  assumes w: "safe w" and p: "get_peer pp w = Some p"
  shows "ensures (send_merged pp w) (safe_to w)"
proof (cases "m_merge_count p = 0")
  case True
  then show ?thesis using p safe_to_refl [OF w] by (simp add: send_merged_def)
next
  case False
  let ?x = "if m_merge_count p > 1 then (0, HEADER_SIZE + m_merge_pos p) else (HEADER_SIZE + 2, usub (m_merge_pos p) 2)"
  obtain off n where x: "?x = (off, n)" by fastforce
  have ok: "buffer_size (m_merge_data p) = 2048" "m_merge_pos p + 1 \<le> MAX_PACKET_SIZE" "2 \<le> m_merge_pos p"
    using safeD(1) [OF w p] peer_restD(3) [OF safeD(2) [OF w p]] False by (auto simp: peer_ok_defs state_ok_def)
  then have len: "off + n \<le> buffer_size (m_merge_data p)" using x by (auto simp: MAX_PACKET_SIZE_def split: if_splits)
  have clr: "ensures (modify_peer pp (\<lambda>p. p\<lparr>m_merge_pos := 0, m_merge_count := 0\<rparr>) v) (safe_to v)" if v: "safe v" "\<exists>q. get_peer pp v = Some q" for v
  proof -
    obtain q where q: "get_peer pp v = Some q" using v(2) by blast
    have "peer_evolves q (q\<lparr>m_merge_pos := 0, m_merge_count := 0\<rparr>)" by (simp add: peer_evolves_def peer_ok_defs)
    moreover have "peer_rest (q\<lparr>m_merge_pos := 0, m_merge_count := 0\<rparr>)" using safeD(2) [OF v(1) q] by (simp add: peer_rest_defs)
    moreover have "chans_stay q (q\<lparr>m_merge_pos := 0, m_merge_count := 0\<rparr>)" by (simp add: chans_stay_def)
    ultimately show ?thesis using safe_put [OF v(1) q] q by (simp add: modify_peer_def)
  qed
  have "ensures (send_raw (m_data (m_merge_data p)) off n (m_endpoint p) w \<bind>
      (\<lambda>(_, w1). modify_peer pp (\<lambda>p. p\<lparr>m_merge_pos := 0, m_merge_count := 0\<rparr>) w1)) (\<lambda>x. safe_to w x)"
    by (rule safe_then [OF w safe_send_raw [OF w len]]) (use safe_toD(2) [OF w _ p] clr in auto)
  with False p x show ?thesis by (simp add: send_merged_def)
qed

lemma safe_send_user_data:
  assumes w: "safe w" and p: "get_peer pp w = Some p" and q0: "wf_packet q0"
  shows "ensures (send_user_data pp q0 w) (\<lambda>r. safe_to w (snd r) \<and> wf_packet (fst r))"
proof -
  let ?q = "set_connection_number (m_connect_number p) q0"
  let ?n = "m_size ?q" and ?big = "HEADER_SIZE + m_size ?q + 2 + sizeTreshold \<ge> m_mtu p"
  let ?flush = "m_merge_pos p + (HEADER_SIZE + ?n + 2) > m_mtu p"
  have q: "wf_packet ?q" using q0 by simp
  show ?thesis
  proof (cases ?big)
    case True
    with safe_send_packet [OF w q, of "m_endpoint p"] p q show ?thesis
      by (auto simp: send_user_data_def Let_def ensures_def)
  next
    case False
    obtain w1 where w1: "(if ?flush then send_merged pp w else Some w) = Some w1" "safe_to w w1"
      using safe_send_merged [OF w p] safe_to_refl [OF w] by (cases ?flush) (auto simp: ensures_def)
    obtain p1 where p1: "get_peer pp w1 = Some p1" using safe_toD(2) [OF w w1(2) p] by blast
    note s1 = safe_toD(1) [OF w w1(2)]
    have ok: "peer_ok p1" by (rule safeD(1) [OF s1 p1])
    have fit: "m_merge_pos p1 + ?n + 3 \<le> MAX_PACKET_SIZE"
    proof (cases ?flush)
      case True
      with w1 have "send_merged pp w = Some w1" by simp
      then have "m_merge_pos p1 = 0 \<and> m_mtu p1 = m_mtu p \<or> p1 = p \<and> m_merge_count p = 0"
        using send_merged_peer [OF _ p p1] by blast
      then have "m_merge_pos p1 = 0" "m_mtu p1 = m_mtu p" using ok by (auto simp: peer_ok_defs)
      then show ?thesis using False mtu_ok_le [OF peer_okD(1) [OF ok]] by simp
    next
      case nf: False
      then have "p1 = p" using w1(1) p p1 by simp
      then show ?thesis using nf mtu_ok_le [OF peer_okD(1) [OF ok]] by simp
    qed
    have buf: "buffer_size (m_merge_data p1) = 2048" using peer_okD(2) [OF ok] by (simp add: merge_ok_def)
    have room: "m_merge_pos p1 + HEADER_SIZE + 2 + ?n \<le> 2048" using fit by (simp add: MAX_PACKET_SIZE_def)
    obtain bs where bs: "wr_bytes (m_data (m_merge_data p1)) (m_merge_pos p1 + HEADER_SIZE) (le_bytes 2 (of_nat ?n :: u16)) = Some bs"
      using wr_bytes_ok [of "m_merge_pos p1 + HEADER_SIZE" "le_bytes 2 (of_nat ?n :: u16)" "m_data (m_merge_data p1)"] room buf by auto
    obtain md1 where md1: "set_u16_at (of_nat ?n) (m_merge_pos p1 + HEADER_SIZE) (m_merge_data p1) = Some md1" "buffer_size md1 = 2048"
      using bs wr_bytes_length [OF bs] buf by (simp add: set_u16_at_def set_data_def wr16_def)
    obtain md2 where md2: "copy_from (m_data ?q) 0 (m_merge_pos p1 + HEADER_SIZE + 2) ?n md1 = Some md2"
      using copy_fits [of 0 ?n "m_data ?q" "m_merge_pos p1 + HEADER_SIZE + 2" md1] room md1(2) q unfolding wf_packet_def by auto
    let ?p = "p1\<lparr>m_merge_data := md2, m_merge_pos := m_merge_pos p1 + ?n + 2, m_merge_count := m_merge_count p1 + 1\<rparr>"
    have "peer_rest ?p" using safeD(2) [OF s1 p1] by (simp add: peer_rest_defs)
    moreover have "chans_stay p1 ?p" by (simp add: chans_stay_def)
    ultimately have "safe_to w1 (put_peer pp ?p w1)" by (intro safe_put [OF s1 p1] tables.merge_evolves [OF fit md1(1) md2])
    then have "safe_to w (put_peer pp ?p w1)" by (rule safe_to_trans [OF w1(2)])
    then show ?thesis using p False w1(1) p1 md1(1) md2 q unfolding send_user_data_def Let_def by simp
  qed
qed


section \<open>Fragments\<close>

lemma recycle_all_heap [simp]: "peer_heap (recycle_all fs w) = peer_heap w"
  by (induction fs w rule: recycle_all.induct) simp_all

lemma recycle_all_queue [simp]: "m_events_produce_queue (recycle_all fs w) = m_events_produce_queue w"
  by (induction fs w rule: recycle_all.induct) simp_all

lemma assemble_total:
  "None \<notin> set fs \<Longrightarrow> \<forall>f. Some f \<in> set fs \<longrightarrow> FRAGMENTED_HEADER_TOTAL_SIZE \<le> m_size f \<Longrightarrow>
   ensures (assemble fs result pos w) (\<lambda>r. peer_heap (snd r) = peer_heap w \<and>
     m_events_produce_queue (snd r) = m_events_produce_queue w \<and>
     (\<forall>q. fst r = Some q \<longrightarrow> m_size q = m_size result \<and> buffer_size q = buffer_size result))"
proof (induction fs arbitrary: result pos w)
  case (Cons f fs)
  then obtain q where q: "f = Some q" by (cases f) auto
  let ?n = "usub (m_size q) FRAGMENTED_HEADER_TOTAL_SIZE"
  show ?case
  proof (cases "pos + ?n > buffer_size result \<or> m_size q > buffer_size q")
    case True
    then show ?thesis using q by (auto simp: Let_def)
  next
    case False
    have "FRAGMENTED_HEADER_TOTAL_SIZE \<le> m_size q" using Cons.prems(2) q by simp
    then have "FRAGMENTED_HEADER_TOTAL_SIZE + ?n \<le> length (m_data q)" using False by simp
    then obtain r where "copy_from (m_data q) FRAGMENTED_HEADER_TOTAL_SIZE pos ?n result = Some r"
      "m_size r = m_size result" "buffer_size r = buffer_size result"
      using copy_fits [of FRAGMENTED_HEADER_TOTAL_SIZE ?n "m_data q" pos result] False by auto
    then show ?thesis using False q Cons.IH [of r "pos + ?n" "pool_recycle q w"] Cons.prems
      by (auto simp: Let_def simp del: size_consts)
  qed
qed simp

lemma frags_ok_new: "frags_ok \<lparr>fragments = replicate n None, received_count = 0, total_size = 0, frag_channel_id = c\<rparr>"
  by (simp add: frags_ok_def)

lemma hold_fragment_ok:
  assumes "framed q" "is_fragmented q" "frags_ok inc"
  shows "ensures (hold_fragment q inc) (\<lambda>held. \<forall>inc'. held = Some inc' \<longrightarrow> frags_ok inc')"
proof -
  obtain part c where f: "fragment_part q = Some part" "channel_id q = Some c" using framed_fields(2,5) assms(1,2) by blast
  have sz: "FRAGMENTED_HEADER_TOTAL_SIZE \<le> m_size q" using assms(1,2) by (simp add: framed_def)
  let ?fs = "(fragments inc)[unat part := Some q]"
  have "frags_ok (inc\<lparr>fragments := ?fs, received_count := received_count inc + 1, total_size := t\<rparr>)"
    if "unat part < length (fragments inc)" "fragments inc ! unat part = None" for t
    using count_update [OF that(1), of "\<lambda>f. f \<noteq> None" "Some q"] that assms(3) sz
    by (auto simp: frags_ok_def simp del: size_consts dest!: set_update_subset_insert [THEN subsetD])
  then show ?thesis using f by (auto simp: hold_fragment_def)
qed

lemma all_received:
  assumes "frags_ok inc" "received_count inc = int (length (fragments inc))" shows "None \<notin> set (fragments inc)"
proof
  assume "None \<in> set (fragments inc)"
  then have "length (filter (\<lambda>f. f \<noteq> None) (fragments inc)) < length (fragments inc)" by (auto intro: length_filter_less)
  then show False using assms by (simp add: frags_ok_def)
qed

lemma safe_put_frags:
  assumes "safe w" "get_peer pp w = Some p" "\<And>fid inc. h fid = Some inc \<Longrightarrow> frags_ok inc"
  shows "safe_to w (put_peer pp (p\<lparr>m_holded_fragments := h\<rparr>) w)"
proof (rule safe_put [OF assms(1,2)])
  show "peer_evolves p (p\<lparr>m_holded_fragments := h\<rparr>)" by (rule same_vitals_evolves) (simp add: same_vitals_def)
  show "peer_rest (p\<lparr>m_holded_fragments := h\<rparr>)" using safeD(2) [OF assms(1,2)] assms(3) by (simp add: peer_rest_defs)
qed (simp add: chans_stay_def)

lemma safe_add_reliable:
  assumes w: "safe w" and p: "get_peer pp w = Some p" "listed pp w" and q: "framed q"
  shows "ensures (add_reliable_packet pp dm q w) (safe_to w)"
proof -
  obtain c where c: "channel_id q = Some c" using framed_fields(2) [OF q] by blast
  show ?thesis
  proof (cases "is_fragmented q")
    case False
    have "ensures (create_receive_event q dm (c div of_nat CHANNEL_TYPE_COUNT) CHANNELED_HEADER_SIZE (m_endpoint p) w) (safe_to w)"
      using framed_fields(3) [OF q] framed_size [OF q]
      by (intro safe_receive_event [OF w listed_peer [OF p(2,1)]]) (simp_all add: wf_packet_def)
    with False show ?thesis using p(1) c by (simp add: add_reliable_packet_def)
  next
    case True
    obtain fid n where f: "fragment_id q = Some fid" "total_fragments q = Some n" using framed_fields(4,6) [OF q True] by blast
    let ?m = "case m_holded_fragments p fid of
           Some inc \<Rightarrow> Some inc
         | None \<Rightarrow> do {
             total \<leftarrow> total_fragments q;
             Some \<lparr>fragments = replicate (unat total) None, received_count = 0, total_size = 0, frag_channel_id = c\<rparr>
           }"
    have old: "m_holded_fragments p i = Some inc \<Longrightarrow> frags_ok inc" for i inc by (rule peer_restD(4) [OF safeD(2) [OF w p(1)]])
    obtain inc where inc: "?m = Some inc" "frags_ok inc"
      using f(2) old frags_ok_new by (cases "m_holded_fragments p fid") auto
    obtain held where held: "hold_fragment q inc = Some held" "\<And>inc'. held = Some inc' \<Longrightarrow> frags_ok inc'"
      using hold_fragment_ok [OF q True inc(2)] by (auto simp: ensures_def)
    have put: "safe_to w (put_peer pp (p\<lparr>m_holded_fragments := (m_holded_fragments p)(fid := x)\<rparr>) w)"
      if "\<And>i. x = Some i \<Longrightarrow> frags_ok i" for x
      using old that by (intro safe_put_frags [OF w p(1)]) (auto split: if_splits)
    show ?thesis
    proof (cases held)
      case None
      have "safe_to w (put_peer pp (p\<lparr>m_holded_fragments := (m_holded_fragments p)(fid \<mapsto> inc)\<rparr>) w)" using put [of "Some inc"] inc(2) by simp
      from safe_to_trans [OF this safe_recycle [OF safe_toD(1) [OF w this]]] show ?thesis
        using p c True f(1) inc(1) held(1) None by (simp add: add_reliable_packet_def)
    next
      case (Some inc')
      have ok: "frags_ok inc'" using held(2) Some by simp
      show ?thesis
      proof (cases "received_count inc' = int (length (fragments inc'))")
        case False
        have "safe_to w (put_peer pp (p\<lparr>m_holded_fragments := (m_holded_fragments p)(fid \<mapsto> inc')\<rparr>) w)" using put [of "Some inc'"] ok by simp
        then show ?thesis using p c True f(1) inc(1) held(1) Some False by (simp add: add_reliable_packet_def)
      next
        case full: True
        let ?w0 = "put_peer pp (p\<lparr>m_holded_fragments := (m_holded_fragments p)(fid := None)\<rparr>) w"
        have w0: "safe_to w ?w0" using put [of None] by simp
        note s0 = safe_toD(1) [OF w w0]
        obtain r w1 where r: "pool_get_packet (total_size inc') ?w0 = (r, w1)" by fastforce
        have w1: "safe_to ?w0 w1" by (rule safe_pool [OF s0 r])
        note s1 = safe_toD(1) [OF s0 w1]
        have sz: "m_size r \<le> buffer_size r"
          using r ensure_length(1) by (auto simp: pool_get_packet_def resize_def split: list.splits)
        obtain res w2 where a: "assemble (fragments inc') r 0 w1 = Some (res, w2)" "peer_heap w2 = peer_heap w1"
          "tells w1 w2" "\<And>q. res = Some q \<Longrightarrow> m_size q \<le> buffer_size q"
          using assemble_total [OF all_received [OF ok full], of r 0 w1] ok sz by (auto simp: ensures_def frags_ok_def tells_same)
        have w2: "safe_to w1 w2" by (rule safe_heap [OF s1 tables.assemble_R [OF a(1)] a(2,3)])
        have m: "m_peers w2 = m_peers w" by (rule safe_toD(3) [OF w safe_to_trans [OF w0 safe_to_trans [OF w1 w2]]])
        note s2 = safe_toD(1) [OF s1 w2]
        have "ensures (case res of None \<Rightarrow> Some w2
               | Some q \<Rightarrow> create_receive_event q dm (c div of_nat CHANNEL_TYPE_COUNT) 0 (m_endpoint p) w2) (safe_to w2)"
          using safe_receive_event [OF s2, of "m_endpoint p" pp] listed_peer [OF p(2,1)] m a(4) safe_to_refl [OF s2] by (cases res) simp_all
        from safe_after [OF safe_to_trans [OF w0 safe_to_trans [OF w1 w2]] this] show ?thesis
          using p c True f(1) inc(1) held(1) Some full r a(1) by (simp add: add_reliable_packet_def)
      qed
    qed
  qed
qed


section \<open>The calls of the channels\<close>

lemma safe_modify_same:
  assumes "safe w" "get_peer pp w = Some p" "\<And>p. peer_evolves p (f p)" "\<And>p. same_rest p (f p)"
  shows "ensures (modify_peer pp f w) (safe_to w)"
  using safe_put_same [OF assms(1,2) assms(3,4)] assms(2) by (simp add: modify_peer_def)

lemma delivered_vitals: "same_vitals p (p\<lparr>m_delivered_fragments := f\<rparr>)" "same_rest p (p\<lparr>m_delivered_fragments := f\<rparr>)"
  by (simp_all add: same_vitals_def same_rest_def)

lemma safe_deliver:
  assumes w: "safe w" and p: "get_peer pp w = Some p" and q: "framed q"
  shows "ensures (recycle_and_deliver pp q w) (safe_to w)"
proof (cases "user_data q")
  case None
  then show ?thesis using safe_recycle [OF w] by (simp add: recycle_and_deliver_def)
next
  case (Some ud)
  have msg: "ensures (message_delivered (m_endpoint p) (Some ud) w) (safe_to w)" by (rule safe_delivered [OF w])
  have upd: "safe_to w (put_peer pp (p\<lparr>m_delivered_fragments := f\<rparr>) w)" for f
    by (rule safe_put_same [OF w p same_vitals_evolves]) (simp_all add: delivered_vitals)
  have fin: "ensures (message_delivered (m_endpoint p) (Some ud) w \<bind>
      (\<lambda>w1. modify_peer pp (\<lambda>p. p\<lparr>m_delivered_fragments := (m_delivered_fragments p)(fid := None)\<rparr>) w1)) (\<lambda>x. safe_to w x)" for fid
  proof (rule safe_then [OF w msg])
    fix w1 assume "safe_to w w1" "safe w1"
    then obtain p1 where "get_peer pp w1 = Some p1" using safe_toD(2) [OF w _ p] by blast
    then show "ensures (modify_peer pp (\<lambda>p. p\<lparr>m_delivered_fragments := (m_delivered_fragments p)(fid := None)\<rparr>) w1) (\<lambda>x. safe_to w1 x)"
      by (intro safe_modify_same [OF \<open>safe w1\<close>] same_vitals_evolves delivered_vitals)
  qed
  let ?m = "if is_fragmented q then do {
                 fid \<leftarrow> fragment_id q;
                 (case m_delivered_fragments p fid of
                    None \<Rightarrow> Some w
                  | Some count \<Rightarrow> do {
                      total \<leftarrow> total_fragments q;
                      let fragCount = count + 1;
                      if fragCount = total then do {
                        w1 \<leftarrow> message_delivered (m_endpoint p) (Some ud) w;
                        modify_peer pp (\<lambda>p. p\<lparr>m_delivered_fragments := (m_delivered_fragments p)(fid := None)\<rparr>) w1
                      }
                      else Some (put_peer pp (p\<lparr>m_delivered_fragments := (m_delivered_fragments p)(fid \<mapsto> fragCount)\<rparr>) w)
                    })
               }
               else message_delivered (m_endpoint p) (Some ud) w"
  have m: "ensures ?m (safe_to w)"
  proof (cases "is_fragmented q")
    case True
    then obtain fid n where "fragment_id q = Some fid" "total_fragments q = Some n" using framed_fields(4,6) [OF q] by blast
    then show ?thesis using True fin upd safe_to_refl [OF w] by (cases "m_delivered_fragments p fid") (simp_all add: Let_def)
  qed (use msg in simp)
  have "ensures (?m \<bind> (\<lambda>w1. Some (pool_recycle (q\<lparr>user_data := None\<rparr>) w1))) (\<lambda>x. safe_to w x)"
    using m by (rule safe_then [OF w]) (simp add: safe_recycle)
  then show ?thesis using Some p by (simp add: recycle_and_deliver_def)
qed

lemma safe_to_queue:
  assumes w: "safe w" and p: "get_peer pp w = Some p" "idx < length (m_channels p)" "m_channels p ! idx \<noteq> None"
  shows "safe_to w (put_peer pp (p\<lparr>m_channel_send_queue := q_push idx (m_channel_send_queue p)\<rparr>) w)"
proof (rule safe_put [OF w p(1)])
  let ?p = "p\<lparr>m_channel_send_queue := q_push idx (m_channel_send_queue p)\<rparr>"
  show "peer_evolves p ?p" by (rule same_vitals_evolves) (simp add: same_vitals_def)
  show "peer_rest ?p" using safeD(2) [OF w p(1)] p(2,3) by (auto simp: peer_rest_defs q_push_def)
qed (simp add: chans_stay_def)

text \<open>Only a packet that was received makes a channel deliver something.\<close>

definition delivers :: "chan_action \<Rightarrow> bool" where
  "delivers a \<longleftrightarrow> (case a of Add_reliable_packet dm q \<Rightarrow> True | Create_receive_event q dm c h \<Rightarrow> True | _ \<Rightarrow> False)"

lemma safe_action:
  assumes w: "safe w" and p: "get_peer pp w = Some p" "idx < length (m_channels p)" "m_channels p ! idx \<noteq> None"
    and a: "action_safe a" and l: "delivers a \<Longrightarrow> listed pp w"
  shows "ensures (perform_action pp idx a w) (safe_to w)"
proof (cases a)
  case Add_to_reliable_channel_send_queue
  then show ?thesis using safe_to_queue [OF w p] p(1) by (simp add: perform_action_def modify_peer_def)
next
  case (Add_reliable_packet dm q)
  then show ?thesis using safe_add_reliable [OF w p(1)] a l by (simp add: perform_action_def delivers_def)
next
  case (Create_receive_event q dm c h)
  then have "m_peers w (akey (m_endpoint p)) = Some pp" using l listed_peer p(1) by (simp add: delivers_def)
  from safe_receive_event [OF w this] Create_receive_event show ?thesis
    using a p(1) by (simp add: perform_action_def wf_packet_def)
next
  case (Send_user_data q)
  then show ?thesis using safe_send_user_data [OF w p(1), of q] a by (auto simp: perform_action_def ensures_def)
next
  case (Recycle_and_deliver q)
  then show ?thesis using safe_deliver [OF w p(1)] a by (simp add: perform_action_def)
next
  case (Pool_recycle q)
  then show ?thesis using safe_recycle [OF w] by (simp add: perform_action_def)
qed

lemma safe_perform:
  assumes "safe w" "get_peer pp w = Some p" "idx < length (m_channels p)" "m_channels p ! idx \<noteq> None" "\<forall>a \<in> set acts. action_safe a"
    "\<And>a. a \<in> set acts \<Longrightarrow> delivers a \<Longrightarrow> listed pp w"
  shows "ensures (perform pp idx acts w) (safe_to w)"
  using assms
proof (induction acts arbitrary: w p)
  case Nil
  then show ?case by (simp add: safe_to_refl)
next
  case (Cons a acts)
  obtain w1 where w1: "perform_action pp idx a w = Some w1" "safe_to w w1"
    using safe_action [OF Cons.prems(1-4), of a] Cons.prems(5,6) by (auto simp: ensures_def)
  obtain p1 where p1: "get_peer pp w1 = Some p1" "idx < length (m_channels p1)" "m_channels p1 ! idx \<noteq> None"
    using safe_to_channel [OF Cons.prems(1) w1(2) Cons.prems(2-4)] by blast
  have "ensures (perform pp idx acts w1) (safe_to w1)"
    by (rule Cons.IH [OF safe_toD(1) [OF Cons.prems(1) w1(2)] p1]) (use Cons.prems(5,6) listed_to [OF _ w1(2)] in auto)
  from safe_after [OF w1(2) this] w1(1) show ?case by simp
qed

end
