(* ===== verification/Packet_Safety.thy ===== *)
theory Packet_Safety
  imports Peer_Safety
begin

text \<open>
  The operations of a peer on its own channels, timers and packets, in a safe world: a received packet, a turn of the
  update, a message of the application.
\<close>

section \<open>Channels\<close>

lemma update_slot: "j < length xs \<Longrightarrow> \<exists>y. xs ! j = Some y \<Longrightarrow> \<exists>y. xs[i := Some ch] ! j = Some y"
  by (cases "i = j") simp_all

lemma rest_update_channel:
  assumes "peer_rest p" "channel_wf ch" shows "peer_rest (p\<lparr>m_channels := (m_channels p)[i := Some ch]\<rparr>)"
proof -
  have "channels_ok p" by (rule peer_restD(1) [OF assms(1)])
  then have "channels_ok (p\<lparr>m_channels := (m_channels p)[i := Some ch]\<rparr>)"
    using assms(2) unfolding channels_ok_def by (auto dest!: set_update_subset_insert [THEN subsetD] intro!: update_slot)
  then show ?thesis using assms(1) by (simp add: peer_rest_def packets_ok_def state_ok_def)
qed

lemma safe_set_channel:
  assumes w: "safe w" and p: "get_peer pp w = Some p" and p1: "peer_evolves p p1" "peer_rest p1" "chans_stay p p1" and ch: "channel_wf ch"
  shows "safe_to w (put_peer pp (set_channel i ch p1) w)"
proof (rule safe_put [OF w p])
  show "peer_evolves p (set_channel i ch p1)"
    by (rule peer_evolves_trans [OF p1(1) same_vitals_evolves [OF tables.set_channel_vitals]]) simp
  show "peer_rest (set_channel i ch p1)" unfolding set_channel_def by (rule rest_update_channel [OF p1(2) ch])
  show "chans_stay p (set_channel i ch p1)"
    using p1(1,3) update_slot [of _ "m_channels p1" i ch] by (simp add: chans_stay_def set_channel_def peer_evolves_def)
qed

lemma safe_create_channel:
  assumes "peer_rest p" "idx < length (m_channels p)"
  shows "ensures (create_channel idx p) (\<lambda>p1. peer_rest p1 \<and> peer_evolves p p1 \<and> chans_stay p p1 \<and> m_channels p1 ! idx \<noteq> None \<and>
     m_mtu p1 = m_mtu p)"
proof (cases "m_channels p ! idx")
  case (Some ch)
  then show ?thesis using assms by (simp add: create_channel_def chans_stay_def)
next
  case None
  obtain ch where ch: "make_channel idx = Some ch" "channel_wf ch" using make_channel_safe [of idx] by (auto simp: ensures_def)
  let ?p = "p\<lparr>m_channels := (m_channels p)[idx := Some ch]\<rparr>"
  have c: "create_channel idx p = Some ?p" using None ch(1) assms(2) by (simp add: create_channel_def)
  have "peer_rest ?p" by (rule rest_update_channel [OF assms(1) ch(2)])
  moreover have "peer_evolves p ?p" by (rule same_vitals_evolves [OF tables.create_channel_vitals [OF c]])
  ultimately show ?thesis using c assms(2) None by (auto simp: chans_stay_def nth_list_update)
qed

text \<open>A packet as it comes out of the socket and passes \<open>verify\<close>.\<close>

definition arrived :: "net_packet \<Rightarrow> bool" where
  "arrived q \<longleftrightarrow> wf_packet q \<and> verify q"

lemma arrived_framed: "arrived q \<Longrightarrow> property q = ACK \<or> property q = CHANNELED \<Longrightarrow> framed q"
  by (auto simp: arrived_def framed_def verify_iff)

lemma safe_channeled:
  assumes w: "safe w" and p: "get_peer pp w = Some p" and l: "listed pp w" and q: "framed q"
    and c: "\<And>c. channel_id q = Some c \<Longrightarrow> unat c \<noteq> length (m_channels p)"
  shows "ensures (process_channeled pp q w) (safe_to w)"
proof -
  obtain c where cq: "channel_id q = Some c" using framed_fields(2) [OF q] by blast
  have ne: "unat c \<noteq> length (m_channels p)" by (rule c [OF cq])
  show ?thesis
  proof (cases "unat c > length (m_channels p)")
    case True
    then show ?thesis using p cq safe_recycle [OF w] by (simp add: process_channeled_def)
  next
    case False
    with ne have lt: "unat c < length (m_channels p)" by simp
    let ?slot = "m_channels p ! unat c"
    have nat: "nat (uint c) = unat c" by simp
    obtain p1 where p1: "(if ?slot = None \<and> property q \<noteq> ACK then create_channel (unat c) p else Some p) = Some p1"
      "peer_rest p1" "peer_evolves p p1" "chans_stay p p1" "length (m_channels p1) = length (m_channels p)"
    proof (cases "?slot = None \<and> property q \<noteq> ACK")
      case True
      with safe_create_channel [OF safeD(2) [OF w p] lt] that show ?thesis by (auto simp: ensures_def peer_evolves_def)
    next
      case False
      with that [of p] safeD(2) [OF w p] show ?thesis by (auto simp: chans_stay_def)
    qed
    show ?thesis
    proof (cases "m_channels p1 ! unat c")
      case None
      then show ?thesis using p cq False lt p1(1,5) safe_recycle [OF w] unfolding process_channeled_def by simp
    next
      case (Some ch)
      then have "Some ch \<in> set (m_channels p1)" using lt p1(5) by (metis nth_mem)
      then have wf: "channel_wf ch" using peer_restD(1) [OF p1(2)] by (simp add: channels_ok_def)
      obtain b ch' acts where pr: "channel_process_packet q ch = Some (b, ch', acts)" "channel_wf ch'" "\<forall>a \<in> set acts. action_safe a"
        using channel_process_safe [OF wf q] by (auto simp: ensures_def channel_result_def)
      let ?p2 = "set_channel (unat c) ch' p1"
      let ?w1 = "put_peer pp ?p2 w"
      have w1: "safe_to w ?w1" by (rule safe_set_channel [OF w p p1(3,2,4) pr(2)])
      have at: "unat c < length (m_channels ?p2)" "m_channels ?p2 ! unat c \<noteq> None" using lt p1(5) by (simp_all add: set_channel_def)
      obtain w2 where w2: "perform pp (unat c) acts ?w1 = Some w2" "safe_to ?w1 w2"
        using safe_perform [OF safe_toD(1) [OF w w1] get_put_peer at pr(3) listed_to [OF l w1]] by (auto simp: ensures_def)
      have s2: "safe_to w w2" by (rule safe_to_trans [OF w1 w2(2)])
      have "safe_to w (if b then w2 else pool_recycle q w2)"
        using s2 safe_to_trans [OF s2 safe_recycle [OF safe_toD(1) [OF w s2]]] by simp
      then show ?thesis using p cq False lt p1(1,5) Some pr(1) w2(1) unfolding process_channeled_def by simp
    qed
  qed
qed

section \<open>Other packets\<close>

lemma set_at_total:
  "i + 2 \<le> buffer_size q \<Longrightarrow> ensures (set_u16_at u i q) (\<lambda>r. buffer_size r = buffer_size q \<and> m_size r = m_size q)"
  "i + 4 \<le> buffer_size q \<Longrightarrow> ensures (set_i32_at v i q) (\<lambda>r. buffer_size r = buffer_size q \<and> m_size r = m_size q)"
  "i + 8 \<le> buffer_size q \<Longrightarrow> ensures (set_i64_at t i q) (\<lambda>r. buffer_size r = buffer_size q \<and> m_size r = m_size q)"
  "3 \<le> buffer_size q \<Longrightarrow> ensures (set_sequence s q) (\<lambda>r. buffer_size r = buffer_size q \<and> m_size r = m_size q)"
  using wr_bytes_ok [of i "le_bytes 2 u" "m_data q"] wr_bytes_ok [of i "le_bytes 4 v" "m_data q"] wr_bytes_ok [of i "le_bytes 8 t" "m_data q"]
    wr_bytes_ok [of 1 "le_bytes 2 s" "m_data q"]
  by (auto simp: set_u16_at_def set_i32_at_def set_i64_at_def set_sequence_def set_data_def wr16_def wr32_def wr64_def ensures_def wr_bytes_length)

lemma wf_by_size: "wf_packet q \<Longrightarrow> buffer_size r = buffer_size q \<Longrightarrow> m_size r \<le> m_size q \<Longrightarrow> wf_packet r"
  by (cases "m_data r") (auto simp: wf_packet_def)

lemma safe_ping:
  assumes w: "safe w" and p: "get_peer pp w = Some p" and q: "wf_packet q" "3 \<le> m_size q"
  shows "ensures (process_ping pp q w) (safe_to w)"
proof -
  obtain s where s: "sequence q = Some s" using q by (auto simp: sequence_def rd_defs wf_packet_def)
  note ok = peer_okD [OF safeD(1) [OF w p]]
  obtain s0 where s0: "sequence (m_pong_packet p) = Some s0" using ok(3) by (auto simp: sequence_def rd_defs)
  obtain r1 where r1: "set_i64_at (word_of_int (system_time w)) 3 (m_pong_packet p) = Some r1"
    "buffer_size r1 = buffer_size (m_pong_packet p)" "m_size r1 = 11"
    using set_at_total(3) [of 3 "m_pong_packet p"] ok(3,5) by (auto simp: ensures_def)
  obtain r where r: "set_sequence s r1 = Some r" "buffer_size r = buffer_size (m_pong_packet p)" "m_size r = 11"
    using set_at_total(4) [of r1 s] r1(2,3) ok(3) by (auto simp: ensures_def)
  let ?w1 = "put_peer pp (p\<lparr>m_pong_packet := r\<rparr>) w"
  have w1: "safe_to w ?w1"
    by (rule safe_put_same [OF w p]) (use r ok in \<open>simp_all add: peer_evolves_def peer_ok_defs same_rest_def\<close>)
  have "wf_packet r" using r(2,3) ok(3) by (cases "m_data r") (auto simp: wf_packet_def)
  then have snd: "ensures (send_packet r (m_endpoint p) ?w1) (\<lambda>x. safe_to w (snd x))"
    by (rule safe_after [OF w1 safe_send_packet [OF safe_toD(1) [OF w w1]]])
  have rec: "safe_to w (pool_recycle q v)" if "safe_to w v" for v
    by (rule safe_to_trans [OF that safe_recycle [OF safe_toD(1) [OF w that]]])
  obtain n v where v: "send_packet r (m_endpoint p) ?w1 = Some (n, v)" "safe_to w v" using snd by (auto simp: ensures_def)
  show ?thesis
    using p s s0 r1(1) r(1) v(1) rec [OF v(2)] rec [OF safe_to_refl [OF w]] by (simp add: process_ping_def)
qed

lemma safe_pong:
  assumes w: "safe w" and p: "get_peer pp w = Some p" and q: "wf_packet q" "11 \<le> m_size q"
  shows "ensures (process_pong pp q w) (safe_to w)"
proof -
  obtain s t where s: "sequence q = Some s" "rd64 (m_data q) 3 = Some t" using q by (auto simp: sequence_def rd_defs wf_packet_def)
  note ok = peer_okD [OF safeD(1) [OF w p]]
  obtain s0 where s0: "sequence (m_ping_packet p) = Some s0" using ok(4) by (auto simp: sequence_def rd_defs)
  have rec: "safe_to w (pool_recycle q v)" if "safe_to w v" for v
    by (rule safe_to_trans [OF that safe_recycle [OF safe_toD(1) [OF w that]]])
  have upd: "safe_to w (put_peer pp (update_roundtrip_time e (p\<lparr>m_ping_timer := t, m_remote_delta := d\<rparr>)) w)" for e t d
    by (rule safe_put_same [OF w p same_vitals_evolves]) (simp_all add: same_vitals_def same_rest_def update_roundtrip_time_def Let_def)
  show ?thesis
  proof (cases "s = s0")
    case True
    let ?t = "sw_stop (clock w) (m_ping_timer p)"
    let ?e = "sw_milliseconds (clock w) ?t"
    let ?w1 = "put_peer pp (update_roundtrip_time ?e (p\<lparr>m_ping_timer := ?t,
       m_remote_delta := sint t + (?e * TICKS_PER_MILLISECOND) sdiv 2 - system_time w\<rparr>)) w"
    obtain v where "connection_latency_updated (m_endpoint p) (?e sdiv 2) ?w1 = Some v" "safe_to ?w1 v"
      using safe_latency [OF safe_toD(1) [OF w upd]] by (rule ensuresE)
    with rec [OF safe_to_trans [OF upd]] True p s s0 show ?thesis by (simp add: process_pong_def Let_def)
  next
    case False
    with p s s0 rec [OF safe_to_refl [OF w]] show ?thesis by (simp add: process_pong_def)
  qed
qed

lemma safe_mtu:
  assumes w: "safe w" and p: "get_peer pp w = Some p" and q: "wf_packet q"
  shows "ensures (process_mtu_packet pp q w) (safe_to w)"
proof -
  have rec: "safe_to w (pool_recycle q v)" if "safe_to w v" for v
    by (rule safe_to_trans [OF that safe_recycle [OF safe_toD(1) [OF w that]]])
  note rec0 = rec [OF safe_to_refl [OF w]]
  have mtu: "mtu_ok p" by (rule peer_okD(1) [OF safeD(1) [OF w p]])
  show ?thesis
  proof (cases "m_size q < POSSIBLE_MTU ! 0")
    case True
    then show ?thesis using p rec0 by (simp add: process_mtu_packet_def)
  next
    case False
    then have sz: "508 \<le> m_size q" by (simp add: POSSIBLE_MTU_def)
    then obtain a b where ab: "get_i32_at q 1 = Some a" "get_i32_at q (m_size q - 4) = Some b"
      using q by (auto simp: get_i32_at_def rd_defs wf_packet_def)
    show ?thesis
    proof (cases "word_of_int (sint a) \<noteq> (of_nat (m_size q) :: i64) \<or> a \<noteq> b \<or> sint a > int MAX_PACKET_SIZE")
      case True
      then show ?thesis using p False ab rec0 unfolding process_mtu_packet_def by (simp del: MAX_PACKET_SIZE_eq)
    next
      case good: False
      show ?thesis
      proof (cases "property q = MTU_CHECK")
        case True
        let ?w1 = "put_peer pp (p\<lparr>m_mtu_check_attempts := 0\<rparr>) w"
        have w1: "safe_to w ?w1"
          by (rule safe_put_same [OF w p same_vitals_evolves]) (simp_all add: same_vitals_def same_rest_def)
        have mq: "wf_packet (set_property MTU_OK q)" using q by simp
        obtain n v where "send_raw_and_recycle (set_property MTU_OK q) (m_endpoint p) ?w1 = Some (n, v)" "safe_to ?w1 v"
          by (rule ensures_sndE [OF safe_send_recycle [OF safe_toD(1) [OF w w1] mq]])
        then show ?thesis using p False ab good True safe_to_trans [OF w1] unfolding process_mtu_packet_def by (simp del: MAX_PACKET_SIZE_eq)
      next
        case ok: False
        show ?thesis
        proof (cases "sint a \<le> int (m_mtu p) \<or> m_finish_mtu p")
          case True
          then show ?thesis using p False ab good ok rec0 unfolding process_mtu_packet_def by (simp del: MAX_PACKET_SIZE_eq)
        next
          case grow: False
          have idx: "m_mtu_idx p < 6"
          proof (rule ccontr)
            assume "\<not> ?thesis"
            then have "m_mtu_idx p = 6" using mtu by (simp add: mtu_ok_def)
            then have "m_mtu p = 1432" using mtu by (simp add: mtu_ok_def POSSIBLE_MTU_def)
            then show False using good grow by simp
          qed
          then have nx: "vget POSSIBLE_MTU (int (m_mtu_idx p + 1)) = Some (POSSIBLE_MTU ! (m_mtu_idx p + 1))" by (simp add: vget_def nat_add_distrib)
          let ?p1 = "p\<lparr>m_mtu_idx := m_mtu_idx p + 1, m_mtu := POSSIBLE_MTU ! (m_mtu_idx p + 1)\<rparr>"
          have p1: "set_mtu (m_mtu_idx p + 1) p = Some ?p1" using nx by (simp add: set_mtu_def)
          have put: "safe_to w (put_peer pp (?p1\<lparr>m_finish_mtu := f\<rparr>) w)" "safe_to w (put_peer pp ?p1 w)" for f
            using tables.set_mtu_evolves [OF p1] same_vitals_evolves [of ?p1 "?p1\<lparr>m_finish_mtu := f\<rparr>"]
            by (auto intro!: safe_put_same [OF w p] intro: peer_evolves_trans simp: same_rest_def same_vitals_def)
          show ?thesis
            using p False ab good ok grow nx p1 rec0 rec [OF put(1)] rec [OF put(2)]
            unfolding process_mtu_packet_def by (cases "m_mtu_idx p = 5") (simp_all del: MAX_PACKET_SIZE_eq add: Let_def)
        qed
      qed
    qed
  qed
qed

end
