(* ===== verification/Turn_Safety.thy ===== *)
theory Turn_Safety
  imports Packet_Safety
begin

text \<open>
  The turn of a peer, the messages of the application, and any packet that is not merged, in a safe world: every one of
  these operations returns.
\<close>

section \<open>One packet\<close>

lemma arrivedD:
  assumes "arrived q" shows "wf_packet q" "static_header_size (property q) \<le> m_size q" "sourced q"
proof -
  show "wf_packet q" "static_header_size (property q) \<le> m_size q" using assms by (simp_all add: arrived_def verify_iff)
  have v: "unat (byte0 q AND 0x1F) < 18" "HEADER_SIZES ! unat (byte0 q AND 0x1F) \<le> m_size q"
    using assms by (auto simp: arrived_def verify_def Let_def PROPERTY_COUNT_def split: if_splits)
  have "length HEADER_SIZES = 18" by (simp add: HEADER_SIZES_def)
  then have "packet_header_size q = Some (HEADER_SIZES ! unat (byte0 q AND 0x1F))"
    using v(1) by (simp add: packet_header_size_def vget_def flip: uint_nat)
  moreover have "m_size q \<le> buffer_size q" using assms by (simp add: arrived_def wf_packet_def)
  ultimately show "sourced q" using v(2) by (simp add: sourced_def)
qed

definition in_range :: "net_packet \<Rightarrow> net_peer \<Rightarrow> bool" where
  "in_range q p \<longleftrightarrow> (property q = ACK \<or> property q = CHANNELED \<longrightarrow>
     (case channel_id q of None \<Rightarrow> True | Some c \<Rightarrow> unat c \<noteq> length (m_channels p)))"

lemma safe_single:
  assumes w: "safe w" and p: "get_peer pp w = Some p" and l: "listed pp w" and q: "arrived q" and c: "in_range q p"
  shows "ensures (process_single pp q w) (safe_to w)"
proof (cases "property q = ACK \<or> property q = CHANNELED")
  case True
  then have "ensures (process_channeled pp q w) (safe_to w)"
    using c by (intro safe_channeled [OF w p l arrived_framed [OF q]]) (simp_all add: in_range_def)
  with True show ?thesis by (auto simp: process_single_def)
next
  case False
  then show ?thesis
    using arrivedD [OF q] safe_ping [OF w p] safe_pong [OF w p] safe_mtu [OF w p] safe_receive_event [OF w listed_peer [OF l p]] p
      safe_to_refl [OF w] by (cases "property q") (simp_all add: process_single_def wf_packet_def)
qed

section \<open>The timers\<close>

lemma same_rest_ping:
  "same_rest p (update_roundtrip_time e p')= same_rest p p'" "same_vitals p (update_roundtrip_time e p') = same_vitals p p'"
  by (simp_all add: same_rest_def same_vitals_def update_roundtrip_time_def Let_def)

lemma safe_update_ping:
  assumes w: "safe w" and p: "get_peer pp w = Some p"
  shows "ensures (update_ping pp dt w) (safe_to w)"
proof (cases "m_ping_send_timer p + dt \<ge> ping_interval w")
  case False
  have "safe_to w (put_peer pp (p\<lparr>m_ping_send_timer := t\<rparr>) w)" for t
    by (rule safe_put_same [OF w p same_vitals_evolves]) (simp_all add: same_vitals_def same_rest_def)
  with False p show ?thesis by (simp add: update_ping_def Let_def)
next
  case True
  note ok = peer_okD [OF safeD(1) [OF w p]]
  obtain s where s: "sequence (m_ping_packet p) = Some s" using ok(4) by (auto simp: sequence_def rd_defs)
  obtain r where r: "set_sequence (s + 1) (m_ping_packet p) = Some r" "buffer_size r = buffer_size (m_ping_packet p)" "m_size r = 3"
    using set_at_total(4) [of "m_ping_packet p" "s + 1"] ok(4,6) by (auto simp: ensures_def)
  let ?p2 = "p\<lparr>m_ping_send_timer := 0, m_ping_packet := r\<rparr>"
  let ?p3 = "if m_running_sw (m_ping_timer ?p2) then update_roundtrip_time (sw_milliseconds (clock w) (m_ping_timer ?p2)) ?p2 else ?p2"
  let ?p4 = "?p3\<lparr>m_ping_timer := sw_restart (clock w) (m_ping_timer ?p3)\<rparr>"
  have w1: "safe_to w (put_peer pp ?p4 w)"
    by (rule safe_put_same [OF w p])
      (use r ok in \<open>simp_all add: peer_evolves_def peer_ok_defs same_rest_def update_roundtrip_time_def Let_def\<close>)
  have "wf_packet r" using r(2,3) ok(4) by (cases "m_data r") (auto simp: wf_packet_def)
  then have "ensures (send_packet r (m_endpoint ?p4) (put_peer pp ?p4 w)) (\<lambda>x. safe_to w (snd x))"
    by (rule safe_after [OF w1 safe_send_packet [OF safe_toD(1) [OF w w1]]])
  then obtain n v where "send_packet r (m_endpoint ?p4) (put_peer pp ?p4 w) = Some (n, v)" "safe_to w v"
    by (rule ensures_sndE)
  then show ?thesis unfolding update_ping_def Let_def using True p s r(1) by (cases "m_running_sw (m_ping_timer p)") simp_all
qed

lemma safe_update_rtt:
  assumes "safe w" "get_peer pp w = Some p" shows "ensures (modify_peer pp (update_rtt dt v) w) (safe_to w)"
  by (rule safe_modify_same [OF assms same_vitals_evolves [OF tables.update_rtt_vitals]])
    (simp add: same_rest_def update_rtt_def Let_def)

lemma pool_packet:
  assumes "pool_get_packet n w = (q, w')" "0 < n" shows "wf_packet q" "m_size q = n"
  using assms wf_resize [of _ n] by (auto simp: pool_get_packet_def resize_def split: list.splits)

lemma safe_update_mtu:
  assumes w: "safe w" and p: "get_peer pp w = Some p"
  shows "ensures (update_mtu_logic pp dt w) (safe_to w)"
proof (cases "m_finish_mtu p")
  case True
  then show ?thesis using p safe_to_refl [OF w] by (simp add: update_mtu_logic_def)
next
  case nf: False
  have put: "safe_to w (put_peer pp (p\<lparr>m_mtu_check_timer := t, m_mtu_check_attempts := n, m_finish_mtu := b\<rparr>) w)"
    "safe_to w (put_peer pp (p\<lparr>m_mtu_check_timer := t, m_mtu_check_attempts := n\<rparr>) w)"
    "safe_to w (put_peer pp (p\<lparr>m_mtu_check_timer := t\<rparr>) w)" for t n b
    by (rule safe_put_same [OF w p same_vitals_evolves], simp_all add: same_vitals_def same_rest_def)+
  let ?t = "m_mtu_check_timer p + dt"
  show ?thesis
  proof (cases "?t < MTU_CHECK_DELAY")
    case True
    then show ?thesis using nf p put(3) by (simp add: update_mtu_logic_def Let_def)
  next
    case due: False
    let ?n = "m_mtu_check_attempts p + 1"
    let ?p2 = "p\<lparr>m_mtu_check_timer := 0, m_mtu_check_attempts := ?n\<rparr>"
    let ?w2 = "put_peer pp ?p2 w"
    show ?thesis
    proof (cases "?n \<ge> MAX_MTU_CHECK_ATTEMPTS \<or> m_mtu_idx p \<ge> length POSSIBLE_MTU - 1")
      case True
      then show ?thesis using nf p due put(1,2)
        by (cases "?n \<ge> MAX_MTU_CHECK_ATTEMPTS") (simp_all add: update_mtu_logic_def Let_def)
    next
      case False
      then have idx: "m_mtu_idx p < 6" by (simp add: POSSIBLE_MTU_def)
      let ?m = "POSSIBLE_MTU ! (m_mtu_idx p + 1)"
      have nx: "vget POSSIBLE_MTU (int (m_mtu_idx p + 1)) = Some ?m" using idx by (simp add: vget_def nat_add_distrib)
      have "?m \<in> set POSSIBLE_MTU" using idx by (intro nth_mem) (simp add: POSSIBLE_MTU_def)
      then have m: "508 \<le> ?m" by (auto simp: POSSIBLE_MTU_def)
      obtain q0 w1 where q0: "pool_get_packet ?m ?w2 = (q0, w1)" by fastforce
      note s2 = safe_toD(1) [OF w put(2)]
      note w1 = safe_to_trans [OF put(2) safe_pool [OF s2 q0]]
      note s1 = safe_toD(1) [OF w w1]
      have q: "wf_packet (set_property MTU_CHECK q0)" "m_size (set_property MTU_CHECK q0) = ?m"
        using pool_packet [OF q0] m by (simp_all add: packet_simps)
      obtain q1 where q1: "set_i32_at (of_nat ?m) 1 (set_property MTU_CHECK q0) = Some q1"
        "buffer_size q1 = buffer_size (set_property MTU_CHECK q0)" "m_size q1 = ?m"
        using set_at_total(2) [of 1 "set_property MTU_CHECK q0" "of_nat ?m"] q m by (auto simp: wf_packet_def ensures_def)
      obtain q2 where q2: "set_i32_at (of_nat ?m) (m_size q1 - 4) q1 = Some q2" "buffer_size q2 = buffer_size q1" "m_size q2 = ?m"
        using set_at_total(2) [of "m_size q1 - 4" q1 "of_nat ?m"] q1 q m by (auto simp: wf_packet_def ensures_def)
      have "wf_packet q2" using q(1) q1(2,3) q2(2,3) q(2) wf_by_size [of "set_property MTU_CHECK q0" q2] by simp
      from safe_send_recycle [OF s1 this] obtain r w3 where w3: "send_raw_and_recycle q2 (m_endpoint p) w1 = Some (r, w3)" "safe_to w1 w3"
        by (rule ensures_sndE)
      note s3 = safe_toD(1) [OF s1 w3(2)] and t3 = safe_to_trans [OF w1 w3(2)]
      obtain p3 where p3: "get_peer pp w3 = Some p3" using safe_toD(2) [OF w t3 p] by blast
      have "ensures (modify_peer pp (\<lambda>p. p\<lparr>m_finish_mtu := True\<rparr>) w3) (safe_to w3)"
        by (rule safe_modify_same [OF s3 p3 tables.finish_evolves]) (simp add: same_rest_def)
      then have "ensures (if r \<le> 0 then modify_peer pp (\<lambda>p. p\<lparr>m_finish_mtu := True\<rparr>) w3 else Some w3) (safe_to w)"
        using safe_after [OF t3, where g = "\<lambda>x. x"] t3 by simp
      then show ?thesis
        using nf p due False nx q0 q1(1) q2(1) w3(1) by (simp add: update_mtu_logic_def Let_def)
    qed
  qed
qed

section \<open>The turn of a peer\<close>

lemma safe_to_number:
  assumes "safe w" "safe_to w w'" "get_peer pp w = Some p"
  shows "\<exists>p'. get_peer pp w' = Some p' \<and> m_connect_number p' = m_connect_number p"
proof -
  obtain p' where "get_peer pp w' = Some p'" using safe_toD(2) [OF assms] by blast
  then show ?thesis using assms(2,3) by (auto simp: safe_to_def chans_stay_def)
qed

lemma safe_send_channels:
  assumes "safe w" "get_peer pp w = Some p" "m_connect_number p < 4" "listed pp w"
  shows "ensures (send_channels pp n w) (safe_to w)"
  using assms
proof (induction n arbitrary: w p)
  case 0
  then show ?case by (simp add: safe_to_refl)
next
  case (Suc n)
  note w = Suc.prems(1) and p = Suc.prems(2)
  show ?case
  proof (cases "m_channel_send_queue p")
    case Nil
    then show ?thesis using p safe_to_refl [OF w] by (simp add: q_dequeue_def q_empty_def)
  next
    case (Cons idx q)
    have rest: "peer_rest p" by (rule safeD(2) [OF w p])
    have idx: "idx < length (m_channels p)" "m_channels p ! idx \<noteq> None" using peer_restD(1) [OF rest] Cons by (auto simp: channels_ok_def)
    then obtain ch where ch: "m_channels p ! idx = Some ch" by blast
    then have "Some ch \<in> set (m_channels p)" using idx by (metis nth_mem)
    then have wf: "channel_wf ch" using peer_restD(1) [OF rest] by (simp add: channels_ok_def)
    obtain has ch' acts where s: "channel_send_and_check_queue (system_time w) (m_resend_delay p) (m_connect_number p) ch = Some (has, ch', acts)"
      "channel_wf ch'" "\<forall>a \<in> set acts. action_safe a"
      using channel_send_safe [OF wf Suc.prems(3), of "system_time w" "m_resend_delay p"] by (auto simp: ensures_def channel_result_def)
    let ?p1 = "p\<lparr>m_channel_send_queue := q\<rparr>"
    let ?w1 = "put_peer pp (set_channel idx ch' ?p1) w"
    have r1: "peer_rest ?p1" using rest Cons by (simp add: peer_rest_defs)
    have w1: "safe_to w ?w1"
      by (rule safe_set_channel [OF w p same_vitals_evolves r1 _ s(2)]) (simp_all add: same_vitals_def chans_stay_def)
    have at: "idx < length (m_channels (set_channel idx ch' ?p1))" "m_channels (set_channel idx ch' ?p1) ! idx \<noteq> None"
      using idx by (simp_all add: set_channel_def)
    obtain w2 where w2: "perform pp idx acts ?w1 = Some w2" "safe_to ?w1 w2"
      using safe_perform [OF safe_toD(1) [OF w w1] get_put_peer at s(3) listed_to [OF Suc.prems(4) w1]] by (rule ensuresE)
    note t2 = safe_to_trans [OF w1 w2(2)]
    obtain p2 where p2: "get_peer pp w2 = Some p2" "idx < length (m_channels p2)" "m_channels p2 ! idx \<noteq> None"
      using safe_to_channel [OF w t2 p idx] by blast
    note s2 = safe_toD(1) [OF w t2]
    obtain w3 where w3: "(if has then modify_peer pp (\<lambda>p. p\<lparr>m_channel_send_queue := q_push idx (m_channel_send_queue p)\<rparr>) w2
                 else Some w2) = Some w3" "safe_to w2 w3"
      using safe_to_queue [OF s2 p2] safe_to_refl [OF s2] p2(1) by (cases has) (simp_all add: modify_peer_def)
    note t3 = safe_to_trans [OF t2 w3(2)]
    obtain p3 where p3: "get_peer pp w3 = Some p3" "m_connect_number p3 = m_connect_number p"
      using safe_to_number [OF w t3 p] by blast
    have "ensures (send_channels pp n w3) (safe_to w3)"
      by (rule Suc.IH [OF safe_toD(1) [OF w t3] p3(1)]) (use p3(2) Suc.prems(3) listed_to [OF Suc.prems(4) t3] in simp_all)
    from safe_after [OF t3 this] show ?thesis
      using p Cons idx(1) ch s(1) w2(1) w3(1) by (simp add: q_dequeue_def q_empty_def)
  qed
qed

lemma safe_unreliable_queue:
  assumes w: "safe w" and p: "get_peer pp w = Some p" and qs: "\<forall>q \<in> set qs. wf_packet q"
  shows "safe_to w (put_peer pp (p\<lparr>m_unreliable_channel := qs\<rparr>) w)"
proof (rule safe_put [OF w p])
  show "peer_evolves p (p\<lparr>m_unreliable_channel := qs\<rparr>)" by (rule same_vitals_evolves) (simp add: same_vitals_def)
  show "peer_rest (p\<lparr>m_unreliable_channel := qs\<rparr>)" using safeD(2) [OF w p] qs by (simp add: peer_rest_defs)
qed (simp add: chans_stay_def)

lemma safe_send_unreliable:
  assumes "safe w" "get_peer pp w = Some p" "\<forall>q \<in> set qs. wf_packet q"
  shows "ensures (send_unreliable pp qs w) (safe_to w)"
  using assms
proof (induction qs arbitrary: w p)
  case Nil
  then show ?case by (simp add: safe_to_refl)
next
  case (Cons q qs)
  let ?w1 = "put_peer pp (p\<lparr>m_unreliable_channel := qs\<rparr>) w"
  have w1: "safe_to w ?w1" by (rule safe_unreliable_queue [OF Cons.prems(1,2)]) (use Cons.prems(3) in simp)
  note s1 = safe_toD(1) [OF Cons.prems(1) w1]
  have "ensures (send_user_data pp q ?w1) (\<lambda>r. safe_to ?w1 (snd r))"
    using safe_send_user_data [OF s1 get_put_peer, of q] Cons.prems(3) by (auto simp: ensures_def)
  then obtain q' w2 where w2: "send_user_data pp q ?w1 = Some (q', w2)" "safe_to ?w1 w2" by (rule ensures_sndE)
  note t2 = safe_to_trans [OF w1 w2(2)]
  note t3 = safe_to_trans [OF t2 safe_recycle [OF safe_toD(1) [OF Cons.prems(1) t2], of q']]
  obtain p3 where p3: "get_peer pp (pool_recycle q' w2) = Some p3" using safe_toD(2) [OF Cons.prems(1) t3 Cons.prems(2)] by blast
  have "ensures (send_unreliable pp qs (pool_recycle q' w2)) (safe_to (pool_recycle q' w2))"
    by (rule Cons.IH [OF safe_toD(1) [OF Cons.prems(1) t3] p3]) (use Cons.prems(3) in simp)
  from safe_after [OF t3 this] show ?case using Cons.prems(2) w2(1) by (simp add: modify_peer_def)
qed

lemma safe_update_connected:
  assumes w: "safe w" and p: "get_peer pp w = Some p" "listed pp w" and n: "m_connect_number p < 4"
  shows "ensures (update_connected pp dt w) (safe_to w)"
proof -
  have more: "\<exists>q. get_peer pp v = Some q \<and> m_connect_number q < 4" if "safe_to w v" for v
    using safe_to_number [OF w that p(1)] n by metis
  obtain w1 where w1: "update_ping pp dt w = Some w1" "safe_to w w1" using safe_update_ping [OF w p(1)] by (rule ensuresE)
  obtain p1 where p1: "get_peer pp w1 = Some p1" using more [OF w1(2)] by blast
  obtain w2 where w2: "modify_peer pp (update_rtt dt w1) w1 = Some w2" "safe_to w1 w2"
    using safe_update_rtt [OF safe_toD(1) [OF w w1(2)] p1] by (rule ensuresE)
  note t2 = safe_to_trans [OF w1(2) w2(2)]
  obtain p2 where p2: "get_peer pp w2 = Some p2" using more [OF t2] by blast
  obtain w3 where w3: "update_mtu_logic pp dt w2 = Some w3" "safe_to w2 w3"
    using safe_update_mtu [OF safe_toD(1) [OF w t2] p2] by (rule ensuresE)
  note t3 = safe_to_trans [OF t2 w3(2)]
  obtain p3 where p3: "get_peer pp w3 = Some p3" "m_connect_number p3 < 4" using more [OF t3] by blast
  obtain w4 where w4: "send_channels pp (q_size (m_channel_send_queue p3)) w3 = Some w4" "safe_to w3 w4"
    using safe_send_channels [OF safe_toD(1) [OF w t3] p3 listed_to [OF p(2) t3]] by (rule ensuresE)
  note t4 = safe_to_trans [OF t3 w4(2)]
  note s4 = safe_toD(1) [OF w t4]
  obtain p4 where p4: "get_peer pp w4 = Some p4" using more [OF t4] by blast
  have "\<forall>q \<in> set (m_unreliable_channel p4). wf_packet q" using peer_restD(2) [OF safeD(2) [OF s4 p4]] by (simp add: packets_ok_def)
  from safe_send_unreliable [OF s4 p4 this] obtain w5 where w5: "send_unreliable pp (m_unreliable_channel p4) w4 = Some w5" "safe_to w4 w5"
    by (rule ensuresE)
  note t5 = safe_to_trans [OF t4 w5(2)]
  obtain p5 where p5: "get_peer pp w5 = Some p5" using more [OF t5] by blast
  from safe_after [OF t5 safe_send_merged [OF safe_toD(1) [OF w t5] p5]] show ?thesis
    using w1(1) w2(1) w3(1) p3(1) w4(1) p4 w5(1) by (simp add: update_connected_def)
qed

lemma safe_peer_update:
  assumes w: "safe w" and p0: "get_peer pp w = Some p0" and l: "listed pp w"
  shows "ensures (peer_update pp dt w) (safe_to w)"
proof -
  let ?p = "p0\<lparr>m_time_since_last_packet := m_time_since_last_packet p0 + dt\<rparr>"
  let ?w1 = "put_peer pp ?p w"
  have w1: "safe_to w ?w1" by (rule safe_put_same [OF w p0 same_vitals_evolves]) (simp_all add: same_vitals_def same_rest_def)
  note s1 = safe_toD(1) [OF w w1]
  have put: "safe_to w (put_peer pp q ?w1)" if "peer_evolves ?p q" "same_rest ?p q" for q
    by (rule safe_to_trans [OF w1 safe_put_same [OF s1 get_put_peer that]])
  have dis: "safe_to w (put_peer pp (?p\<lparr>m_connection_state := DISCONNECTED\<rparr>) ?w1)"
    by (rule put [OF state_change_evolves]) (simp_all add: state_le_def same_rest_def)
  have tm: "safe_to w (put_peer pp (?p\<lparr>m_shutdown_timer := t\<rparr>) ?w1)" "safe_to w (put_peer pp (?p\<lparr>m_connect_timer := t\<rparr>) ?w1)"
    "safe_to w (put_peer pp (?p\<lparr>m_connect_timer := t, m_connect_attempts := n\<rparr>) ?w1)" for t n
    by (rule put [OF same_vitals_evolves], simp_all add: same_vitals_def same_rest_def)+
  have force: "ensures (disconnect_peer_force (m_endpoint ?p) r 0 None v) (safe_to w)" if "safe_to w v" for r v
    by (rule safe_after [OF that safe_force [OF safe_toD(1) [OF w that]]]) simp
  have send: "ensures (send_packet q (m_endpoint ?p) v \<bind> (\<lambda>(_, w2). Some w2)) (safe_to w)" if "wf_packet q" "safe_to w v" for q v
    using safe_after [OF that(2) safe_send_packet [OF safe_toD(1) [OF w that(2)] that(1), of "m_endpoint ?p"]]
    by (auto elim!: ensures_sndE)
  note rest = safeD(2) [OF w p0]
  show ?thesis
  proof (cases "m_connection_state p0")
    case OUTGOING
    then obtain q where "m_connect_request_packet p0 = Some q" "wf_packet q"
      using peer_restD(2,3) [OF rest] by (auto simp: packets_ok_def state_ok_def)
    then show ?thesis using p0 OUTGOING tm(2) force [OF tm(3)] send [OF _ tm(3)]
      by (simp add: peer_update_def Let_def)
  next
    case CONNECTED
    then have "m_connect_number ?p < 4" using peer_restD(3) [OF rest] by (simp add: state_ok_def)
    from safe_update_connected [OF s1 get_put_peer listed_to [OF l w1] this, of dt] force [OF w1] show ?thesis
      using p0 CONNECTED safe_after [OF w1, where g = "\<lambda>x. x"] by (simp add: peer_update_def Let_def)
  next
    case SHUTDOWN_REQUESTED
    have "wf_packet (m_shutdown_packet p0)" using peer_restD(2) [OF rest] by (simp add: packets_ok_def)
    then show ?thesis using p0 SHUTDOWN_REQUESTED dis tm(1) send [OF _ tm(1)]
      by (simp add: peer_update_def Let_def)
  next
    case DISCONNECTED
    then show ?thesis using p0 w1 by (simp add: peer_update_def Let_def)
  next
    case ENDPOINT_CHANGE
    then show ?thesis using peer_restD(3) [OF rest] by (simp add: state_ok_def)
  qed
qed

end
