(* ===== verification/Send_Safety.thy ===== *)
theory Send_Safety
  imports Turn_Safety Fragments Messages
begin

text \<open>The messages of the application, of any length and on any channel, in a safe world.\<close>

lemma safe_enqueue:
  assumes w: "safe w" and p: "get_peer pp w = Some p" "idx < length (m_channels p)" "m_channels p ! idx \<noteq> None" and q: "framed q"
  shows "ensures (enqueue_on_channel pp idx q w) (safe_to w)"
proof -
  obtain ch where ch: "m_channels p ! idx = Some ch" using p(3) by blast
  then have "Some ch \<in> set (m_channels p)" using p(2) by (metis nth_mem)
  note rest = safeD(2) [OF w p(1)]
  have wf: "channel_wf ch" using peer_restD(1) [OF rest] \<open>Some ch \<in> set (m_channels p)\<close> by (simp add: channels_ok_def)
  obtain ch' acts where a: "channel_add_to_queue q ch = (ch', acts)" by fastforce
  have ch': "channel_wf ch'" "\<forall>a \<in> set acts. action_safe a" "a \<in> set acts \<Longrightarrow> \<not> delivers a" for a
    using channel_add_safe [OF wf q a] by (auto simp: delivers_def)
  let ?w1 = "put_peer pp (set_channel idx ch' p) w"
  have w1: "safe_to w ?w1" by (rule safe_set_channel [OF w p(1) _ rest _ ch'(1)]) (simp_all add: chans_stay_def)
  have at: "idx < length (m_channels (set_channel idx ch' p))" "m_channels (set_channel idx ch' p) ! idx \<noteq> None"
    using p(2) by (simp_all add: set_channel_def)
  from safe_after [OF w1 safe_perform [OF safe_toD(1) [OF w w1] get_put_peer at ch'(2)]] show ?thesis
    using p(1,2) ch a ch'(3) by (simp add: enqueue_on_channel_def)
qed

lemma fragment_framed: "fragment_body fid n k f \<Longrightarrow> framed f"
  by (auto simp: fragment_body_def framed_def wf_packet_def)

lemma safe_send_fragments:
  assumes "safe w" "get_peer pp w = Some p" "idx < length (m_channels p)" "m_channels p ! idx \<noteq> None"
    and "sz \<le> parts * ds" "sz = 0 \<or> off + k * ds + sz \<le> length data"
  shows "ensures (send_fragments pp idx data off ds ud fid n parts k sz w) (safe_to w)"
  using assms
proof (induction parts arbitrary: w p k sz)
  case 0
  then show ?case by (simp add: safe_to_refl)
next
  case (Suc parts)
  note w = Suc.prems(1)
  let ?L = "if sz > ds then ds else sz"
  obtain p0 w1 where p0: "pool_get_packet (static_header_size CHANNELED + ?L + FRAGMENT_HEADER_SIZE) w = (p0, w1)" by fastforce
  have s0: "m_size p0 = FRAGMENTED_HEADER_TOTAL_SIZE + ?L" "m_size p0 \<le> buffer_size p0"
    using pool_packet [OF p0] by (simp_all add: wf_packet_def)
  have "?L = 0 \<or> off + k * ds + ?L \<le> length data" using Suc.prems(6) by auto
  from made_fragment [OF s0 this, of fid ud k n] obtain p5 where p5: "(do {
     p2 \<leftarrow> set_fragment_id fid ((set_property CHANNELED p0)\<lparr>user_data := ud\<rparr>);
     p3 \<leftarrow> set_fragment_part (of_nat k) p2;
     p4 \<leftarrow> set_total_fragments (of_nat n) p3;
     copy_from data (off + k * ds) FRAGMENTED_HEADER_TOTAL_SIZE ?L (mark_fragmented p4)
   }) = Some p5" and body: "fragment_body fid n k p5" by blast
  have w1: "safe_to w w1" by (rule safe_pool [OF w p0])
  note s1 = safe_toD(1) [OF w w1]
  obtain p1 where p1: "get_peer pp w1 = Some p1" "idx < length (m_channels p1)" "m_channels p1 ! idx \<noteq> None"
    using safe_to_channel [OF w w1 Suc.prems(2-4)] by blast
  obtain w2 where w2: "enqueue_on_channel pp idx p5 w1 = Some w2" "safe_to w1 w2"
    using safe_enqueue [OF s1 p1 fragment_framed [OF body]] by (rule ensuresE)
  note t2 = safe_to_trans [OF w1 w2(2)]
  obtain p2 where p2: "get_peer pp w2 = Some p2" "idx < length (m_channels p2)" "m_channels p2 ! idx \<noteq> None"
    using safe_to_channel [OF w t2 Suc.prems(2-4)] by blast
  have rest: "sz - ?L \<le> parts * ds" "sz - ?L = 0 \<or> off + (k + 1) * ds + (sz - ?L) \<le> length data"
    using Suc.prems(5,6) by (auto simp: algebra_simps)
  obtain w' where w': "send_fragments pp idx data off ds ud fid n parts (k + 1) (sz - ?L) w2 = Some w'" "safe_to w2 w'"
    using Suc.IH [OF safe_toD(1) [OF w t2] p2 rest] by (rule ensuresE)
  have "send_fragments pp idx data off ds ud fid n (Suc parts) k sz w = Some w'"
    using p0 p5 w2(1) w'(1) by (auto simp: Let_def bind_eq_Some_conv split del: if_split)
  then show ?case using safe_to_trans [OF t2 w'(2)] by simp
qed

lemma plain_packet:
  assumes pool: "pool_ok w" and p0: "pool_get_packet (static_header_size pr + sz) w = (p0, w1)" and pr: "pr = UNRELIABLE \<or> pr = CHANNELED"
    and data: "sz = 0 \<or> off + sz \<le> length data"
  shows "ensures (copy_from data off (static_header_size pr) sz ((set_property pr p0)\<lparr>user_data := ud\<rparr>))
     (\<lambda>q. wf_packet q \<and> (pr = CHANNELED \<longrightarrow> framed q))"
proof -
  note f = pool_fresh [OF pool p0]
  let ?h = "static_header_size pr" and ?p = "(set_property pr p0)\<lparr>user_data := ud\<rparr>"
  have h: "0 < ?h" "pr = CHANNELED \<Longrightarrow> ?h = 4" using pr by auto
  then obtain b bs where bs: "m_data p0 = b # bs" using f(1,2) by (cases "m_data p0") auto
  then have "b = 0" using f(3) by simp
  then have b0: "byte0 ?p = property_code pr" using bs by (simp add: set_property_def upd_byte0_def byte0_def)
  have p: "wf_packet ?p" "m_size ?p = ?h + sz" "buffer_size ?p = buffer_size p0"
    using f bs h by (auto simp: wf_packet_def byte0_setters)
  have frag: "\<not> is_fragmented q" if "byte0 q = byte0 ?p" for q using b0 that pr by (auto simp: is_fragmented_def)
  have "prefix [property_code pr] (m_data ?p)" using bs \<open>b = 0\<close> by (simp add: set_property_def upd_byte0_def byte0_def)
  show ?thesis
  proof (cases "sz = 0")
    case True
    then show ?thesis using p frag [of ?p] h(2) by (auto simp: copy_from_def framed_def)
  next
    case False
    let ?s = "take sz (drop off data)"
    have l: "length ?s = sz" using data False by simp
    then obtain bs' where bs': "wr_bytes (m_data ?p) ?h ?s = Some bs'" using wr_bytes_ok [of ?h ?s "m_data ?p"] f(1,2) p(3) by auto
    have len: "length bs' = buffer_size ?p" by (rule wr_bytes_length [OF bs'])
    have b1: "byte0 (?p\<lparr>m_data := bs'\<rparr>) = byte0 ?p" by (rule byte0_wr_bytes [OF bs' h(1)])
    have "wf_packet (?p\<lparr>m_data := bs'\<rparr>)" by (rule wf_by_size [OF p(1)]) (use len in simp_all)
    moreover have "copy_from data off ?h sz ?p = Some (?p\<lparr>m_data := bs'\<rparr>)"
      using False data bs' by (simp add: copy_from_def rd_bytes_def set_data_def)
    ultimately show ?thesis using frag [OF b1] p(2) h(2) by (auto simp: framed_def)
  qed
qed

lemma safe_send_payload:
  assumes w: "safe w" "pool_ok w" and p: "get_peer pp w = Some p"
    and idx: "dm \<noteq> UNRELIABLE_DELIVERY \<Longrightarrow> idx < length (m_channels p) \<and> m_channels p ! idx \<noteq> None"
    and mtu: "m_mtu p0 = m_mtu p" and data: "sz = 0 \<or> off + sz \<le> length data"
  shows "ensures (send_payload pp p0 idx data off sz dm ud w) (safe_to w)"
proof -
  let ?pr = "if dm = UNRELIABLE_DELIVERY then UNRELIABLE else CHANNELED"
  let ?h = "static_header_size ?pr"
  note err = safe_error_event [OF w(1)]
  show ?thesis
  proof (cases "sz + ?h > m_mtu p0")
    case False
    obtain q0 w1 where q0: "pool_get_packet (?h + sz) w = (q0, w1)" by fastforce
    obtain q where q: "copy_from data off ?h sz ((set_property ?pr q0)\<lparr>user_data := ud\<rparr>) = Some q" "wf_packet q" "?pr = CHANNELED \<Longrightarrow> framed q"
    proof -
      have "?pr = UNRELIABLE \<or> ?pr = CHANNELED" by simp
      from plain_packet [OF w(2) q0 this data, of ud] that show thesis by (auto elim!: ensuresE simp del: static_header_size_simps)
    qed
    have w1: "safe_to w w1" by (rule safe_pool [OF w(1) q0])
    note s1 = safe_toD(1) [OF w(1) w1]
    have "ensures (if dm = UNRELIABLE_DELIVERY
           then modify_peer pp (\<lambda>p. p\<lparr>m_unreliable_channel := m_unreliable_channel p @ [q]\<rparr>) w1
           else enqueue_on_channel pp idx q w1) (safe_to w1)"
    proof (cases "dm = UNRELIABLE_DELIVERY")
      case True
      obtain p1 where p1: "get_peer pp w1 = Some p1" using safe_toD(2) [OF w(1) w1 p] by blast
      have "\<forall>r \<in> set (m_unreliable_channel p1 @ [q]). wf_packet r"
        using peer_restD(2) [OF safeD(2) [OF s1 p1]] q(2) by (auto simp: packets_ok_def)
      from safe_unreliable_queue [OF s1 p1 this] show ?thesis using True p1 by (simp add: modify_peer_def)
    next
      case rel: False
      obtain p1 where "get_peer pp w1 = Some p1" "idx < length (m_channels p1)" "m_channels p1 ! idx \<noteq> None"
        using safe_to_channel [OF w(1) w1 p] idx rel by blast
      from safe_enqueue [OF s1 this, of q] show ?thesis using rel q(3) by simp
    qed
    from safe_after [OF w1 this] show ?thesis
      unfolding send_payload_def Let_def using False q0 q(1) by (simp split del: if_split)
  next
    case big: True
    let ?ds = "m_mtu p0 - ?h - FRAGMENT_HEADER_SIZE"
    let ?n = "sz div ?ds + (if sz mod ?ds = 0 then 0 else 1)"
    show ?thesis
    proof (cases "dm \<noteq> RELIABLE_ORDERED \<and> dm \<noteq> RELIABLE_UNORDERED \<or> ?n \<ge> 65535")
      case True
      then show ?thesis unfolding send_payload_def Let_def using big err
        by (auto simp del: size_consts static_header_size_simps)
    next
      case False
      then have dm: "dm \<noteq> UNRELIABLE_DELIVERY" "dm = RELIABLE_ORDERED \<or> dm = RELIABLE_UNORDERED" by auto
      have "508 \<le> m_mtu p0"
        using peer_okD(1) [OF safeD(1) [OF w(1) p]] mtu by (auto simp: mtu_ok_def POSSIBLE_MTU_def less_Suc_eq)
      then have ds: "0 < ?ds" using dm(1) by simp
      let ?p1 = "p\<lparr>m_fragment_id := m_fragment_id p0 + 1\<rparr>"
      have w1: "safe_to w (put_peer pp ?p1 w)"
        by (rule safe_put_same [OF w(1) p same_vitals_evolves]) (simp_all add: same_vitals_def same_rest_def)
      have "ensures (send_fragments pp idx data off ?ds ud (word_of_int (m_fragment_id p0 + 1)) ?n ?n 0 sz (put_peer pp ?p1 w))
        (safe_to (put_peer pp ?p1 w))"
        by (rule safe_send_fragments [OF safe_toD(1) [OF w(1) w1] get_put_peer _ _ parts_enough [OF ds]])
          (use idx [OF dm(1)] data in auto)
      from safe_after [OF w1 this] show ?thesis
        unfolding send_payload_def Let_def using False big p dm by (auto simp: modify_peer_def)
    qed
  qed
qed

lemma create_channel_bound: "create_channel idx p = Some p' \<Longrightarrow> idx < length (m_channels p)"
  by (auto simp: create_channel_def vget_Some_iff elim!: bind_SomeE)

lemma safe_send_internal:
  assumes w: "safe w" "pool_ok w" and p: "get_peer pp w = Some p" and data: "off + sz \<le> length data"
    and idx: "\<not> (m_connection_state p = CONNECTED \<and> dm \<noteq> UNRELIABLE_DELIVERY \<and> unat c < length (m_channels p) \<and>
      length (m_channels p) \<le> unat (c * of_nat CHANNEL_TYPE_COUNT + of_nat (delivery_code dm) :: u8))"
  shows "ensures (send_internal pp data off sz c dm ud w) (safe_to w)"
proof (cases "m_connection_state p \<noteq> CONNECTED \<or> unat c \<ge> length (m_channels p)")
  case True
  then show ?thesis using p safe_to_refl [OF w(1)] by (simp add: send_internal_def)
next
  case False
  let ?i = "unat (c * of_nat CHANNEL_TYPE_COUNT + of_nat (delivery_code dm) :: u8)"
  show ?thesis
  proof (cases "dm = UNRELIABLE_DELIVERY")
    case True
    with False p safe_send_payload [OF w p _ refl, of dm ?i] data show ?thesis by (simp add: send_internal_def Let_def)
  next
    case rel: False
    then have i: "?i < length (m_channels p)" using idx False by simp
    obtain p1 where p1: "create_channel ?i p = Some p1" "peer_rest p1" "peer_evolves p p1" "chans_stay p p1" "m_channels p1 ! ?i \<noteq> None"
      "m_mtu p1 = m_mtu p" using safe_create_channel [OF safeD(2) [OF w(1) p] i] by (auto simp: ensures_def)
    let ?w1 = "put_peer pp p1 w"
    have w1: "safe_to w ?w1" by (rule safe_put [OF w(1) p p1(3,2,4)])
    have "pool_ok ?w1" using w(2) by (simp add: pool_ok_def put_peer_def)
    moreover have "?i < length (m_channels p1)" using i p1(3) by (simp add: peer_evolves_def)
    ultimately have "ensures (send_payload pp p ?i data off sz dm ud ?w1) (safe_to ?w1)"
      by (intro safe_send_payload [OF safe_toD(1) [OF w(1) w1] _ get_put_peer]) (use p1(5,6) data in simp_all)
    from safe_after [OF w1 this] show ?thesis
      using False rel p p1(1) by (simp add: send_internal_def Let_def)
  qed
qed


text \<open>Also when the length is wrong: the call does not return, or it reports an error, or it does not read.\<close>

lemma copy_bound: "n \<noteq> 0 \<Longrightarrow> length src < off + n \<Longrightarrow> copy_from src off i n r = None"
  by (simp add: copy_from_def rd_bytes_def)

lemma fragments_bound:
  "sz \<le> parts * ds \<Longrightarrow> sz \<noteq> 0 \<Longrightarrow> length data < off + k * ds + sz \<Longrightarrow>
   send_fragments pp idx data off ds ud fid n parts k sz w = None"
proof (induction parts arbitrary: k sz w)
  case (Suc parts)
  show ?case
  proof (cases "sz > ds")
    case True
    then have "sz - ds \<le> parts * ds" "sz - ds \<noteq> 0" "length data < off + (k + 1) * ds + (sz - ds)"
      using Suc.prems by (simp_all add: algebra_simps)
    from Suc.IH [OF this] show ?thesis using True by (simp add: Let_def split: prod.splits Option.bind_splits)
  next
    case False
    have "copy_from data (off + k * ds) i sz r = None" for i r by (rule copy_bound) (use Suc.prems in simp_all)
    then show ?thesis using False by (simp add: Let_def split: prod.splits Option.bind_splits)
  qed
qed simp

lemma ensuresD: "ensures m Q \<Longrightarrow> m = Some x \<Longrightarrow> Q x"
  by (simp add: ensures_def)

lemma payload_bound:
  assumes "sz \<noteq> 0" "length data < off + sz" "508 \<le> m_mtu p0" and s: "send_payload pp p0 idx data off sz dm ud w = Some w'"
  shows "\<exists>msg. create_error_event 0 msg w = Some w'"
proof -
  let ?ds = "m_mtu p0 - static_header_size CHANNELED - FRAGMENT_HEADER_SIZE"
  have ds: "0 < ?ds" using assms(3) by simp
  have f: "send_fragments pp idx data off ?ds ud fid n (sz div ?ds + (if sz mod ?ds = 0 then 0 else 1)) 0 sz v = None" for fid n v
    by (rule fragments_bound [OF parts_enough [OF ds]]) (use assms in simp_all)
  have c: "copy_from data off i sz r = None" for i r by (rule copy_bound [OF assms(1,2)])
  show ?thesis
    using s f c unfolding send_payload_def Let_def
    by (auto split: if_splits prod.splits elim!: bind_SomeE simp del: send_fragments.simps)
qed

lemma safe_sent_payload:
  assumes w: "safe w" "pool_ok w" and p: "get_peer pp w = Some p"
    and idx: "dm \<noteq> UNRELIABLE_DELIVERY \<Longrightarrow> idx < length (m_channels p) \<and> m_channels p ! idx \<noteq> None"
    and mtu: "m_mtu p0 = m_mtu p" and s: "send_payload pp p0 idx data off sz dm ud w = Some w'"
  shows "safe_to w w'"
proof (cases "sz = 0 \<or> off + sz \<le> length data")
  case True
  from ensuresD [OF safe_send_payload [OF w p idx mtu this] s] show ?thesis by simp
next
  case False
  have "508 \<le> m_mtu p0"
    using peer_okD(1) [OF safeD(1) [OF w(1) p]] mtu by (auto simp: mtu_ok_def POSSIBLE_MTU_def less_Suc_eq)
  then obtain msg where "create_error_event 0 msg w = Some w'" using payload_bound [OF _ _ _ s] False by auto
  then show ?thesis using ensuresD [OF safe_error_event [OF w(1)]] by blast
qed

lemma safe_send_some:
  assumes w: "safe w" "pool_ok w" and s: "send_internal pp data off sz c dm ud w = Some w'"
  shows "safe_to w w'"
proof -
  obtain p where p: "get_peer pp w = Some p" using s by (auto simp: send_internal_def elim: bind_SomeE)
  show ?thesis
  proof (cases "m_connection_state p \<noteq> CONNECTED \<or> unat c \<ge> length (m_channels p)")
    case True
    then show ?thesis using p s safe_to_refl [OF w(1)] by (simp add: send_internal_def)
  next
    case False
    let ?i = "unat (c * of_nat CHANNEL_TYPE_COUNT + of_nat (delivery_code dm) :: u8)"
    show ?thesis
    proof (cases "dm = UNRELIABLE_DELIVERY")
      case True
      then have "send_payload pp p ?i data off sz dm ud w = Some w'" using s p False by (simp add: send_internal_def Let_def)
      from safe_sent_payload [OF w p _ refl this] True show ?thesis by simp
    next
      case rel: False
      then obtain p1 where c1: "create_channel ?i p = Some p1" and s1: "send_payload pp p ?i data off sz dm ud (put_peer pp p1 w) = Some w'"
        using s p False by (auto simp: send_internal_def Let_def elim!: bind_SomeE)
      note i = create_channel_bound [OF c1]
      have p1: "peer_rest p1" "peer_evolves p p1" "chans_stay p p1" "m_channels p1 ! ?i \<noteq> None" "m_mtu p1 = m_mtu p"
        using ensuresD [OF safe_create_channel [OF safeD(2) [OF w(1) p] i] c1] by simp_all
      let ?w1 = "put_peer pp p1 w"
      have w1: "safe_to w ?w1" by (rule safe_put [OF w(1) p p1(2,1,3)])
      have pool: "pool_ok ?w1" using w(2) by (simp add: pool_ok_def put_peer_def)
      have "?i < length (m_channels p1)" using i p1(2) by (simp add: peer_evolves_def)
      then have "safe_to ?w1 w'"
        by (intro safe_sent_payload [OF safe_toD(1) [OF w(1) w1] pool get_put_peer _ _ s1]) (use p1(4,5) in simp_all)
      with w1 show ?thesis by (rule safe_to_trans)
    qed
  qed
qed

end
