(* ===== verification/Safe_Runs.thy ===== *)
theory Safe_Runs
  imports Send_Safety
begin

text \<open>
  No step of a manager leaves the safe worlds: its table changes, the peers it makes, every datagram, the turn of the logic
  thread and every call of the application.
\<close>

section \<open>The table\<close>

definition numbers_ok :: "world \<Rightarrow> bool" where
  "numbers_ok w \<longleftrightarrow> (\<forall>rp r q. request_heap w rp = Some r \<longrightarrow> m_internal_packet r = Some q \<longrightarrow> cr_connection_number q < 4)"

definition events_waiting :: "world \<Rightarrow> net_event set" where
  "events_waiting w = set (m_events_consume_queue w) \<union> set (m_events_produce_queue w)"

definition heap_fresh :: "world \<Rightarrow> bool" where
  "heap_fresh w \<longleftrightarrow> (\<forall>n \<ge> next_object w. peer_heap w n = None)"

definition secure :: "world \<Rightarrow> bool" where
  "secure w \<longleftrightarrow> safe w \<and> numbers_ok w \<and> pool_ok w \<and> (\<forall>e \<in> events_waiting w. told w e) \<and> heap_fresh w"

lemma secureD: "secure w \<Longrightarrow> safe w" "secure w \<Longrightarrow> numbers_ok w" "secure w \<Longrightarrow> pool_ok w" "secure w \<Longrightarrow> heap_fresh w"
  "secure w \<Longrightarrow> e \<in> events_waiting w \<Longrightarrow> told w e"
  by (simp_all add: secure_def)

lemma numbers_okD: "numbers_ok w \<Longrightarrow> request_heap w rp = Some r \<Longrightarrow> m_internal_packet r = Some q \<Longrightarrow> cr_connection_number q < 4"
  by (simp add: numbers_ok_def)

lemma told_mono: "told w e \<Longrightarrow> (\<And>pp. get_peer pp w \<noteq> None \<Longrightarrow> get_peer pp w' \<noteq> None) \<Longrightarrow> told w' e"
  unfolding told_def by blast

lemma liveD: "live w \<Longrightarrow> m_peers w k = Some pp \<Longrightarrow> \<exists>p. get_peer pp w = Some p \<and> akey (m_endpoint p) = k"
  unfolding live_def by blast

lemma secure_cong:
  assumes "secure w" "peer_heap w' = peer_heap w" "\<And>k pp. m_peers w' k = Some pp \<Longrightarrow> m_peers w k = Some pp"
    "request_heap w' = request_heap w" "pool_ok w'" "events_waiting w' \<subseteq> events_waiting w" "next_object w \<le> next_object w'"
  shows "secure w'"
proof -
  have "safe w'" using secureD(1) [OF assms(1)] assms(2,3) unfolding safe_def rest_ok_def get_peer_def live_def by metis
  moreover have "told w' e" if "e \<in> events_waiting w'" for e
    using told_mono [OF secureD(5) [OF assms(1)], of e w'] that assms(2,6) by (auto simp: get_peer_def)
  moreover have "heap_fresh w'" using secureD(4) [OF assms(1)] assms(2,7) by (simp add: heap_fresh_def)
  ultimately show ?thesis using assms by (simp add: secure_def numbers_ok_def)
qed

lemma secure_to:
  assumes "secure w" "safe_to w w'" "quiet w w'" shows "secure w'"
proof -
  have "request_heap w' = request_heap w" "keeps_pool w w'" "next_object w' = next_object w"
    "m_events_consume_queue w' = m_events_consume_queue w" using assms(3) by (simp_all add: quiet_def tables_def)
  moreover have t: "tables w w'" and tl: "tells w w'" using assms(2) by (simp_all add: safe_to_def)
  moreover have "get_peer pp w' \<noteq> None" if "get_peer pp w \<noteq> None" for pp using tables_peer(1) [OF t] that by fastforce
  then have "told w' e" if "e \<in> events_waiting w" for e using told_mono [OF secureD(5) [OF assms(1) that]] by blast
  ultimately have "\<forall>e \<in> events_waiting w'. told w' e" by (auto simp: events_waiting_def tells_def)
  moreover have "heap_fresh w'"
  proof -
    have "peer_heap w' n = None" if "peer_heap w n = None" for n
      using tables_peer(2) [OF t, of n] that by (cases "peer_heap w' n") (auto simp: get_peer_def)
    with \<open>next_object w' = next_object w\<close> show ?thesis using secureD(4) [OF assms(1)] by (simp add: heap_fresh_def)
  qed
  ultimately show ?thesis using \<open>request_heap w' = request_heap w\<close> \<open>keeps_pool w w'\<close> assms(1)
      safe_toD(1) [OF secureD(1) [OF assms(1)] assms(2)]
    by (simp add: secure_def numbers_ok_def keeps_pool_def)
qed

lemma secure_peer:
  assumes "secure w" "get_peer pp w = Some p0" "m_endpoint p = m_endpoint p0" "peer_ok p" "peer_rest p"
  shows "secure (put_peer pp p w)"
proof -
  let ?w = "put_peer pp p w"
  have g: "get_peer qq ?w = (if qq = pp then Some p else get_peer qq w)" for qq by (simp add: get_peer_def put_peer_def)
  have m: "m_peers ?w = m_peers w" by (simp add: put_peer_def)
  have "live ?w" unfolding live_def m
  proof (intro allI impI)
    fix k qq assume "m_peers w k = Some qq"
    from liveD [OF safeD(5) [OF secureD(1) [OF assms(1)]] this] assms(2,3)
    show "\<exists>p. get_peer qq ?w = Some p \<and> akey (m_endpoint p) = k" by (auto simp: g)
  qed
  then have "safe ?w"
    using secureD(1) [OF assms(1)] assms(4,5) by (auto simp: safe_def rest_ok_def g split: if_splits)
  moreover have "told ?w e" if "e \<in> events_waiting w" for e using told_mono [OF secureD(5) [OF assms(1) that]] by (simp add: g)
  moreover have "heap_fresh ?w" using secureD(4) [OF assms(1)] assms(2) by (auto simp: heap_fresh_def put_peer_def get_peer_def)
  ultimately show ?thesis using assms(1) by (simp add: secure_def numbers_ok_def put_peer_def pool_ok_def events_waiting_def)
qed

lemma secure_modify:
  assumes "secure w" "modify_peer pp f w = Some w'" "\<And>p. m_endpoint (f p) = m_endpoint p"
    and "\<And>p. get_peer pp w = Some p \<Longrightarrow> peer_ok p \<Longrightarrow> peer_rest p \<Longrightarrow> peer_ok (f p) \<and> peer_rest (f p)"
  shows "secure w'"
proof -
  obtain p where p: "get_peer pp w = Some p" "w' = put_peer pp (f p) w"
    using assms(2) by (auto simp: modify_peer_def elim: bind_SomeE)
  show ?thesis unfolding p(2) using assms(4) [OF p(1)] safeD(1,2) [OF secureD(1) [OF assms(1)] p(1)]
    by (intro secure_peer [OF assms(1) p(1) assms(3)]) simp_all
qed

lemma link_fields:
  "peer_ok (p\<lparr>m_next_peer := a\<rparr>) = peer_ok p" "peer_ok (p\<lparr>m_prev_peer := a\<rparr>) = peer_ok p"
  "peer_rest (p\<lparr>m_next_peer := a\<rparr>) = peer_rest p" "peer_rest (p\<lparr>m_prev_peer := a\<rparr>) = peer_rest p"
  by (simp_all add: peer_ok_defs peer_rest_defs)

lemma secure_link:
  "secure w \<Longrightarrow> (case q of None \<Rightarrow> Some w | Some x \<Rightarrow> modify_peer x f w) = Some w' \<Longrightarrow>
   (\<And>p. m_endpoint (f p) = m_endpoint p) \<Longrightarrow>
   (\<And>p. peer_ok p \<Longrightarrow> peer_rest p \<Longrightarrow> peer_ok (f p) \<and> peer_rest (f p)) \<Longrightarrow> secure w'"
  by (auto split: option.splits intro: secure_modify)

lemma secure_table:
  assumes "secure w" "peer_heap w' = peer_heap w" "m_packet_pool_head w' = m_packet_pool_head w"
    "m_packet_pool_size w' = m_packet_pool_size w" "packet_pool_size w' = packet_pool_size w" "request_heap w' = request_heap w"
    "events_waiting w' \<subseteq> events_waiting w" "next_object w \<le> next_object w'" "\<And>k pp. m_peers w' k = Some pp \<Longrightarrow> m_peers w k = Some pp"
  shows "secure w'"
  by (rule secure_cong [OF assms(1,2) assms(9,6) _ assms(7,8)]) (use secureD(3) [OF assms(1)] assms(3-5) in \<open>auto simp: pool_ok_def\<close>)

lemma secure_add:
  assumes s: "secure w" and a: "add_peer pp w = Some w'" shows "secure w'" "get_peer pp w' \<noteq> None"
proof -
  obtain w1 p arr where w1: "(case m_head_peer w of
         None \<Rightarrow> Some w
       | Some h \<Rightarrow> do {
           w1 \<leftarrow> modify_peer pp (\<lambda>p. p\<lparr>m_next_peer := Some h\<rparr>) w;
           modify_peer h (\<lambda>p. p\<lparr>m_prev_peer := Some pp\<rparr>) w1
         }) = Some w1" and p: "get_peer pp w1 = Some p" and w': "w' = w1\<lparr>m_head_peer := Some pp,
                 m_peers := (if m_peers w1 (akey (m_endpoint p)) = None then (m_peers w1)(akey (m_endpoint p) \<mapsto> pp) else m_peers w1),
                 m_peers_array := arr\<rparr>"
    using a by (auto simp: add_peer_def Let_def elim!: bind_SomeE)
  have s1: "secure w1"
  proof (cases "m_head_peer w")
    case (Some h)
    then obtain v where v: "modify_peer pp (\<lambda>p. p\<lparr>m_next_peer := Some h\<rparr>) w = Some v"
      "modify_peer h (\<lambda>p. p\<lparr>m_prev_peer := Some pp\<rparr>) v = Some w1" using w1 by (auto elim: bind_SomeE)
    have "secure v" by (rule secure_modify [OF s v(1)]) (simp_all add: link_fields)
    then show ?thesis by (rule secure_modify [OF _ v(2)]) (simp_all add: link_fields)
  qed (use w1 s in simp)
  have "safe w'"
    using secureD(1) [OF s1] p unfolding w' by (auto simp: safe_def rest_ok_def get_peer_def live_def split: if_splits)
  then show "secure w'" using s1 unfolding w' by (simp add: secure_def numbers_ok_def pool_ok_def events_waiting_def told_def heap_fresh_def get_peer_def)
  show "get_peer pp w' \<noteq> None" using p unfolding w' by (simp add: get_peer_def)
qed

lemma secure_remove:
  assumes s: "secure w" and r: "remove_peer_internal addr w = Some w'" shows "secure w'"
proof (cases "m_peers w (akey addr)")
  case None
  with r s show ?thesis by (simp add: remove_peer_internal_def)
next
  case (Some pp)
  let ?w1 = "w\<lparr>m_peers := (m_peers w)(akey addr := None)\<rparr>"
  have 1: "secure ?w1" by (rule secure_table [OF s]) (auto simp: events_waiting_def split: if_splits)
  have 2: "secure (if b then ?w1\<lparr>m_head_peer := h\<rparr> else ?w1)" for b h
    using 1 secure_table [OF 1, of "?w1\<lparr>m_head_peer := h\<rparr>"] by (simp add: events_waiting_def)
  have 3: "secure (v\<lparr>m_peers_array := arr, m_peer_ids := ids\<rparr>)" if "secure v" for v arr ids
    by (rule secure_table [OF that]) (simp_all add: events_waiting_def)
  show ?thesis
    using r Some unfolding remove_peer_internal_def Let_def
    apply (auto elim!: bind_SomeE simp del: not_None_eq split del: if_split)
    apply (rule 3, rule secure_modify [rotated], assumption, simp, simp add: link_fields)
    apply (rule secure_link [rotated], assumption, simp, simp add: link_fields)
    apply (rule secure_link [rotated], assumption, simp, simp add: link_fields)
    apply (use 2 in simp)
    done
qed

lemma secure_next_id: "secure w \<Longrightarrow> get_next_peer_id w = (i, w') \<Longrightarrow> secure w'"
  by (erule secure_table) (auto simp: get_next_peer_id_def q_dequeue_def events_waiting_def split: prod.splits option.splits if_splits)

lemma secure_alloc:
  assumes "secure w" "alloc_peer p w = (pp, w')" "peer_ok p" "peer_rest p"
  shows "secure w'" "get_peer pp w' = Some p"
proof -
  have w': "pp = next_object w" "w' = w\<lparr>peer_heap := (peer_heap w)(next_object w \<mapsto> p), next_object := next_object w + 1\<rparr>"
    using assms(2) by (auto simp: alloc_peer_def)
  have new: "get_peer (next_object w) w = None" using secureD(4) [OF assms(1)] by (simp add: heap_fresh_def get_peer_def)
  have g: "get_peer qq w' = (if qq = next_object w then Some p else get_peer qq w)" for qq by (simp add: get_peer_def w'(2))
  have m: "m_peers w' = m_peers w" by (simp add: w'(2))
  have "live w'" unfolding live_def m
  proof (intro allI impI)
    fix k qq assume "m_peers w k = Some qq"
    from liveD [OF safeD(5) [OF secureD(1) [OF assms(1)]] this] new
    show "\<exists>p. get_peer qq w' = Some p \<and> akey (m_endpoint p) = k" by (auto simp: g)
  qed
  then have "safe w'" using secureD(1) [OF assms(1)] assms(3,4) by (auto simp: safe_def rest_ok_def g split: if_splits)
  moreover have "told w' e" if "e \<in> events_waiting w" for e using told_mono [OF secureD(5) [OF assms(1) that]] by (simp add: g)
  moreover have "heap_fresh w'" using secureD(4) [OF assms(1)] by (simp add: heap_fresh_def w'(2))
  ultimately show "secure w'" using assms(1) by (simp add: secure_def numbers_ok_def pool_ok_def events_waiting_def w'(2))
  show "get_peer pp w' = Some p" by (simp add: g w'(1))
qed

section \<open>New peers\<close>

lemma new_peer_rest: "new_peer n a i = Some p \<Longrightarrow> peer_rest p"
  using new_packet_nonempty(2) [of 0 DISCONNECT]
  by (auto simp: new_peer_def reset_mtu_def set_mtu_def vget_Some_iff blank_peer_def peer_rest_defs simp del: not_None_eq elim!: bind_SomeE)

lemma write_sizes:
  "set_i32_at v i q = Some r \<Longrightarrow> buffer_size r = buffer_size q \<and> m_size r = m_size q"
  "set_i64_at t i q = Some r \<Longrightarrow> buffer_size r = buffer_size q \<and> m_size r = m_size q"
  "set_u8_at b i q = Some r \<Longrightarrow> buffer_size r = buffer_size q \<and> m_size r = m_size q"
  "set_data q (wr_bytes (m_data q) i xs) = Some r \<Longrightarrow> buffer_size r = buffer_size q \<and> m_size r = m_size q"
  "copy_from src off i n q = Some r \<Longrightarrow> buffer_size r = buffer_size q \<and> m_size r = m_size q"
  by (auto simp: set_i32_at_def set_i64_at_def set_u8_at_def set_data_def wr32_def wr64_def copy_from_def wr_bytes_length wr8_length
      split: if_splits elim!: bind_SomeE)

lemma request_wf: "connect_request_make d a t i = Some r \<Longrightarrow> wf_packet r"
  using new_packet_nonempty(2) [of "w_position d + 16" CONNECT_REQUEST]
  unfolding connect_request_make_def Let_def
  by (auto elim!: bind_SomeE dest!: write_sizes intro: wf_by_size)

lemma accept_wf: "connect_accept_make t n i = Some r \<Longrightarrow> wf_packet r"
  using new_packet_nonempty(2) [of 0 CONNECT_ACCEPT]
  unfolding connect_accept_make_def Let_def
  by (auto elim!: bind_SomeE dest!: write_sizes intro: wf_by_size)

lemma secure_sent:
  assumes "secure w" "send_packet q a w = Some (n, w')" "wf_packet q" shows "secure w'" "safe_to w w'"
  using secure_to [OF assms(1) _ quiet.send_packet_R [OF assms(2)]] ensuresD [OF safe_send_packet [OF secureD(1) [OF assms(1)] assms(3)] assms(2)]
  by simp_all

lemma secure_new_connect:
  assumes s: "secure w" and c: "new_peer_connect a i n data w = Some (pp, w')" shows "secure w'"
proof -
  let ?t = "word_of_int (system_time w) :: i64"
  obtain p r w1 k where p: "new_peer (channels_count w) a i = Some p"
    and r: "connect_request_make data a ?t (word_of_int i) = Some r"
    and w1: "alloc_peer (p\<lparr>m_connect_time := ?t, m_connection_state := OUTGOING,
         m_connect_number := n, m_connect_request_packet := Some (set_connection_number n r)\<rparr>) w = (pp, w1)"
    and w': "send_packet (set_connection_number n r) a w1 = Some (k, w')"
    using c by (auto simp: new_peer_connect_def Let_def elim!: bind_SomeE split: prod.splits)
  let ?p = "p\<lparr>m_connect_time := ?t, m_connection_state := OUTGOING,
         m_connect_number := n, m_connect_request_packet := Some (set_connection_number n r)\<rparr>"
  have wf: "wf_packet (set_connection_number n r)" using request_wf [OF r] by simp
  have "peer_ok ?p" using new_peer_ok(1) [OF p] by (simp add: peer_ok_defs)
  moreover have "peer_rest ?p" using new_peer_rest [OF p] wf by (simp add: peer_rest_defs)
  ultimately have "secure w1" by (rule secure_alloc(1) [OF s w1])
  from secure_sent(1) [OF this w' wf] show ?thesis .
qed

lemma secure_new_accept:
  assumes s: "secure w" and c: "new_peer_accept rq i w = Some (pp, w')"
    and q: "\<And>q. m_internal_packet rq = Some q \<Longrightarrow> cr_connection_number q < 4"
  shows "secure w'"
proof -
  obtain q p acc w1 k w2 where rq: "m_internal_packet rq = Some q"
    and p: "new_peer (channels_count w) (m_remote_endpoint rq) i = Some p"
    and acc: "connect_accept_make (cr_connection_time q) (cr_connection_number q) (word_of_int i) = Some acc"
    and w1: "alloc_peer (p\<lparr>m_connect_time := cr_connection_time q, m_connect_number := cr_connection_number q,
        m_remote_id := cr_peer_id q, m_connect_accept_packet := Some acc\<rparr>) w = (pp, w1)"
    and w2: "send_packet acc (m_remote_endpoint rq) w1 = Some (k, w2)"
    and w': "modify_peer pp (\<lambda>p. p\<lparr>m_connection_state := CONNECTED\<rparr>) w2 = Some w'"
    using c by (auto simp: new_peer_accept_def Let_def elim!: bind_SomeE split: prod.splits)
  let ?p = "p\<lparr>m_connect_time := cr_connection_time q, m_connect_number := cr_connection_number q,
        m_remote_id := cr_peer_id q, m_connect_accept_packet := Some acc\<rparr>"
  have ok: "peer_ok ?p" using new_peer_ok(1) [OF p] by (simp add: peer_ok_defs)
  have "peer_rest ?p" using new_peer_rest [OF p] accept_wf [OF acc] q [OF rq] by (simp add: peer_rest_defs)
  note s1 = secure_alloc [OF s w1 ok this]
  note s2 = secure_sent [OF s1(1) w2 accept_wf [OF acc]]
  obtain p2 where p2: "get_peer pp w2 = Some p2" "m_connect_number p2 = cr_connection_number q"
    using safe_to_number [OF secureD(1) [OF s1(1)] s2(2) s1(2)] by auto
  show ?thesis
  proof (rule secure_modify [OF s2(1) w'], simp)
    fix x assume "get_peer pp w2 = Some x" "peer_ok x" "peer_rest x"
    then show "peer_ok (x\<lparr>m_connection_state := CONNECTED\<rparr>) \<and> peer_rest (x\<lparr>m_connection_state := CONNECTED\<rparr>)"
      using p2 q [OF rq] by (simp add: peer_ok_defs peer_rest_defs)
  qed
qed


section \<open>Disconnection\<close>

lemma secure_event:
  assumes "secure w" "create_event args w = Some w'" "args_ok args" "told w args"
    and "\<And>q. ev_reader args = None \<Longrightarrow> m_reader_source args = Some q \<Longrightarrow> sourced q"
  shows "secure w'" "safe_to w w'"
proof -
  show t: "safe_to w w'" by (rule ensuresD [OF safe_event [OF secureD(1) [OF assms(1)] assms(3-5)] assms(2)])
  show "secure w'" by (rule secure_to [OF assms(1) t quiet.R_event [OF assms(2,3)]])
qed

lemma raw_sent:
  assumes w: "safe w" and s: "send_raw buf off len a w = Some (r, w')" shows "safe_to w w'"
proof (cases "m_running w")
  case True
  then have "off + len \<le> length buf" using s by (auto simp: send_raw_def rd_bytes_def split: if_splits)
  from ensuresD [OF safe_send_raw [OF w this] s] show ?thesis by simp
qed (use s safe_to_refl [OF w] in \<open>simp add: send_raw_def\<close>)

lemma recycle_sent:
  assumes w: "safe w" and s: "send_raw_and_recycle q a w = Some (r, w')" shows "safe_to w w'"
proof -
  obtain v where "send_raw (m_data q) 0 (m_size q) a w = Some (r, v)" "w' = pool_recycle q v"
    using s by (auto simp: send_raw_and_recycle_def elim!: bind_SomeE)
  with raw_sent [OF w] show ?thesis using safe_recycle safe_toD(1) [OF w] safe_to_trans by blast
qed

lemma shut_down:
  assumes w: "safe w" and s: "peer_shutdown pp data off n force w = Some (r, w')" shows "safe_to w w'"
proof -
  obtain p where p: "get_peer pp w = Some p" using s by (auto simp: peer_shutdown_def elim: bind_SomeE)
  show ?thesis
  proof (cases "m_connection_state p = DISCONNECTED \<or> m_connection_state p = SHUTDOWN_REQUESTED")
    case True
    then show ?thesis using s p safe_to_refl [OF w] by (simp add: peer_shutdown_def)
  next
    case active: False
    show ?thesis
    proof (cases force)
      case True
      have "safe_to w (put_peer pp (p\<lparr>m_connection_state := DISCONNECTED\<rparr>) w)"
        by (rule safe_put_same [OF w p state_change_evolves]) (simp_all add: state_le_def same_rest_def)
      then show ?thesis using s p active True by (simp add: peer_shutdown_def)
    next
      case False
      let ?sp = "set_connection_number (m_connect_number p) (resize_with DISCONNECT n (m_shutdown_packet p))"
      obtain sp1 sp2 x where sp1: "set_i64_at (m_connect_time p) 1 ?sp = Some sp1"
        and sp2: "(if m_size sp1 \<ge> POSSIBLE_MTU ! 0 then Some sp1
                else case data of
                    None \<Rightarrow> Some sp1
                  | Some data \<Rightarrow> if n > 0 then copy_from data off 9 n sp1 else Some sp1) = Some sp2"
        and sent: "send_packet sp2 (m_endpoint p) (put_peer pp (p\<lparr>m_time_since_last_packet := 0, m_shutdown_packet := sp2,
                                 m_connection_state := SHUTDOWN_REQUESTED\<rparr>) w) = Some (x, w')"
        using s p active False unfolding peer_shutdown_def Let_def
        by (auto elim!: bind_SomeE simp: vget_Some_iff simp del: not_None_eq)
      have wf: "wf_packet ?sp" using wf_resize [of "m_shutdown_packet p" "n + 9"] by (simp add: resize_with_def)
      have "wf_packet sp1" using write_sizes(2) [OF sp1] wf by (auto intro: wf_by_size)
      then have wf2: "wf_packet sp2" using sp2 by (auto split: if_splits option.splits dest!: write_sizes(5) intro: wf_by_size)
      let ?p = "p\<lparr>m_time_since_last_packet := 0, m_shutdown_packet := sp2, m_connection_state := SHUTDOWN_REQUESTED\<rparr>"
      have "peer_evolves p ?p" using active by (intro state_change_evolves) (simp_all add: state_le_def same_vitals_def)
      moreover have "peer_rest ?p" using safeD(2) [OF w p] wf2 by (simp add: peer_rest_defs)
      ultimately have t: "safe_to w (put_peer pp ?p w)" by (intro safe_put [OF w p]) (simp_all add: chans_stay_def)
      show ?thesis by (rule safe_to_trans [OF t raw_sent [OF safe_toD(1) [OF w t] sent [unfolded send_packet_def]]])
    qed
  qed
qed

lemma secure_disconnect:
  assumes s: "secure w" and d: "disconnect_peer a reason e force data off n None w = Some w'" shows "secure w'"
proof -
  have "safe_to w w'"
  proof (cases "try_get_peer a w")
    case None
    then show ?thesis using d safe_to_refl [OF secureD(1) [OF s]] by (simp add: disconnect_peer_def)
  next
    case (Some pp)
    then obtain r w1 where r: "peer_shutdown pp data off n force w = Some (r, w1)"
      and rest: "(if r = SHUTDOWN_NONE then Some (pool_recycle_ptr None w1)
          else create_event (default_event\<lparr>ev_type := EVENT_DISCONNECT, ev_peer := Some pp,
                 socketErrorCode := e, disconnectReason := reason, m_reader_source := None\<rparr>) w1) = Some w'"
      using d by (auto simp: disconnect_peer_def elim!: bind_SomeE)
    have t: "safe_to w w1" by (rule shut_down [OF secureD(1) [OF s] r])
    have s1: "secure w1" by (rule secure_to [OF s t quiet.shutdown_R [OF r]])
    show ?thesis
    proof (cases "r = SHUTDOWN_NONE")
      case True
      then show ?thesis using rest safe_to_trans [OF t safe_recycle_ptr [OF secureD(1) [OF s1]]] by auto
    next
      case False
      then have "create_event (default_event\<lparr>ev_type := EVENT_DISCONNECT, ev_peer := Some pp,
                 socketErrorCode := e, disconnectReason := reason, m_reader_source := None\<rparr>) w1 = Some w'" using rest by simp
      moreover have "get_peer pp w1 \<noteq> None" using safeD(4) [OF secureD(1) [OF s1]] Some safe_toD(3) [OF secureD(1) [OF s] t]
        by (fastforce simp: try_get_peer_def)
      ultimately have "safe_to w1 w'"
        by (rule secure_event(2) [OF s1 _ args_ok_default(1) told_default(1)]) (simp add: default_event_def)
      with t show ?thesis by (rule safe_to_trans)
    qed
  qed
  then show ?thesis by (rule secure_to [OF s _ quiet.disconnect_R [OF d]])
qed

lemma secure_disconnect_each: "secure w \<Longrightarrow> disconnect_each data off n as w = Some w' \<Longrightarrow> secure w'"
  by (induction as arbitrary: w) (auto elim!: bind_SomeE dest: secure_disconnect)

lemma secure_disconnect_all: "secure w \<Longrightarrow> disconnect_all data off n w = Some w' \<Longrightarrow> secure w'"
  by (auto simp: disconnect_all_def elim!: bind_SomeE intro: secure_disconnect_each)

section \<open>Connection requests\<close>

lemma secure_request:
  assumes "secure w" "\<And>q. m_internal_packet r = Some q \<Longrightarrow> cr_connection_number q < 4"
  shows "secure (w\<lparr>request_heap := (request_heap w)(rp \<mapsto> r)\<rparr>)"
  using assms by (auto simp: secure_def numbers_ok_def safe_def rest_ok_def get_peer_def pool_ok_def live_def told_def events_waiting_def heap_fresh_def)

lemma secure_number: "secure w \<Longrightarrow> request_heap w rp = Some r \<Longrightarrow> m_internal_packet r = Some q \<Longrightarrow> cr_connection_number q < 4"
  using numbers_okD secureD(2) by blast

lemma secure_refuse:
  assumes s: "secure w" and f: "refuse_force rq data off n w = Some w'" shows "secure w'"
proof -
  have "safe_to w w'"
  proof (cases data)
    case None
    then show ?thesis using f safe_to_refl [OF secureD(1) [OF s]] by (simp add: refuse_force_def)
  next
    case (Some bs)
    show ?thesis
    proof (cases "n > 0")
      case False
      then show ?thesis using f Some safe_to_refl [OF secureD(1) [OF s]] by (simp add: refuse_force_def)
    next
      case True
      then obtain sp w1 q k a where "pool_get_packet (static_header_size DISCONNECT + n) w = (sp, w1)"
        "send_raw_and_recycle q a w1 = Some (k, w')"
        using f Some unfolding refuse_force_def pool_get_with_property_def Let_def by (auto elim!: bind_SomeE split: prod.splits)
      then show ?thesis using safe_pool [OF secureD(1) [OF s]] recycle_sent safe_toD(1) [OF secureD(1) [OF s]] safe_to_trans by blast
    qed
  qed
  then show ?thesis by (rule secure_to [OF s _ refuse_quiet [OF f]])
qed

lemma secure_reject:
  assumes s: "secure w" and q: "cr_connection_number q < 4" and r: "peer_reject pp q data off n w = Some w'" shows "secure w'"
proof -
  obtain v x where v: "modify_peer pp (\<lambda>p. p\<lparr>m_connect_time := cr_connection_time q, m_connect_number := cr_connection_number q\<rparr>) w = Some v"
    and x: "peer_shutdown pp data off n False v = Some (x, w')"
    using r by (auto simp: peer_reject_def elim!: bind_SomeE)
  have "secure v" by (rule secure_modify [OF s v]) (use q in \<open>simp_all add: peer_ok_defs peer_rest_defs\<close>)
  then show ?thesis using secure_to shut_down [OF secureD(1) x] quiet.shutdown_R [OF x] by blast
qed

lemma secure_solve:
  assumes s: "secure w" and q: "\<And>q. m_internal_packet rq = Some q \<Longrightarrow> cr_connection_number q < 4"
    and v: "solve_with_peer rq data off n w = Some (r, w')"
  shows "secure w'"
proof -
  obtain i w1 where i: "get_next_peer_id w = (i, w1)" by fastforce
  have s1: "secure w1" by (rule secure_next_id [OF s i])
  show ?thesis
  proof (cases "m_peers w (akey (m_remote_endpoint rq))")
    case (Some pp)
    with v s show ?thesis by (simp add: solve_with_peer_def)
  next
    case None
    show ?thesis
    proof (cases "m_result rq = REJECT")
      case True
      then obtain x p pp w2 w3 where x: "m_internal_packet rq = Some x" "new_peer (channels_count w1) (m_remote_endpoint rq) i = Some p"
        "alloc_peer p w1 = (pp, w2)" "peer_reject pp x data off n w2 = Some w3" "add_peer pp w3 = Some w'"
        using v None i by (auto simp: solve_with_peer_def elim!: bind_SomeE split: prod.splits)
      have "secure w2" by (rule secure_alloc(1) [OF s1 x(3) new_peer_ok(1) [OF x(2)] new_peer_rest [OF x(2)]])
      then have "secure w3" by (rule secure_reject [OF _ q [OF x(1)] x(4)])
      then show ?thesis by (rule secure_add(1) [OF _ x(5)])
    next
      case False
      then obtain pp w2 w3 where x: "new_peer_accept rq i w1 = Some (pp, w2)" "add_peer pp w2 = Some w3"
        "create_event (default_event\<lparr>ev_type := EVENT_CONNECT, ev_peer := Some pp\<rparr>) w3 = Some w'"
        using v None i by (auto simp: solve_with_peer_def elim!: bind_SomeE)
      have "secure w2" by (rule secure_new_accept [OF s1 x(1) q])
      from secure_add [OF this x(2)] show ?thesis
        by (intro secure_event(1) [OF _ x(3) args_ok_default(6) told_default(6)]) (simp_all add: default_event_def)
    qed
  qed
qed

lemma secure_solved:
  assumes s: "secure w" and q: "\<And>q. m_internal_packet rq = Some q \<Longrightarrow> cr_connection_number q < 4"
    and v: "on_connection_solved rq data off n w = Some (r, w')"
  shows "secure w'"
proof -
  have f: "secure (v\<lparr>m_connection_requests := m\<rparr>)" if "secure v" for v m by (rule secure_table [OF that]) (simp_all add: events_waiting_def)
  show ?thesis using v secure_solve [OF s q] secure_refuse [OF s]
    by (auto simp: on_connection_solved_def elim!: bind_SomeE split: if_splits intro!: f)
qed

lemma secure_request_solve:
  assumes s: "secure w" and v: "request_solve rp res data off n w = Some (r, w')" shows "secure w'"
proof -
  obtain x where x: "request_heap w rp = Some x" and v': "on_connection_solved (x\<lparr>m_result := res\<rparr>) data off n
      (w\<lparr>request_heap := (request_heap w)(rp \<mapsto> x\<lparr>m_result := res\<rparr>)\<rparr>) = Some (r, w')"
    using v by (auto simp: request_solve_def Let_def elim!: bind_SomeE)
  have n: "cr_connection_number q < 4" if "m_internal_packet (x\<lparr>m_result := res\<rparr>) = Some q" for q
    using secure_number [OF s x] that by simp
  show ?thesis by (rule secure_solved [OF secure_request [OF s n] n v'])
qed

lemma activated_packet: "try_activate r = (b, r') \<Longrightarrow> m_internal_packet r' = m_internal_packet r"
  by (auto simp: try_activate_def split: if_splits)

lemma secure_accept:
  assumes s: "secure w" and a: "request_accept rp w = Some (r, w')" shows "secure w'"
proof -
  obtain x where x: "request_heap w rp = Some x" using a by (auto simp: request_accept_def elim: bind_SomeE)
  obtain b y where y: "try_activate x = (b, y)" by fastforce
  have "secure (w\<lparr>request_heap := (request_heap w)(rp \<mapsto> y)\<rparr>)"
    by (rule secure_request [OF s]) (use secure_number [OF s x] activated_packet [OF y] in simp)
  then show ?thesis using a x y s secure_request_solve by (auto simp: request_accept_def split: if_splits)
qed

lemma secure_reject_request:
  assumes s: "secure w" and a: "request_reject rp data off n force w = Some w'" shows "secure w'"
proof -
  obtain x where x: "request_heap w rp = Some x" using a by (auto simp: request_reject_def elim: bind_SomeE)
  obtain b y where y: "try_activate x = (b, y)" by fastforce
  have "secure (w\<lparr>request_heap := (request_heap w)(rp \<mapsto> y)\<rparr>)"
    by (rule secure_request [OF s]) (use secure_number [OF s x] activated_packet [OF y] in simp)
  then show ?thesis using a x y s secure_request_solve by (auto simp: request_reject_def elim!: bind_SomeE split: if_splits)
qed


lemma secure_accept_key:
  assumes s: "secure w" and a: "accept_if_key rp key w = Some (r, w')" shows "secure w'"
proof -
  obtain x where x: "request_heap w rp = Some x" using a by (auto simp: accept_if_key_def elim: bind_SomeE)
  obtain b y where y: "try_activate x = (b, y)" by fastforce
  show ?thesis
  proof (cases b)
    case False
    then show ?thesis using a x y s by (simp add: accept_if_key_def)
  next
    case True
    then obtain q rd res z where q: "m_internal_packet y = Some q"
      and z: "request_solve rp res None 0 0 (w\<lparr>request_heap := (request_heap w)(rp \<mapsto> y\<lparr>m_internal_packet := Some (q\<lparr>cr_data := rd\<rparr>)\<rparr>)\<rparr>) = Some (z, w')"
      using a x y unfolding accept_if_key_def by (auto elim!: bind_SomeE simp: Let_def split: if_splits)
    have "secure (w\<lparr>request_heap := (request_heap w)(rp \<mapsto> y\<lparr>m_internal_packet := Some (q\<lparr>cr_data := rd\<rparr>)\<rparr>)\<rparr>)"
      by (rule secure_request [OF s]) (use q secure_number [OF s x] activated_packet [OF y] in auto)
    then show ?thesis by (rule secure_request_solve [OF _ z])
  qed
qed

section \<open>The calls of the application\<close>

lemma secure_connect_new:
  assumes s: "secure w" and c: "connect_new m a data w = Some (r, w')" shows "secure w'"
proof -
  obtain i w1 where i: "get_next_peer_id w = (i, w1)" by fastforce
  then obtain pp w2 where x: "new_peer_connect a i m data w1 = Some (pp, w2)" "add_peer pp w2 = Some w'"
    using c by (auto simp: connect_new_def elim!: bind_SomeE)
  show ?thesis by (rule secure_add(1) [OF secure_new_connect [OF secure_next_id [OF s i] x(1)] x(2)])
qed

lemma secure_connect: "secure w \<Longrightarrow> connect m a data w = Some (r, w') \<Longrightarrow> secure w'"
  unfolding connect_def
  by (auto elim!: bind_SomeE split: option.splits if_splits intro: secure_connect_new secure_connect_new [OF secure_remove])

lemma secure_app: "app_step w w' \<Longrightarrow> secure w \<Longrightarrow> secure w'"
proof (induction rule: app_step.induct)
  case (app_send pp data off n c dm ud w w')
  have "safe_to w w'" using app_send safe_send_some secureD(1,3) by blast
  then show ?case using app_send secure_to quiet.send_internal_R by blast
qed (auto intro: secure_connect secure_accept secure_accept_key secure_reject_request secure_disconnect secure_disconnect_all)

lemma secure_apps: "app_step\<^sup>*\<^sup>* w w' \<Longrightarrow> secure w \<Longrightarrow> secure w'"
  by (induction rule: rtranclp_induct) (auto intro: secure_app)

section \<open>Events\<close>

lemma secure_recycle: "secure w \<Longrightarrow> secure (pool_recycle q w)" "secure w \<Longrightarrow> secure (pool_recycle_ptr x w)"
proof -
  assume s: "secure w"
  show "secure (pool_recycle q w)" by (rule secure_to [OF s safe_recycle [OF secureD(1) [OF s]] quiet.R_recycle])
  show "secure (pool_recycle_ptr x w)" by (rule secure_to [OF s safe_recycle_ptr [OF secureD(1) [OF s]] quiet.recycle_ptr_R])
qed

lemma secure_recycle_request:
  assumes s: "secure w" and r: "request_recycle rp w = Some w'" shows "secure w'"
proof -
  obtain x where x: "request_heap w rp = Some x" using r by (auto simp: request_recycle_def elim: bind_SomeE)
  show ?thesis
  proof (cases "m_internal_packet x")
    case None
    then show ?thesis using r x s by (simp add: request_recycle_def)
  next
    case (Some q)
    obtain q' w1 where q': "request_packet_recycle q w = (q', w1)" by fastforce
    then have "secure w1" "cr_connection_number q' = cr_connection_number q"
      using s secure_recycle(1) by (auto simp: request_packet_recycle_def split: option.splits)
    then show ?thesis using r x Some q' secure_number [OF s x Some] by (auto simp: request_recycle_def intro!: secure_request)
  qed
qed

lemma secure_recycle_event: "secure w \<Longrightarrow> event_recycle e w = Some (e', w') \<Longrightarrow> secure w'"
  unfolding event_recycle_def Let_def
  by (auto elim!: bind_SomeE split: option.splits intro: secure_recycle secure_recycle_request)

lemma secure_process_event:
  assumes l: "app_listener listener" and s: "secure w" and p: "process_event listener e w = Some w'" shows "secure w'"
proof -
  obtain cb w1 where w1: "(case cb of None \<Rightarrow> Some w | Some c \<Rightarrow> listener c w) = Some w1"
    and rest: "(if auto_recycle w1 then event_recycle e w1 else Some (e, w1))
      \<bind> (\<lambda>(e', w2). if m_recycled e' then Some w2 else None) = Some w'"
    using p by (auto simp: process_event_def elim!: bind_SomeE)
  have "app_step\<^sup>*\<^sup>* w w1" using l w1 by (auto simp: app_listener_def split: option.splits)
  then have "secure w1" using s by (rule secure_apps)
  then show ?thesis using rest secure_recycle_event by (auto elim!: bind_SomeE split: if_splits prod.splits)
qed

lemma secure_events: "app_listener listener \<Longrightarrow> secure w \<Longrightarrow> process_events listener es w = Some w' \<Longrightarrow> secure w'"
  by (induction es arbitrary: w) (auto elim!: bind_SomeE dest: secure_process_event)

lemma secure_poll:
  assumes l: "app_listener listener" and s: "secure w" and p: "poll_events listener w = Some w'" shows "secure w'"
proof -
  let ?w1 = "w\<lparr>m_events_produce_queue := m_events_consume_queue w, m_events_consume_queue := m_events_produce_queue w\<rparr>"
  obtain w2 where w2: "process_events listener (m_events_consume_queue ?w1) ?w1 = Some w2"
    and w': "w' = w2\<lparr>m_events_consume_queue := []\<rparr>"
    using p by (auto simp: poll_events_def Let_def elim!: bind_SomeE)
  have "secure ?w1" by (rule secure_table [OF s]) (auto simp: events_waiting_def)
  then have "secure w2" by (rule secure_events [OF l _ w2])
  then show ?thesis by (rule secure_table) (auto simp: w' events_waiting_def)
qed

section \<open>Datagrams\<close>

lemma single_outside:
  assumes "arrived q" "get_peer pp w = Some p" "\<not> in_range q p" shows "process_single pp q w = None"
  using assms by (auto simp: in_range_def process_single_def process_channeled_def vget_def split: option.splits simp flip: uint_nat)

lemma safe_single_some:
  assumes w: "safe w" and l: "listed pp w" and q: "arrived q" and s: "process_single pp q w = Some w'" shows "safe_to w w'"
proof -
  obtain p where p: "get_peer pp w = Some p" using l by (auto simp: listed_def)
  then have "in_range q p" using single_outside [OF q p] s by fastforce
  from ensuresD [OF safe_single [OF w p l q this] s] show ?thesis .
qed

lemma safe_admit:
  assumes w: "safe w" and a: "admit_packet pp q w = Some r" shows "safe_to w (case r of Inl w1 \<Rightarrow> w1 | Inr w1 \<Rightarrow> w1)"
proof -
  obtain p where p: "get_peer pp w = Some p" using a by (auto simp: admit_packet_def elim: bind_SomeE)
  have d: "safe_to w (put_peer pp (p\<lparr>m_connection_state := DISCONNECTED\<rparr>) w)"
    by (rule safe_put_same [OF w p state_change_evolves]) (simp_all add: state_le_def same_rest_def)
  have t: "safe_to w (put_peer pp (p\<lparr>m_time_since_last_packet := 0\<rparr>) w)"
    by (rule safe_put_same [OF w p same_vitals_evolves]) (simp_all add: same_vitals_def same_rest_def)
  show ?thesis using a p d t safe_recycle [OF w] safe_to_trans [OF d safe_recycle [OF safe_toD(1) [OF w d]]]
    by (auto simp: admit_packet_def)
qed

lemma merged_part:
  assumes mp: "pool_get_packet n w = (p, w1)" and c: "copy_from src off 0 n p = Some q" and v: "verify q"
  shows "arrived q"
proof -
  have "m_size p = n" "n \<le> buffer_size p"
    using mp ensure_length(1) by (auto simp: pool_get_packet_def resize_def split: list.splits)
  then have sz: "m_size q = n" "n \<le> buffer_size q" using write_sizes(5) [OF c] by simp_all
  have "m_data q \<noteq> []"
  proof
    assume e: "m_data q = []"
    then have "byte0 q = 0" "m_size q = 0" using sz by (simp_all add: byte0_def)
    with v show False by (simp add: verify_def HEADER_SIZES_def PROPERTY_COUNT_def)
  qed
  then show ?thesis using sz v by (simp add: arrived_def wf_packet_def)
qed

lemma safe_packet_at:
  "process_packet_at pp packet loop w = Some w' \<Longrightarrow> safe w \<longrightarrow> listed pp w \<longrightarrow> (loop = None \<longrightarrow> arrived packet) \<longrightarrow> safe_to w w'"
proof (erule process_packet_at.raw_induct [where P = "\<lambda>pp packet loop w w'. safe w \<longrightarrow> listed pp w \<longrightarrow> (loop = None \<longrightarrow> arrived packet) \<longrightarrow> safe_to w w'", rotated])
  fix process pp packet loop w w'
  assume 1: "\<And>pp packet loop w w'. process pp packet loop w = Some w' \<Longrightarrow> safe w \<longrightarrow> listed pp w \<longrightarrow> (loop = None \<longrightarrow> arrived packet) \<longrightarrow> safe_to w w'"
    "(case loop of
        None \<Rightarrow> do {
          admitted \<leftarrow> admit_packet pp packet w;
          (case admitted of
             Inl w1 \<Rightarrow> Some w1
           | Inr w1 \<Rightarrow>
               if property packet = MERGED then process pp packet (Some HEADER_SIZE) w1
               else process_single pp packet w1)
        }
      | Some pos \<Rightarrow>
          if pos < m_size packet then do {
            sz \<leftarrow> rd16 (m_data packet) pos;
            if usub (buffer_size packet) (pos + 2) < unat sz then Some (pool_recycle packet w)
            else do {
              let (mp, w1) = pool_get_packet (unat sz) w;
              mergedPacket \<leftarrow> copy_from (m_data packet) (pos + 2) 0 (unat sz) mp;
              if \<not> verify mergedPacket then Some (pool_recycle packet w1)
              else do {
                w2 \<leftarrow> process pp mergedPacket None w1;
                process pp packet (Some (pos + 2 + unat sz)) w2
              }
            }
          }
          else Some (pool_recycle packet w)) = Some w'"
  show "safe w \<longrightarrow> listed pp w \<longrightarrow> (loop = None \<longrightarrow> arrived packet) \<longrightarrow> safe_to w w'"
  proof (intro impI)
    assume w: "safe w" and l: "listed pp w" and q: "loop = None \<longrightarrow> arrived packet"
    show "safe_to w w'"
    proof (cases loop)
      case None
      with 1(2) obtain r where r: "admit_packet pp packet w = Some r"
        and rest: "(case r of Inl w1 \<Rightarrow> Some w1 | Inr w1 \<Rightarrow>
                 if property packet = MERGED then process pp packet (Some HEADER_SIZE) w1
                 else process_single pp packet w1) = Some w'"
        by (auto elim: bind_SomeE)
      note a = safe_admit [OF w r]
      show ?thesis
      proof (cases r)
        case (Inl w1)
        then show ?thesis using a rest by simp
      next
        case (Inr w1)
        then have t: "safe_to w w1" using a by simp
        note s1 = safe_toD(1) [OF w t]
        have "safe_to w1 w'"
        proof (cases "property packet = MERGED")
          case True
          then have "process pp packet (Some HEADER_SIZE) w1 = Some w'" using rest Inr by simp
          from 1(1) [OF this] s1 listed_to [OF l t] show ?thesis by simp
        next
          case False
          then have "process_single pp packet w1 = Some w'" using rest Inr by simp
          from safe_single_some [OF s1 listed_to [OF l t] _ this] q None show ?thesis by simp
        qed
        with t show ?thesis by (rule safe_to_trans)
      qed
    next
      case (Some pos)
      show ?thesis
      proof (cases "pos < m_size packet")
        case False
        with Some 1(2) safe_recycle [OF w] show ?thesis by auto
      next
        case True
        with Some 1(2) obtain sz where sz: "rd16 (m_data packet) pos = Some sz" by (auto elim: bind_SomeE)
        obtain mp w1 where mp: "pool_get_packet (unat sz) w = (mp, w1)" by fastforce
        have t1: "safe_to w w1" by (rule safe_pool [OF w mp])
        note s1 = safe_toD(1) [OF w t1]
        show ?thesis
        proof (cases "usub (buffer_size packet) (pos + 2) < unat sz")
          case True
          with Some \<open>pos < m_size packet\<close> sz 1(2) safe_recycle [OF w] show ?thesis by auto
        next
          case False
          then obtain m where m: "copy_from (m_data packet) (pos + 2) 0 (unat sz) mp = Some m"
            and rest: "(if \<not> verify m then Some (pool_recycle packet w1)
                else do {
                  w2 \<leftarrow> process pp m None w1;
                  process pp packet (Some (pos + 2 + unat sz)) w2
                }) = Some w'"
            using Some True sz mp 1(2) by (auto elim!: bind_SomeE)
          show ?thesis
          proof (cases "verify m")
            case False
            then show ?thesis using rest safe_to_trans [OF t1 safe_recycle [OF s1]] by auto
          next
            case True
            with rest obtain w2 where 2: "process pp m None w1 = Some w2"
              "process pp packet (Some (pos + 2 + unat sz)) w2 = Some w'"
              by (auto elim: bind_SomeE)
            have t2: "safe_to w1 w2" using 1(1) [OF 2(1)] s1 merged_part [OF mp m True] listed_to [OF l t1] by simp
            have "safe_to w2 w'" using 1(1) [OF 2(2)] safe_toD(1) [OF s1 t2] listed_to [OF listed_to [OF l t1] t2] by simp
            with t1 t2 show ?thesis by (blast intro: safe_to_trans)
          qed
        qed
      qed
    qed
  qed
qed

end
