(* ===== verification/Datagram_Safety.thy ===== *)
theory Datagram_Safety
  imports Safe_Runs Peer_Life
begin

text \<open>
  The datagrams and the logic thread in a secure world: what a datagram may do to it, which datagrams the code
  has no behaviour for, and that the turn of the logic thread always returns.
\<close>

section \<open>What a datagram may do\<close>

lemma secure_packet:
  assumes s: "secure w" and l: "listed pp w" and q: "arrived q" and r: "peer_process_packet pp q w = Some w'" shows "secure w'"
proof (rule secure_to [OF s _ quiet.process_packet_R [OF r]])
  show "safe_to w w'" using safe_packet_at [of pp q None w w'] r secureD(1) [OF s] l q by (simp add: peer_process_packet_def)
qed

lemma secure_force:
  assumes s: "secure w" and f: "disconnect_peer_force a r e ev w = Some w'" and ev: "\<And>q. ev = Some q \<Longrightarrow> sourced q"
  shows "secure w'"
  by (rule secure_to [OF s ensuresD [OF safe_force [OF secureD(1) [OF s] ev] f] quiet.force_R [OF f]])

lemma answer_request:
  assumes w: "safe w" and r: "peer_process_connect_request pp q w = Some (r, w')" shows "safe_to w w'"
  using r safe_to_refl [OF w] raw_sent [OF w]
  by (auto simp: peer_process_connect_request_def send_packet_def elim!: bind_SomeE split: connection_state.splits if_splits)

lemma secure_judge:
  assumes s: "secure w" and q: "cr_connection_number q < 4" and j: "judge_request addr peer q w = Some (nxt, w')"
  shows "secure w'" "nxt = Some r \<Longrightarrow> cr_connection_number r < 4"
proof -
  have "secure w' \<and> (\<forall>r. nxt = Some r \<longrightarrow> cr_connection_number r < 4)"
  proof (cases peer)
    case None
    then show ?thesis using j s q by (auto simp: judge_request_def)
  next
    case (Some pp)
    then obtain res w1 where r: "peer_process_connect_request pp q w = Some (res, w1)" using j by (auto simp: judge_request_def elim: bind_SomeE)
    have s1: "secure w1" by (rule secure_to [OF s answer_request [OF secureD(1) [OF s] r] quiet.connect_request_R [OF r]])
    have num: "(x :: u8) mod MAX_CONNECTION_NUMBER < 4" for x
      using word_mod_less_divisor [of "4 :: u8" x] by (simp add: MAX_CONNECTION_NUMBER_def)
    have pool: "secure (snd (request_packet_recycle q w1))"
      using s1 secure_recycle(1) by (simp add: request_packet_recycle_def split: option.splits)
    have forced: "secure w3" if "disconnect_peer_force a x 0 None w1 = Some w2" "remove_peer_internal a w2 = Some w3" for a x w2 w3
      by (rule secure_remove [OF secure_force [OF s1 that(1)] that(2)]) simp
    show ?thesis
      using j Some r pool num forced secure_remove [OF s1] q
      by (cases res) (auto simp: judge_request_def remove_peer_def Let_def elim!: bind_SomeE)
  qed
  then show "secure w'" "nxt = Some r \<Longrightarrow> cr_connection_number r < 4" by simp_all
qed

lemma secure_append:
  assumes "secure w" "told w e" shows "secure (w\<lparr>m_events_produce_queue := m_events_produce_queue w @ [e]\<rparr>)"
  using assms
  by (auto simp: secure_def safe_def rest_ok_def live_def numbers_ok_def pool_ok_def heap_fresh_def get_peer_def events_waiting_def told_def)

lemma secure_file:
  assumes s: "secure w" and q: "cr_connection_number q < 4" and f: "file_request addr q w = Some w'" shows "secure w'"
proof (cases "m_connection_requests w (akey addr)")
  case None
  let ?r = "\<lparr>m_used = 0, m_internal_packet = Some q, m_remote_endpoint = addr, m_result = NO_RESULT\<rparr>"
  have "secure (w\<lparr>request_heap := (request_heap w)(next_object w \<mapsto> ?r)\<rparr>)" by (rule secure_request [OF s]) (use q in simp)
  then have "secure (w\<lparr>request_heap := (request_heap w)(next_object w \<mapsto> ?r), next_object := next_object w + 1,
      m_connection_requests := (m_connection_requests w)(akey addr \<mapsto> next_object w)\<rparr>)"
    by (rule secure_table) (simp_all add: events_waiting_def)
  from secure_append [OF this, of "default_event\<lparr>ev_type := EVENT_CONNECTION_REQUEST, remoteEndpoint := addr,
      connectionRequest := Some (next_object w)\<rparr>"] show ?thesis
    using f None by (simp add: file_request_def Let_def create_event_def told_def names_peer_def default_event_def)
next
  case (Some rp)
  then obtain r r' where r: "request_heap w rp = Some r" "update_request q r = Some r'" "w' = w\<lparr>request_heap := (request_heap w)(rp \<mapsto> r')\<rparr>"
    using f by (auto simp: file_request_def elim!: bind_SomeE)
  then have "m_internal_packet r' = Some q \<or> m_internal_packet r' = m_internal_packet r"
    by (auto simp: update_request_def elim!: bind_SomeE split: if_splits)
  then show ?thesis unfolding r(3) using q secure_number [OF s r(1)] by (intro secure_request [OF s]) auto
qed

lemma request_number: "connect_request_from_data q = Some (Some r) \<Longrightarrow> cr_connection_number r < 4"
  by (auto simp: connect_request_from_data_def MAX_CONNECTION_NUMBER_def not_le elim!: bind_SomeE split: if_splits)

lemma secure_connect_request:
  assumes s: "secure w" and q: "cr_connection_number q < 4" and f: "process_connect_request addr peer q w = Some w'" shows "secure w'"
proof -
  obtain nxt w1 where j: "judge_request addr peer q w = Some (nxt, w1)"
    and rest: "(case nxt of None \<Rightarrow> Some w1 | Some r \<Rightarrow> file_request addr r w1) = Some w'"
    using f by (auto simp: process_connect_request_def elim!: bind_SomeE)
  note g = secure_judge [OF s q j]
  show ?thesis
  proof (cases nxt)
    case None
    then show ?thesis using rest g(1) by simp
  next
    case (Some r)
    then have "file_request addr r w1 = Some w'" using rest by simp
    then show ?thesis by (rule secure_file [OF g(1) g(2) [OF Some]])
  qed
qed

section \<open>Packets the manager handles itself\<close>

lemma safe_reply:
  assumes w: "safe w" and pr: "0 < static_header_size pr + n"
    and get: "pool_get_with_property pr n w = (q, w1)"
  shows "safe_to w w1 \<and> safe w1 \<and> wf_packet q \<and> m_size q = static_header_size pr + n"
proof -
  obtain q0 where q0: "pool_get_packet (static_header_size pr + n) w = (q0, w1)" "q = set_property pr q0"
    using get by (auto simp: pool_get_with_property_def Let_def split: prod.splits)
  note t = safe_pool [OF w q0(1)]
  show ?thesis using t safe_toD(1) [OF w t] pool_packet [OF q0(1) pr] q0(2) by simp
qed

lemma safe_reply_with:
  assumes w: "safe w" and pr: "0 < static_header_size pr" shows "ensures (reply_with pr a w) (safe_to w)"
proof -
  obtain q w1 where q: "pool_get_with_property pr 0 w = (q, w1)" by fastforce
  note f = safe_reply [OF w _ q, simplified, OF pr]
  have "ensures (send_raw_and_recycle q a w1) (\<lambda>r. safe_to w1 (snd r))" using f by (intro safe_send_recycle) simp_all
  then obtain n w2 where "send_raw_and_recycle q a w1 = Some (n, w2)" "safe_to w1 w2" by (rule ensures_sndE)
  then show ?thesis using q f safe_to_trans by (auto simp: reply_with_def)
qed

lemma set_u8_total: "i < buffer_size q \<Longrightarrow> ensures (set_u8_at b i q) (\<lambda>r. buffer_size r = buffer_size q \<and> m_size r = m_size q)"
  by (simp add: set_u8_at_def set_data_def wr8_def)

lemma network_changed_total: "ensures (make_network_changed t n i) wf_packet"
proof -
  let ?p0 = "new_packet_with PEER_NOT_FOUND (CONNECT_ACCEPT_HEADER_SIZE - 1)"
  have p0: "wf_packet ?p0" "m_size ?p0 = 15" using new_packet_nonempty(2) [of 14 PEER_NOT_FOUND] by simp_all
  then have b: "15 \<le> buffer_size ?p0" by (simp add: wf_packet_def)
  obtain p1 where p1: "set_i64_at t 1 ?p0 = Some p1" "buffer_size p1 = buffer_size ?p0" "m_size p1 = m_size ?p0"
    using set_at_total(3) [of 1 ?p0 t] b by (auto simp: ensures_def)
  obtain p2 where p2: "set_u8_at n 9 p1 = Some p2" "buffer_size p2 = buffer_size p1" "m_size p2 = m_size p1"
    using set_u8_total [of 9 p1 n] b p1 by (auto simp: ensures_def)
  obtain p3 where p3: "set_u8_at 1 10 p2 = Some p3" "buffer_size p3 = buffer_size p2" "m_size p3 = m_size p2"
    using set_u8_total [of 10 p2 1] b p1 p2 by (auto simp: ensures_def)
  obtain p4 where p4: "set_i32_at i 11 p3 = Some p4" "buffer_size p4 = buffer_size p3" "m_size p4 = m_size p3"
    using set_at_total(2) [of 11 p3 i] b p1 p2 p3 by (auto simp: ensures_def)
  have "wf_packet p4" by (rule wf_by_size [OF p0(1)]) (use p1 p2 p3 p4 in simp_all)
  then show ?thesis using p1(1) p2(1) p3(1) p4(1) by (simp add: make_network_changed_def Let_def)
qed

lemma safe_not_found:
  assumes w: "safe w" and p: "get_peer pp w = Some p" and q: "wf_packet q"
  shows "ensures (on_peer_not_found pp q a w) (safe_to w)"
proof (cases "m_connection_state p = CONNECTED")
  case False
  then show ?thesis using p safe_recycle [OF w] by (simp add: on_peer_not_found_def)
next
  case con: True
  show ?thesis
  proof (cases "m_size q = 1")
    case True
    obtain p1 where p1: "reset_mtu p = Some p1" by (simp add: reset_mtu_def set_mtu_def vget_def POSSIBLE_MTU_def)
    have t: "safe_to w (put_peer pp p1 w)"
      by (rule safe_put_same [OF w p]) (use p1 tables.set_mtu_evolves [of 0 p p1] in
        \<open>auto simp: reset_mtu_def set_mtu_def same_rest_def elim!: bind_SomeE\<close>)
    obtain c where c: "make_network_changed (m_connect_time p1) (m_connect_number p1) (m_remote_id p1) = Some c" "wf_packet c"
      using network_changed_total by (rule ensuresE)
    obtain n w1 where "send_raw_and_recycle c a (put_peer pp p1 w) = Some (n, w1)" "safe_to (put_peer pp p1 w) w1"
      using safe_send_recycle [OF safe_toD(1) [OF w t] c(2)] by (rule ensures_sndE)
    then show ?thesis using p con True p1 c(1) safe_to_trans [OF t] by (simp add: on_peer_not_found_def)
  next
    case False
    show ?thesis
    proof (cases "m_size q = 2 \<and> rd8 (m_data q) 1 = Some 1")
      case True
      then show ?thesis using p con safe_force [OF w, of None] by (simp add: on_peer_not_found_def)
    next
      case no: False
      have b: "\<exists>b. (if m_size q = 2 then rd8 (m_data q) 1 else Some 0) = Some b \<and> \<not> (m_size q = 2 \<and> b = 1)"
        using q no by (auto simp: wf_packet_def rd8_def)
      then obtain b where b: "(if m_size q = 2 then rd8 (m_data q) 1 else Some 0) = Some b" "\<not> (m_size q = 2 \<and> b = 1)" by blast
      let ?w0 = "pool_recycle q w"
      have t0: "safe_to w ?w0" by (rule safe_recycle [OF w])
      obtain r0 w1 where r0: "pool_get_with_property PEER_NOT_FOUND 1 ?w0 = (r0, w1)" by fastforce
      note f = safe_reply [OF safe_toD(1) [OF w t0] _ r0, simplified]
      obtain r1 where r1: "set_u8_at 1 1 r0 = Some r1" "buffer_size r1 = buffer_size r0" "m_size r1 = m_size r0"
        using set_u8_total [of 1 r0 1] f by (auto simp: ensures_def wf_packet_def)
      have "wf_packet r1" using f wf_by_size [of r0 r1] r1 by simp
      then obtain n w2 where "send_raw_and_recycle r1 a w1 = Some (n, w2)" "safe_to w1 w2"
        using safe_send_recycle [of w1 r1 a] f by (auto elim!: ensures_sndE)
      then have "ensures (on_peer_not_found pp q a w) (safe_to w)" if "m_size q > 1"
        using p con False that b r0 r1(1) f t0 safe_to_trans
        by (simp add: on_peer_not_found_def) blast
      moreover have "ensures (on_peer_not_found pp q a w) (safe_to w)" if "\<not> m_size q > 1"
        using p con False that b safe_to_refl [OF w] by (simp add: on_peer_not_found_def)
      ultimately show ?thesis by blast
    qed
  qed
qed

lemma safe_on_disconnect:
  assumes w: "safe w" and p: "get_peer pp w = Some p" and q: "arrived q"
  shows "ensures (on_disconnect pp q a w) (safe_to w)"
proof -
  have "wf_packet q" by (rule arrivedD(1) [OF q])
  then have "9 \<le> m_size q \<Longrightarrow> \<exists>t. rd64 (m_data q) 1 = Some t" by (simp add: rd_defs wf_packet_def)
  then have "process_disconnect q p \<noteq> None" by (cases "9 \<le> m_size q") (auto simp: process_disconnect_def)
  then obtain d where d: "process_disconnect q p = Some d" by blast
  show ?thesis
  proof (cases "d = DISCONNECT_NONE")
    case True
    then show ?thesis using p d safe_recycle [OF w] by (simp add: on_disconnect_def)
  next
    case False
    let ?m = "disconnect_peer_force (m_endpoint p) (if d = DISCONNECT_DISCONNECT then REMOTE_CONNECTION_CLOSE else CONNECTION_REJECTED) 0 (Some q) w"
    obtain w1 where w1: "?m = Some w1" "safe_to w w1"
      by (rule ensuresE [OF safe_force [OF w, where ev = "Some q"]]) (use arrivedD(3) [OF q] in auto)
    from safe_after [OF w1(2) safe_reply_with [OF safe_toD(1) [OF w w1(2)], of SHUTDOWN_OK a]] show ?thesis
      using p d False w1(1) by (simp add: on_disconnect_def)
  qed
qed

lemma accept_read: "wf_packet q \<Longrightarrow> connect_accept_from_data q \<noteq> None"
  by (auto simp: connect_accept_from_data_def rd_defs wf_packet_def)

lemma accept_number: "connect_accept_from_data q = Some (Some a) \<Longrightarrow> ca_connection_number a < 4"
  by (auto simp: connect_accept_from_data_def MAX_CONNECTION_NUMBER_def not_le elim!: bind_SomeE split: if_splits)

lemma secure_on_accept:
  assumes s: "secure w" and p: "get_peer pp w = Some p" and q: "wf_packet q"
  shows "ensures (on_connect_accept pp q w) secure"
proof -
  obtain c where c: "connect_accept_from_data q = Some c" using accept_read [OF q] by blast
  show ?thesis
  proof (cases c)
    case None
    then show ?thesis using c secure_recycle(1) [OF s] by (simp add: on_connect_accept_def)
  next
    case (Some a)
    obtain ok p1 where a: "process_connect_accept a p = (ok, p1)" by fastforce
    note w = secureD(1) [OF s]
    have "peer_rest p1" using a accept_number [of q a] c Some safeD(2) [OF w p]
      by (auto simp: process_connect_accept_def peer_rest_defs split: if_splits)
    moreover have "peer_ok p1" "m_endpoint p1 = m_endpoint p"
      using quiet.accept_evolves [OF a] safeD(1) [OF w p] by (simp_all add: peer_evolves_def)
    ultimately have s1: "secure (put_peer pp p1 w)" by (intro secure_peer [OF s p])
    have ev: "\<exists>v. create_event (default_event\<lparr>ev_type := EVENT_CONNECT, ev_peer := Some pp\<rparr>) (put_peer pp p1 w) = Some v"
      by (simp add: create_event_def default_event_def)
    then obtain v where v: "create_event (default_event\<lparr>ev_type := EVENT_CONNECT, ev_peer := Some pp\<rparr>) (put_peer pp p1 w) = Some v" ..
    have sv: "secure v" by (rule secure_event(1) [OF s1 v args_ok_default(6) told_default(6)]) (simp_all add: default_event_def)
    show ?thesis using c Some p a v secure_recycle(1) [OF s1] secure_recycle(1) [OF sv]
      by (cases ok) (simp_all add: on_connect_accept_def Let_def)
  qed
qed

section \<open>The dispatch\<close>

text \<open>What the tests of \<open>process_packet\<close> let through to a channel that is not there.\<close>

definition outside_channels :: "net_packet \<Rightarrow> net_peer \<Rightarrow> bool" where
  "outside_channels q p \<longleftrightarrow> (property q = ACK \<or> property q = CHANNELED) \<and>
     (m_connection_state p = CONNECTED \<or> m_connection_state p = OUTGOING) \<and> connection_number q = m_connect_number p \<and>
     (\<exists>c. channel_id q = Some c \<and> unat c = length (m_channels p))"

text \<open>A request with the connection time of a peer that is connected and was never accepted by this end.\<close>

definition repeats_own :: "net_packet \<Rightarrow> net_peer \<Rightarrow> bool" where
  "repeats_own q p \<longleftrightarrow> property q = CONNECT_REQUEST \<and> get_protocol_id q = Some PROTOCOL_ID \<and>
     m_connection_state p = CONNECTED \<and> m_connect_accept_packet p = None \<and>
     (\<exists>r. connect_request_from_data q = Some (Some r) \<and> cr_connection_time r = m_connect_time p)"

lemma packet_defined:
  assumes w: "safe w" and p: "get_peer pp w = Some p" and l: "listed pp w" and q: "arrived q" "property q \<noteq> MERGED"
  shows "peer_process_packet pp q w = None \<longleftrightarrow> outside_channels q p"
proof -
  let ?p = "p\<lparr>m_time_since_last_packet := 0\<rparr>" and ?con = "m_connection_state p = CONNECTED \<or> m_connection_state p = OUTGOING"
  let ?w = "put_peer pp ?p w"
  have t: "safe_to w ?w"
    by (rule safe_put_same [OF w p same_vitals_evolves]) (simp_all add: same_vitals_def same_rest_def)
  have single: "process_single pp q ?w = None \<longleftrightarrow> \<not> in_range q ?p"
    using safe_single [OF safe_toD(1) [OF w t] get_put_peer listed_to [OF l t] q(1)] single_outside [OF q(1) get_put_peer] by (auto simp: ensures_def)
  have range: "\<not> in_range q ?p \<longleftrightarrow> (property q = ACK \<or> property q = CHANNELED) \<and> (\<exists>c. channel_id q = Some c \<and> unat c = length (m_channels p))"
    by (auto simp: in_range_def split: option.splits)
  show ?thesis
    using p q(2) single range unfolding peer_process_packet_def
    by (subst process_packet_at.simps) (auto simp: admit_packet_def outside_channels_def)
qed

lemma removed: "manager_ok w \<Longrightarrow> \<exists>w'. remove_peer_internal a w = Some w'"
  using remove_peer_ok unfolding manager_ok_def mgr_ok_def by blast

lemma request_read: "34 \<le> buffer_size q \<Longrightarrow> get_protocol_id q \<noteq> None \<and> connect_request_from_data q \<noteq> None"
  by (auto simp: get_protocol_id_def connect_request_from_data_def rd_defs CONNECT_REQUEST_HEADER_SIZE_def)

lemma file_total:
  assumes "manager_ok w" shows "file_request addr q w \<noteq> None"
proof (cases "m_connection_requests w (akey addr)")
  case (Some rp)
  obtain xs where "mgr_ok w [] xs" using assms by (auto simp: manager_ok_def)
  then have "requests_ok w" by (simp add: mgr_ok_def around_ok_def)
  then obtain r i where "request_heap w rp = Some r" "m_internal_packet r = Some i"
    using Some unfolding requests_ok_def by fastforce
  then show ?thesis using Some by (simp add: file_request_def update_request_def)
qed (simp add: file_request_def Let_def create_event_def default_event_def)

lemma judge_defined:
  assumes ok: "manager_ok w" and s: "secure w" and peer: "peer = Some pp" "get_peer pp w = Some p"
  shows "judge_request addr peer r w = None \<longleftrightarrow>
    m_connection_state p = CONNECTED \<and> m_connect_accept_packet p = None \<and> cr_connection_time r = m_connect_time p"
proof (cases "m_connection_state p = CONNECTED \<and> m_connect_accept_packet p = None \<and> cr_connection_time r = m_connect_time p")
  case True
  then show ?thesis using peer by (simp add: judge_request_def peer_process_connect_request_def)
next
  case False
  note w = secureD(1) [OF s]
  have "peer_process_connect_request pp r w \<noteq> None"
  proof (cases "m_connection_state p = CONNECTED \<and> cr_connection_time r = m_connect_time p")
    case True
    then obtain acc where acc: "m_connect_accept_packet p = Some acc" using False by auto
    then have "wf_packet acc" using peer_restD(2) [OF safeD(2) [OF w peer(2)]] by (simp add: packets_ok_def)
    from safe_send_packet [OF w this, of "m_endpoint p"] obtain n v where "send_packet acc (m_endpoint p) w = Some (n, v)"
      by (rule ensures_sndE)
    then show ?thesis using True acc peer(2) by (simp add: peer_process_connect_request_def)
  next
    case False
    then show ?thesis using peer(2) by (auto simp: peer_process_connect_request_def split: connection_state.splits)
  qed
  then obtain res w1 where r: "peer_process_connect_request pp r w = Some (res, w1)" by auto
  have ok1: "manager_ok w1" by (rule manager_quiet [OF quiet.connect_request_R [OF r] ok])
  have t1: "safe_to w w1" by (rule answer_request [OF w r])
  have s1: "secure w1" by (rule secure_to [OF s t1 quiet.connect_request_R [OF r]])
  obtain p1 where p1: "get_peer pp w1 = Some p1" using safe_toD(2) [OF w t1 peer(2)] by blast
  obtain v where v: "remove_peer_internal addr w1 = Some v" using removed [OF ok1] by blast
  have force: "\<exists>v v'. disconnect_peer_force addr x 0 None w1 = Some v \<and> remove_peer_internal addr v = Some v'" for x
  proof -
    obtain u where u: "disconnect_peer_force addr x 0 None w1 = Some u"
      by (rule ensuresE [OF safe_force [OF secureD(1) [OF s1], where ev = None]]) auto
    have "manager_ok u" by (rule manager_quiet [OF quiet.force_R [OF u] ok1])
    with u removed show ?thesis by blast
  qed
  have "judge_request addr peer r w \<noteq> None"
    using peer r p1 v force [of RECONNECT] force [of PEER_TO_PEER_CONNECTION]
    by (cases res) (auto simp: judge_request_def remove_peer_def Let_def)
  with False show ?thesis by blast
qed

lemma requested_defined:
  assumes ok: "manager_ok w" and s: "secure w"
  shows "process_connect_request addr (m_peers w (akey addr)) r w = None \<longleftrightarrow>
    (\<exists>pp p. m_peers w (akey addr) = Some pp \<and> get_peer pp w = Some p \<and> m_connection_state p = CONNECTED \<and>
       m_connect_accept_packet p = None \<and> cr_connection_time r = m_connect_time p)"
proof -
  have fl: "process_connect_request addr peer r w = None \<longleftrightarrow> judge_request addr peer r w = None" for peer
  proof (cases "judge_request addr peer r w")
    case (Some j)
    then obtain nxt w1 where j: "judge_request addr peer r w = Some (nxt, w1)" by (cases j) auto
    have "file_request addr x w1 \<noteq> None" for x by (rule file_total [OF judge_ok [OF ok j]])
    then show ?thesis using j by (cases nxt) (auto simp: process_connect_request_def)
  qed (simp add: process_connect_request_def)
  show ?thesis
  proof (cases "m_peers w (akey addr)")
    case None
    then show ?thesis unfolding fl by (simp add: judge_request_def)
  next
    case (Some pp)
    obtain p where p: "get_peer pp w = Some p" using safeD(4) [OF secureD(1) [OF s] Some] by blast
    show ?thesis unfolding fl judge_defined [OF ok s Some p] using Some p by auto
  qed
qed

lemma forced_defined: "safe w \<Longrightarrow> disconnect_peer_force a x 0 None w \<noteq> None"
  using safe_force [of w None a x 0] by (auto simp: ensures_def)

lemma dispatch_defined:
  assumes ok: "manager_ok w" and s: "secure w" and q: "arrived q" "property q \<noteq> MERGED" "34 \<le> buffer_size q"
    and protocol: "property q = CONNECT_REQUEST \<Longrightarrow> get_protocol_id q = Some PROTOCOL_ID"
  shows "dispatch_message q addr w = None \<longleftrightarrow>
    (\<exists>pp p. m_peers w (akey addr) = Some pp \<and> get_peer pp w = Some p \<and> (outside_channels q p \<or> repeats_own q p))"
proof -
  note w = secureD(1) [OF s]
  have wf: "wf_packet q" by (rule arrivedD(1) [OF q(1)])
  show ?thesis
  proof (cases "property q = CONNECT_REQUEST")
    case True
    obtain c where c: "connect_request_from_data q = Some c" using request_read [OF q(3)] by blast
    have "\<not> outside_channels q p" for p using True by (simp add: outside_channels_def)
    then show ?thesis using True c protocol [OF True] requested_defined [OF ok s, of addr]
      by (cases c) (auto simp: dispatch_message_def repeats_own_def)
  next
    case False
    then have own: "\<not> repeats_own q p" for p by (simp add: repeats_own_def)
    have reply: "reply_with pr addr v \<noteq> None" if "safe v" "0 < static_header_size pr" for pr v
      using safe_reply_with [OF that, of addr] by (auto simp: ensures_def)
    note rec = safe_toD(1) [OF w safe_recycle [OF w]]
    show ?thesis
    proof (cases "m_peers w (akey addr)")
      case None
      then show ?thesis using False reply [OF rec] by (cases "property q") (simp_all add: dispatch_message_def)
    next
      case (Some pp)
      obtain p where p: "get_peer pp w = Some p" using safeD(4) [OF w Some] by blast
      have outside: "outside_channels q p \<Longrightarrow> property q = ACK \<or> property q = CHANNELED" by (simp add: outside_channels_def)
      obtain v where forced: "disconnect_peer_force (m_endpoint p) INVALID_PROTOCOL_REASON 0 None w = Some v"
        using forced_defined [OF w] by blast
      show ?thesis
        using Some p own False outside packet_defined [OF w p safe_listed [OF w Some] q(1,2)] forced
          safe_not_found [OF w p wf, of addr] safe_on_disconnect [OF w p q(1), of addr] secure_on_accept [OF s p wf]
        by (cases "property q") (auto simp: dispatch_message_def ensures_def)
    qed
  qed
qed

lemma received_defined:
  assumes ok: "manager_ok w" and s: "secure w" and q: "wf_packet q" "property q \<noteq> MERGED" "34 \<le> buffer_size q"
  shows "on_message_received q addr w = None \<longleftrightarrow> verify q \<and>
    (\<exists>pp p. m_peers w (akey addr) = Some pp \<and> get_peer pp w = Some p \<and> (outside_channels q p \<or> repeats_own q p))"
proof (cases "verify q")
  case False
  then show ?thesis by (simp add: on_message_received_def)
next
  case True
  then have a: "arrived q" using q(1) by (simp add: arrived_def)
  have quiet_props: "\<not> (outside_channels q p \<or> repeats_own q p)" if "property q = BROADCAST \<or> property q = UNCONNECTED_MESSAGE" for p
    using that by (auto simp: outside_channels_def repeats_own_def)
  have event: "create_event (default_event\<lparr>ev_type := t, remoteEndpoint := addr, m_reader_source := Some q\<rparr>) w \<noteq> None" for t
    using arrivedD(3) [OF a] by (auto simp: create_event_def default_event_def sourced_def)
  show ?thesis
  proof (cases "property q = CONNECT_REQUEST")
    case con: True
    obtain i where i: "get_protocol_id q = Some i" using request_read [OF q(3)] by blast
    show ?thesis
    proof (cases "i = PROTOCOL_ID")
      case id: True
      then show ?thesis using True con i dispatch_defined [OF ok s a q(2,3), of addr] by (simp add: on_message_received_def)
    next
      case no: False
      have "reply_with INVALID_PROTOCOL addr w \<noteq> None"
        using safe_reply_with [OF secureD(1) [OF s], of INVALID_PROTOCOL addr] by (auto simp: ensures_def)
      then show ?thesis using True con i no
        by (auto simp: on_message_received_def outside_channels_def repeats_own_def)
    qed
  next
    case False
    then show ?thesis using True quiet_props event dispatch_defined [OF ok s a q(2,3), of addr]
      by (auto simp: on_message_received_def)
  qed
qed

section \<open>The bytes of a datagram\<close>

text \<open>The packet \<open>recvfrom\<close> fills: what it writes, and zeros up to \<open>MAX_PACKET_SIZE\<close>.\<close>

definition packet_of :: "bytes \<Rightarrow> net_packet" where
  "packet_of data = \<lparr>m_data = take MAX_PACKET_SIZE data @ replicate (MAX_PACKET_SIZE - length data) 0,
     m_size = min (length data) MAX_PACKET_SIZE, user_data = None\<rparr>"

lemma packet_of_buffer: "buffer_size (packet_of data) = MAX_PACKET_SIZE"
  by (simp add: packet_of_def)

lemma zeros: "set xs \<subseteq> {0} \<Longrightarrow> xs = replicate (length xs) 0"
  by (induction xs) auto

lemma received_packet:
  assumes pool: "pool_ok w"
  obtains q q0 w1 where "receive_datagram (Some (data, addr)) w = on_message_received q addr w1"
    "pool_get_packet MAX_PACKET_SIZE w = (q0, w1)" "m_size q = m_size (packet_of data)"
    "prefix (m_data (packet_of data)) (m_data q)" "wf_packet q"
proof -
  let ?n = "min (length data) MAX_PACKET_SIZE" and ?xs = "take MAX_PACKET_SIZE data"
  obtain p w1 where p: "pool_get_packet MAX_PACKET_SIZE w = (p, w1)" by fastforce
  note f = pool_fresh [OF pool p]
  have l: "length ?xs = ?n" by (simp add: min_def)
  have c: "copy_from data 0 0 ?n p = Some (p\<lparr>m_data := ?xs @ drop ?n (m_data p)\<rparr>)"
    using f(2) l by (auto simp: copy_from_def rd_bytes_def set_data_def wr_bytes_def min_def)
  let ?q = "resize ?n (p\<lparr>m_data := ?xs @ drop ?n (m_data p)\<rparr>)"
  have "?n \<le> length (?xs @ drop ?n (m_data p))" using l by simp
  then have q: "m_data ?q = ?xs @ drop ?n (m_data p)" "m_size ?q = ?n" by (simp_all add: resize_def)
  have "set (drop ?n (m_data p)) \<subseteq> {0}" using f(3) set_drop_subset by fastforce
  then have "drop ?n (m_data p) = replicate (buffer_size p - ?n) 0" using zeros [of "drop ?n (m_data p)"] by simp
  also have "\<dots> = replicate (MAX_PACKET_SIZE - ?n) 0 @ replicate (buffer_size p - MAX_PACKET_SIZE) 0"
    using f(2) by (simp flip: replicate_add)
  finally have d: "m_data ?q = m_data (packet_of data) @ replicate (buffer_size p - MAX_PACKET_SIZE) 0"
    unfolding q(1) by (simp add: packet_of_def min_def)
  have "buffer_size (packet_of data) = MAX_PACKET_SIZE" by (rule packet_of_buffer)
  then have b: "MAX_PACKET_SIZE \<le> buffer_size ?q" unfolding d by simp
  then have "wf_packet ?q" using q(2) by (auto simp: wf_packet_def MAX_PACKET_SIZE_def)
  moreover have "receive_datagram (Some (data, addr)) w = on_message_received ?q addr w1"
    using p c by (simp add: receive_datagram_def)
  ultimately show thesis using that [of ?q w1 p] p q(2) d by (simp add: packet_of_def)
qed

lemma same_reads:
  assumes "m_size q = m_size p" "prefix (m_data p) (m_data q)" "34 \<le> buffer_size p"
  shows "property q = property p" "connection_number q = connection_number p" "verify q = verify p"
    "channel_id q = channel_id p" "get_protocol_id q = get_protocol_id p"
    "connect_request_from_data q = Some (Some r) \<Longrightarrow> \<exists>r'. connect_request_from_data p = Some (Some r') \<and> cr_connection_time r' = cr_connection_time r"
    "connect_request_from_data p = Some (Some r) \<Longrightarrow> \<exists>r'. connect_request_from_data q = Some (Some r') \<and> cr_connection_time r' = cr_connection_time r"
proof -
  obtain rest where rest: "m_data q = m_data p @ rest" using assms(2) by (auto simp: prefix_def)
  have "m_data p \<noteq> []" using assms(3) by auto
  then have b: "byte0 q = byte0 p" using rest by (cases "m_data p") (simp_all add: byte0_def)
  have rd: "rd_bytes (m_data q) i n = rd_bytes (m_data p) i n" if "i + n \<le> 34" for i n
    using that assms(3) rest by (simp add: rd_bytes_def)
  have rd8: "rd8 (m_data q) i = rd8 (m_data p) i" if "i < 34" for i
    using that assms(3) rest by (simp add: rd8_def nth_append)
  show "property q = property p" "connection_number q = connection_number p" "verify q = verify p"
    using b assms(1) by (simp_all add: property_def connection_number_def verify_def)
  show "channel_id q = channel_id p" "get_protocol_id q = get_protocol_id p"
    using rd rd8 by (simp_all add: channel_id_def get_protocol_id_def rd32_def)
  have c: "connection_number q = connection_number p" using b by (simp add: connection_number_def)
  show "connect_request_from_data q = Some (Some r) \<Longrightarrow> \<exists>r'. connect_request_from_data p = Some (Some r') \<and> cr_connection_time r' = cr_connection_time r"
    "connect_request_from_data p = Some (Some r) \<Longrightarrow> \<exists>r'. connect_request_from_data q = Some (Some r') \<and> cr_connection_time r' = cr_connection_time r"
    using rd rd8 c by (auto simp: connect_request_from_data_def rd64_def rd32_def CONNECT_REQUEST_HEADER_SIZE_def
        elim!: bind_SomeE split: if_splits)
qed

lemma datagram_undefined_iff:
  assumes ok: "manager_ok w" and s: "secure w" and m: "property (packet_of data) \<noteq> MERGED"
  shows "receive_datagram (Some (data, addr)) w = None \<longleftrightarrow> verify (packet_of data) \<and>
    (\<exists>pp p. m_peers w (akey addr) = Some pp \<and> get_peer pp w = Some p \<and>
       (outside_channels (packet_of data) p \<or> repeats_own (packet_of data) p))"
proof -
  obtain q q0 w1 where q: "receive_datagram (Some (data, addr)) w = on_message_received q addr w1"
    and get: "pool_get_packet MAX_PACKET_SIZE w = (q0, w1)" and r: "m_size q = m_size (packet_of data)"
    "prefix (m_data (packet_of data)) (m_data q)" and wf: "wf_packet q" by (rule received_packet [OF secureD(3) [OF s]])
  have b: "34 \<le> buffer_size (packet_of data)" unfolding packet_of_buffer by (simp add: MAX_PACKET_SIZE_def)
  note same = same_reads [OF r b]
  have b': "34 \<le> buffer_size q" using b r(2) by (auto simp: prefix_def)
  have ok1: "manager_ok w1" by (rule manager_quiet [OF quiet.get_R [OF get] ok])
  have s1: "secure w1" by (rule secure_to [OF s safe_pool [OF secureD(1) [OF s] get] quiet.get_R [OF get]])
  have w1: "m_peers w1 = m_peers w" "get_peer pp w1 = get_peer pp w" for pp
    using world_frame_pool(5,6) [where n = MAX_PACKET_SIZE and w = w] get by simp_all
  have "outside_channels q p = outside_channels (packet_of data) p" for p
    by (simp add: outside_channels_def same(1,2,4))
  moreover have "repeats_own q p = repeats_own (packet_of data) p" for p
    unfolding repeats_own_def same(1,5) using same(6,7) by metis
  ultimately show ?thesis
    using received_defined [OF ok1 s1 wf _ b', of addr] m by (simp add: q w1 same(1,3))
qed

section \<open>The logic thread\<close>

lemma safe_update_list:
  "safe w \<Longrightarrow> \<forall>pp \<in> set pps. listed pp w \<Longrightarrow> ensures (update_list dt pps w) (\<lambda>r. safe_to w (snd r))"
proof (induction pps arbitrary: w)
  case Nil
  show ?case using safe_to_refl [OF Nil(1)] by simp
next
  case (Cons pp pps)
  then obtain p where l: "listed pp w" and p: "get_peer pp w = Some p" by (auto simp: listed_def)
  show ?case
  proof (cases "m_connection_state p = DISCONNECTED \<and> m_time_since_last_packet p > disconnect_timeout w")
    case True
    obtain rest w1 where "update_list dt pps w = Some (rest, w1)" "safe_to w w1"
      by (rule ensures_sndE [OF Cons.IH]) (use Cons.prems in auto)
    then show ?thesis using p True by simp
  next
    case False
    obtain w1 where w1: "peer_update pp dt w = Some w1" "safe_to w w1"
      using safe_peer_update [OF Cons.prems(1) p l] by (rule ensuresE)
    have "\<forall>qq \<in> set pps. listed qq w1" using Cons.prems(2) listed_to [OF _ w1(2)] by simp
    from Cons.IH [OF safe_toD(1) [OF Cons.prems(1) w1(2)] this]
    have "ensures (update_list dt pps w1) (\<lambda>r. safe_to w (snd r))" by (rule safe_after [OF w1(2)])
    then show ?thesis using p False w1(1) by auto
  qed
qed

lemma secure_remove_peers:
  "manager_ok w \<Longrightarrow> secure w \<Longrightarrow> ensures (remove_peers as w) secure"
proof (induction as arbitrary: w)
  case (Cons a as)
  obtain w1 where w1: "remove_peer_internal a w = Some w1" using removed [OF Cons.prems(1)] by blast
  have "manager_ok w1" using remove_manager [OF Cons.prems(1), unfolded remove_peer_def, OF w1] .
  from Cons.IH [OF this secure_remove [OF Cons.prems(2) w1]] w1 show ?case by simp
qed simp

lemma secure_turn:
  assumes ok: "manager_ok w" and s: "secure w"
  shows "ensures (update_logic_turn sw w) (\<lambda>r. secure (snd (snd r)))"
proof -
  obtain xs l where xs: "dlseg (next_of w) (prev_of w) (m_head_peer w) None xs None l" "\<forall>pp \<in> set xs. peer_heap w pp \<noteq> None"
    and map: "\<And>k pp. m_peers w k = Some pp \<longleftrightarrow> pp \<in> set xs \<and> key_of w pp = k"
    by (rule manager_list [OF ok]) (rule that)
  let ?dt = "if sw_milliseconds (clock w) sw \<le> 0 then 1 else sw_milliseconds (clock w) sw"
  have "\<forall>pp \<in> set xs. listed pp w"
  proof
    fix pp assume "pp \<in> set xs"
    with map [of "key_of w pp" pp] show "listed pp w" by (intro safe_listed [OF secureD(1) [OF s]]) simp
  qed
  from safe_update_list [OF secureD(1) [OF s] this]
  obtain as w1 where a: "update_peers ?dt (m_head_peer w) w = Some (as, w1)" "safe_to w w1"
    unfolding walk_updates [OF xs(1,2), symmetric] by (rule ensures_sndE)
  have q: "quiet w w1" using quiet.update_peers_R [OF a(1)] by simp
  obtain w2 where "remove_peers as w1 = Some w2" "secure w2"
    using secure_remove_peers [OF manager_quiet [OF q ok] secure_to [OF s a(2) q]] by (rule ensuresE)
  then show ?thesis using a(1) by (simp add: update_logic_turn_def Let_def)
qed

section \<open>Whole runs\<close>

lemma secure_reply:
  assumes s: "secure w" and pr: "0 < static_header_size pr" and r: "reply_with pr a w = Some w'" shows "secure w'"
  by (rule secure_to [OF s ensuresD [OF safe_reply_with [OF secureD(1) [OF s] pr] r] quiet.reply_R [OF r]])

lemma secure_by:
  assumes s: "secure w" and e: "ensures m (safe_to w)" and m: "m = Some w'" and q: "quiet w w'" shows "secure w'"
  by (rule secure_to [OF s ensuresD [OF e m] q])

lemma secure_dispatch:
  assumes s: "secure w" and q: "arrived q" and d: "dispatch_message q addr w = Some w'" shows "secure w'"
proof (cases "property q = CONNECT_REQUEST")
  case True
  then obtain c where c: "connect_request_from_data q = Some c" and rest: "(case c of
                Some r \<Rightarrow> process_connect_request addr (m_peers w (akey addr)) r w
              | None \<Rightarrow> Some (pool_recycle q w)) = Some w'"
    using d by (auto simp: dispatch_message_def elim!: bind_SomeE)
  show ?thesis
  proof (cases c)
    case None
    then show ?thesis using rest secure_recycle(1) [OF s] by auto
  next
    case (Some r)
    then have "process_connect_request addr (m_peers w (akey addr)) r w = Some w'" using rest by simp
    moreover have "cr_connection_number r < 4" using request_number c Some by simp
    ultimately show ?thesis using secure_connect_request [OF s] by blast
  qed
next
  case False
  note rec = secure_recycle(1) [OF s, of q]
  show ?thesis
  proof (cases "m_peers w (akey addr)")
    case None
    have "secure w'" if "reply_with pr addr (pool_recycle q w) = Some w'" "pr = SHUTDOWN_OK \<or> pr = PEER_NOT_FOUND" for pr
      using secure_reply [OF rec _ that(1)] that(2) by auto
    then show ?thesis using d False None rec s by (cases "property q") (auto simp: dispatch_message_def)
  next
    case (Some pp)
    obtain p where p: "get_peer pp w = Some p" using safeD(4) [OF secureD(1) [OF s] Some] by blast
    note w = secureD(1) [OF s] and wf = arrivedD(1) [OF q]
    have "secure w'" if "on_peer_not_found pp q addr w = Some w'"
      by (rule secure_by [OF s safe_not_found [OF w p wf] that quiet.not_found_R [OF that]])
    moreover have "secure w'" if "on_disconnect pp q addr w = Some w'"
      by (rule secure_by [OF s safe_on_disconnect [OF w p q] that quiet.on_disconnect_R [OF that]])
    moreover have "secure w'" if "on_connect_accept pp q w = Some w'"
      by (rule ensuresD [OF secure_on_accept [OF s p wf] that])
    moreover have "secure w'" if "disconnect_peer_force (m_endpoint p) INVALID_PROTOCOL_REASON 0 None w = Some w'"
      by (rule secure_force [OF s that]) simp
    ultimately show ?thesis using d False Some p s secure_packet [OF s safe_listed [OF w Some] q]
      by (cases "property q") (auto simp: dispatch_message_def split: if_splits)
  qed
qed

lemma secure_received:
  assumes s: "secure w" and q: "wf_packet q" and r: "on_message_received q addr w = Some w'" shows "secure w'"
proof (cases "verify q")
  case False
  then show ?thesis using r secure_recycle(1) [OF s] by (auto simp: on_message_received_def)
next
  case True
  then have a: "arrived q" using q by (simp add: arrived_def)
  have ev: "secure v" if "create_event (default_event\<lparr>ev_type := t, remoteEndpoint := addr, m_reader_source := Some q\<rparr>) w = Some v"
    "t = EVENT_RECEIVE_UNCONNECTED \<or> t = EVENT_BROADCAST" for t v
    by (rule secure_event(1) [OF s that(1)])
      (use that(2) arrivedD(3) [OF a] in \<open>auto simp: args_ok_def default_event_def told_def names_peer_def\<close>)
  show ?thesis using r True secure_dispatch [OF s a] secure_recycle(1) [OF s] secure_recycle(1) [OF secure_reply [OF s, of INVALID_PROTOCOL addr]] ev
    by (auto simp: on_message_received_def elim!: bind_SomeE split: if_splits)
qed

lemma secure_receive:
  assumes s: "secure w" and r: "receive_datagram d w = Some w'" shows "secure w'"
proof (cases d)
  case None
  obtain q w1 where q: "pool_get_packet MAX_PACKET_SIZE w = (q, w1)" by fastforce
  have "secure w1" by (rule secure_to [OF s safe_pool [OF secureD(1) [OF s] q] quiet.get_R [OF q]])
  then show ?thesis using r None q secure_recycle(1) by (auto simp: receive_datagram_def)
next
  case (Some x)
  then obtain data addr where d: "d = Some (data, addr)" by (cases x) auto
  obtain q q0 w1 where q: "receive_datagram (Some (data, addr)) w = on_message_received q addr w1"
    and get: "pool_get_packet MAX_PACKET_SIZE w = (q0, w1)" and wf: "wf_packet q" by (rule received_packet [OF secureD(3) [OF s]])
  have "secure w1" by (rule secure_to [OF s safe_pool [OF secureD(1) [OF s] get] quiet.get_R [OF get]])
  then show ?thesis using secure_received [OF _ wf] r d q by simp
qed

lemma secure_env:
  assumes "secure w" "env_change w w'" shows "secure w'"
  by (rule secure_table [OF assms(1)]) (simp_all add: env_fields [OF assms(2)] events_waiting_def)

lemma secure_step: "net_step w w' \<Longrightarrow> manager_ok w \<and> secure w \<Longrightarrow> manager_ok w' \<and> secure w'"
proof (intro conjI)
  assume n: "net_step w w'" and ok: "manager_ok w \<and> secure w"
  show "manager_ok w'" using net_step_ok n ok by blast
  have "secure v" if "update_logic_turn sw w = Some (t, sw', v)" for sw t sw' v
    using ensuresD [OF secure_turn that] ok by simp
  then show "secure w'" using n ok
    by (cases rule: net_stepE) (auto intro: secure_receive secure_poll secure_app secure_env)
qed

lemma secure_init: "init_world w \<Longrightarrow> manager_ok w \<and> secure w"
  by (auto simp: init_world_def new_manager_ok)
    (simp add: secure_def safe_def rest_ok_def live_def numbers_ok_def pool_ok_def heap_fresh_def events_waiting_def new_manager_def get_peer_def)

interpretation secure_net: inductive_invariant init_world net_step "\<lambda>w. manager_ok w \<and> secure w"
  by unfold_locales (auto dest: secure_init secure_step)

section \<open>What is defined in every reachable world\<close>

text \<open>C3: No turn of the logic thread of a manager ever runs into undefined behaviour, whatever happened
  before: whatever datagrams arrived, whatever the application called and however \<open>sendto\<close> failed, the turn
  updates every peer, sends what is due, removes the dead peers and returns.\<close>

theorem logic_turn_safe:
  assumes "reach init_world net_step w" shows "\<exists>t sw' w'. update_logic_turn sw w = Some (t, sw', w')"
proof -
  have "ensures (update_logic_turn sw w) (\<lambda>r. secure (snd (snd r)))"
    using secure_net.reach_inv [OF assms] by (intro secure_turn) simp_all
  then show ?thesis by (auto simp: ensures_def)
qed

theorem logic_turn_safe_witness: "\<exists>t sw' w'. update_logic_turn new_stopwatch sample_connected = Some (t, sw', w')"
  by (rule logic_turn_safe [OF sample_reach(5)])

text \<open>C4: In every reachable world the code has no behaviour for a datagram that is not a merged one in exactly
  two cases: a verified packet of a channel, for a connection that is open, that names the channel one past
  the last; and a connect request with the connection time of a connected peer whose connection this end
  asked for. Any other bytes, from any sender and in any state, are handled.\<close>

theorem datagram_defined:
  assumes "reach init_world net_step w" and "property (packet_of data) \<noteq> MERGED"
  shows "receive_datagram (Some (data, addr)) w = None \<longleftrightarrow> verify (packet_of data) \<and>
    (\<exists>pp p. m_peers w (akey addr) = Some pp \<and> get_peer pp w = Some p \<and>
       (outside_channels (packet_of data) p \<or> repeats_own (packet_of data) p))"
  using secure_net.reach_inv [OF assms(1)] assms(2) by (intro datagram_undefined_iff) simp_all

theorem datagram_defined_witness:
  "receive_datagram (Some ([97, 0, 0, 4], sample_server)) sample_connected = None \<and>
   receive_datagram (Some ([97, 0, 0, 5], sample_server)) sample_connected \<noteq> None"
proof -
  obtain p where p: "get_peer 0 sample_connected = Some p" "m_connection_state p = CONNECTED" "length (m_channels p) = 4"
    "m_connect_number p = 3"
    using sample_connected_run unfolding sample_connected_def by (auto split: option.splits)
  let ?q = "\<lambda>c. packet_of [97, 0, 0, c]"
  have q: "byte0 (?q c) = 97" "m_size (?q c) = 4" "channel_id (?q c) = Some c" for c
    by (simp_all add: packet_of_def byte0_def channel_id_def rd8_def MAX_PACKET_SIZE_def)
  have h: "property (?q c) = CHANNELED" "connection_number (?q c) = 3" "verify (?q c)" for c
    using q [of c] by (simp_all add: property_def property_of_code_def connection_number_def verify_def PROPERTY_COUNT_def HEADER_SIZES_def)
  then have m: "property (?q c) \<noteq> MERGED" for c by simp
  have "\<not> repeats_own (?q c) p" "outside_channels (?q c) p \<longleftrightarrow> unat c = 4" for c
    using h [of c] q(3) [of c] p by (simp_all add: repeats_own_def outside_channels_def)
  then show ?thesis
    using datagram_defined [OF sample_reach(5) m, of 4 sample_server] datagram_defined [OF sample_reach(5) m, of 5 sample_server]
      sample_connected_facts(3) p(1) h(3) by simp
qed

text \<open>C5: In every reachable world a message of any length and delivery method that the application sends is
  events_waiting, sent in pieces, refused with an error event or dropped, and the code has no behaviour for it in
  exactly one case: the peer is connected, the method is not the unreliable one, the channel number passes
  its test against the number of all channels, and the index computed from it, modulo 256, is not below
  that number.\<close>

theorem send_defined:
  assumes "reach init_world net_step w" and p: "get_peer pp w = Some p" and data: "off + sz \<le> length data"
  shows "send_internal pp data off sz c dm ud w = None \<longleftrightarrow>
    m_connection_state p = CONNECTED \<and> dm \<noteq> UNRELIABLE_DELIVERY \<and> unat c < length (m_channels p) \<and>
    length (m_channels p) \<le> unat (c * of_nat CHANNEL_TYPE_COUNT + of_nat (delivery_code dm) :: u8)"
proof -
  have s: "safe w" "pool_ok w" using secure_net.reach_inv [OF assms(1)] by (simp_all add: secureD)
  show ?thesis
    using safe_send_internal [OF s p data, of dm c ud] p
    by (auto simp: ensures_def send_internal_def Let_def create_channel_def vget_def)
qed

theorem send_defined_witness:
  "send_internal 0 [1, 2, 3] 0 3 0 RELIABLE_ORDERED None sample_connected \<noteq> None \<and>
   send_internal 0 [1, 2, 3] 0 3 1 RELIABLE_ORDERED None sample_connected = None"
proof -
  obtain p where p: "get_peer 0 sample_connected = Some p" "m_connection_state p = CONNECTED" "length (m_channels p) = 4"
    by (rule sample_peer)
  show ?thesis using send_defined [OF sample_reach(5) p(1), of 0 3 "[1, 2, 3]"] p by (simp add: CHANNEL_TYPE_COUNT_def)
qed

end
