(* ===== verification/Live_Events.thy ===== *)
theory Live_Events
  imports Datagram_Safety
begin

text \<open>
  What the library promises to the application: the calls that always return, the objects the events are
  about, and polling with a listener that returns when its arguments are there.
\<close>

section \<open>Calls that always return\<close>

lemma add_made_total: "made w i a pp xs \<Longrightarrow> \<exists>w'. add_peer pp w = Some w'"
  unfolding made_def using add_peer_ok by (fastforce simp: mgr_ok_def fresh_peer_def get_peer_def key_of_def)

lemma accept_make_total: "connect_accept_make t n i \<noteq> None"
proof -
  let ?p0 = "new_packet_with CONNECT_ACCEPT 0"
  have "wf_packet ?p0" "m_size ?p0 = 15" using new_packet_nonempty(2) [of 0 CONNECT_ACCEPT] by simp_all
  then have b: "15 \<le> buffer_size ?p0" by (simp add: wf_packet_def)
  obtain p1 where p1: "set_i64_at t 1 ?p0 = Some p1" "buffer_size p1 = buffer_size ?p0"
    using set_at_total(3) [of 1 ?p0 t] b by (auto simp: ensures_def)
  obtain p2 where p2: "set_u8_at n 9 p1 = Some p2" "buffer_size p2 = buffer_size p1"
    using set_u8_total [of 9 p1 n] b p1 by (auto simp: ensures_def)
  obtain p3 where p3: "set_u8_at 0 10 p2 = Some p3" "buffer_size p3 = buffer_size p2"
    using set_u8_total [of 10 p2 0] b p1 p2 by (auto simp: ensures_def)
  obtain p4 where "set_u8_at (ucast i) 11 p3 = Some p4"
    using set_u8_total [of 11 p3 "ucast i"] b p1 p2 p3 by (auto simp: ensures_def)
  with p1(1) p2(1) p3(1) show ?thesis by (simp add: connect_accept_make_def Let_def)
qed

lemma sent_total: "safe w \<Longrightarrow> wf_packet q \<Longrightarrow> \<exists>r. send_packet q a w = Some r"
  using safe_send_packet [of w q a] by (force simp: ensures_def)

lemma sent_keeps:
  assumes "send_packet q a w = Some (n, w')" "get_peer pp w = Some p" shows "\<exists>p'. get_peer pp w' = Some p'"
  using tables_peer(1) [OF tables.send_packet_R [OF assms(1)] assms(2)] by blast

lemma new_accept_total:
  assumes s: "secure w" and q: "m_internal_packet rq = Some q" and n: "cr_connection_number q < 4"
  shows "\<exists>r. new_peer_accept rq i w = Some r"
proof -
  obtain p where p: "new_peer (channels_count w) (m_remote_endpoint rq) i = Some p" using new_peer_total by blast
  obtain acc where acc: "connect_accept_make (cr_connection_time q) (cr_connection_number q) (word_of_int i) = Some acc"
    using accept_make_total by blast
  let ?p = "p\<lparr>m_connect_time := cr_connection_time q, m_connect_number := cr_connection_number q,
        m_remote_id := cr_peer_id q, m_connect_accept_packet := Some acc\<rparr>"
  obtain pp w1 where w1: "alloc_peer ?p w = (pp, w1)" by fastforce
  have "peer_ok ?p" using new_peer_ok(1) [OF p] by (simp add: peer_ok_defs)
  moreover have "peer_rest ?p" using new_peer_rest [OF p] accept_wf [OF acc] n by (simp add: peer_rest_defs)
  ultimately have s1: "secure w1" "get_peer pp w1 = Some ?p" using secure_alloc [OF s w1] by simp_all
  obtain k w2 where w2: "send_packet acc (m_remote_endpoint rq) w1 = Some (k, w2)"
    using sent_total [OF secureD(1) [OF s1(1)] accept_wf [OF acc]] by fastforce
  obtain p2 where "get_peer pp w2 = Some p2" using sent_keeps [OF w2 s1(2)] by blast
  then show ?thesis using q p acc w1 w2 by (simp add: new_peer_accept_def modify_peer_def)
qed

lemma solve_accept_total:
  assumes ok: "manager_ok w" and s: "secure w" and q: "m_internal_packet rq = Some q" and n: "cr_connection_number q < 4"
    and acc: "m_result rq = ACCEPT"
  shows "\<exists>r. on_connection_solved rq data off k w = Some r"
proof -
  obtain xs where xs: "mgr_ok w [] xs" using ok by (auto simp: manager_ok_def)
  obtain i w1 where i: "get_next_peer_id w = (i, w1)" by fastforce
  have s1: "secure w1" by (rule secure_next_id [OF s i])
  note w1 = next_id_mgr [OF xs i]
  have "\<exists>r. solve_with_peer rq data off k w = Some r"
  proof (cases "m_peers w (akey (m_remote_endpoint rq))")
    case None
    obtain pp w2 where w2: "new_peer_accept rq i w1 = Some (pp, w2)" using new_accept_total [OF s1 q n] by fastforce
    have "made w2 i (akey (m_remote_endpoint rq)) pp xs" using accept_made [OF w1(1) w2] None w1(2) by simp
    then obtain w3 where "add_peer pp w2 = Some w3" using add_made_total by blast
    then show ?thesis using None acc i w2 by (simp add: solve_with_peer_def create_event_def default_event_def)
  qed (simp add: solve_with_peer_def)
  then show ?thesis using acc by (auto simp: on_connection_solved_def)
qed

lemma request_known:
  assumes "manager_ok w" "request_heap w rp = Some r" shows "\<exists>q. m_internal_packet r = Some q"
  using manager_request [OF assms] by auto

lemma accept_total:
  assumes ok: "manager_ok w" and s: "secure w" and rp: "request_heap w rp \<noteq> None"
  shows "request_accept rp w \<noteq> None"
proof -
  obtain x where x: "request_heap w rp = Some x" using rp by blast
  obtain b y where y: "try_activate x = (b, y)" by fastforce
  show ?thesis
  proof (cases b)
    case True
    obtain q where q: "m_internal_packet x = Some q" using request_known [OF ok x] by blast
    let ?w1 = "w\<lparr>request_heap := (request_heap w)(rp \<mapsto> y)\<rparr>"
    let ?w2 = "?w1\<lparr>request_heap := (request_heap ?w1)(rp \<mapsto> y\<lparr>m_result := ACCEPT\<rparr>)\<rparr>"
    note a = activated_ok [OF ok x y]
    have yq: "m_internal_packet y = Some q" using activated_packet [OF y] q by simp
    have n: "cr_connection_number q < 4" by (rule secure_number [OF s x q])
    have "secure ?w1" by (rule secure_request [OF s]) (use yq n in simp)
    then have "secure ?w2" by (rule secure_request) (use yq n in simp)
    moreover have "manager_ok ?w2" by (rule request_upd_ok [OF a(1), of rp y]) (use a in simp_all)
    ultimately obtain r where "on_connection_solved (y\<lparr>m_result := ACCEPT\<rparr>) None 0 0 ?w2 = Some r"
      using solve_accept_total [of ?w2 "y\<lparr>m_result := ACCEPT\<rparr>" q None 0 0] yq n by auto
    then show ?thesis using x y True by (simp add: request_accept_def request_solve_def Let_def)
  qed (use x y in \<open>simp add: request_accept_def\<close>)
qed

text \<open>A connect request can be made of any data that lies in its writer.\<close>

lemma request_make_total:
  assumes "writer_ok d" shows "connect_request_make d a t i \<noteq> None"
proof -
  let ?p0 = "new_packet_with CONNECT_REQUEST (w_position d + 16)"
  have "wf_packet ?p0" "m_size ?p0 = 34 + w_position d" using new_packet_nonempty(2) [of "w_position d + 16" CONNECT_REQUEST] by simp_all
  then have b: "34 + w_position d \<le> buffer_size ?p0" by (simp add: wf_packet_def)
  obtain p1 where p1: "set_i32_at PROTOCOL_ID 1 ?p0 = Some p1" "buffer_size p1 = buffer_size ?p0"
    using set_at_total(2) [of 1 ?p0 PROTOCOL_ID] b by (auto simp: ensures_def)
  obtain p2 where p2: "set_i64_at t 5 p1 = Some p2" "buffer_size p2 = buffer_size p1"
    using set_at_total(3) [of 5 p1 t] b p1 by (auto simp: ensures_def)
  obtain p3 where p3: "set_i32_at i 13 p2 = Some p3" "buffer_size p3 = buffer_size p2"
    using set_at_total(2) [of 13 p2 i] b p1 p2 by (auto simp: ensures_def)
  obtain p4 where p4: "set_u8_at 16 (CONNECT_REQUEST_HEADER_SIZE - 1) p3 = Some p4" "buffer_size p4 = buffer_size p3"
    using set_u8_total [of "CONNECT_REQUEST_HEADER_SIZE - 1" p3 16] b p1 p2 p3 by (auto simp: ensures_def CONNECT_REQUEST_HEADER_SIZE_def)
  have l: "length (encode_sockaddr a) = 16" by (simp add: encode_sockaddr_def)
  obtain bs where bs: "wr_bytes (m_data p4) CONNECT_REQUEST_HEADER_SIZE (encode_sockaddr a) = Some bs"
    using wr_bytes_ok [of CONNECT_REQUEST_HEADER_SIZE "encode_sockaddr a" "m_data p4"] b p1 p2 p3 p4 l
    by (auto simp: CONNECT_REQUEST_HEADER_SIZE_def)
  let ?p5 = "p4\<lparr>m_data := bs\<rparr>"
  have "buffer_size ?p5 = buffer_size ?p0" using wr_bytes_length [OF bs] p1 p2 p3 p4 by simp
  then have "CONNECT_REQUEST_HEADER_SIZE + 16 + w_position d \<le> buffer_size ?p5"
    using b by (simp add: CONNECT_REQUEST_HEADER_SIZE_def)
  moreover have "0 + w_position d \<le> length (w_data d)" using assms by (simp add: writer_ok_def)
  ultimately obtain r where "copy_from (w_data d) 0 (CONNECT_REQUEST_HEADER_SIZE + 16) (w_position d) ?p5 = Some r"
    using copy_fits by blast
  then show ?thesis using p1(1) p2(1) p3(1) p4(1) bs
    by (simp add: connect_request_make_def Let_def set_data_def)
qed

lemma new_connect_total:
  assumes s: "secure w" and d: "writer_ok d"
  shows "\<exists>r. new_peer_connect a i n d w = Some r"
proof -
  let ?t = "word_of_int (system_time w) :: i64"
  obtain p where p: "new_peer (channels_count w) a i = Some p" using new_peer_total by blast
  obtain r where r: "connect_request_make d a ?t (word_of_int i) = Some r" using request_make_total [OF d] by blast
  let ?p = "p\<lparr>m_connect_time := ?t, m_connection_state := OUTGOING,
         m_connect_number := n, m_connect_request_packet := Some (set_connection_number n r)\<rparr>"
  obtain pp w1 where w1: "alloc_peer ?p w = (pp, w1)" by fastforce
  have wf: "wf_packet (set_connection_number n r)" using request_wf [OF r] by simp
  have "peer_ok ?p" using new_peer_ok(1) [OF p] by (simp add: peer_ok_defs)
  moreover have "peer_rest ?p" using new_peer_rest [OF p] wf by (simp add: peer_rest_defs)
  ultimately have "secure w1" by (rule secure_alloc(1) [OF s w1])
  then obtain k w2 where "send_packet (set_connection_number n r) a w1 = Some (k, w2)"
    using sent_total [OF secureD(1) wf] by fastforce
  then show ?thesis using p r w1 by (simp add: new_peer_connect_def Let_def)
qed

lemma connect_new_total:
  assumes ok: "manager_ok w" and s: "secure w" and d: "writer_ok d" and free: "m_peers w (akey a) = None"
  shows "\<exists>r. connect_new n a d w = Some r"
proof -
  obtain xs where xs: "mgr_ok w [] xs" using ok by (auto simp: manager_ok_def)
  obtain i w1 where i: "get_next_peer_id w = (i, w1)" by fastforce
  obtain pp w2 where w2: "new_peer_connect a i n d w1 = Some (pp, w2)"
    using new_connect_total [OF secure_next_id [OF s i] d] by fastforce
  have "made w2 i (akey a) pp xs" using connect_made [OF next_id_mgr(1) [OF xs i] w2] next_id_mgr(2) [OF xs i] free by simp
  then obtain w3 where "add_peer pp w2 = Some w3" using add_made_total by blast
  then show ?thesis using i w2 by (simp add: connect_new_def)
qed

lemma connect_total:
  assumes ok: "manager_ok w" and s: "secure w" and d: "writer_ok d" shows "connect n a d w \<noteq> None"
proof (cases "m_peers w (akey a)")
  case None
  then show ?thesis using connect_new_total [OF ok s d] by (auto simp: connect_def)
next
  case (Some pp)
  obtain p where p: "get_peer pp w = Some p" using safeD(4) [OF secureD(1) [OF s] Some] by blast
  obtain w1 where w1: "remove_peer_internal a w = Some w1" using removed [OF ok] by blast
  have "manager_ok w1" using remove_manager [OF ok, unfolded remove_peer_def, OF w1] .
  moreover have "secure w1" by (rule secure_remove [OF s w1])
  moreover have "m_peers w1 (akey a) = None" by (rule removed_free [OF ok w1])
  ultimately have "\<exists>r. connect_new m a d w1 = Some r" for m using connect_new_total d by blast
  then show ?thesis using Some p w1 by (auto simp: connect_def)
qed

lemma shutdown_total:
  assumes w: "safe w" and p: "get_peer pp w = Some p" and d: "\<And>bs. data = Some bs \<Longrightarrow> off + n \<le> length bs"
  shows "peer_shutdown pp data off n False w \<noteq> None"
proof (cases "m_connection_state p = DISCONNECTED \<or> m_connection_state p = SHUTDOWN_REQUESTED")
  case True
  then show ?thesis using p by (simp add: peer_shutdown_def)
next
  case active: False
  let ?sp = "set_connection_number (m_connect_number p) (resize_with DISCONNECT n (m_shutdown_packet p))"
  have wf: "wf_packet ?sp" "m_size ?sp = n + 9"
    using wf_resize [of "m_shutdown_packet p" "n + 9"] by (simp_all add: resize_with_def resize_def)
  then have b: "n + 9 \<le> buffer_size ?sp" by (simp add: wf_packet_def)
  obtain sp1 where sp1: "set_i64_at (m_connect_time p) 1 ?sp = Some sp1" "buffer_size sp1 = buffer_size ?sp" "m_size sp1 = n + 9"
    using set_at_total(3) [of 1 ?sp "m_connect_time p"] b wf(2) by (auto simp: ensures_def)
  let ?m = "if m_size sp1 \<ge> POSSIBLE_MTU ! 0 then Some sp1
            else case data of None \<Rightarrow> Some sp1 | Some data \<Rightarrow> if n > 0 then copy_from data off 9 n sp1 else Some sp1"
  have "\<exists>sp2. ?m = Some sp2 \<and> buffer_size sp2 = buffer_size sp1 \<and> m_size sp2 = m_size sp1"
    using copy_fits [of off n _ 9 sp1] d b sp1 by (cases data) auto
  then obtain sp2 where sp2: "?m = Some sp2" "buffer_size sp2 = buffer_size sp1" "m_size sp2 = m_size sp1" by blast
  have wf2: "wf_packet sp2" by (rule wf_by_size [OF wf(1)]) (use sp1 sp2 wf(2) in simp_all)
  let ?p = "p\<lparr>m_time_since_last_packet := 0, m_shutdown_packet := sp2, m_connection_state := SHUTDOWN_REQUESTED\<rparr>"
  have "peer_evolves p ?p" using active by (intro state_change_evolves) (simp_all add: state_le_def same_vitals_def)
  moreover have "peer_rest ?p" using safeD(2) [OF w p] wf2 by (simp add: peer_rest_defs)
  ultimately have "safe_to w (put_peer pp ?p w)" by (intro safe_put [OF w p]) (simp_all add: chans_stay_def)
  then obtain k v where "send_packet sp2 (m_endpoint p) (put_peer pp ?p w) = Some (k, v)"
    using sent_total [OF safe_toD(1) [OF w] wf2] by fastforce
  then show ?thesis using p active sp1(1) sp2(1) unfolding peer_shutdown_def Let_def
    by (simp add: vget_def POSSIBLE_MTU_def)
qed

lemma disconnect_each_total:
  assumes "secure w" "\<And>bs. data = Some bs \<Longrightarrow> off + n \<le> length bs"
  shows "disconnect_each data off n as w \<noteq> None"
  using assms(1)
proof (induction as arbitrary: w)
  case (Cons a as)
  have "\<exists>w1. disconnect_peer a DISCONNECT_PEER_CALLED 0 False data off n None w = Some w1"
  proof (cases "try_get_peer a w")
    case (Some pp)
    then obtain p where p: "get_peer pp w = Some p" using known_peer [OF secureD(1) [OF Cons.prems]] by blast
    obtain r v where "peer_shutdown pp data off n False w = Some (r, v)"
      using shutdown_total [OF secureD(1) [OF Cons.prems] p, of data off n] assms(2) by fastforce
    then show ?thesis using Some by (simp add: disconnect_peer_def create_event_def default_event_def)
  qed (simp add: disconnect_peer_def)
  then obtain w1 where w1: "disconnect_peer a DISCONNECT_PEER_CALLED 0 False data off n None w = Some w1" by blast
  from Cons.IH [OF secure_disconnect [OF Cons.prems w1]] w1 show ?case by simp
qed simp

lemma disconnect_all_total:
  assumes ok: "manager_ok w" and s: "secure w" and d: "\<And>bs. data = Some bs \<Longrightarrow> off + n \<le> length bs"
  shows "disconnect_all data off n w \<noteq> None"
proof -
  obtain xs l where "dlseg (next_of w) (prev_of w) (m_head_peer w) None xs None l" "\<forall>pp \<in> set xs. peer_heap w pp \<noteq> None"
    by (rule manager_list [OF ok]) (rule that)
  then show ?thesis using disconnect_each_total [OF s d] walk_addresses by (simp add: disconnect_all_def)
qed

section \<open>What the events are about\<close>

text \<open>A call of the listener whose pointers point to something and whose reader lies in its packet.\<close>

fun callback_live :: "world \<Rightarrow> callback \<Rightarrow> bool" where
  "callback_live w (On_peer_connected q) = (\<exists>pp p. q = Some pp \<and> get_peer pp w = Some p)"
| "callback_live w (On_peer_disconnected q info) = ((\<exists>pp p. q = Some pp \<and> get_peer pp w = Some p) \<and>
     (\<forall>r. additional_data info = Some r \<longrightarrow> reader_ok r))"
| "callback_live w (On_network_error a e msg) = True"
| "callback_live w (On_network_receive q r c dm) = ((\<exists>pp p. q = Some pp \<and> get_peer pp w = Some p) \<and> reader_ok r)"
| "callback_live w (On_network_receive_unconnected a r t) = reader_ok r"
| "callback_live w (On_network_latency_update q n) = (\<exists>pp p. q = Some pp \<and> get_peer pp w = Some p)"
| "callback_live w (On_connection_request q) = (\<exists>rp r. q = Some rp \<and> request_heap w rp = Some r)"
| "callback_live w (On_message_delivered q u) = (\<exists>pp p. q = Some pp \<and> get_peer pp w = Some p)"

lemma told_callback:
  assumes "told w e" "event_known w e" "event_callback e = Some (Some c)" shows "callback_live w c"
  using assms by (cases "ev_type e") (auto simp: event_callback_def told_def names_peer_def event_known_def elim!: bind_SomeE)

section \<open>Polling\<close>

definition returns_on :: "(callback \<Rightarrow> world \<Rightarrow> world option) \<Rightarrow> net_event \<Rightarrow> bool" where
  "returns_on listener e \<longleftrightarrow> (\<forall>c v. event_callback e = Some (Some c) \<and> manager_ok v \<and> secure v \<and> callback_live v c \<longrightarrow>
     listener c v \<noteq> None)"

text \<open>The assertion behind a call of the listener asks for a recycled event, which only \<open>auto_recycle\<close> gives.\<close>

lemma live_event_total:
  assumes l: "app_listener listener" "returns_on listener e" and ok: "manager_ok w" "secure w"
    and e: "e \<in> set (m_events_consume_queue w)"
  shows "process_event listener e w \<noteq> None \<longleftrightarrow> auto_recycle w \<or> m_recycled e"
proof -
  have known: "event_known w e" using ok(1) e by (auto simp: manager_ok_def mgr_ok_def around_ok_def events_ok_def)
  then have "event_callback e \<noteq> None"
    by (cases "ev_type e") (auto simp: event_callback_def event_known_def event_ok_def reads_data_def)
  then obtain cb where cb: "event_callback e = Some cb" by auto
  have live: "cb = Some c \<Longrightarrow> callback_live w c" for c
    using told_callback [OF secureD(5) [OF ok(2)] known] e cb by (simp add: events_waiting_def)
  obtain w1 where w1: "(case cb of None \<Rightarrow> Some w | Some c \<Rightarrow> listener c w) = Some w1"
    using l(2) cb live ok(1,2) by (cases cb) (auto simp: returns_on_def)
  have "app_step\<^sup>*\<^sup>* w w1" using l(1) w1 by (auto simp: app_listener_def split: option.splits)
  then have 1: "manager_ok w1" "app_frame w w1" using app_steps_ok ok(1) by blast+
  obtain e' w2 where e': "event_recycle e w1 = Some (e', w2)"
    using event_recycle_total [OF 1(1)] event_known_frame [OF 1(2) known] by fastforce
  have "auto_recycle w1 = auto_recycle w" using 1(2) by (simp add: app_frame_def)
  then show ?thesis using cb w1 e' event_recycle_ok [OF 1(1) e'] by (cases "auto_recycle w") (simp_all add: process_event_def)
qed

lemma live_events_total:
  assumes "app_listener listener"
  shows "manager_ok w \<Longrightarrow> secure w \<Longrightarrow> set es \<subseteq> set (m_events_consume_queue w) \<Longrightarrow> \<forall>e \<in> set es. returns_on listener e \<Longrightarrow>
    process_events listener es w \<noteq> None \<longleftrightarrow> auto_recycle w \<or> (\<forall>e \<in> set es. m_recycled e)"
proof (induction es arbitrary: w)
  case (Cons e es)
  have e: "process_event listener e w \<noteq> None \<longleftrightarrow> auto_recycle w \<or> m_recycled e"
    using live_event_total [OF assms _ Cons.prems(1,2), of e] Cons.prems(3,4) by simp
  show ?case
  proof (cases "process_event listener e w")
    case None
    with e show ?thesis by simp
  next
    case (Some w1)
    note 1 = process_event_ok [OF assms Cons.prems(1) Some]
    then have "auto_recycle w1 = auto_recycle w" "m_events_consume_queue w1 = m_events_consume_queue w" by (simp_all add: app_frame_def)
    moreover from this have "process_events listener es w1 \<noteq> None \<longleftrightarrow> auto_recycle w1 \<or> (\<forall>e \<in> set es. m_recycled e)"
      using 1 secure_process_event [OF assms Cons.prems(2) Some] Cons.prems(3,4) by (intro Cons.IH) simp_all
    ultimately show ?thesis using e Some by auto
  qed
qed simp

lemma live_poll_total:
  assumes l: "app_listener listener" "\<And>e. e \<in> set (m_events_produce_queue w) \<Longrightarrow> returns_on listener e"
    and ok: "manager_ok w" "secure w"
  shows "poll_events listener w \<noteq> None \<longleftrightarrow> auto_recycle w \<or> (\<forall>e \<in> set (m_events_produce_queue w). m_recycled e)"
proof -
  let ?w1 = "w\<lparr>m_events_produce_queue := m_events_consume_queue w, m_events_consume_queue := m_events_produce_queue w\<rparr>"
  have "manager_ok ?w1" by (rule queues_ok [OF ok(1)]) auto
  moreover have "secure ?w1" by (rule secure_table [OF ok(2)]) (auto simp: events_waiting_def)
  ultimately have "process_events listener (m_events_consume_queue ?w1) ?w1 \<noteq> None \<longleftrightarrow>
      auto_recycle ?w1 \<or> (\<forall>e \<in> set (m_events_consume_queue ?w1). m_recycled e)"
    using l(2) by (intro live_events_total [OF l(1)]) simp_all
  then show ?thesis by (cases "process_events listener (m_events_consume_queue ?w1) ?w1") (simp_all add: poll_events_def Let_def)
qed

lemma poll_keeps_option:
  assumes "app_listener listener"
  shows "manager_ok w \<Longrightarrow> process_events listener es w = Some w' \<Longrightarrow> auto_recycle w' = auto_recycle w"
proof (induction es arbitrary: w)
  case (Cons e es)
  obtain w1 where 1: "process_event listener e w = Some w1" "process_events listener es w1 = Some w'"
    using Cons.prems(2) by (auto elim: bind_SomeE)
  then show ?case using process_event_ok [OF assms Cons.prems(1) 1(1)] Cons.IH [of w1] by (simp add: app_frame_def)
qed simp

lemma poll_option:
  assumes "app_listener listener" "manager_ok w" "poll_events listener w = Some w'" shows "auto_recycle w' = auto_recycle w"
proof -
  let ?w1 = "w\<lparr>m_events_produce_queue := m_events_consume_queue w, m_events_consume_queue := m_events_produce_queue w\<rparr>"
  have "manager_ok ?w1" by (rule queues_ok [OF assms(2)]) auto
  then show ?thesis using poll_keeps_option [OF assms(1), of ?w1] assms(3) by (auto simp: poll_events_def Let_def elim!: bind_SomeE)
qed

section \<open>The promises\<close>

text \<open>C7: In every reachable world every event that waits for the listener is about something that is there: an
  event about a peer has a pointer to a peer, a connection request has a pointer to a request that still
  holds its packet, and a reader starts and ends inside the bytes it reads.\<close>

theorem events_name_objects:
  assumes "reach init_world net_step w" "e \<in> set (m_events_consume_queue w) \<union> set (m_events_produce_queue w)"
  shows "(names_peer (ev_type e) \<longrightarrow> (\<exists>pp p. ev_peer e = Some pp \<and> get_peer pp w = Some p)) \<and>
    (ev_type e = EVENT_CONNECTION_REQUEST \<longrightarrow> (\<exists>rp r q. connectionRequest e = Some rp \<and> request_heap w rp = Some r \<and> m_internal_packet r = Some q)) \<and>
    (\<forall>r. ev_reader e = Some r \<longrightarrow> reader_ok r)"
proof -
  have ok: "manager_ok w" "secure w" using secure_net.reach_inv [OF assms(1)] by simp_all
  have t: "told w e" using secureD(5) [OF ok(2)] assms(2) by (simp add: events_waiting_def)
  have "event_known w e" using ok(1) assms(2) by (auto simp: manager_ok_def mgr_ok_def around_ok_def events_ok_def)
  then have "connectionRequest e = Some rp \<Longrightarrow> \<exists>r q. request_heap w rp = Some r \<and> m_internal_packet r = Some q" for rp
    using request_known [OF ok(1)] by (auto simp: event_known_def)
  then show ?thesis using t by (auto simp: told_def)
qed

theorem events_name_objects_witness:
  "\<exists>e rp r q. m_events_produce_queue sample_asked = [e] \<and> connectionRequest e = Some rp \<and> request_heap sample_asked rp = Some r \<and>
     m_internal_packet r = Some q"
proof -
  obtain e where e: "m_events_produce_queue sample_asked = [e]" "ev_type e = EVENT_CONNECTION_REQUEST"
    using sample_asked_facts(2) by auto
  then show ?thesis using events_name_objects [OF sample_reach(3), of e] by auto
qed

text \<open>C6: Exactly when polling is safe in a reachable world. For a listener whose callbacks only make calls of the
  library and return whenever the peer, the request and the reader they are given are there, \<open>poll_events\<close>
  returns, empties its queue and keeps the invariant of the manager exactly when \<open>auto_recycle\<close> is on or every
  waiting event was recycled before. So with \<open>auto_recycle\<close> on the listener may follow the pointers it gets
  and read the bytes it is told to remain; and with it off the assertion behind the call of the listener fails
  for the first event that comes as it was created.\<close>

theorem polling_safe:
  assumes "reach init_world net_step w" "app_listener listener"
    and "\<And>e. e \<in> set (m_events_produce_queue w) \<Longrightarrow> returns_on listener e"
  shows "(\<exists>w'. poll_events listener w = Some w' \<and> m_events_consume_queue w' = [] \<and> manager_ok w') \<longleftrightarrow>
    auto_recycle w \<or> (\<forall>e \<in> set (m_events_produce_queue w). m_recycled e)"
proof -
  have ok: "manager_ok w" "secure w" using secure_net.reach_inv [OF assms(1)] by simp_all
  have "m_events_consume_queue w' = [] \<and> manager_ok w'" if "poll_events listener w = Some w'" for w'
    using that poll_ok [OF assms(2) ok(1) that] by (auto simp: poll_events_def Let_def elim!: bind_SomeE)
  then show ?thesis using live_poll_total [OF assms(2,3) ok] by auto
qed

text \<open>A listener that accepts every request, and follows the pointer to it.\<close>

definition accepting :: "callback \<Rightarrow> world \<Rightarrow> world option" where
  "accepting c w = (case c of
      On_connection_request rp \<Rightarrow> do { request \<leftarrow> rp; (_, w1) \<leftarrow> request_accept request w; Some w1 }
    | _ \<Rightarrow> Some w)"

lemma accepting_returns: "returns_on accepting e"
  unfolding returns_on_def
proof (intro allI impI)
  fix c v assume a: "event_callback e = Some (Some c) \<and> manager_ok v \<and> secure v \<and> callback_live v c"
  then show "accepting c v \<noteq> None"
    using accept_total [of v] by (cases c) (fastforce simp: accepting_def)+
qed

theorem polling_safe_witness:
  "\<exists>w'. poll_events accepting sample_asked = Some w' \<and> m_events_consume_queue w' = [] \<and> manager_ok w'"
proof (rule polling_safe [OF sample_reach(3) _ accepting_returns, THEN iffD2])
  show "app_listener accepting"
    by (auto simp: app_listener_def accepting_def split: callback.splits elim!: bind_SomeE intro: app_step.app_accept)
qed (use sample_asked_facts(3) in simp)

text \<open>C8: In every reachable world the calls of the application return: accepting a request that is there,
  connecting to any address with data that lies in its writer, and disconnecting all peers with data
  that is long enough.\<close>

theorem calls_return:
  assumes "reach init_world net_step w"
  shows "(request_heap w rp \<noteq> None \<longrightarrow> request_accept rp w \<noteq> None) \<and>
    (writer_ok d \<longrightarrow> connect n a d w \<noteq> None) \<and>
    ((\<forall>bs. data = Some bs \<longrightarrow> off + k \<le> length bs) \<longrightarrow> disconnect_all data off k w \<noteq> None)"
proof -
  have ok: "manager_ok w" "secure w" using secure_net.reach_inv [OF assms(1)] by simp_all
  show ?thesis
    by (intro conjI impI) (erule accept_total [OF ok], erule connect_total [OF ok], rule disconnect_all_total [OF ok], blast)
qed

theorem calls_return_witness:
  "connect 0 sample_server new_writer sample_start \<noteq> None \<and> request_accept 0 sample_asked \<noteq> None \<and>
   disconnect_all None 0 5 sample_connected \<noteq> None"
proof -
  have "request_heap sample_asked 0 \<noteq> None" using sample_accepted_facts(1) by (auto simp: request_accept_def elim: bind_SomeE)
  moreover have "writer_ok new_writer" by (simp add: writer_ok_def new_writer_def)
  ultimately show ?thesis
    using calls_return [OF sample_reach(1), of 0 new_writer 0 sample_server None 0 0] calls_return [OF sample_reach(3), of 0 new_writer 0 sample_server None 0 0]
      calls_return [OF sample_reach(5), of 0 new_writer 0 sample_server None 0 5] by simp
qed

end
