(* ===== verification/Address_Text.thy ===== *)
theory Address_Text
  imports Net_Peer
begin

text \<open>
  The texts of an address (\<open>net_address.h\<close>). The class keeps the last text of the IP address, the last
  text with the port, and the address both were made for; \<open>address()\<close> and \<open>to_string()\<close> return a kept
  text when the address is still that one. \<open>inet_ntop\<close> and \<open>getaddrinfo\<close> are arguments. \<open>inet_ntop\<close> writes
  a text and a NUL to the front of the buffer, or fails and writes nothing.
\<close>

section \<open>The class\<close>

record net_address =
  addr_raw :: sockaddr_in
  m_cached_address :: string
  m_cached_string_representation :: string
  m_old_addr :: sockaddr_in

definition new_address :: net_address where
  "new_address = \<lparr>addr_raw = zero_sockaddr\<lparr>sin_family := AF_INET\<rparr>, m_cached_address = [],
     m_cached_string_representation = [], m_old_addr = zero_sockaddr\<rparr>"

definition address_of :: "sockaddr_in \<Rightarrow> net_address" where
  "address_of a = new_address\<lparr>addr_raw := a\<rparr>"

text \<open>The constructor from a name and a port does not set the family.\<close>

definition named_address :: "(string \<Rightarrow> sockaddr_in list option) \<Rightarrow> string \<Rightarrow> u16 \<Rightarrow> net_address" where
  "named_address getaddrinfo name p =
     new_address\<lparr>addr_raw := set_port p (set_address getaddrinfo name zero_sockaddr)\<rparr>"

definition compare_and_update_addr :: "net_address \<Rightarrow> bool \<times> net_address" where
  "compare_and_update_addr a =
     (let result = encode_sockaddr (addr_raw a) = encode_sockaddr (m_old_addr a)
      in (result, if result then a else a\<lparr>m_old_addr := addr_raw a\<rparr>))"

abbreviation NUL :: char where "NUL \<equiv> CHR 0x00"

definition INET_ADDRSTRLEN :: nat where "INET_ADDRSTRLEN = 16"

text \<open>\<open>resize(n, '\0')\<close>, and \<open>erase(find_last_not_of('\0') + 1)\<close> of a string.\<close>

definition resize_string :: "nat \<Rightarrow> string \<Rightarrow> string" where
  "resize_string n s = take n s @ replicate (n - length s) NUL"

definition strip_nul :: "string \<Rightarrow> string" where
  "strip_nul s = rev (dropWhile (\<lambda>c. c = NUL) (rev s))"

definition cached_text :: "(u16 \<Rightarrow> i32 \<Rightarrow> string option) \<Rightarrow> net_address \<Rightarrow> string" where
  "cached_text inet_ntop a =
     (let buffer = resize_string (INET_ADDRSTRLEN + 1) (m_cached_address a)
      in strip_nul (case inet_ntop (sin_family (addr_raw a)) (s_addr (addr_raw a)) of
           None \<Rightarrow> buffer | Some t \<Rightarrow> (t @ [NUL]) @ drop (length t + 1) buffer))"

definition make_address :: "(u16 \<Rightarrow> i32 \<Rightarrow> string option) \<Rightarrow> net_address \<Rightarrow> string \<times> net_address" where
  "make_address inet_ntop a =
     (let t = cached_text inet_ntop a
      in (t, a\<lparr>m_cached_address := t, m_cached_string_representation := []\<rparr>))"

definition address :: "(u16 \<Rightarrow> i32 \<Rightarrow> string option) \<Rightarrow> net_address \<Rightarrow> string \<times> net_address" where
  "address inet_ntop a =
     (if m_cached_address a \<noteq> [] then
        let (same, a1) = compare_and_update_addr a
        in if same then (m_cached_address a1, a1) else make_address inet_ntop a1
      else make_address inet_ntop a)"

definition make_string :: "(u16 \<Rightarrow> i32 \<Rightarrow> string option) \<Rightarrow> net_address \<Rightarrow> string \<times> net_address" where
  "make_string inet_ntop a =
     (let (t, a1) = address inet_ntop (a\<lparr>m_cached_address := []\<rparr>);
          s = t @ '':'' @ decimal (unat (port (addr_raw a1)))
      in (s, a1\<lparr>m_cached_string_representation := s\<rparr>))"

definition to_string :: "(u16 \<Rightarrow> i32 \<Rightarrow> string option) \<Rightarrow> net_address \<Rightarrow> string \<times> net_address" where
  "to_string inet_ntop a =
     (if m_cached_string_representation a \<noteq> [] then
        let (same, a1) = compare_and_update_addr a
        in if same then (m_cached_string_representation a1, a1) else make_string inet_ntop a1
      else make_string inet_ntop a)"

section \<open>Use of an address\<close>

text \<open>An address is written to (\<open>raw\<close> is public, and \<open>recvfrom\<close> writes to it) and asked for its texts.\<close>

datatype address_use = Set_raw sockaddr_in | Get_address | Get_string

fun texts :: "(u16 \<Rightarrow> i32 \<Rightarrow> string option) \<Rightarrow> address_use list \<Rightarrow> net_address \<Rightarrow> string list" where
  "texts ntop [] a = []"
| "texts ntop (Set_raw r # us) a = texts ntop us (a\<lparr>addr_raw := r\<rparr>)"
| "texts ntop (Get_address # us) a = (let (s, a1) = address ntop a in s # texts ntop us a1)"
| "texts ntop (Get_string # us) a = (let (s, a1) = to_string ntop a in s # texts ntop us a1)"

text \<open>The reference: texts made anew for each call.\<close>

definition ip_text :: "(u16 \<Rightarrow> i32 \<Rightarrow> string option) \<Rightarrow> sockaddr_in \<Rightarrow> string" where
  "ip_text ntop r = (case ntop (sin_family r) (s_addr r) of None \<Rightarrow> [] | Some t \<Rightarrow> t)"

fun plain_texts :: "(u16 \<Rightarrow> i32 \<Rightarrow> string option) \<Rightarrow> address_use list \<Rightarrow> sockaddr_in \<Rightarrow> string list" where
  "plain_texts ntop [] r = []"
| "plain_texts ntop (Set_raw r # us) _ = plain_texts ntop us r"
| "plain_texts ntop (Get_address # us) r = ip_text ntop r # plain_texts ntop us r"
| "plain_texts ntop (Get_string # us) r = (ip_text ntop r @ '':'' @ decimal (unat (port r))) # plain_texts ntop us r"

text \<open>What is documented of \<open>inet_ntop\<close>: a text of at most 15 characters for every IPv4 address.\<close>

definition ntop_ok :: "(u16 \<Rightarrow> i32 \<Rightarrow> string option) \<Rightarrow> bool" where
  "ntop_ok ntop \<longleftrightarrow> (\<forall>i. \<exists>t. ntop AF_INET i = Some t \<and> t \<noteq> [] \<and> length t < INET_ADDRSTRLEN \<and> NUL \<notin> set t)"

definition ipv4_use :: "address_use \<Rightarrow> bool" where
  "ipv4_use u = (case u of Set_raw r \<Rightarrow> sin_family r = AF_INET | _ \<Rightarrow> True)"

definition up_to_nul :: "string \<Rightarrow> string" where
  "up_to_nul s = takeWhile (\<lambda>c. c \<noteq> NUL) s"

section \<open>The texts that are made\<close>

lemma strip_nul_append:
  "strip_nul (s @ u) = (if \<forall>c \<in> set u. c = NUL then strip_nul s else s @ strip_nul u)"
  by (auto simp: strip_nul_def dropWhile_append)

lemma strip_nul_id: "NUL \<notin> set s \<Longrightarrow> strip_nul s = s"
  by (cases s rule: rev_cases) (auto simp: strip_nul_def)

lemma ntop_text:
  assumes "ntop_ok ntop" "sin_family r = AF_INET"
  shows "ntop (sin_family r) (s_addr r) = Some (ip_text ntop r)" "ip_text ntop r \<noteq> []" "length (ip_text ntop r) < 16"
    "NUL \<notin> set (ip_text ntop r)"
  using assms unfolding ntop_ok_def ip_text_def INET_ADDRSTRLEN_def by (metis option.simps(5))+

lemma cached_text_eq:
  assumes "ntop_ok ntop" "sin_family (addr_raw a) = AF_INET"
  shows "cached_text ntop a =
     (let t = ip_text ntop (addr_raw a); rest = drop (length t + 1) (resize_string 17 (m_cached_address a))
      in if \<forall>c \<in> set rest. c = NUL then t else t @ NUL # strip_nul rest)"
proof -
  let ?t = "ip_text ntop (addr_raw a)" and ?rest = "drop (length (ip_text ntop (addr_raw a)) + 1) (resize_string 17 (m_cached_address a))"
  have "cached_text ntop a = strip_nul ((?t @ [NUL]) @ ?rest)"
    by (simp add: cached_text_def ntop_text(1) [OF assms] INET_ADDRSTRLEN_def Let_def)
  moreover have "strip_nul (?t @ [NUL]) = ?t"
    using strip_nul_append [of ?t "[NUL]"] strip_nul_id [OF ntop_text(4) [OF assms]] by simp
  moreover have "strip_nul (NUL # ?rest) = NUL # strip_nul ?rest" if "\<not> (\<forall>c \<in> set ?rest. c = NUL)"
    using strip_nul_append [of "[NUL]" ?rest] that by auto
  ultimately show ?thesis using strip_nul_append [of "?t @ [NUL]" ?rest] by (auto simp: Let_def)
qed

lemma cached_text_fresh:
  assumes "ntop_ok ntop" "sin_family (addr_raw a) = AF_INET" "m_cached_address a = []"
  shows "cached_text ntop a = ip_text ntop (addr_raw a)"
  using assms(3) by (auto simp: cached_text_eq [OF assms(1,2)] resize_string_def Let_def)

lemma cached_text_up_to_nul:
  assumes "ntop_ok ntop" "sin_family (addr_raw a) = AF_INET"
  shows "up_to_nul (cached_text ntop a) = ip_text ntop (addr_raw a)" "cached_text ntop a \<noteq> []"
  using ntop_text [OF assms]
  by (auto simp: cached_text_eq [OF assms] Let_def up_to_nul_def takeWhile_append takeWhile_eq_all_conv)

lemma compare_same: "encode_sockaddr x = encode_sockaddr y \<longleftrightarrow> x = y"
  by (metis decode_encode_sockaddr)

section \<open>What the kept texts are texts of\<close>

definition string_text :: "(u16 \<Rightarrow> i32 \<Rightarrow> string option) \<Rightarrow> sockaddr_in \<Rightarrow> string" where
  "string_text ntop r = ip_text ntop r @ '':'' @ decimal (unat (port r))"

definition strings_fresh :: "(u16 \<Rightarrow> i32 \<Rightarrow> string option) \<Rightarrow> net_address \<Rightarrow> bool" where
  "strings_fresh ntop a \<longleftrightarrow> sin_family (addr_raw a) = AF_INET \<and>
     (m_old_addr a = zero_sockaddr \<or> m_cached_string_representation a = string_text ntop (m_old_addr a))"

definition addresses_fresh :: "(u16 \<Rightarrow> i32 \<Rightarrow> string option) \<Rightarrow> net_address \<Rightarrow> bool" where
  "addresses_fresh ntop a \<longleftrightarrow> sin_family (addr_raw a) = AF_INET \<and>
     (m_old_addr a = zero_sockaddr \<or>
      m_cached_address a \<noteq> [] \<and> up_to_nul (m_cached_address a) = ip_text ntop (m_old_addr a))"

lemma not_zero: "sin_family r = AF_INET \<Longrightarrow> r \<noteq> zero_sockaddr"
  by (auto simp: zero_sockaddr_def AF_INET_def)

lemma make_string_eq:
  assumes "ntop_ok ntop" "sin_family (addr_raw a) = AF_INET"
  shows "make_string ntop a = (string_text ntop (addr_raw a),
     a\<lparr>m_cached_address := ip_text ntop (addr_raw a), m_cached_string_representation := string_text ntop (addr_raw a)\<rparr>)"
proof -
  have "cached_text ntop (a\<lparr>m_cached_address := []\<rparr>) = ip_text ntop (addr_raw a)"
    using cached_text_fresh [OF assms(1), of "a\<lparr>m_cached_address := []\<rparr>"] assms(2) by simp
  then show ?thesis by (simp add: make_string_def address_def make_address_def string_text_def Let_def)
qed

lemma to_string_right:
  assumes "ntop_ok ntop" "strings_fresh ntop a"
  shows "\<exists>a'. to_string ntop a = (string_text ntop (addr_raw a), a') \<and> strings_fresh ntop a' \<and> addr_raw a' = addr_raw a"
proof -
  have f: "sin_family (addr_raw a) = AF_INET" using assms(2) by (simp add: strings_fresh_def)
  show ?thesis
  proof (cases "m_cached_string_representation a = []")
    case True
    have "string_text ntop r \<noteq> []" for r by (simp add: string_text_def)
    from this [of "m_old_addr a"] have "m_old_addr a = zero_sockaddr" using True assms(2) by (auto simp: strings_fresh_def)
    then show ?thesis using True f by (simp add: to_string_def make_string_eq [OF assms(1)] strings_fresh_def)
  next
    case False
    then show ?thesis using f assms(2) not_zero [OF f]
      by (auto simp: to_string_def make_string_eq [OF assms(1)] strings_fresh_def compare_and_update_addr_def compare_same Let_def)
  qed
qed

lemma address_right:
  assumes "ntop_ok ntop" "addresses_fresh ntop a"
  shows "\<exists>s a'. address ntop a = (s, a') \<and> up_to_nul s = ip_text ntop (addr_raw a) \<and> addresses_fresh ntop a' \<and> addr_raw a' = addr_raw a"
proof -
  have f: "sin_family (addr_raw a) = AF_INET" using assms(2) by (simp add: addresses_fresh_def)
  note c = cached_text_up_to_nul [OF assms(1)]
  show ?thesis
  proof (cases "m_cached_address a = []")
    case True
    then show ?thesis using f assms(2) c [OF f] by (auto simp: address_def make_address_def addresses_fresh_def Let_def)
  next
    case False
    then show ?thesis using f assms(2) not_zero [OF f] c [of "a\<lparr>m_old_addr := addr_raw a\<rparr>"]
      by (auto simp: address_def make_address_def addresses_fresh_def compare_and_update_addr_def compare_same Let_def)
  qed
qed

lemma texts_of_strings:
  assumes n: "ntop_ok ntop"
  shows "list_all ipv4_use us \<Longrightarrow> Get_address \<notin> set us \<Longrightarrow> strings_fresh ntop a \<Longrightarrow>
    texts ntop us a = plain_texts ntop us (addr_raw a)"
proof (induction us arbitrary: a)
  case (Cons u us)
  show ?case
  proof (cases u)
    case (Set_raw r)
    have "strings_fresh ntop (a\<lparr>addr_raw := r\<rparr>)" using Set_raw Cons.prems by (simp add: ipv4_use_def strings_fresh_def)
    then show ?thesis using Cons.IH [of "a\<lparr>addr_raw := r\<rparr>"] Cons.prems Set_raw by simp
  next
    case Get_string
    obtain a' where a': "to_string ntop a = (string_text ntop (addr_raw a), a')" "strings_fresh ntop a'" "addr_raw a' = addr_raw a"
      using to_string_right [OF n] Cons.prems by blast
    then show ?thesis using Cons.IH [OF _ _ a'(2)] Cons.prems Get_string by (simp add: string_text_def)
  qed (use Cons.prems in simp)
qed simp

lemma texts_of_addresses:
  assumes n: "ntop_ok ntop"
  shows "list_all ipv4_use us \<Longrightarrow> Get_string \<notin> set us \<Longrightarrow> addresses_fresh ntop a \<Longrightarrow>
    List.map up_to_nul (texts ntop us a) = plain_texts ntop us (addr_raw a)"
proof (induction us arbitrary: a)
  case (Cons u us)
  show ?case
  proof (cases u)
    case (Set_raw r)
    have "addresses_fresh ntop (a\<lparr>addr_raw := r\<rparr>)" using Set_raw Cons.prems by (simp add: ipv4_use_def addresses_fresh_def)
    then show ?thesis using Cons.IH [of "a\<lparr>addr_raw := r\<rparr>"] Cons.prems Set_raw by simp
  next
    case Get_address
    obtain s a' where a': "address ntop a = (s, a')" "up_to_nul s = ip_text ntop (addr_raw a)"
      "addresses_fresh ntop a'" "addr_raw a' = addr_raw a" using address_right [OF n] Cons.prems by blast
    then show ?thesis using Cons.IH [OF _ _ a'(3)] Cons.prems Get_address by simp
  qed (use Cons.prems in simp)
qed simp

text \<open>The texts of IPv4 addresses as \<open>inet_ntop\<close> documents them: four decimals with dots.\<close>

definition sample_ntop :: "u16 \<Rightarrow> i32 \<Rightarrow> string option" where
  "sample_ntop f i =
     (if f = AF_INET
      then case List.map (\<lambda>b :: u8. decimal (unat b)) (le_bytes 4 i) of
          [a, b, c, d] \<Rightarrow> Some (a @ ''.'' @ b @ ''.'' @ c @ ''.'' @ d)
        | _ \<Rightarrow> None
      else None)"

lemma decimal_u8:
  "length (decimal (unat (b :: u8))) \<le> 3" "NUL \<notin> set (decimal (unat b))"
proof -
  have d: "char_of (48 + k) \<noteq> NUL" if "k < 10" for k :: nat
  proof
    assume "char_of (48 + k) = NUL"
    then have "of_char (char_of (48 + k) :: char) = (0 :: nat)" by simp
    then show False using that by simp
  qed
  have "unat b < 256" by (rule order_less_le_trans [OF unsigned_less]) simp
  then have "unat b < 10 \<or> 10 \<le> unat b \<and> unat b div 10 < 10 \<or> 10 \<le> unat b \<and> 10 \<le> unat b div 10 \<and> unat b div 10 div 10 < 10"
    by linarith
  then show "length (decimal (unat b)) \<le> 3" "NUL \<notin> set (decimal (unat b))"
    using d [of "unat b mod 10"] d [of "unat b div 10 mod 10"] d [of "unat b"] d [of "unat b div 10"] d [of "unat b div 10 div 10"]
    by (auto simp: decimal.simps [of "unat b"] decimal.simps [of "unat b div 10"] decimal.simps [of "unat b div 10 div 10"])
qed

lemma sample_ntop_ok: "ntop_ok sample_ntop"
proof -
  have "\<exists>t. sample_ntop AF_INET i = Some t \<and> t \<noteq> [] \<and> length t < 16 \<and> NUL \<notin> set t" for i
  proof -
    have "length (le_bytes 4 i) = 4" by simp
    then obtain a b c d :: u8 where l: "le_bytes 4 i = [a, b, c, d]" by (auto simp: numeral_eq_Suc length_Suc_conv)
    show ?thesis using decimal_u8 [of a] decimal_u8 [of b] decimal_u8 [of c] decimal_u8 [of d]
      by (auto simp: sample_ntop_def l)
  qed
  then show ?thesis by (simp add: ntop_ok_def INET_ADDRSTRLEN_def)
qed

text \<open>C25: The kept texts cannot be told from texts made anew, as long as an address is only asked for
  one of the two: with \<open>to_string()\<close> every text is right, whatever addresses were assigned in
  between; with \<open>address()\<close> every text is right up to its first NUL.
\<close>

theorem address_texts_right:
  assumes "ntop_ok ntop" "list_all ipv4_use us" "sin_family r = AF_INET"
  shows "(Get_address \<notin> set us \<longrightarrow> texts ntop us (address_of r) = plain_texts ntop us r) \<and>
    (Get_string \<notin> set us \<longrightarrow> List.map up_to_nul (texts ntop us (address_of r)) = plain_texts ntop us r)"
proof -
  have "strings_fresh ntop (address_of r)" "addresses_fresh ntop (address_of r)" "addr_raw (address_of r) = r"
    using assms(3) by (simp_all add: strings_fresh_def addresses_fresh_def address_of_def new_address_def)
  then show ?thesis using texts_of_strings [OF assms(1,2), of "address_of r"] texts_of_addresses [OF assms(1,2), of "address_of r"]
    by simp
qed

definition ip :: "i32 \<Rightarrow> sockaddr_in" where
  "ip i = zero_sockaddr\<lparr>sin_family := AF_INET, s_addr := i\<rparr>"

theorem address_texts_right_witness:
  "texts sample_ntop [Get_string, Set_raw (ip 0x01020304), Get_string] (address_of (ip 0x0100007F)) = [''127.0.0.1:0'', ''4.3.2.1:0'']"
proof -
  have "list_all ipv4_use [Get_string, Set_raw (ip 0x01020304), Get_string]" "sin_family (ip 0x0100007F) = AF_INET"
    by (simp_all add: ipv4_use_def ip_def)
  then have "texts sample_ntop [Get_string, Set_raw (ip 0x01020304), Get_string] (address_of (ip 0x0100007F)) =
    plain_texts sample_ntop [Get_string, Set_raw (ip 0x01020304), Get_string] (ip 0x0100007F)"
    using address_texts_right [OF sample_ntop_ok] by (simp del: texts.simps plain_texts.simps)
  also have "\<dots> = [''127.0.0.1:0'', ''4.3.2.1:0'']" by code_simp
  finally show ?thesis .
qed

text \<open>An address that is asked for both kinds of texts can return the text of another address:
  \<open>to_string()\<close> makes a new text of the IP address and does not note the address it was made
  for, so when the address is set back, \<open>address()\<close> takes that text for its own.
\<close>

lemma address_text_stale:
  assumes "ntop_ok ntop" "sin_family a = AF_INET" "sin_family b = AF_INET" "a \<noteq> b"
  shows "texts ntop [Get_address, Get_address, Set_raw b, Get_string, Set_raw a, Get_address] (address_of a) =
    [ip_text ntop a, ip_text ntop a, string_text ntop b, ip_text ntop b]"
proof -
  have 1: "address ntop (address_of a) = (ip_text ntop a, (address_of a)\<lparr>m_cached_address := ip_text ntop a\<rparr>)"
    using cached_text_fresh [OF assms(1), of "address_of a"] assms(2)
    by (simp add: address_def make_address_def address_of_def new_address_def Let_def)
  let ?a = "(address_of a)\<lparr>m_cached_address := ip_text ntop a, m_old_addr := a\<rparr>"
  have "drop (length t + 1) (resize_string 17 t) = replicate (16 - length t) NUL" if "length t < 16" for t
    using that by (simp add: resize_string_def)
  then have "cached_text ntop ?a = ip_text ntop a"
    using assms(1,2) ntop_text(3) [OF assms(1,2)] by (simp add: cached_text_eq address_of_def new_address_def Let_def)
  then have 2: "address ntop ((address_of a)\<lparr>m_cached_address := ip_text ntop a\<rparr>) = (ip_text ntop a, ?a)"
    using ntop_text(2) [OF assms(1,2)] not_zero [OF assms(2)]
    by (simp add: address_def make_address_def address_of_def new_address_def compare_and_update_addr_def compare_same Let_def)
  have 3: "to_string ntop (?a\<lparr>addr_raw := b\<rparr>) = (string_text ntop b,
      ?a\<lparr>addr_raw := b, m_cached_address := ip_text ntop b, m_cached_string_representation := string_text ntop b\<rparr>)"
    using make_string_eq [OF assms(1), of "?a\<lparr>addr_raw := b\<rparr>"] assms(3) by (simp add: to_string_def address_of_def new_address_def)
  show ?thesis using ntop_text(2) [OF assms(1,3)]
    by (simp add: 1 2 3) (simp add: address_def compare_and_update_addr_def address_of_def)
qed

lemma address_text_stale_witness:
  "texts sample_ntop [Get_address, Get_address, Set_raw (ip 0x01020304), Get_string, Set_raw (ip 0x0100007F), Get_address]
     (address_of (ip 0x0100007F)) = [''127.0.0.1'', ''127.0.0.1'', ''4.3.2.1:0'', ''4.3.2.1'']"
proof -
  have "ip 0x0100007F \<noteq> ip 0x01020304" "sin_family (ip i) = AF_INET" for i by (simp_all add: ip_def zero_sockaddr_def)
  note address_text_stale [OF sample_ntop_ok this(2,2,1)]
  also have "[ip_text sample_ntop (ip 0x0100007F), ip_text sample_ntop (ip 0x0100007F), string_text sample_ntop (ip 0x01020304),
    ip_text sample_ntop (ip 0x01020304)] = [''127.0.0.1'', ''127.0.0.1'', ''4.3.2.1:0'', ''4.3.2.1'']" by code_simp
  finally show ?thesis .
qed

text \<open>When an address is changed to one with a shorter text, \<open>address()\<close> returns that text with a NUL and
  the tail of the old text behind it: the buffer keeps the old characters, and only NULs at its end
  are cut off.
\<close>

lemma address_text_tail:
  assumes "ntop_ok ntop" "sin_family a = AF_INET" "sin_family b = AF_INET"
    and short: "length (ip_text ntop b) + 1 < length (ip_text ntop a)"
  shows "texts ntop [Get_address, Set_raw b, Get_address] (address_of a) =
    [ip_text ntop a, ip_text ntop b @ NUL # drop (length (ip_text ntop b) + 1) (ip_text ntop a)]"
proof -
  let ?s = "ip_text ntop a" and ?t = "ip_text ntop b"
  have 1: "address ntop (address_of a) = (?s, (address_of a)\<lparr>m_cached_address := ?s\<rparr>)"
    using cached_text_fresh [OF assms(1), of "address_of a"] assms(2)
    by (simp add: address_def make_address_def address_of_def new_address_def Let_def)
  let ?a = "(address_of a)\<lparr>m_cached_address := ?s, addr_raw := b, m_old_addr := b\<rparr>"
  have l: "length ?s < 16" "NUL \<notin> set ?s" using ntop_text [OF assms(1,2)] by simp_all
  have d: "drop (length ?t + 1) (resize_string 17 ?s) = drop (length ?t + 1) ?s @ replicate (17 - length ?s) NUL"
    using l(1) short by (simp add: resize_string_def)
  have n: "NUL \<notin> set (drop (length ?t + 1) ?s)" using l(2) by (meson in_set_dropD)
  have ne: "drop (length ?t + 1) ?s \<noteq> []" using short by simp
  then obtain c where "c \<in> set (drop (length ?t + 1) ?s)" "c \<noteq> NUL" using n by (metis last_in_set)
  then have "cached_text ntop ?a = ?t @ NUL # drop (length ?t + 1) ?s"
    using assms(1,3) d n by (auto simp: cached_text_eq Let_def strip_nul_append strip_nul_id)
  then have "address ntop ((address_of a)\<lparr>m_cached_address := ?s, addr_raw := b\<rparr>) =
      (?t @ NUL # drop (length ?t + 1) ?s, ?a\<lparr>m_cached_address := ?t @ NUL # drop (length ?t + 1) ?s\<rparr>)"
    using ntop_text(2) [OF assms(1,2)] not_zero [OF assms(3)]
    by (simp add: address_def make_address_def address_of_def new_address_def compare_and_update_addr_def compare_same Let_def)
  then show ?thesis by (simp add: 1)
qed

lemma address_text_tail_witness:
  "texts sample_ntop [Get_address, Set_raw (ip 0x01020304), Get_address] (address_of (ip 0x0100007F)) =
     [''127.0.0.1'', ''4.3.2.1'' @ NUL # ''1'']"
proof -
  have f: "sin_family (ip i) = AF_INET" for i by (simp add: ip_def)
  have t: "ip_text sample_ntop (ip 0x0100007F) = ''127.0.0.1''" "ip_text sample_ntop (ip 0x01020304) = ''4.3.2.1''"
    by code_simp+
  show ?thesis using address_text_tail [OF sample_ntop_ok f [of "0x0100007F"] f [of "0x01020304"]]
    by (simp add: t del: texts.simps)
qed

end
