(* ===== verification/Net_Threads.thy ===== *)
theory Net_Threads
  imports Sample_World
begin

text \<open>
  The socket and the two threads of a manager (\<open>net_manager.cpp\<close>, as built on Linux): \<open>start\<close> opens and binds the
  socket and makes the threads, whose bodies are the loops \<open>receive_logic\<close> and \<open>update_logic\<close>. The system
  calls are arguments: \<open>sys\<close> gives the result of each, and the operations return the calls they made, in
  order. What happens between two turns of a loop is an argument too. Making a thread is assumed to
  succeed; assigning a thread to a variable that already holds a running one ends the program.
\<close>

section \<open>The socket\<close>

datatype socket_level = SOL_SOCKET | IPPROTO_IP

datatype socket_option = SO_RCVTIMEO | SO_SNDTIMEO | SO_RCVBUF | SO_SNDBUF | SO_REUSEADDR | IP_TTL | SO_BROADCAST

datatype option_value = Timeval int int | Int32 int

datatype sys_call =
  Socket
| Setsockopt int socket_level socket_option option_value
| Bind int sockaddr_in
| Getsockname int
| Shutdown int
| Close int

text \<open>The fields of the manager that only the set-up uses; the threads are known by being joinable.\<close>

record host =
  manager :: world
  m_socket :: int
  m_receive_thread :: bool
  m_logic_thread :: bool
  m_bind_address :: sockaddr_in
  reuse_address :: int

definition INVALID_SOCKET :: int where "INVALID_SOCKET = - 1"
definition SOCKET_ERROR :: int where "SOCKET_ERROR = - 1"
definition SOCKET_BUFFER_SIZE :: int where "SOCKET_BUFFER_SIZE = 1024 * 1024"
definition SOCKET_TTL :: int where "SOCKET_TTL = 255"

definition new_host :: "world \<Rightarrow> host" where
  "new_host w = \<lparr>manager = w, m_socket = INVALID_SOCKET, m_receive_thread = False, m_logic_thread = False,
     m_bind_address = default_address, reuse_address = 0\<rparr>"

definition set_socket_option :: "(sys_call \<Rightarrow> int) \<Rightarrow> int \<Rightarrow> socket_level \<Rightarrow> socket_option \<Rightarrow> option_value \<Rightarrow> bool \<times> sys_call list" where
  "set_socket_option sys s level opt val = (let c = Setsockopt s level opt val in (sys c = 0, [c]))"

text \<open>A sequence of options, up to the first that cannot be set.\<close>

fun set_socket_options ::
  "(sys_call \<Rightarrow> int) \<Rightarrow> int \<Rightarrow> (socket_level \<times> socket_option \<times> option_value) list \<Rightarrow> bool \<times> sys_call list" where
  "set_socket_options sys s [] = (True, [])"
| "set_socket_options sys s ((level, opt, val) # opts) =
     (let (ok, calls) = set_socket_option sys s level opt val
      in if \<not> ok then (False, calls)
         else let (ok', calls') = set_socket_options sys s opts in (ok', calls @ calls'))"

definition bind_options :: "int \<Rightarrow> (socket_level \<times> socket_option \<times> option_value) list" where
  "bind_options reuse =
     [(SOL_SOCKET, SO_RCVTIMEO, Timeval 0 500000), (SOL_SOCKET, SO_SNDTIMEO, Timeval 0 500000),
      (SOL_SOCKET, SO_RCVBUF, Int32 SOCKET_BUFFER_SIZE), (SOL_SOCKET, SO_SNDBUF, Int32 SOCKET_BUFFER_SIZE),
      (SOL_SOCKET, SO_REUSEADDR, Int32 reuse), (IPPROTO_IP, IP_TTL, Int32 SOCKET_TTL), (SOL_SOCKET, SO_BROADCAST, Int32 1)]"

text \<open>\<open>bound\<close> is the address \<open>getsockname\<close> writes when it succeeds.\<close>

definition bind_socket :: "(sys_call \<Rightarrow> int) \<Rightarrow> sockaddr_in \<Rightarrow> sockaddr_in \<Rightarrow> host \<Rightarrow> bool \<times> sys_call list \<times> host" where
  "bind_socket sys bound addr h =
     (let s = m_socket h; (ok, calls) = set_socket_options sys s (bind_options (reuse_address h))
      in if \<not> ok then (False, calls, h)
         else if sys (Bind s addr) = SOCKET_ERROR then (False, calls @ [Bind s addr], h)
         else if sys (Getsockname s) = SOCKET_ERROR then (False, calls @ [Bind s addr, Getsockname s], h)
         else (True, calls @ [Bind s addr, Getsockname s], h\<lparr>m_bind_address := bound\<rparr>))"

definition start :: "(sys_call \<Rightarrow> int) \<Rightarrow> sockaddr_in \<Rightarrow> sockaddr_in \<Rightarrow> host \<Rightarrow> (bool \<times> sys_call list \<times> host) option" where
  "start sys bound addr h =
     (let h1 = h\<lparr>m_socket := sys Socket\<rparr>
      in if m_socket h1 = INVALID_SOCKET then Some (False, [Socket], h1)
         else
           let (ok, calls, h2) = bind_socket sys bound addr h1
           in if \<not> ok then Some (False, Socket # calls, h2)
              else
                let h3 = h2\<lparr>manager := (manager h2)\<lparr>m_running := True\<rparr>\<rparr>
                in if m_receive_thread h3 \<or> m_logic_thread h3 then None
                   else Some (True, Socket # calls, h3\<lparr>m_receive_thread := True, m_logic_thread := True\<rparr>))"

definition start_port :: "(sys_call \<Rightarrow> int) \<Rightarrow> sockaddr_in \<Rightarrow> u16 \<Rightarrow> host \<Rightarrow> (bool \<times> sys_call list \<times> host) option" where
  "start_port sys bound p h = start sys bound (zero_sockaddr\<lparr>sin_port := htons p, sin_family := AF_INET, s_addr := 0\<rparr>) h"

text \<open>The body of the destructor: the threads are joined, which have ended by then; the results of the last two calls are ignored.\<close>

definition delete_host :: "host \<Rightarrow> (sys_call list \<times> host) option" where
  "delete_host h = do {
     w \<leftarrow> destroy_manager (manager h);
     Some ([Shutdown (m_socket h), Close (m_socket h)],
       h\<lparr>manager := w, m_receive_thread := False, m_logic_thread := False, m_socket := INVALID_SOCKET\<rparr>)
   }"

section \<open>The loops of the threads\<close>

text \<open>
  One turn of the receiving thread: what the other threads do before it, the number \<open>ioctl\<close> writes (or
  its failure), the result of \<open>poll\<close> and whether it reports input, and the outcome of \<open>recvfrom\<close>.
\<close>

record receive_turn =
  others :: "world \<Rightarrow> world"
  ioctl_fionread :: "nat option"
  poll_result :: int
  poll_in :: bool
  recvfrom :: "(bytes \<times> sockaddr_in) option"

definition get_socket_available_data :: "nat option \<Rightarrow> nat" where
  "get_socket_available_data ioctl = (case ioctl of None \<Rightarrow> 0 | Some n \<Rightarrow> n)"

definition socket_poll :: "int \<Rightarrow> bool \<Rightarrow> bool" where
  "socket_poll result pollin = (if result < 0 then False else pollin)"

fun receive_logic :: "receive_turn list \<Rightarrow> world \<Rightarrow> world option" where
  "receive_logic [] w = Some w"
| "receive_logic (i # turns) w =
     (let w0 = others i w
      in if \<not> m_running w0 then Some w0
         else if get_socket_available_data (ioctl_fionread i) = 0 \<and> \<not> socket_poll (poll_result i) (poll_in i)
         then receive_logic turns w0
         else do { w1 \<leftarrow> receive_datagram (recvfrom i) w0; receive_logic turns w1 })"

fun update_loop :: "(world \<Rightarrow> world) list \<Rightarrow> net_stopwatch \<Rightarrow> world \<Rightarrow> world option" where
  "update_loop [] stopwatch w = Some w"
| "update_loop (f # turns) stopwatch w =
     (let w0 = f w
      in if \<not> m_running w0 then Some w0
         else do { (_, stopwatch1, w1) \<leftarrow> update_logic_turn stopwatch w0; update_loop turns stopwatch1 w1 })"

definition update_logic :: "(world \<Rightarrow> world) list \<Rightarrow> world \<Rightarrow> world option" where
  "update_logic turns w = update_loop turns (sw_start (clock w) new_stopwatch) w"

section \<open>Starting\<close>

text \<open>The calls of a start that succeeds, and when a call succeeds.\<close>

definition start_calls :: "int \<Rightarrow> int \<Rightarrow> sockaddr_in \<Rightarrow> sys_call list" where
  "start_calls s reuse addr =
     Socket # List.map (\<lambda>(level, opt, val). Setsockopt s level opt val) (bind_options reuse) @ [Bind s addr, Getsockname s]"

definition call_ok :: "(sys_call \<Rightarrow> int) \<Rightarrow> sys_call \<Rightarrow> bool" where
  "call_ok sys c = (case c of Setsockopt s l opt v \<Rightarrow> sys c = 0 | _ \<Rightarrow> sys c \<noteq> - 1)"

text \<open>A list up to and with its first element that fails.\<close>

definition up_to_first :: "('a \<Rightarrow> bool) \<Rightarrow> 'a list \<Rightarrow> 'a list" where
  "up_to_first ok cs = takeWhile ok cs @ take 1 (dropWhile ok cs)"

lemma up_to_first_simps:
  "up_to_first ok [] = []" "up_to_first ok (c # cs) = (if ok c then c # up_to_first ok cs else [c])"
  by (simp_all add: up_to_first_def)

lemma options_calls:
  "set_socket_options sys s opts =
     (let cs = List.map (\<lambda>(level, opt, val). Setsockopt s level opt val) opts
      in (list_all (call_ok sys) cs, up_to_first (call_ok sys) cs))"
  by (induction opts) (auto simp: set_socket_option_def up_to_first_simps call_ok_def Let_def split: prod.splits)

lemma up_to_first_append:
  "up_to_first ok (cs @ ds) = (if list_all ok cs then cs @ up_to_first ok ds else up_to_first ok cs)"
  by (induction cs) (simp_all add: up_to_first_simps)

lemma up_to_first_all: "list_all ok cs \<Longrightarrow> up_to_first ok cs = cs"
  by (induction cs) (simp_all add: up_to_first_simps)

lemma bind_calls:
  "bind_socket sys bound addr h =
     (let cs = tl (start_calls (m_socket h) (reuse_address h) addr); ok = list_all (call_ok sys) cs
      in (ok, up_to_first (call_ok sys) cs, if ok then h\<lparr>m_bind_address := bound\<rparr> else h))"
  by (simp add: bind_socket_def options_calls start_calls_def up_to_first_append up_to_first_all Let_def up_to_first_simps)
    (simp add: call_ok_def SOCKET_ERROR_def)

text \<open>C35: \<open>start\<close> makes its system calls in order up to the first that fails, and returns true exactly
  when none fails. Then the manager runs with both threads and knows the address it is bound to. When it
  returns false nothing but the number of the socket has changed: the manager does not run and has
  no threads. (The socket, if it could be opened, stays open: no call closes it.)\<close>

theorem start_all_or_nothing:
  assumes "\<not> m_receive_thread h" "\<not> m_logic_thread h"
  shows "\<exists>h'. start sys bound addr h =
      Some (list_all (call_ok sys) (start_calls (sys Socket) (reuse_address h) addr),
        up_to_first (call_ok sys) (start_calls (sys Socket) (reuse_address h) addr), h') \<and>
    h' = (if list_all (call_ok sys) (start_calls (sys Socket) (reuse_address h) addr)
      then h\<lparr>m_socket := sys Socket, m_bind_address := bound, manager := (manager h)\<lparr>m_running := True\<rparr>,
             m_receive_thread := True, m_logic_thread := True\<rparr>
      else h\<lparr>m_socket := sys Socket\<rparr>)"
proof -
  have tl: "start_calls s r addr = Socket # tl (start_calls s r addr)" for s r by (simp add: start_calls_def)
  show ?thesis
  proof (cases "call_ok sys Socket")
    case True
    then show ?thesis using assms
      by (subst (1 2 3) tl) (simp add: start_def bind_calls INVALID_SOCKET_def call_ok_def Let_def up_to_first_simps)
  next
    case False
    then show ?thesis
      by (subst (1 2 3) tl) (simp add: start_def INVALID_SOCKET_def call_ok_def Let_def up_to_first_simps)
  qed
qed

text \<open>A second \<open>start\<close> of a running manager whose system calls succeed ends the program.\<close>

lemma second_start:
  assumes "m_receive_thread h" and ok: "list_all (call_ok sys) (start_calls (sys Socket) (reuse_address h) addr)"
  shows "start sys bound addr h = None"
proof -
  have "call_ok sys Socket" "list_all (call_ok sys) (tl (start_calls (sys Socket) (reuse_address h) addr))"
    using ok by (simp_all add: start_calls_def)
  with assms(1) show ?thesis by (simp add: start_def bind_calls INVALID_SOCKET_def call_ok_def Let_def)
qed

section \<open>The threads\<close>

definition allowed :: "(world \<Rightarrow> world) \<Rightarrow> bool" where
  "allowed f \<longleftrightarrow> (\<forall>w. net_step\<^sup>*\<^sup>* w (f w))"

lemma reach_steps: "net_step\<^sup>*\<^sup>* w w' \<Longrightarrow> reach init_world net_step w \<Longrightarrow> reach init_world net_step w'"
  by (induction rule: rtranclp_induct) (auto intro: reach_step)

lemma receive_steps:
  "\<forall>i \<in> set turns. allowed (others i) \<Longrightarrow> receive_logic turns w = Some w' \<Longrightarrow> net_step\<^sup>*\<^sup>* w w'"
proof (induction turns arbitrary: w)
  case (Cons i turns)
  let ?w = "others i w" and ?idle = "get_socket_available_data (ioctl_fionread i) = 0 \<and> \<not> socket_poll (poll_result i) (poll_in i)"
  have o: "net_step\<^sup>*\<^sup>* w ?w" and rest: "\<forall>i \<in> set turns. allowed (others i)" using Cons.prems(1) by (simp_all add: allowed_def)
  show ?case
  proof (cases "m_running ?w \<and> \<not> ?idle")
    case True
    then obtain w1 where w1: "receive_datagram (recvfrom i) ?w = Some w1" "receive_logic turns w1 = Some w'"
      using Cons.prems(2) True by (cases "receive_datagram (recvfrom i) ?w") (auto simp: Let_def)
    then have "net_step ?w w1" by (intro step_receive)
    with o have "net_step\<^sup>*\<^sup>* w w1" by (rule rtranclp.rtrancl_into_rtrancl)
    from this and Cons.IH [OF rest w1(2)] show ?thesis by (rule rtranclp_trans)
  next
    case False
    then have "w' = ?w \<or> receive_logic turns ?w = Some w'" using Cons.prems(2) by (simp add: Let_def split: if_splits)
    with o Cons.IH [OF rest, of ?w] show ?thesis by (auto intro: rtranclp_trans)
  qed
qed simp

lemma update_steps:
  "\<forall>f \<in> set turns. allowed f \<Longrightarrow> update_loop turns sw w = Some w' \<Longrightarrow> net_step\<^sup>*\<^sup>* w w'"
proof (induction turns arbitrary: sw w)
  case (Cons f turns)
  have o: "net_step\<^sup>*\<^sup>* w (f w)" and rest: "\<forall>f \<in> set turns. allowed f" using Cons.prems(1) by (simp_all add: allowed_def)
  show ?case
  proof (cases "m_running (f w)")
    case True
    then obtain t sw1 w1 where w1: "update_logic_turn sw (f w) = Some (t, sw1, w1)" "update_loop turns sw1 w1 = Some w'"
      using Cons.prems(2) by (cases "update_logic_turn sw (f w)") (auto simp: Let_def)
    then have "net_step (f w) w1" by (intro step_logic)
    with o have "net_step\<^sup>*\<^sup>* w w1" by (rule rtranclp.rtrancl_into_rtrancl)
    from this and Cons.IH [OF rest w1(2)] show ?thesis by (rule rtranclp_trans)
  next
    case False
    with Cons.prems(2) o show ?thesis by (simp add: Let_def)
  qed
qed simp

text \<open>The loops of the two threads refine the step relation: whatever the other threads do between two turns, as
  long as those are steps too, every world a thread reaches from a reachable one is reachable, so the
  invariant of the manager holds in it.\<close>

lemma threads_stay_reachable:
  assumes "reach init_world net_step w"
  shows "(\<forall>turns w'. (\<forall>i \<in> set turns. allowed (others i)) \<and> receive_logic turns w = Some w' \<longrightarrow>
      reach init_world net_step w' \<and> manager_ok w') \<and>
    (\<forall>turns w'. (\<forall>f \<in> set turns. allowed f) \<and> update_logic turns w = Some w' \<longrightarrow>
      reach init_world net_step w' \<and> manager_ok w')"
proof -
  have "reach init_world net_step w' \<and> manager_ok w'" if "net_step\<^sup>*\<^sup>* w w'" for w'
    using reach_steps [OF that assms] net.reach_inv by blast
  then show ?thesis using receive_steps update_steps unfolding update_logic_def by blast
qed

section \<open>The end\<close>

lemma event_known_queue: "event_known (w\<lparr>m_events_produce_queue := ps, m_events_consume_queue := cs\<rparr>) e = event_known w e"
  by (simp add: event_known_def)

lemma recycle_events_total:
  "manager_ok w \<Longrightarrow> \<forall>e \<in> set es. event_known w e \<Longrightarrow> \<exists>w'. recycle_events es w = Some w' \<and> manager_ok w' \<and> app_frame w w'"
proof (induction es arbitrary: w)
  case (Cons e es)
  obtain e' w1 where e: "event_recycle e w = Some (e', w1)" using event_recycle_total [of w e] Cons.prems by fastforce
  note w1 = event_recycle_ok [OF Cons.prems(1) e]
  then have "\<forall>e \<in> set es. event_known w1 e" using Cons.prems(2) event_known_frame by auto
  then obtain w' where "recycle_events es w1 = Some w'" "manager_ok w'" "app_frame w1 w'" using Cons.IH w1 by blast
  with e w1 show ?case by (auto intro: app_frame_trans)
qed simp

lemma event_recycle_running: "event_recycle e w = Some (e', w') \<Longrightarrow> m_running w' = m_running w"
  by (auto simp: event_recycle_def request_recycle_def request_packet_recycle_def pool_recycle_ptr_def pool_recycle_def Let_def
      elim!: bind_SomeE split: option.splits if_splits)

lemma recycle_events_running: "recycle_events es w = Some w' \<Longrightarrow> m_running w' = m_running w"
  by (induction es arbitrary: w) (auto elim!: bind_SomeE dest!: event_recycle_running)

lemma stopped_ok:
  assumes "manager_ok w" shows "manager_ok (w\<lparr>m_running := False\<rparr>)"
proof (rule env_ok [OF _ assms])
  show "env_change w (w\<lparr>m_running := False\<rparr>)" unfolding env_change_def
    by (rule exI [of _ "system_time w"], rule exI [of _ "clock w"], rule exI [of _ "sendto w"], rule exI [of _ False],
        rule exI [of _ "broadcast_receive_enabled w"], rule exI [of _ "unconnected_messages_enabled w"],
        rule exI [of _ "channels_count w"], rule exI [of _ "disconnect_timeout w"], rule exI [of _ "update_time w"],
        rule exI [of _ "reconnect_delay w"], rule exI [of _ "max_connect_attempts w"], rule exI [of _ "ping_interval w"],
        rule exI [of _ "auto_recycle w"], rule exI [of _ "disconnect_on_unreachable w"]) simp
qed

text \<open>In every reachable world the body of the destructor returns: it recycles the events of both
  queues, with the packets and the requests they hold, leaves the queues empty, and shuts down and closes the socket.\<close>

lemma destructor_safe:
  assumes "reach init_world net_step (manager h)"
  shows "\<exists>h'. delete_host h = Some ([Shutdown (m_socket h), Close (m_socket h)], h') \<and>
    m_events_consume_queue (manager h') = [] \<and> m_events_produce_queue (manager h') = [] \<and>
    \<not> m_running (manager h') \<and> m_socket h' = INVALID_SOCKET"
proof -
  let ?w = "(manager h)\<lparr>m_running := False\<rparr>"
  have ok: "manager_ok ?w" by (rule stopped_ok [OF net.reach_inv [OF assms]])
  then have known: "\<forall>e \<in> set (m_events_consume_queue ?w) \<union> set (m_events_produce_queue ?w). event_known ?w e"
    by (auto simp: manager_ok_def mgr_ok_def around_ok_def events_ok_def)
  obtain w1 where w1: "recycle_events (m_events_consume_queue ?w) ?w = Some w1" "manager_ok w1"
    using recycle_events_total [OF ok] known by blast
  then have "manager_ok (w1\<lparr>m_events_produce_queue := m_events_produce_queue w1, m_events_consume_queue := []\<rparr>)"
    by (intro queues_ok) auto
  then have ok2: "manager_ok (w1\<lparr>m_events_consume_queue := []\<rparr>)" by simp
  then have "\<forall>e \<in> set (m_events_produce_queue w1). event_known (w1\<lparr>m_events_consume_queue := []\<rparr>) e"
    by (auto simp: manager_ok_def mgr_ok_def around_ok_def events_ok_def)
  then obtain w2 where w2: "recycle_events (m_events_produce_queue w1) (w1\<lparr>m_events_consume_queue := []\<rparr>) = Some w2"
    "app_frame (w1\<lparr>m_events_consume_queue := []\<rparr>) w2" using recycle_events_total [OF ok2] by blast
  have "\<not> m_running w2" using recycle_events_running [OF w1(1)] recycle_events_running [OF w2(1)] by simp
  then show ?thesis using w1 w2 by (auto simp: delete_host_def destroy_manager_def Let_def app_frame_def)
qed

lemma receive_one:
  assumes "m_running (others i w)" "get_socket_available_data (ioctl_fionread i) = Suc n"
    "receive_datagram (recvfrom i) (others i w) = Some w1"
  shows "receive_logic [i] w = Some w1"
  using assms by (simp add: Let_def)

definition sample_sys :: "sys_call \<Rightarrow> int" where
  "sample_sys c = (case c of Socket \<Rightarrow> 7 | Bind s a \<Rightarrow> (if sin_port a = 0 then 0 else - 1) | _ \<Rightarrow> 0)"

theorem start_all_or_nothing_witness:
  "\<exists>h'. start sample_sys sample_server zero_sockaddr (new_host sample_start) =
     Some (True, start_calls 7 0 zero_sockaddr, h') \<and> m_receive_thread h' \<and> m_bind_address h' = sample_server"
proof -
  have h: "\<not> m_receive_thread (new_host sample_start)" "\<not> m_logic_thread (new_host sample_start)" "reuse_address (new_host sample_start) = 0"
    by (simp_all add: new_host_def)
  have "list_all (call_ok sample_sys) (start_calls 7 0 zero_sockaddr)" "sample_sys Socket = 7"
    by (simp_all add: start_calls_def bind_options_def call_ok_def sample_sys_def zero_sockaddr_def)
  then show ?thesis using start_all_or_nothing [OF h(1,2), of sample_sys sample_server zero_sockaddr] h(3) up_to_first_all by fastforce
qed

lemma threads_stay_reachable_witness:
  "\<exists>w'. receive_logic [\<lparr>others = id, ioctl_fionread = Some (Suc 33), poll_result = 0, poll_in = False,
       recvfrom = Some (snd (wire sample_outgoing ! 0), sample_client)\<rparr>] sample_start = Some w' \<and>
     List.map ev_type (m_events_produce_queue w') = [EVENT_CONNECTION_REQUEST] \<and> reach init_world net_step w'"
proof -
  let ?i = "\<lparr>others = id, ioctl_fionread = Some (Suc 33), poll_result = 0, poll_in = False,
       recvfrom = Some (snd (wire sample_outgoing ! 0), sample_client)\<rparr>"
  have run: "m_running sample_start" by (simp add: sample_start_def)
  have r: "receive_logic [?i] sample_start = Some sample_asked"
    by (rule receive_one) (simp_all only: receive_turn.simps id_apply run sample_asked_facts(1) get_socket_available_data_def option.simps)
  have "\<forall>i \<in> set [?i]. allowed (others i)" by (simp add: allowed_def)
  with r have "reach init_world net_step sample_asked" using threads_stay_reachable [OF sample_reach(1)] by blast
  from r sample_asked_facts(2) this show ?thesis by (intro exI conjI)
qed

lemma destructor_safe_witness:
  "\<exists>h'. delete_host ((new_host sample_asked)\<lparr>m_socket := 7\<rparr>) = Some ([Shutdown 7, Close 7], h') \<and>
     m_events_produce_queue (manager h') = []"
proof -
  have "reach init_world net_step (manager ((new_host sample_asked)\<lparr>m_socket := 7\<rparr>))" using sample_reach(3) by (simp add: new_host_def)
  from destructor_safe [OF this] show ?thesis by auto
qed

end
