(* ===== verification/Examples.thy ===== *)
theory Examples
  imports Live_Events Address_Text Net_Threads
begin

text \<open>
  The two programs under \<open>src/example\<close>: a server that sends every message back, and a client that sends messages by every
  delivery method and one long message. A callback of their listeners maps the fields of the listener and
  the world to their new values and the calls of \<open>printf\<close> it made, in order. Allocation is assumed to
  succeed up to the largest size of a vector. The programs are built on Linux, where \<open>initialize\<close> does nothing.
\<close>

section \<open>Printing and vectors\<close>

datatype printf_arg = Arg_int int | Arg_str string

type_synonym printed = "(string \<times> printf_arg list) list"

text \<open>\<open>max_size\<close> of a vector of bytes; \<open>resize\<close> throws above it.\<close>

definition VECTOR_MAX :: nat where "VECTOR_MAX = 2 ^ 63 - 1"

definition resize_vector :: "nat \<Rightarrow> bytes \<Rightarrow> bytes option" where
  "resize_vector n bs = (if n > VECTOR_MAX then None else Some (take n bs @ replicate (n - length bs) 0))"

definition print_fragment :: "net_data_reader \<Rightarrow> printed option" where
  "print_fragment reader = do {
     a \<leftarrow> rd8 (r_data reader) (r_position reader);
     b \<leftarrow> rd8 (r_data reader) (r_position reader + 13217);
     Some [(''TestFrag: %i, %i\<newline>'', [Arg_int (uint a), Arg_int (uint b)])]
   }"

section \<open>The server\<close>

text \<open>\<open>buffer\<close> is the static vector of \<open>on_network_receive\<close>; its other static variable is not used.\<close>

definition server_network_receive :: "nat option \<Rightarrow> net_data_reader \<Rightarrow> delivery_method \<Rightarrow> bytes \<Rightarrow> world
    \<Rightarrow> (printed \<times> bytes \<times> world) option" where
  "server_network_receive peer reader dm buffer w = do {
     let n = remaining reader;
     out \<leftarrow> (if r_size reader = 13218 then print_fragment reader else Some []);
     buffer1 \<leftarrow> (if length buffer \<noteq> n then resize_vector n buffer else Some buffer);
     (data, _) \<leftarrow> try_read_raw (length buffer1) reader;
     (case data of
        None \<Rightarrow> Some (out @ [(''Cannot read data\<newline>'', [])], buffer1, w)
      | Some buffer2 \<Rightarrow> do {
          pp \<leftarrow> peer;
          w1 \<leftarrow> peer_send pp buffer2 0 dm w;
          Some (out, buffer2, w1)
        })
   }"

definition accept_callback :: "nat option \<Rightarrow> world \<Rightarrow> world option" where
  "accept_callback request w = do { rp \<leftarrow> request; (_, w1) \<leftarrow> request_accept rp w; Some w1 }"

definition server_callback :: "bytes \<Rightarrow> callback \<Rightarrow> world \<Rightarrow> (printed \<times> bytes \<times> world) option" where
  "server_callback buffer c w =
     (case c of
        On_network_error endpoint err msg \<Rightarrow> Some ([(''ERROR: %s\<newline>'', [Arg_str msg])], buffer, w)
      | On_network_receive peer reader channel dm \<Rightarrow> server_network_receive peer reader dm buffer w
      | On_connection_request request \<Rightarrow> do { w1 \<leftarrow> accept_callback request w; Some ([], buffer, w1) }
      | _ \<Rightarrow> Some ([], buffer, w))"

section \<open>The client\<close>

record client_listener =
  m_received_count :: int

text \<open>\<open>reset\<close>, two writes of an \<open>int\<close> and a \<open>send\<close>: one of the messages of \<open>on_peer_connected\<close>.\<close>

definition client_message :: "nat \<Rightarrow> int \<Rightarrow> int \<Rightarrow> delivery_method \<Rightarrow> net_data_writer \<Rightarrow> world
    \<Rightarrow> (net_data_writer \<times> world) option" where
  "client_message pp kind i dm dataWriter w = do {
     d1 \<leftarrow> write_i32 (word_of_int kind) (writer_reset dataWriter);
     d2 \<leftarrow> write_i32 (word_of_int i) d1;
     w1 \<leftarrow> send_internal pp (w_data d2) 0 (w_position d2) 0 dm None w;
     Some (d2, w1)
   }"

text \<open>The body of the loop, and the loop from \<open>i\<close> to 4.\<close>

definition client_round :: "nat \<Rightarrow> int \<Rightarrow> net_data_writer \<Rightarrow> world \<Rightarrow> (net_data_writer \<times> world) option" where
  "client_round pp i d w = do {
     (d, w) \<leftarrow> client_message pp 0 i RELIABLE_UNORDERED d w;
     (d, w) \<leftarrow> client_message pp 1 i RELIABLE_ORDERED d w;
     (d, w) \<leftarrow> client_message pp 2 i SEQUENCED d w;
     (d, w) \<leftarrow> client_message pp 3 i UNRELIABLE_DELIVERY d w;
     client_message pp 4 i RELIABLE_SEQUENCED d w
   }"

fun client_rounds :: "nat \<Rightarrow> int list \<Rightarrow> net_data_writer \<Rightarrow> world \<Rightarrow> world option" where
  "client_rounds pp [] d w = Some w"
| "client_rounds pp (i # js) d w = do { (d1, w1) \<leftarrow> client_round pp i d w; client_rounds pp js d1 w1 }"

definition testData :: bytes where
  "testData = (replicate 13218 0)[0 := 192, 13217 := 31]"

definition client_peer_connected :: "(u16 \<Rightarrow> i32 \<Rightarrow> string option) \<Rightarrow> nat option \<Rightarrow> world \<Rightarrow> (printed \<times> world) option" where
  "client_peer_connected inet_ntop peer w = do {
     pp \<leftarrow> peer;
     p \<leftarrow> get_peer pp w;
     w1 \<leftarrow> client_rounds pp [0..4] new_writer w;
     w2 \<leftarrow> peer_send pp testData 0 RELIABLE_ORDERED w1;
     Some ([(''[Client] connected to: %s\<newline>'', [Arg_str (string_text inet_ntop (m_endpoint p))])], w2)
   }"

definition reason_code :: "disconnect_reason \<Rightarrow> int" where
  "reason_code r =
     (case r of CONNECTION_FAILED \<Rightarrow> 0 | TIMEOUT \<Rightarrow> 1 | HOST_UNREACHABLE \<Rightarrow> 2 | NETWORK_UNREACHABLE \<Rightarrow> 3
      | REMOTE_CONNECTION_CLOSE \<Rightarrow> 4 | DISCONNECT_PEER_CALLED \<Rightarrow> 5 | CONNECTION_REJECTED \<Rightarrow> 6
      | INVALID_PROTOCOL_REASON \<Rightarrow> 7 | UNKNOWN_HOST \<Rightarrow> 8 | RECONNECT \<Rightarrow> 9 | PEER_TO_PEER_CONNECTION \<Rightarrow> 10
      | PEER_NOT_FOUND_REASON \<Rightarrow> 11)"

text \<open>The two reads do not look at what remains; counting above the range of \<open>int32_t\<close> is undefined.\<close>

definition client_network_receive :: "net_data_reader \<Rightarrow> delivery_method \<Rightarrow> client_listener \<Rightarrow> (printed \<times> client_listener) option" where
  "client_network_receive reader dm l =
     (if r_size reader = 13218 then do { out \<leftarrow> print_fragment reader; Some (out, l) }
      else do {
        (xs, reader1) \<leftarrow> read_raw 4 reader;
        (ys, reader2) \<leftarrow> read_raw 4 reader1;
        let kind = (le_word xs :: i32);
        let num = (le_word ys :: i32);
        let count = m_received_count l + 1;
        if count \<ge> 2 ^ 31 then None
        else Some ([(''CNT: %i, TYPE: %i, NUM: %i, MTD: %i\<newline>'',
               [Arg_int count, Arg_int (sint kind), Arg_int (sint num), Arg_int (int (delivery_code dm))])],
             l\<lparr>m_received_count := count\<rparr>)
      })"

definition client_callback ::
  "(u16 \<Rightarrow> i32 \<Rightarrow> string option) \<Rightarrow> client_listener \<Rightarrow> callback \<Rightarrow> world \<Rightarrow> (printed \<times> client_listener \<times> world) option" where
  "client_callback inet_ntop l c w =
     (case c of
        On_peer_connected peer \<Rightarrow> do { (out, w1) \<leftarrow> client_peer_connected inet_ntop peer w; Some (out, l, w1) }
      | On_peer_disconnected peer disconnectInfo \<Rightarrow>
          Some ([(''[Client] disconnected: %i\<newline>'', [Arg_int (reason_code (di_reason disconnectInfo))])], l, w)
      | On_network_error endpoint err msg \<Rightarrow> Some ([(''[Client] error: %s\<newline>'', [Arg_str msg])], l, w)
      | On_network_receive peer reader channel dm \<Rightarrow> do { (out, l1) \<leftarrow> client_network_receive reader dm l; Some (out, l1, w) }
      | On_connection_request request \<Rightarrow> do { w1 \<leftarrow> accept_callback request w; Some ([], l, w1) }
      | _ \<Rightarrow> Some ([], l, w))"

section \<open>The programs\<close>

text \<open>
  What a callback of the server does to the world does not depend on its static buffer (\<open>server_buffer\<close>
  below), so the listener of the server is a function of the callback and the world.
\<close>

definition server_listener :: "callback \<Rightarrow> world \<Rightarrow> world option" where
  "server_listener c w = map_option (\<lambda>(out, buffer, w1). w1) (server_callback [] c w)"

definition client_listens :: "(u16 \<Rightarrow> i32 \<Rightarrow> string option) \<Rightarrow> client_listener \<Rightarrow> callback \<Rightarrow> world \<Rightarrow> world option" where
  "client_listens inet_ntop l c w = map_option (\<lambda>(out, l1, w1). w1) (client_callback inet_ntop l c w)"

text \<open>The loop of both programs, turn by turn, with what the threads of the manager do before each.\<close>

fun poll_loop :: "(callback \<Rightarrow> world \<Rightarrow> world option) \<Rightarrow> (world \<Rightarrow> world) list \<Rightarrow> world \<Rightarrow> world option" where
  "poll_loop listener [] w = Some w"
| "poll_loop listener (f # turns) w =
     (let w0 = f w in if \<not> m_running w0 then Some w0 else do { w1 \<leftarrow> poll_events listener w0; poll_loop listener turns w1 })"

definition server_main :: "(sys_call \<Rightarrow> int) \<Rightarrow> sockaddr_in \<Rightarrow> (world \<Rightarrow> world) list \<Rightarrow> host \<Rightarrow> host option" where
  "server_main sys bound turns server = do {
     (_, _, server1) \<leftarrow> start_port sys bound 4499 server;
     w \<leftarrow> poll_loop server_listener turns (manager server1);
     Some (server1\<lparr>manager := w\<rparr>)
   }"

definition client_main ::
  "(sys_call \<Rightarrow> int) \<Rightarrow> sockaddr_in \<Rightarrow> (string \<Rightarrow> sockaddr_in list option) \<Rightarrow> u8 \<Rightarrow> (callback \<Rightarrow> world \<Rightarrow> world option)
    \<Rightarrow> (world \<Rightarrow> world) list \<Rightarrow> host \<Rightarrow> host option" where
  "client_main sys bound getaddrinfo uninitialised listener turns client = do {
     let addr = named_address getaddrinfo ''127.0.0.1'' 4499;
     (_, _, client1) \<leftarrow> start_port sys bound 0 client;
     (_, w1) \<leftarrow> connect uninitialised (addr_raw addr) new_writer (manager client1);
     w \<leftarrow> poll_loop listener turns w1;
     Some (client1\<lparr>manager := w\<rparr>)
   }"

section \<open>Sending on channel 0\<close>

lemma send_zero_total:
  assumes s: "secure w" and p: "get_peer pp w = Some p" and d: "off + sz \<le> length data"
  shows "\<exists>w'. send_internal pp data off sz 0 dm ud w = Some w'"
proof -
  have "channels_ok p" by (rule peer_restD(1) [OF safeD(2) [OF secureD(1) [OF s] p]])
  then have four: "4 dvd length (m_channels p)" by (simp add: channels_ok_def)
  have "delivery_code dm < 4" if "dm \<noteq> UNRELIABLE_DELIVERY" using that by (cases dm) simp_all
  then have "unat (of_nat (delivery_code dm) :: u8) < length (m_channels p)" if "dm \<noteq> UNRELIABLE_DELIVERY" "0 < length (m_channels p)"
    using four dvd_imp_le [of 4 "length (m_channels p)"] that by (simp add: unat_of_nat)
  then have "\<not> (m_connection_state p = CONNECTED \<and> dm \<noteq> UNRELIABLE_DELIVERY \<and> unat (0 :: u8) < length (m_channels p) \<and>
      length (m_channels p) \<le> unat (0 * of_nat CHANNEL_TYPE_COUNT + of_nat (delivery_code dm) :: u8))" by fastforce
  from safe_send_internal [OF secureD(1) [OF s] secureD(3) [OF s] p d this] show ?thesis by (auto simp: ensures_def)
qed

lemma sent_world:
  assumes "secure w" "send_internal pp data off sz c dm ud w = Some w'" "get_peer qq w = Some p"
  shows "secure w'" "\<exists>p'. get_peer qq w' = Some p'"
proof -
  show "secure w'" by (rule secure_app [OF app_send [OF assms(2)] assms(1)])
  show "\<exists>p'. get_peer qq w' = Some p'" using tables_peer(1) [OF tables.send_internal_R [OF assms(2)] assms(3)] by blast
qed

text \<open>Several messages, one after another.\<close>

fun send_messages :: "nat \<Rightarrow> (delivery_method \<times> bytes) list \<Rightarrow> world \<Rightarrow> world option" where
  "send_messages pp [] w = Some w"
| "send_messages pp ((dm, bs) # ms) w = do { w1 \<leftarrow> peer_send pp bs 0 dm w; send_messages pp ms w1 }"

lemma send_messages_append: "send_messages pp (ms @ ns) w = do { w1 \<leftarrow> send_messages pp ms w; send_messages pp ns w1 }"
  by (induction pp ms w rule: send_messages.induct) (auto split: Option.bind_splits)

lemma send_messages_total:
  "secure w \<Longrightarrow> get_peer pp w = Some p \<Longrightarrow> \<exists>w'. send_messages pp ms w = Some w'"
proof (induction ms arbitrary: w p)
  case (Cons m ms)
  obtain dm bs where m: "m = (dm, bs)" by (cases m)
  obtain w1 where w1: "peer_send pp bs 0 dm w = Some w1"
    using send_zero_total [OF Cons.prems, of 0 "length bs" bs dm None] by (auto simp: peer_send_def)
  note f = sent_world [OF Cons.prems(1) w1 [unfolded peer_send_def] Cons.prems(2)]
  obtain p1 where "get_peer pp w1 = Some p1" using f(2) by blast
  from Cons.IH [OF f(1) this] w1 m show ?case by simp
qed simp

lemma send_messages_steps: "send_messages pp ms w = Some w' \<Longrightarrow> app_step\<^sup>*\<^sup>* w w'"
proof (induction pp ms w rule: send_messages.induct)
  case (2 pp dm bs ms w)
  then obtain w1 where w1: "peer_send pp bs 0 dm w = Some w1" "send_messages pp ms w1 = Some w'" by (auto elim: bind_SomeE)
  have "app_step w w1" using w1(1) by (auto simp: peer_send_def intro: app_step.app_send)
  then show ?case using 2(1) [OF w1] by (rule converse_rtranclp_into_rtranclp)
qed simp


section \<open>The server\<close>

definition unread :: "net_data_reader \<Rightarrow> bytes" where
  "unread r = take (r_size r - r_position r) (drop (r_position r) (r_data r))"

text \<open>A reader the callback of the server can copy, and print when it has the size of the long message.\<close>

definition reader_fits :: "net_data_reader \<Rightarrow> bool" where
  "reader_fits r \<longleftrightarrow> r_size r \<le> VECTOR_MAX \<and> (r_size r = 13218 \<longrightarrow> r_position r = 0)"

lemma print_fragment_total:
  assumes "reader_ok r" "r_size r = 13218" "r_position r = 0" shows "\<exists>out. print_fragment r = Some out"
  using assms by (auto simp: print_fragment_def rd8_def reader_ok_def)

lemma server_receive_result:
  assumes r: "reader_ok r" "reader_fits r" and b: "length b \<le> VECTOR_MAX"
  shows "\<exists>out. (r_size r \<noteq> 13218 \<longrightarrow> out = []) \<and> server_network_receive (Some pp) r dm b w = map_option (\<lambda>w1. (out, unread r, w1)) (peer_send pp (unread r) 0 dm w)"
proof -
  have n: "remaining r = r_size r - r_position r" "remaining r \<le> VECTOR_MAX"
    using r by (auto simp: remaining_def reader_ok_def reader_fits_def)
  obtain out where out: "(if r_size r = 13218 then print_fragment r else Some []) = Some out" "r_size r \<noteq> 13218 \<longrightarrow> out = []"
    using print_fragment_total [OF r(1)] r(2) unfolding reader_fits_def by (cases "r_size r = 13218") auto
  obtain b1 where b1: "(if length b \<noteq> remaining r then resize_vector (remaining r) b else Some b) = Some b1" "length b1 = remaining r"
    using n(2) that by (cases "length b = remaining r") (auto simp: resize_vector_def)
  have "try_read_raw (length b1) r = Some (Some (unread r), r\<lparr>r_position := r_position r + length b1\<rparr>)"
    using r(1) n(1) b1(2) by (simp add: try_read_raw_cases reader_ok_def unread_def)
  then show ?thesis using out b1(1)
    by (intro exI [of _ out]) (cases "peer_send pp (unread r) 0 dm w", simp_all add: server_network_receive_def Let_def)
qed

text \<open>What the server sends and prints does not depend on its static buffer, whose size stays in range.\<close>

lemma resize_vector_cases:
  assumes "length b \<le> VECTOR_MAX"
  shows "(if length b \<noteq> n then resize_vector n b else Some b) = None \<longleftrightarrow> n > VECTOR_MAX"
    "(if length b \<noteq> n then resize_vector n b else Some b) = Some b1 \<Longrightarrow> length b1 = n \<and> n \<le> VECTOR_MAX"
  using assms by (auto simp: resize_vector_def split: if_splits)

lemma server_buffer:
  assumes "length b \<le> VECTOR_MAX" "length b' \<le> VECTOR_MAX"
  shows "map_option (\<lambda>(out, _, w1). (out, w1)) (server_callback b c w) = map_option (\<lambda>(out, _, w1). (out, w1)) (server_callback b' c w)"
proof (cases c)
  case (On_network_receive peer r ch dm)
  let ?out = "if r_size r = 13218 then print_fragment r else Some []"
  define rest where "rest = (\<lambda>n (out :: printed) b1. do {
     (data, _) \<leftarrow> try_read_raw n r;
     (case data of None \<Rightarrow> Some (out @ [(''Cannot read data\<newline>'', [])], b1, w)
      | Some b2 \<Rightarrow> do { pp \<leftarrow> peer; w1 \<leftarrow> peer_send pp b2 0 dm w; Some (out, b2, w1) }) })"
  have u: "server_network_receive peer r dm x w = do {
      out \<leftarrow> ?out; b1 \<leftarrow> (if length x \<noteq> remaining r then resize_vector (remaining r) x else Some x); rest (length b1) out b1 }" for x
    by (simp add: server_network_receive_def rest_def Let_def cong: if_cong)
  have same: "map_option (\<lambda>(out, _, w1). (out, w1)) (rest n out x) = map_option (\<lambda>(out, _, w1). (out, w1)) (rest n out y)" for n out x y
    by (auto simp: rest_def split: Option.bind_splits option.splits)
  show ?thesis
  proof (cases "?out = None \<or> remaining r > VECTOR_MAX")
    case True
    then have "server_network_receive peer r dm x w = None" if "length x \<le> VECTOR_MAX" for x
      unfolding u using resize_vector_cases(1) [OF that, of "remaining r"] by (cases ?out) simp_all
    then show ?thesis using assms On_network_receive by (simp add: server_callback_def)
  next
    case False
    then obtain out where out: "?out = Some out" by (cases ?out) (simp_all del: if_split)
    have "\<exists>x1. server_network_receive peer r dm x w = rest (remaining r) out x1" if "length x \<le> VECTOR_MAX" for x
      using resize_vector_cases [OF that, of "remaining r"] False out unfolding u
      by (cases "if length x \<noteq> remaining r then resize_vector (remaining r) x else Some x") auto
    from this [OF assms(1)] this [OF assms(2)] show ?thesis
      using same On_network_receive by (fastforce simp: server_callback_def)
  qed
qed (auto simp: server_callback_def split: Option.bind_splits)

lemma try_read_raw_length: "try_read_raw n r = Some (Some bs, r') \<Longrightarrow> length bs = n"
  by (auto simp: try_read_raw_def rd_bytes_def elim!: bind_SomeE split: if_splits)

lemma server_buffer_bound:
  assumes "server_callback b c w = Some (out, b', w')" "length b \<le> VECTOR_MAX" shows "length b' \<le> VECTOR_MAX"
proof (cases c)
  case (On_network_receive peer r ch dm)
  then have "server_network_receive peer r dm b w = Some (out, b', w')" using assms(1) by (simp add: server_callback_def)
  then obtain out1 b1 dr where 1: "(if length b \<noteq> remaining r then resize_vector (remaining r) b else Some b) = Some b1"
      "try_read_raw (length b1) r = Some dr"
    and 2: "(case dr of (data, _) \<Rightarrow> case data of None \<Rightarrow> Some (out1 @ [(''Cannot read data\<newline>'', [])], b1, w)
      | Some b2 \<Rightarrow> do { pp \<leftarrow> peer; w1 \<leftarrow> peer_send pp b2 0 dm w; Some (out1, b2, w1) }) = Some (out, b', w')"
    unfolding server_network_receive_def Let_def by (elim bind_SomeE) (rule that)
  obtain data r1 where dr: "dr = (data, r1)" by fastforce
  have "length b' = length b1" using 1(2) 2 unfolding dr
    by (cases data) (auto dest: try_read_raw_length elim!: bind_SomeE)
  then show ?thesis using resize_vector_cases(2) [OF assms(2) 1(1)] by simp
qed (use assms in \<open>auto simp: server_callback_def elim: bind_SomeE\<close>)

lemma accept_callback_step: "accept_callback rq w = Some w' \<Longrightarrow> app_step w w'"
  by (auto simp: accept_callback_def elim!: bind_SomeE intro: app_step.app_accept)

lemma peer_send_step: "peer_send pp bs c dm w = Some w' \<Longrightarrow> app_step w w'"
  unfolding peer_send_def by (rule app_step.app_send)

lemma server_receive_steps: "server_network_receive peer r dm b w = Some (out, b', w') \<Longrightarrow> app_step\<^sup>*\<^sup>* w w'"
  by (auto simp: server_network_receive_def Let_def simp del: if_split elim!: bind_SomeE split: option.splits)
    (erule r_into_rtranclp [where r = app_step, OF peer_send_step])

lemma server_app: "app_listener server_listener"
  by (auto simp: app_listener_def server_listener_def server_callback_def split: callback.splits
      elim!: bind_SomeE dest: server_receive_steps accept_callback_step)

lemma accept_callback_total:
  assumes "manager_ok w" "secure w" "callback_live w (On_connection_request q)" shows "\<exists>w'. accept_callback q w = Some w'"
  using accept_total [OF assms(1,2)] assms(3) by (fastforce simp: accept_callback_def)

lemma peer_send_total:
  assumes "secure w" "get_peer pp w = Some p" shows "\<exists>w'. peer_send pp bs 0 dm w = Some w'"
  using send_zero_total [OF assms, of 0 "length bs" bs] by (simp add: peer_send_def)

lemma server_callback_total:
  assumes ok: "manager_ok w" "secure w" and c: "callback_live w c" and fit: "\<And>q r ch dm. c = On_network_receive q r ch dm \<Longrightarrow> reader_fits r"
    and b: "length b \<le> VECTOR_MAX"
  shows "\<exists>r. server_callback b c w = Some r"
proof (cases c)
  case (On_network_receive q r ch dm)
  then obtain pp p where p: "q = Some pp" "get_peer pp w = Some p" "reader_ok r" using c by auto
  obtain out where "server_network_receive q r dm b w = map_option (\<lambda>w1. (out, unread r, w1)) (peer_send pp (unread r) 0 dm w)"
    using server_receive_result [OF p(3) fit [OF On_network_receive] b] p(1) by blast
  then show ?thesis using peer_send_total [OF ok(2) p(2)] On_network_receive by (fastforce simp: server_callback_def)
next
  case (On_connection_request q)
  then show ?thesis using accept_callback_total [OF ok] c by (fastforce simp: server_callback_def)
qed (simp_all add: server_callback_def)

lemma server_returns:
  assumes "\<And>r. ev_reader e = Some r \<Longrightarrow> reader_fits r" shows "returns_on server_listener e"
  unfolding returns_on_def
proof (intro allI impI)
  fix c v assume a: "event_callback e = Some (Some c) \<and> manager_ok v \<and> secure v \<and> callback_live v c"
  have "reader_fits r" if "c = On_network_receive q r ch dm" for q r ch dm
    using a that assms by (cases "ev_type e") (auto simp: event_callback_def elim!: bind_SomeE)
  then obtain r where "server_callback [] c v = Some r" using server_callback_total [of v c "[]"] a by fastforce
  then show "server_listener c v \<noteq> None" by (simp add: server_listener_def)
qed

text \<open>C26: The echo server sends back to the peer exactly the bytes its reader had left, on channel 0 and by the
  delivery method they came with, and leaves them in its static buffer; it always returns.\<close>

theorem echo_server_echoes:
  assumes "reach init_world net_step w" "callback_live w (On_network_receive (Some pp) r c dm)"
    and "reader_fits r" "length buffer \<le> VECTOR_MAX"
  shows "\<exists>out w'. server_callback buffer (On_network_receive (Some pp) r c dm) w = Some (out, unread r, w') \<and>
    peer_send pp (unread r) 0 dm w = Some w' \<and> (r_size r \<noteq> 13218 \<longrightarrow> out = [])"
proof -
  have s: "secure w" using secure_net.reach_inv [OF assms(1)] by simp
  obtain p where p: "get_peer pp w = Some p" "reader_ok r" using assms(2) by auto
  obtain w' where w': "peer_send pp (unread r) 0 dm w = Some w'" using peer_send_total [OF s p(1)] by blast
  moreover obtain out where "server_callback buffer (On_network_receive (Some pp) r c dm) w = Some (out, unread r, w')"
      "r_size r \<noteq> 13218 \<longrightarrow> out = []"
    using server_receive_result [OF p(2) assms(3,4), of pp dm w] w' by (auto simp: server_callback_def)
  ultimately show ?thesis by blast
qed

theorem echo_server_echoes_witness:
  "\<exists>w'. server_callback [] (On_network_receive (Some 0) \<lparr>r_data = [4, 1, 2, 3], r_size = 4, r_position = 1\<rparr> 0 UNRELIABLE_DELIVERY) sample_connected
     = Some ([], [1, 2, 3], w')"
proof -
  let ?r = "\<lparr>r_data = [4, 1, 2, 3], r_size = 4, r_position = 1\<rparr> :: net_data_reader"
  have "reader_fits ?r" "unread ?r = [1, 2, 3]" by (simp_all add: reader_fits_def VECTOR_MAX_def unread_def)
  moreover have "callback_live sample_connected (On_network_receive (Some 0) ?r 0 UNRELIABLE_DELIVERY)"
    using sample_connected_facts(5) by (auto simp: reader_ok_def)
  ultimately show ?thesis using echo_server_echoes [OF sample_reach(5), of 0 ?r 0 UNRELIABLE_DELIVERY "[]"] by auto
qed

definition readers_fit :: "world \<Rightarrow> bool" where
  "readers_fit w \<longleftrightarrow> (\<forall>e \<in> set (m_events_produce_queue w). \<forall>r. ev_reader e = Some r \<longrightarrow> reader_fits r)"

lemma server_poll:
  assumes "reach init_world net_step w" "auto_recycle w" "readers_fit w"
  shows "\<exists>w'. poll_events server_listener w = Some w' \<and> reach init_world net_step w' \<and> auto_recycle w'"
proof -
  have ok: "manager_ok w" "secure w" using secure_net.reach_inv [OF assms(1)] by simp_all
  have "returns_on server_listener e" if "e \<in> set (m_events_produce_queue w)" for e
    using assms(3) that by (intro server_returns) (auto simp: readers_fit_def)
  then obtain w' where w': "poll_events server_listener w = Some w'"
    using live_poll_total [OF server_app _ ok] assms(2) by auto
  with reach_step [OF assms(1) step_poll [OF server_app w']] poll_option [OF server_app ok(1) w'] assms(2) show ?thesis by blast
qed

text \<open>
  What happens between two turns of the server's loop: any steps of the manager that leave the option \<open>auto_recycle\<close>
  as it is, which the program never sets. \<open>turns_run\<close> says so of each turn of one run from \<open>w\<close>, and that the
  readers that wait at its poll are ones the callback can copy and print.
\<close>

definition kept_step :: "world \<Rightarrow> world \<Rightarrow> bool" where
  "kept_step w w' \<longleftrightarrow> net_step w w' \<and> auto_recycle w' = auto_recycle w"

fun turns_run :: "(world \<Rightarrow> world) list \<Rightarrow> world \<Rightarrow> bool" where
  "turns_run [] w \<longleftrightarrow> True"
| "turns_run (f # turns) w \<longleftrightarrow> kept_step\<^sup>*\<^sup>* w (f w) \<and> readers_fit (f w) \<and>
     (\<forall>w1. m_running (f w) \<and> poll_events server_listener (f w) = Some w1 \<longrightarrow> turns_run turns w1)"

lemma kept_steps:
  "kept_step\<^sup>*\<^sup>* w w' \<Longrightarrow> reach init_world net_step w \<Longrightarrow> reach init_world net_step w' \<and> auto_recycle w' = auto_recycle w"
  by (induction rule: rtranclp_induct) (auto simp: kept_step_def intro: reach_step)

text \<open>C27: The loop of the server's \<open>main\<close> never meets undefined behaviour: from a reachable world with \<open>auto_recycle\<close> on, as it
  is when a manager is made, and with any steps of the threads and of time between its turns along which the option
  stays as it is and the waiting readers are ones the callback can copy and print, every turn returns, and
  the world stays reachable with \<open>auto_recycle\<close> on.\<close>

theorem server_loop_safe:
  assumes "reach init_world net_step w" "auto_recycle w" "turns_run turns w"
  shows "\<exists>w'. poll_loop server_listener turns w = Some w' \<and> reach init_world net_step w' \<and> auto_recycle w'"
  using assms
proof (induction turns arbitrary: w)
  case (Cons f turns)
  have f: "reach init_world net_step (f w)" "auto_recycle (f w)" "readers_fit (f w)"
    using kept_steps [of w "f w"] Cons.prems by simp_all
  obtain w1 where w1: "poll_events server_listener (f w) = Some w1" "reach init_world net_step w1" "auto_recycle w1"
    using server_poll [OF f] by blast
  show ?case
  proof (cases "m_running (f w)")
    case True
    then have "turns_run turns w1" using Cons.prems(3) w1(1) by simp
    then obtain w2 where "poll_loop server_listener turns w1 = Some w2" "reach init_world net_step w2" "auto_recycle w2"
      using Cons.IH [OF w1(2,3)] by blast
    with w1(1) True show ?thesis by (simp add: Let_def)
  qed (use f in \<open>simp add: Let_def\<close>)
qed simp

lemma sample_asked_readers: "list_all (\<lambda>e. case ev_reader e of None \<Rightarrow> True | Some _ \<Rightarrow> False) (m_events_produce_queue sample_asked)"
  by code_simp

text \<open>A turn before which the receiving thread takes the datagram of a client.\<close>

definition sample_turn :: "world \<Rightarrow> world" where
  "sample_turn w = (case receive_datagram (Some (snd (wire sample_outgoing ! 0), sample_client)) w of Some v \<Rightarrow> v | None \<Rightarrow> w)"

theorem server_loop_safe_witness:
  "\<exists>w'. poll_loop server_listener [sample_turn] sample_start = Some w' \<and> reach init_world net_step w' \<and> auto_recycle w'"
proof (rule server_loop_safe [OF sample_reach(1)])
  show start: "auto_recycle sample_start" by (simp add: sample_start_def new_manager_def)
  have t: "sample_turn sample_start = sample_asked" using sample_asked_facts(1) by (simp add: sample_turn_def)
  have "kept_step sample_start sample_asked"
    using step_receive [OF sample_asked_facts(1)] sample_asked_facts(3) start by (simp add: kept_step_def)
  moreover have "readers_fit sample_asked" using sample_asked_readers by (auto simp: readers_fit_def list_all_iff)
  ultimately show "turns_run [sample_turn] sample_start" by (simp add: t)
qed

section \<open>The client\<close>

definition client_bytes :: "int \<Rightarrow> int \<Rightarrow> bytes" where
  "client_bytes kind i = le_bytes 4 (word_of_int kind :: i32) @ le_bytes 4 (word_of_int i :: i32)"

definition round_messages :: "int \<Rightarrow> (delivery_method \<times> bytes) list" where
  "round_messages i =
     [(RELIABLE_UNORDERED, client_bytes 0 i), (RELIABLE_ORDERED, client_bytes 1 i), (SEQUENCED, client_bytes 2 i),
      (UNRELIABLE_DELIVERY, client_bytes 3 i), (RELIABLE_SEQUENCED, client_bytes 4 i)]"

definition greeting :: "(delivery_method \<times> bytes) list" where
  "greeting = concat (List.map round_messages [0..4]) @ [(RELIABLE_ORDERED, testData)]"

text \<open>The writer of the client: new, or as the message before left it.\<close>

definition client_writer :: "net_data_writer \<Rightarrow> bool" where
  "client_writer d \<longleftrightarrow> w_data d = [] \<or> length (w_data d) = 8"

lemma client_writes:
  assumes "client_writer d"
  shows "do { d1 \<leftarrow> write_i32 x (writer_reset d); write_i32 y d1 } = Some \<lparr>w_data = le_bytes 4 x @ le_bytes 4 y, w_position = 8\<rparr>"
proof -
  have "writer_grow 0 4 = 8" by (subst writer_grow_unfold, simp, subst writer_grow_unfold, simp, subst writer_grow_unfold, simp)
  then have "length (writer_ensure 4 (w_data d)) = 8" using assms by (auto simp: client_writer_def writer_ensure_def)
  moreover obtain bs where bs: "bs = writer_ensure 4 (w_data d)" by simp
  moreover have "write_i32 x (writer_reset d) = Some \<lparr>w_data = le_bytes 4 x @ drop 4 bs, w_position = 4\<rparr>"
    using calculation by (simp add: write_i32_def write_raw_def writer_reset_def rd_bytes_def wr_bytes_def)
  moreover have "writer_ensure 4 (le_bytes 4 x @ drop 4 bs) = le_bytes 4 x @ drop 4 bs" using calculation(1) bs by (simp add: writer_ensure_def)
  ultimately show ?thesis by (simp add: write_i32_def write_raw_def rd_bytes_def wr_bytes_def)
qed

lemma client_message_sends:
  assumes "client_writer d"
  shows "client_message pp kind i dm d w =
    map_option (Pair \<lparr>w_data = client_bytes kind i, w_position = 8\<rparr>) (peer_send pp (client_bytes kind i) 0 dm w)"
proof -
  obtain d1 where d1: "write_i32 (word_of_int kind) (writer_reset d) = Some d1"
      "write_i32 (word_of_int i) d1 = Some \<lparr>w_data = client_bytes kind i, w_position = 8\<rparr>"
    using client_writes [OF assms, of "word_of_int kind" "word_of_int i"] by (auto simp: client_bytes_def elim!: bind_SomeE)
  have "length (client_bytes kind i) = 8" by (simp add: client_bytes_def)
  with d1 show ?thesis by (cases "peer_send pp (client_bytes kind i) 0 dm w") (simp_all add: client_message_def peer_send_def)
qed

lemma client_round_sends:
  assumes "client_writer d"
  shows "client_round pp i d w =
    map_option (Pair \<lparr>w_data = client_bytes 4 i, w_position = 8\<rparr>) (send_messages pp (round_messages i) w)"
proof -
  have m: "client_writer \<lparr>w_data = client_bytes k i, w_position = 8\<rparr>" for k by (simp add: client_writer_def client_bytes_def)
  show ?thesis unfolding client_round_def round_messages_def
    by (simp add: client_message_sends [OF assms] client_message_sends [OF m] split: Option.bind_split)
qed

lemma client_rounds_send:
  "client_writer d \<Longrightarrow> client_rounds pp js d w = send_messages pp (concat (List.map round_messages js)) w"
proof (induction js arbitrary: d w)
  case (Cons i js)
  have m: "client_writer \<lparr>w_data = client_bytes 4 i, w_position = 8\<rparr>" by (simp add: client_writer_def client_bytes_def)
  show ?case using Cons.IH [OF m]
    by (cases "send_messages pp (round_messages i) w") (simp_all add: client_round_sends [OF Cons.prems] send_messages_append)
qed simp

lemma client_connected_sends:
  assumes "get_peer pp w = Some p"
  shows "client_peer_connected inet_ntop (Some pp) w =
    map_option (Pair [(''[Client] connected to: %s\<newline>'', [Arg_str (string_text inet_ntop (m_endpoint p))])]) (send_messages pp greeting w)"
proof -
  have "client_writer new_writer" by (simp add: client_writer_def new_writer_def)
  then show ?thesis using assms
    by (simp add: client_peer_connected_def client_rounds_send greeting_def send_messages_append split: Option.bind_split)
qed

lemma send_messages_reach:
  "reach init_world net_step w \<Longrightarrow> send_messages pp ms w = Some w' \<Longrightarrow> reach init_world net_step w'"
proof -
  assume w: "reach init_world net_step w" and r: "send_messages pp ms w = Some w'"
  show "reach init_world net_step w'"
    using send_messages_steps [OF r] by (induction rule: rtranclp_induct) (auto intro: w reach_step step_app)
qed

text \<open>C28: When the listener of the client is told of its connection it sends the peer exactly the greeting, and
  always returns: for each of 0 to 4 one message of eight bytes by each delivery method, with its kind and the number, and
  then the long message, which is sent reliably in order; and it prints the address of the peer.\<close>

theorem client_greets:
  assumes "reach init_world net_step w" "get_peer pp w = Some p"
  shows "\<exists>w'. client_callback inet_ntop l (On_peer_connected (Some pp)) w =
      Some ([(''[Client] connected to: %s\<newline>'', [Arg_str (string_text inet_ntop (m_endpoint p))])], l, w') \<and>
    send_messages pp (concat (List.map round_messages [0, 1, 2, 3, 4]) @ [(RELIABLE_ORDERED, testData)]) w = Some w' \<and>
    reach init_world net_step w'"
proof -
  have s: "secure w" using secure_net.reach_inv [OF assms(1)] by simp
  obtain w' where w': "send_messages pp greeting w = Some w'" using send_messages_total [OF s assms(2)] by blast
  have "[0..4] = [0, 1, 2, 3, 4 :: int]" by (simp add: upto_rec1)
  then show ?thesis using w' send_messages_reach [OF assms(1) w'] client_connected_sends [OF assms(2)]
    by (simp add: client_callback_def greeting_def)
qed

theorem client_greets_witness:
  "\<exists>w'. send_messages 0 (concat (List.map round_messages [0, 1, 2, 3, 4]) @ [(RELIABLE_ORDERED, testData)]) sample_connected = Some w' \<and>
     reach init_world net_step w'"
proof -
  obtain p where "get_peer 0 sample_connected = Some p" using sample_connected_facts(5) by blast
  from client_greets [OF sample_reach(5) this] show ?thesis by blast
qed

lemma read_raw_cases:
  "read_raw n r = (if r_position r + n \<le> length (r_data r)
     then Some (take n (drop (r_position r) (r_data r)), r\<lparr>r_position := r_position r + n\<rparr>) else None)"
  by (auto simp: read_raw_def rd_bytes_def)

text \<open>C29: What the client does with a message other than the long one: it is undefined exactly when the buffer of the packet
  ends within eight bytes of the reader's position, whatever the size of the message, or the counter is
  at its maximum; and of a message that starts as one of its own it prints the kind and the number.\<close>

theorem client_receive_defined:
  assumes "r_size r \<noteq> 13218"
  shows "(client_network_receive r dm l \<noteq> None \<longleftrightarrow> r_position r + 8 \<le> length (r_data r) \<and> m_received_count l < 2 ^ 31 - 1) \<and>
    (\<forall>kind i rest. drop (r_position r) (r_data r) = client_bytes kind i @ rest \<and> m_received_count l < 2 ^ 31 - 1 \<and>
        kind \<in> {- (2 ^ 31)..<2 ^ 31} \<and> i \<in> {- (2 ^ 31)..<2 ^ 31} \<longrightarrow>
      client_network_receive r dm l =
        Some ([(''CNT: %i, TYPE: %i, NUM: %i, MTD: %i\<newline>'',
                [Arg_int (m_received_count l + 1), Arg_int kind, Arg_int i, Arg_int (int (delivery_code dm))])],
          l\<lparr>m_received_count := m_received_count l + 1\<rparr>))"
proof (intro conjI allI impI)
  show "client_network_receive r dm l \<noteq> None \<longleftrightarrow> r_position r + 8 \<le> length (r_data r) \<and> m_received_count l < 2 ^ 31 - 1"
    using assms by (auto simp: client_network_receive_def read_raw_cases Let_def)
next
  fix kind i rest
  assume a: "drop (r_position r) (r_data r) = client_bytes kind i @ rest \<and> m_received_count l < 2 ^ 31 - 1 \<and>
        kind \<in> {- (2 ^ 31)..<2 ^ 31} \<and> i \<in> {- (2 ^ 31)..<2 ^ 31}"
  have "length (drop (r_position r) (r_data r)) = 8 + length rest" using a by (simp add: client_bytes_def)
  then have p: "r_position r + 8 \<le> length (r_data r)" by simp
  have t: "take 4 (drop (r_position r) (r_data r)) = le_bytes 4 (word_of_int kind :: i32)"
    "take 4 (drop (r_position r + 4) (r_data r)) = le_bytes 4 (word_of_int i :: i32)"
  proof -
    have "drop (r_position r + 4) (r_data r) = drop 4 (drop (r_position r) (r_data r))" by (simp add: add.commute)
    then show "take 4 (drop (r_position r) (r_data r)) = le_bytes 4 (word_of_int kind :: i32)"
      "take 4 (drop (r_position r + 4) (r_data r)) = le_bytes 4 (word_of_int i :: i32)"
      using a by (simp_all add: client_bytes_def del: drop_drop)
  qed
  have "sint (word_of_int k :: i32) = k" if "k \<in> {- (2 ^ 31)..<2 ^ 31}" for k
    using that by (simp add: signed_of_int signed_take_bit_int_eq_self)
  with a p t assms show "client_network_receive r dm l =
        Some ([(''CNT: %i, TYPE: %i, NUM: %i, MTD: %i\<newline>'',
                [Arg_int (m_received_count l + 1), Arg_int kind, Arg_int i, Arg_int (int (delivery_code dm))])],
          l\<lparr>m_received_count := m_received_count l + 1\<rparr>)"
    by (simp add: client_network_receive_def read_raw_cases Let_def)
qed

theorem client_receive_defined_witness:
  "client_network_receive \<lparr>r_data = [1, 0, 0, 7], r_size = 4, r_position = 1\<rparr> RELIABLE_ORDERED \<lparr>m_received_count = 0\<rparr> = None"
proof -
  let ?r = "\<lparr>r_data = [1, 0, 0, 7], r_size = 4, r_position = 1\<rparr> :: net_data_reader"
  have "r_size ?r \<noteq> 13218" "\<not> r_position ?r + 8 \<le> length (r_data ?r)" by simp_all
  then show ?thesis using client_receive_defined [of ?r RELIABLE_ORDERED "\<lparr>m_received_count = 0\<rparr>"] by blast
qed

end
