(* ===== verification/Net_Logger.thy ===== *)
theory Net_Logger
  imports Net_Utils
begin

text \<open>
  \<open>net_logger.h\<close>: what \<open>log\<close> writes to the standard output. \<open>vsnprintf\<close> is given the size of the buffer.
\<close>

text \<open>The line is printed as a C string.\<close>

definition log_line :: "(int \<Rightarrow> int \<times> string) \<Rightarrow> string \<Rightarrow> string option" where
  "log_line vsnprintf str = do {
     line \<leftarrow> string_format vsnprintf str;
     Some (takeWhile (\<lambda>c. c \<noteq> CHR 0x00) line @ ''\<newline>'')
   }"

text \<open>The whole text is logged, up to a NUL that was formatted into it (by \<open>%c\<close>).\<close>

lemma log_prints:
  assumes "\<And>sz. 0 < sz \<Longrightarrow> vsnprintf sz = (int (length text0), take (nat sz - 1) text0)"
  shows "\<exists>line rest. log_line vsnprintf str = Some (line @ ''\<newline>'') \<and> text0 = line @ rest \<and> CHR 0x00 \<notin> set line \<and>
    (rest = [] \<or> hd rest = CHR 0x00)"
proof (intro exI conjI)
  let ?line = "takeWhile (\<lambda>c. c \<noteq> CHR 0x00) text0" and ?rest = "dropWhile (\<lambda>c. c \<noteq> CHR 0x00) text0"
  show "log_line vsnprintf str = Some (?line @ ''\<newline>'')" using string_format_total [OF assms] by (simp add: log_line_def)
  show "text0 = ?line @ ?rest" by simp
  show "CHR 0x00 \<notin> set ?line" by (auto dest: set_takeWhileD)
  show "?rest = [] \<or> hd ?rest = CHR 0x00" using hd_dropWhile by blast
qed

end
