(* ===== verification/Event_Listener.thy ===== *)
theory Event_Listener
  imports Sample_World "HOL-Library.Multiset"
begin

text \<open>
  The listener made of delegates (\<open>net_event_based_listener.h\<close>): each method of the interface calls the
  subscribers of one delegate. An argument passed by a reference that is not const (the pointer of a
  peer, a reader, the information on a disconnect) is shared by the subscribers of one call, so a handler
  maps it and the world to their new values, or to \<^const>\<open>None\<close> when it does not return. A handler does not
  subscribe or unsubscribe while its delegate is being called. The order in which a delegate calls its
  subscribers is that of an \<open>unordered_map\<close>: it is an argument.
\<close>

section \<open>The listener\<close>

type_synonym 'm handler = "'m \<Rightarrow> world \<Rightarrow> ('m \<times> world) option"

record event_based_listener =
  m_peer_connected :: "nat option handler net_delegate"
  m_peer_disconnected :: "(nat option \<times> disconnect_info) handler net_delegate"
  m_network_error :: "(sockaddr_in \<Rightarrow> int \<Rightarrow> string \<Rightarrow> unit handler) net_delegate"
  m_network_receive :: "(u8 \<Rightarrow> delivery_method \<Rightarrow> (nat option \<times> net_data_reader) handler) net_delegate"
  m_network_receive_unconnected :: "(sockaddr_in \<Rightarrow> unconnected_message_type \<Rightarrow> net_data_reader handler) net_delegate"
  m_network_latency_update :: "(int \<Rightarrow> nat option handler) net_delegate"
  m_connection_request :: "nat option handler net_delegate"
  m_message_delivered :: "(nat option \<Rightarrow> nat option handler) net_delegate"

definition new_event_based_listener :: event_based_listener where
  "new_event_based_listener =
     \<lparr>m_peer_connected = new_delegate, m_peer_disconnected = new_delegate, m_network_error = new_delegate,
      m_network_receive = new_delegate, m_network_receive_unconnected = new_delegate,
      m_network_latency_update = new_delegate, m_connection_request = new_delegate,
      m_message_delivered = new_delegate\<rparr>"

text \<open>\<open>operator()\<close> of a delegate on the handlers in the order of the map.\<close>

fun run_handlers :: "'m handler list \<Rightarrow> 'm handler" where
  "run_handlers [] m w = Some (m, w)"
| "run_handlers (func # funcs) m w = do { (m1, w1) \<leftarrow> func m w; run_handlers funcs m1 w1 }"

definition call_handlers :: "'m handler list \<Rightarrow> 'm \<Rightarrow> world \<Rightarrow> world option" where
  "call_handlers funcs m w = do { (_, w1) \<leftarrow> run_handlers funcs m w; Some w1 }"

definition on_peer_connected :: "nat list \<Rightarrow> event_based_listener \<Rightarrow> nat option \<Rightarrow> world \<Rightarrow> world option" where
  "on_peer_connected order l peer = call_handlers (call_delegate order (m_peer_connected l)) peer"

definition on_peer_disconnected ::
  "nat list \<Rightarrow> event_based_listener \<Rightarrow> nat option \<Rightarrow> disconnect_info \<Rightarrow> world \<Rightarrow> world option" where
  "on_peer_disconnected order l peer disconnectInfo =
     call_handlers (call_delegate order (m_peer_disconnected l)) (peer, disconnectInfo)"

definition on_network_error ::
  "nat list \<Rightarrow> event_based_listener \<Rightarrow> sockaddr_in \<Rightarrow> int \<Rightarrow> string \<Rightarrow> world \<Rightarrow> world option" where
  "on_network_error order l endpoint errorCode msg =
     call_handlers (List.map (\<lambda>h. h endpoint errorCode msg) (call_delegate order (m_network_error l))) ()"

definition on_network_receive ::
  "nat list \<Rightarrow> event_based_listener \<Rightarrow> nat option \<Rightarrow> net_data_reader \<Rightarrow> u8 \<Rightarrow> delivery_method \<Rightarrow> world \<Rightarrow> world option" where
  "on_network_receive order l peer reader channel method =
     call_handlers (List.map (\<lambda>h. h channel method) (call_delegate order (m_network_receive l))) (peer, reader)"

definition on_network_receive_unconnected ::
  "nat list \<Rightarrow> event_based_listener \<Rightarrow> sockaddr_in \<Rightarrow> net_data_reader \<Rightarrow> unconnected_message_type \<Rightarrow> world \<Rightarrow> world option" where
  "on_network_receive_unconnected order l endpoint reader messageType =
     call_handlers (List.map (\<lambda>h. h endpoint messageType) (call_delegate order (m_network_receive_unconnected l))) reader"

definition on_network_latency_update ::
  "nat list \<Rightarrow> event_based_listener \<Rightarrow> nat option \<Rightarrow> int \<Rightarrow> world \<Rightarrow> world option" where
  "on_network_latency_update order l peer lat =
     call_handlers (List.map (\<lambda>h. h lat) (call_delegate order (m_network_latency_update l))) peer"

definition on_connection_request :: "nat list \<Rightarrow> event_based_listener \<Rightarrow> nat option \<Rightarrow> world \<Rightarrow> world option" where
  "on_connection_request order l request = call_handlers (call_delegate order (m_connection_request l)) request"

definition on_message_delivered ::
  "nat list \<Rightarrow> event_based_listener \<Rightarrow> nat option \<Rightarrow> nat option \<Rightarrow> world \<Rightarrow> world option" where
  "on_message_delivered order l peer ud =
     call_handlers (List.map (\<lambda>h. h ud) (call_delegate order (m_message_delivered l))) peer"

text \<open>The virtual calls.\<close>

definition event_based :: "(callback \<Rightarrow> nat list) \<Rightarrow> event_based_listener \<Rightarrow> callback \<Rightarrow> world \<Rightarrow> world option" where
  "event_based order l c w =
     (case c of
        On_peer_connected peer \<Rightarrow> on_peer_connected (order c) l peer w
      | On_peer_disconnected peer info \<Rightarrow> on_peer_disconnected (order c) l peer info w
      | On_network_error a e msg \<Rightarrow> on_network_error (order c) l a e msg w
      | On_network_receive peer r n m \<Rightarrow> on_network_receive (order c) l peer r n m w
      | On_network_receive_unconnected a r m \<Rightarrow> on_network_receive_unconnected (order c) l a r m w
      | On_network_latency_update peer lat \<Rightarrow> on_network_latency_update (order c) l peer lat w
      | On_connection_request rp \<Rightarrow> on_connection_request (order c) l rp w
      | On_message_delivered peer ud \<Rightarrow> on_message_delivered (order c) l peer ud w)"

section \<open>The subscribers of a delegate\<close>

datatype 'h delegate_op = Subscribe 'h | Unsubscribe nat

fun delegate_run :: "'h delegate_op list \<Rightarrow> 'h net_delegate \<Rightarrow> 'h net_delegate" where
  "delegate_run [] d = d"
| "delegate_run (Subscribe h # ops) d = delegate_run ops (snd (subscribe h d))"
| "delegate_run (Unsubscribe i # ops) d = delegate_run ops (snd (unsubscribe i d))"

text \<open>The specification: the subscriptions with their ids, in the order they were made.\<close>

fun live_handlers :: "'h delegate_op list \<Rightarrow> nat \<times> (nat \<times> 'h) list \<Rightarrow> nat \<times> (nat \<times> 'h) list" where
  "live_handlers [] s = s"
| "live_handlers (Subscribe h # ops) (n, s) = live_handlers ops (n + 1, s @ [(n, h)])"
| "live_handlers (Unsubscribe i # ops) (n, s) = live_handlers ops (n, filter (\<lambda>(j, _). j \<noteq> i) s)"

definition subscribed :: "'h net_delegate \<Rightarrow> nat \<times> (nat \<times> 'h) list \<Rightarrow> bool" where
  "subscribed d s \<longleftrightarrow> m_id_counter d = fst s \<and> m_subscriptions d = map_of (snd s) \<and> distinct (List.map fst (snd s)) \<and>
     (\<forall>i \<in> set (List.map fst (snd s)). i < fst s)"

lemma subscribed_new: "subscribed new_delegate (0, [])"
  by (simp add: subscribed_def new_delegate_def)

lemma subscribed_subscribe:
  assumes "subscribed d (n, s)" shows "subscribed (snd (subscribe h d)) (n + 1, s @ [(n, h)])"
proof -
  have n: "n \<notin> fst ` set s" using assms by (auto simp: subscribed_def)
  then have "map_of s n = None" by (simp add: map_of_eq_None_iff)
  then show ?thesis using assms n by (auto simp: subscribed_def subscribe_def Let_def map_of_append fun_eq_iff map_add_def split: option.splits)
qed

lemma map_of_drop: "map_of (filter (\<lambda>(j, _). j \<noteq> i) s) = (map_of s)(i := None)"
  by (induction s) (auto simp: fun_eq_iff)

lemma subscribed_unsubscribe:
  assumes "subscribed d (n, s)" shows "subscribed (snd (unsubscribe i d)) (n, filter (\<lambda>(j, _). j \<noteq> i) s)"
  using assms by (auto simp: subscribed_def unsubscribe_def map_of_drop distinct_map_filter)

lemma delegate_run_subscribed:
  "subscribed d s \<Longrightarrow> subscribed (delegate_run ops d) (live_handlers ops s)"
proof (induction ops arbitrary: d s)
  case (Cons x ops)
  then show ?case by (cases x; cases s) (simp_all add: subscribed_subscribe [simplified] subscribed_unsubscribe)
qed simp

lemma map_filter_handlers:
  assumes s: "distinct (List.map fst s)" and ks: "distinct ks" "set (List.map fst s) \<subseteq> set ks"
  shows "mset (List.map_filter (map_of s) ks) = mset (List.map snd s)"
proof -
  let ?ks = "filter (\<lambda>k. map_of s k \<noteq> None) ks"
  have "set ?ks = set (List.map fst s)" using ks(2) by (auto simp: map_of_eq_None_iff)
  then have "mset ?ks = mset (List.map fst s)" using s ks(1) by (simp only: set_eq_iff_mset_eq_distinct [symmetric] distinct_filter)
  note keys = this
  have vals: "List.map (\<lambda>k. the (map_of s k)) (List.map fst s) = List.map snd s" using s by auto
  have "mset (List.map_filter (map_of s) ks) = image_mset (\<lambda>k. the (map_of s k)) (mset ?ks)"
    by (simp add: List.map_filter_def comp_def)
  also have "\<dots> = mset (List.map (\<lambda>k. the (map_of s k)) (List.map fst s))" by (simp only: keys mset_map)
  also have "\<dots> = mset (List.map snd s)" by (simp only: vals)
  finally show ?thesis .
qed

text \<open>C23: After any subscriptions and unsubscriptions, a delegate calls exactly the handlers that were subscribed
  and not unsubscribed by their id, each once, whatever the order of its map.
\<close>

theorem delegate_calls_subscribers:
  assumes "live_handlers ops (0, []) = (n, s)" "distinct order" "{..<n} \<subseteq> set order"
  shows "mset (call_delegate order (delegate_run ops new_delegate)) = mset (List.map snd s)"
proof -
  have "subscribed (delegate_run ops new_delegate) (n, s)"
    using delegate_run_subscribed [OF subscribed_new, of ops] assms(1) by simp
  then show ?thesis using assms(2,3) map_filter_handlers [of s order]
    by (fastforce simp: subscribed_def call_delegate_def)
qed

theorem delegate_calls_subscribers_witness:
  "mset (call_delegate [2, 0, 1] (delegate_run [Subscribe ''a'', Subscribe ''b'', Unsubscribe 0, Subscribe ''c''] new_delegate)) =
     {#''b'', ''c''#}"
proof -
  have "live_handlers [Subscribe ''a'', Subscribe ''b'', Unsubscribe 0, Subscribe ''c''] (0, []) = (3, [(1, ''b''), (2, ''c'')])" by simp
  from delegate_calls_subscribers [OF this, of "[2, 0, 1]"] show ?thesis by (simp add: lessThan_nat_numeral lessThan_Suc)
qed

section \<open>Polling\<close>

definition good_handler :: "'m handler \<Rightarrow> bool" where
  "good_handler h \<longleftrightarrow> (\<forall>m w. (\<forall>m' w'. h m w = Some (m', w') \<longrightarrow> app_step\<^sup>*\<^sup>* w w') \<and> (manager_ok w \<longrightarrow> h m w \<noteq> None))"

definition handlers :: "'h net_delegate \<Rightarrow> 'h set" where
  "handlers d = ran (m_subscriptions d)"

definition subscribers_ok :: "event_based_listener \<Rightarrow> bool" where
  "subscribers_ok l \<longleftrightarrow>
     (\<forall>h \<in> handlers (m_peer_connected l). good_handler h) \<and>
     (\<forall>h \<in> handlers (m_peer_disconnected l). good_handler h) \<and>
     (\<forall>h \<in> handlers (m_network_error l). \<forall>a e msg. good_handler (h a e msg)) \<and>
     (\<forall>h \<in> handlers (m_network_receive l). \<forall>n m. good_handler (h n m)) \<and>
     (\<forall>h \<in> handlers (m_network_receive_unconnected l). \<forall>a m. good_handler (h a m)) \<and>
     (\<forall>h \<in> handlers (m_network_latency_update l). \<forall>lat. good_handler (h lat)) \<and>
     (\<forall>h \<in> handlers (m_connection_request l). good_handler h) \<and>
     (\<forall>h \<in> handlers (m_message_delivered l). \<forall>ud. good_handler (h ud))"

lemma called_handlers: "h \<in> set (call_delegate order d) \<Longrightarrow> h \<in> handlers d"
  by (auto simp: call_delegate_def handlers_def List.map_filter_def ran_def)

lemma run_handlers_steps:
  "\<forall>h \<in> set hs. good_handler h \<Longrightarrow> run_handlers hs m w = Some (m', w') \<Longrightarrow> app_step\<^sup>*\<^sup>* w w'"
proof (induction hs arbitrary: m w)
  case (Cons h hs)
  obtain m1 w1 where h: "h m w = Some (m1, w1)" "run_handlers hs m1 w1 = Some (m', w')"
    using Cons.prems(2) by (auto elim!: bind_SomeE)
  then have "app_step\<^sup>*\<^sup>* w w1" using Cons.prems(1) by (auto simp: good_handler_def)
  with Cons.IH [OF _ h(2)] Cons.prems(1) show ?case by (auto intro: rtranclp_trans)
qed simp

lemma run_handlers_total:
  "\<forall>h \<in> set hs. good_handler h \<Longrightarrow> manager_ok w \<Longrightarrow> run_handlers hs m w \<noteq> None"
proof (induction hs arbitrary: m w)
  case (Cons h hs)
  have g: "good_handler h" using Cons.prems(1) by simp
  then obtain m1 w1 where h: "h m w = Some (m1, w1)" using Cons.prems(2) unfolding good_handler_def by fastforce
  then have "app_step\<^sup>*\<^sup>* w w1" using g unfolding good_handler_def by blast
  then have "manager_ok w1" using app_steps_ok Cons.prems(2) by blast
  then show ?case using Cons.IH [of w1 m1] Cons.prems(1) h by simp
qed simp

definition good_call :: "(world \<Rightarrow> world option) \<Rightarrow> bool" where
  "good_call f \<longleftrightarrow> (\<forall>w w'. f w = Some w' \<longrightarrow> app_step\<^sup>*\<^sup>* w w') \<and> (\<forall>w. manager_ok w \<longrightarrow> f w \<noteq> None)"

lemma call_handlers_good:
  assumes "\<And>h. h \<in> set hs \<Longrightarrow> good_handler h" shows "good_call (call_handlers hs m)"
proof -
  have g: "\<forall>h \<in> set hs. good_handler h" using assms by blast
  have "call_handlers hs m w \<noteq> None" if "manager_ok w" for w
    using run_handlers_total [OF g that, of m] by (auto simp: call_handlers_def)
  then show ?thesis using run_handlers_steps [OF g] by (auto simp: good_call_def call_handlers_def elim!: bind_SomeE)
qed

lemmas listener_calls = on_peer_connected_def on_peer_disconnected_def on_network_error_def on_network_receive_def
  on_network_receive_unconnected_def on_network_latency_update_def on_connection_request_def on_message_delivered_def

lemma event_based_call: "subscribers_ok l \<Longrightarrow> good_call (event_based order l c)"
  by (cases c) (auto simp: event_based_def [abs_def] listener_calls subscribers_ok_def intro!: call_handlers_good dest!: called_handlers)

text \<open>Polling with the listener made of delegates is safe in every reachable world with \<open>auto_recycle\<close> on, for
  any number of subscribers of each event that only make calls of the library and return, and whatever
  they do to the arguments they share: no undefined behaviour and no failed assertion, the queue
  is emptied, and the invariant of the manager holds behind it.
\<close>

lemma event_based_polling_safe:
  assumes "reach init_world net_step w" "auto_recycle w" "subscribers_ok l"
  shows "\<exists>w'. poll_events (event_based order l) w = Some w' \<and> m_events_consume_queue w' = [] \<and> manager_ok w'"
proof -
  have ok: "manager_ok w" by (rule net.reach_inv [OF assms(1)])
  have al: "app_listener (event_based order l)" unfolding app_listener_def
  proof (intro allI impI)
    fix c u u' assume "event_based order l c u = Some u'"
    with event_based_call [OF assms(3), of order c] show "app_step\<^sup>*\<^sup>* u u'" by (auto simp: good_call_def)
  qed
  have total: "event_based order l c v \<noteq> None" if "manager_ok v" for c v
    using event_based_call [OF assms(3), of order c] that by (auto simp: good_call_def)
  obtain w' where w': "poll_events (event_based order l) w = Some w'" using poll_total [OF al total ok assms(2)] by auto
  then have "m_events_consume_queue w' = []" by (auto simp: poll_events_def Let_def elim!: bind_SomeE)
  with w' poll_ok [OF al ok w'] show ?thesis by blast
qed

definition accept_all :: "nat option handler" where
  "accept_all request w =
     (case request of
        None \<Rightarrow> Some (request, w)
      | Some rp \<Rightarrow> (case request_accept rp w of None \<Rightarrow> Some (request, w) | Some (_, w1) \<Rightarrow> Some (request, w1)))"

lemma event_based_polling_safe_witness:
  "\<exists>w'. poll_events (event_based (\<lambda>_. [0])
      (new_event_based_listener\<lparr>m_connection_request := snd (subscribe accept_all new_delegate)\<rparr>)) sample_asked = Some w' \<and>
     m_events_consume_queue w' = [] \<and> manager_ok w'"
proof (rule event_based_polling_safe [OF sample_reach(3) sample_asked_facts(3)])
  have "good_handler accept_all"
    by (auto simp: good_handler_def accept_all_def split: option.splits intro: app_step.app_accept)
  then show "subscribers_ok (new_event_based_listener\<lparr>m_connection_request := snd (subscribe accept_all new_delegate)\<rparr>)"
    by (simp add: subscribers_ok_def new_event_based_listener_def handlers_def subscribe_def new_delegate_def)
qed

end
