(* ===== verification/Net_Mutex.thy ===== *)
theory Net_Mutex
  imports Prelude
begin

text \<open>
  The mutex and its guard (\<open>net_mutex.h\<close>, as built on Linux). The class makes a recursive POSIX mutex; a
  guard locks it where it is declared, and unlocks it at the end of its block or, earlier, by \<open>release\<close>.
  An operation returns the calls it makes of the pthread library. The second part runs threads that use
  guards in blocks, one call at a time, over a mutex that does what POSIX says of a recursive one.
\<close>

section \<open>The classes\<close>

datatype pthread_call =
  Mutexattr_init | Mutexattr_settype_recursive | Mutex_init | Mutex_lock | Mutex_unlock | Mutex_destroy | Mutexattr_destroy

definition new_net_mutex :: "pthread_call list" where
  "new_net_mutex = [Mutexattr_init, Mutexattr_settype_recursive, Mutex_init]"

definition delete_net_mutex :: "pthread_call list" where
  "delete_net_mutex = [Mutex_destroy, Mutexattr_destroy]"

record net_mutex_guard =
  m_released :: bool

definition new_guard :: "net_mutex_guard \<times> pthread_call list" where
  "new_guard = (\<lparr>m_released = False\<rparr>, [Mutex_lock])"

definition guard_release :: "net_mutex_guard \<Rightarrow> net_mutex_guard \<times> pthread_call list" where
  "guard_release g = (g\<lparr>m_released := True\<rparr>, [Mutex_unlock])"

definition delete_guard :: "net_mutex_guard \<Rightarrow> pthread_call list" where
  "delete_guard g = (if m_released g then [] else snd (guard_release g))"

section \<open>Threads that use guards\<close>

text \<open>
  A block of code declares a guard and ends (\<open>Guarded\<close>), or releases the guard on the way (\<open>Released\<close>). The
  flag of \<open>Work\<close> says that the code stands between the declaration of a guard and its release or end.
\<close>

datatype 'a code = Do 'a | Guarded "'a code list" | Released "'a code list" "'a code list"

datatype 'a act = Work 'a bool | Call pthread_call

fun acts :: "bool \<Rightarrow> 'a code \<Rightarrow> 'a act list" where
  "acts held (Do a) = [Work a held]"
| "acts held (Guarded body) =
     (let (g, calls) = new_guard
      in List.map Call calls @ concat (List.map (acts True) body) @ List.map Call (delete_guard g))"
| "acts held (Released body rest) =
     (let (g, calls) = new_guard; (g1, calls1) = guard_release g
      in List.map Call calls @ concat (List.map (acts True) body) @ List.map Call calls1
         @ concat (List.map (acts held) rest) @ List.map Call (delete_guard g1))"

text \<open>The owner and the count of a locked mutex, and what every thread has left to do.\<close>

type_synonym 'a config = "(nat \<times> nat) option \<times> (nat \<Rightarrow> 'a act list)"

inductive thread_step :: "'a config \<Rightarrow> 'a config \<Rightarrow> bool" where
  work: "ts t = Work a held # r \<Longrightarrow> thread_step (m, ts) (m, ts(t := r))"
| lock: "ts t = Call Mutex_lock # r \<Longrightarrow> thread_step (None, ts) (Some (t, 1), ts(t := r))"
| lock_again: "ts t = Call Mutex_lock # r \<Longrightarrow> thread_step (Some (t, n), ts) (Some (t, n + 1), ts(t := r))"
| unlock: "ts t = Call Mutex_unlock # r \<Longrightarrow> thread_step (Some (t, 1), ts) (None, ts(t := r))"
| unlock_one: "ts t = Call Mutex_unlock # r \<Longrightarrow> 1 < n \<Longrightarrow> thread_step (Some (t, n), ts) (Some (t, n - 1), ts(t := r))"

definition threads_init :: "(nat \<Rightarrow> 'a code list) \<Rightarrow> 'a config \<Rightarrow> bool" where
  "threads_init prog c \<longleftrightarrow> c = (None, \<lambda>t. concat (List.map (acts False) (prog t)))"

section \<open>The invariant\<close>

fun covered :: "nat \<Rightarrow> 'a act list \<Rightarrow> bool" where
  "covered d [] \<longleftrightarrow> d = 0"
| "covered d (Work a held # r) \<longleftrightarrow> (held \<longrightarrow> 0 < d) \<and> covered d r"
| "covered d (Call c # r) \<longleftrightarrow>
     (c = Mutex_lock \<and> covered (d + 1) r) \<or> (c = Mutex_unlock \<and> 0 < d \<and> covered (d - 1) r)"

lemma covered_concat:
  assumes "\<And>b d r. b \<in> set bs \<Longrightarrow> (held \<longrightarrow> 0 < d) \<Longrightarrow> covered d (acts held b @ r) = covered d r" and "held \<longrightarrow> 0 < d"
  shows "covered d (concat (List.map (acts held) bs) @ r) = covered d r"
  using assms by (induction bs arbitrary: r) simp_all

lemma covered_acts: "(held \<longrightarrow> 0 < d) \<Longrightarrow> covered d (acts held b @ r) = covered d r"
proof (induction b arbitrary: held d r)
  case (Guarded body)
  have "covered (Suc d) (concat (List.map (acts True) body) @ s) = covered (Suc d) s" for s
    by (rule covered_concat) (auto simp: Guarded.IH)
  then show ?case by (simp add: new_guard_def delete_guard_def guard_release_def)
next
  case (Released body rest)
  have "covered (Suc d) (concat (List.map (acts True) body) @ s) = covered (Suc d) s" for s
    by (rule covered_concat) (auto simp: Released.IH)
  moreover have "covered d (concat (List.map (acts held) rest) @ s) = covered d s" for s
    by (rule covered_concat) (use Released in auto)
  ultimately show ?case by (simp add: new_guard_def delete_guard_def guard_release_def)
qed simp

lemma covered_code: "covered 0 (concat (List.map (acts False) bs))"
  using covered_concat [of bs False 0 "[]", OF covered_acts] by simp

definition depth :: "(nat \<times> nat) option \<Rightarrow> nat \<Rightarrow> nat" where
  "depth m t = (case m of None \<Rightarrow> 0 | Some (u, n) \<Rightarrow> if t = u then n else 0)"

definition config_ok :: "'a config \<Rightarrow> bool" where
  "config_ok c \<longleftrightarrow> (\<forall>t. covered (depth (fst c) t) (snd c t)) \<and> (\<forall>u n. fst c = Some (u, n) \<longrightarrow> 0 < n)"

lemma config_okD: "config_ok (m, ts) \<Longrightarrow> covered (depth m t) (ts t)" "config_ok (Some (u, n), ts) \<Longrightarrow> 0 < n"
  by (auto simp: config_ok_def)

lemma config_upd:
  assumes "config_ok (m, ts)" "covered (depth m' t) r" "\<And>u. u \<noteq> t \<Longrightarrow> depth m' u = depth m u"
    "\<And>u n. m' = Some (u, n) \<Longrightarrow> 0 < n"
  shows "config_ok (m', ts(t := r))"
  using assms by (auto simp: config_ok_def)

lemma init_config_ok: "threads_init prog c \<Longrightarrow> config_ok c"
  by (simp add: threads_init_def config_ok_def depth_def covered_code)

lemma step_config_ok: "thread_step c c' \<Longrightarrow> config_ok c \<Longrightarrow> config_ok c'"
proof (induction rule: thread_step.induct)
  case (work ts t a held r m)
  then show ?case using config_okD(1) [OF work(2), of t] by (auto intro!: config_upd simp: config_ok_def)
next
  case (lock ts t r)
  then show ?case using config_okD(1) [OF lock(2), of t] by (intro config_upd) (auto simp: depth_def)
next
  case (lock_again ts t r n)
  then show ?case using config_okD(1) [OF lock_again(2), of t] by (intro config_upd) (auto simp: depth_def)
next
  case (unlock ts t r)
  then show ?case using config_okD(1) [OF unlock(2), of t] by (intro config_upd) (auto simp: depth_def)
next
  case (unlock_one ts t r n)
  then show ?case using config_okD(1) [OF unlock_one(3), of t] by (intro config_upd) (auto simp: depth_def)
qed

interpretation threads: inductive_invariant "threads_init prog" thread_step config_ok for prog
  by unfold_locales (auto intro: init_config_ok step_config_ok)

section \<open>What guards give\<close>

text \<open>C24: Threads that use one mutex through guards, in any nesting and with early releases, exclude each other: two
  threads never both stand where a guard holds; a thread that unlocks owns the mutex; while some
  thread has something left to do, some thread can go on; and when all are done the mutex is free.
\<close>

theorem guards_exclude:
  assumes "reach (threads_init prog) thread_step (m, ts)"
  shows "(\<forall>t u a b r s. ts t = Work a True # r \<and> ts u = Work b True # s \<longrightarrow> t = u) \<and>
    (\<forall>t r. ts t = Call Mutex_unlock # r \<longrightarrow> (\<exists>n. m = Some (t, n) \<and> 0 < n)) \<and>
    ((\<exists>t. ts t \<noteq> []) \<longrightarrow> (\<exists>c. thread_step (m, ts) c)) \<and>
    ((\<forall>t. ts t = []) \<longrightarrow> m = None)"
proof -
  have ok: "config_ok (m, ts)" by (rule threads.reach_inv [OF assms])
  note cov = config_okD(1) [OF ok]
  have own: "\<exists>n. m = Some (t, n)" if "0 < depth m t" for t
    using that by (auto simp: depth_def split: option.splits if_splits)
  have 1: "0 < depth m t" if "ts t = Work a True # r" for t a r using cov [of t] that by simp
  have 2: "0 < depth m t" if "ts t = Call Mutex_unlock # r" for t r using cov [of t] that by simp
  have 3: "\<exists>c. thread_step (m, ts) c" if t: "ts t \<noteq> []" for t
  proof (cases m)
    case None
    obtain x r where x: "ts t = x # r" using t by (cases "ts t") auto
    then have "covered 0 (x # r)" using cov [of t] None by (simp add: depth_def)
    then show ?thesis using x None by (cases x) (auto intro: thread_step.intros)
  next
    case (Some p)
    then obtain u n where m: "m = Some (u, n)" "0 < n" using config_okD(2) ok by (cases p) auto
    then have "ts u \<noteq> []" "covered n (ts u)" using cov [of u] by (auto simp: depth_def)
    then obtain x r where x: "ts u = x # r" "covered n (x # r)" by (cases "ts u") auto
    show ?thesis
    proof (cases x)
      case (Call c)
      then have "c = Mutex_lock \<or> c = Mutex_unlock" using x(2) by auto
      then show ?thesis using x(1) m Call thread_step.unlock [of ts u r] thread_step.unlock_one [of ts u r n]
        by (cases "n = 1") (auto intro: thread_step.intros)
    qed (use x(1) in \<open>auto intro: thread_step.intros\<close>)
  qed
  have 4: "m = None" if "\<forall>t. ts t = []"
  proof (rule ccontr)
    assume "m \<noteq> None"
    then obtain u n where "m = Some (u, n)" by auto
    moreover from this have "0 < n" using ok config_okD(2) by blast
    ultimately obtain u n where "m = Some (u, n)" "0 < n" by blast
    then show False using cov [of u] that by (simp add: depth_def)
  qed
  have "t = u" if "ts t = Work a True # r" "ts u = Work b True # s" for t u a b r s
    using own [OF 1 [OF that(1)]] own [OF 1 [OF that(2)]] by auto
  moreover have "\<exists>n. m = Some (t, n) \<and> 0 < n" if "ts t = Call Mutex_unlock # r" for t r
    using own [OF 2 [OF that]] ok config_okD(2) by auto
  ultimately show ?thesis using 3 4 by blast
qed

theorem guards_exclude_witness:
  "\<exists>ts c. reach (threads_init (\<lambda>t :: nat. if t < 2 then [Guarded [Do ''push'', Guarded [Do ''size'']]] else []))
      thread_step (Some (1, 1), ts) \<and> thread_step (Some (1, 1), ts) c"
proof -
  let ?prog = "\<lambda>t :: nat. if t < 2 then [Guarded [Do ''push'', Guarded [Do ''size'']]] else []"
  let ?ts = "\<lambda>t. concat (List.map (acts False) (?prog t))"
  have "reach (threads_init ?prog) thread_step (None, ?ts)" by (rule reach_init) (simp add: threads_init_def)
  moreover
  have t: "?ts 1 = Call Mutex_lock # [Work ''push'' True, Call Mutex_lock, Work ''size'' True, Call Mutex_unlock, Call Mutex_unlock]"
    by (simp add: new_guard_def delete_guard_def guard_release_def)
  let ?r = "[Work ''push'' True, Call Mutex_lock, Work ''size'' True, Call Mutex_unlock, Call Mutex_unlock]"
  have "thread_step (None, ?ts) (Some (1, 1), ?ts(1 := ?r))" by (rule thread_step.lock) (rule t)
  ultimately have r: "reach (threads_init ?prog) thread_step (Some (1, 1), ?ts(1 := ?r))" by (rule reach_step)
  have "(?ts(1 := ?r)) 1 \<noteq> []" by simp
  then have "\<exists>c. thread_step (Some (1, 1), ?ts(1 := ?r)) c" using guards_exclude [OF r] by blast
  with r show ?thesis by blast
qed

end
