(* ===== verification/Spec2Isabelle.thy ===== *)
theory Spec2Isabelle
  imports Reliable_Protocol Peer_Life Peer_Properties Manager_Properties Merging Fragments Handshake
    Reliable_Messages Live_Events Examples Net_Logger Address_Text Event_Listener Net_Mutex Net_Threads
begin

text \<open>
  A model of LiteNetLibPP, a C++ library for games: connections between peers, and reliable and unreliable
  messages, over UDP. The theories follow the files under \<open>src/include/lnl\<close> and \<open>src/src/lnl\<close>; each
  operation of the code is one definition with the name of the code, and each property is one theorem
  behind a numbered text block.

  The program. A \<open>net_manager\<close> owns a socket and two threads. The receiving thread reads a datagram into
  a packet of the pool and handles it (\<open>on_message_received\<close>): handshake packets go to the table of
  connection requests or open and close peers, all others to the \<open>net_peer\<close> of the sender's address. The
  logic thread updates every peer of the table and removes the dead ones. A peer has its channels, each
  created when it is first used: \<open>net_reliable_channel\<close> (ordered or not) is a sliding window of 64
  packets with a bitmap of acknowledgements, \<open>net_sequenced_channel\<close> drops late packets. A peer also
  merges small packets into one datagram, cuts large messages into fragments, measures the round trip time
  and searches for the MTU. What the application is to hear is an event in a queue, which \<open>poll_events\<close>
  hands to the listener.

  The theories of the code.
  \<^item> \<open>Net_Utils\<close> (\<open>net_constants.h\<close>, \<open>net_utils.h\<close>, \<open>net_stopwatch.h\<close>), \<open>Net_Packet\<close> (\<open>net_enums.h\<close>,
    \<open>net_packet.h\<close>), \<open>Data_Stream\<close> (\<open>net_data_reader.h\<close>, \<open>net_data_writer.h\<close>), \<open>Containers\<close>
    (\<open>net_queue.h\<close>, \<open>net_delegate.h\<close>), \<open>Net_Mutex\<close> (\<open>net_mutex.h\<close>), \<open>Connect_Packets\<close> (\<open>net_address.h\<close>,
    \<open>packets/\<close>), \<open>Address_Text\<close> (the kept texts of \<open>net_address.h\<close>). Elsewhere an address is its \<open>sockaddr_in\<close>.
  \<^item> \<open>Base_Channel\<close>, \<open>Reliable_Channel\<close>, \<open>Sequenced_Channel\<close> (\<open>channels/\<close>). A call of a channel to its
    peer returns nothing the channel uses, so an operation of a channel returns the new channel and the
    list of its calls (\<open>action\<close>), which \<open>perform\<close> in \<open>Net_Peer\<close> runs.
  \<^item> \<open>Net_World\<close>: the state. Peers and connection requests are objects with identity, held by
    \<open>shared_ptr\<close>: pointers are numbers into the heaps \<open>peer_heap\<close> and \<open>request_heap\<close> of the record
    \<open>world\<close>, which extends the fields of the manager by these heaps, the clocks, the datagrams sent so
    far (\<open>wire\<close>) and the results of \<open>sendto\<close>; also the operations of the manager that peers call.
  \<^item> \<open>Net_Peer\<close> (\<open>net_peer.h/.cpp\<close>) and \<open>Net_Manager\<close> (\<open>net_manager.h/.cpp\<close>, \<open>net_structs.h/.cpp\<close>,
    \<open>net_connection_request.h/.cpp\<close>, \<open>net_event_listener.h\<close>): every method, on pointers and the world.
  \<^item> \<open>Net_Threads\<close> (\<open>net_manager.cpp\<close>): \<open>start\<close> and \<open>bind_socket\<close> over system calls, the loops of the two threads, and
    the body of the destructor. \<open>Event_Listener\<close> (\<open>net_event_based_listener.h\<close>): the listener made of delegates.
    \<open>Net_Logger\<close> (\<open>net_logger.h\<close>): the text of a logged line.
  \<^item> \<open>Examples\<close> (\<open>example/server.cpp\<close>, \<open>example/client.cpp\<close>): the listeners and the main functions of the two
    programs, as users of the library. A callback returns the new fields of its listener, the new world and
    its calls of \<open>printf\<close>; what the threads do between two polls is an argument of the loop.

  The theories of the proofs.
  \<^item> \<open>Reliable_Receiver\<close> and \<open>Reliable_Sender\<close> relate one end of a reliable channel to numbers that do not
    wrap around; \<open>Reliable_Protocol\<close> joins two ends by a network that loses, repeats and reorders
    datagrams, and proves ordered delivery, delivery at most once, that nothing is lost and that no
    operation is undefined. The network may hold a datagram back for at most 15800 further packets, because the numbers of
    the code wrap around. \<open>Sequenced_Channel\<close> has the like for sequenced channels.
  \<^item> \<open>Peer_Frame\<close>: locale \<open>peer_world\<close>, for a relation that every operation of a peer keeps once the few
    basic changes do. It is interpreted for the tables of the manager and for the pool, for the log of events
    and, in \<open>Manager_Inv\<close>, for the change all of them respect (\<open>quiet\<close>).
  \<^item> \<open>Linked_List\<close>, \<open>Peer_Table\<close>: the linked list, the address map, the id array and the free ids describe one
    list of peers, and \<open>add_peer\<close> and \<open>remove_peer\<close> refine its insertion and filtering.
  \<^item> \<open>Manager_Inv\<close>, \<open>Manager_Run\<close>, \<open>Manager_Properties\<close>: the invariant of the manager in every reachable
    world, for every order of datagrams, turns of the logic thread, calls of the application and polls.
    \<open>Peer_Life\<close>: what holds of one peer and of one request along a run, and the walks over the peers.
    \<open>Peer_Properties\<close>: single operations, and the places where the code is undefined or does less than it
    means to. \<open>Sample_World\<close>: concrete runs, evaluated.
  \<^item> \<open>Address_Text\<close>, \<open>Event_Listener\<close>, \<open>Net_Mutex\<close> and \<open>Net_Threads\<close> hold the theorems on their own definitions.
  \<^item> \<open>Merging\<close>, \<open>Fragments\<close>, \<open>Handshake\<close>, \<open>Messages\<close>: the two ends together, for merged packets, for
    fragmented messages in any order of arrival, for the opening of a connection by two managers (with a connection
    number below 4), and for an unreliable message of a peer with nothing else to send, from \<open>send\<close> through the update of the peer to the event at the other end.
    \<open>Reliable_Messages\<close> is the like for a reliable message, through the channels of both ends.

  \<^item> \<open>Channel_Safety\<close>, \<open>Peer_Safety\<close>, \<open>Packet_Safety\<close>, \<open>Turn_Safety\<close>, \<open>Send_Safety\<close>: one lemma for each operation
    of the channels and of a peer, that in a safe world (every peer with its channels, merge buffer, fragments
    and timers in order) it returns and leaves a safe world. \<open>Safe_Runs\<close> and \<open>Datagram_Safety\<close> lift them to the
    manager: every reachable world is safe, so that every turn of the logic thread returns, and the
    datagrams and the calls of \<open>send\<close> without a behaviour are named exactly.
  \<^item> \<open>Live_Events\<close>: what the application can rely on in every reachable world. The events that wait name
    objects that are there, polling returns for a listener that needs no more than that exactly when \<open>auto_recycle\<close> is on or
    every waiting event was recycled before, and \<open>accept\<close>,
    \<open>connect\<close> and \<open>disconnect_all\<close> return. \<open>Examples\<close> builds on it: the server echoes what it is sent and its
    loop is safe, the client sends its greeting, and reads messages without looking at their size.

  How the code is read. An operation returns \<^const>\<open>None\<close> where the C++ code has undefined behaviour, fails an
  assertion or throws: an access out of bounds, a null pointer, an absent optional. So a theorem that an
  operation returns \<^const>\<open>Some\<close> is a theorem that none of these happen. Integers are words of their width where
  they are stored or sent; \<open>size_t\<close> is \<open>nat\<close> with the wrap-around of subtractions written out
  (\<open>usub\<close>); the sequence numbers of the channels, which are \<open>int32_t\<close> between 0 and 32767, are \<open>int\<close>; times
  in milliseconds and counters of calls are \<open>int\<close> and do not wrap. The one \<open>double\<close>, the resend delay, is
  an exact fraction, as the numbers it is computed from are small. Little-endian
  layout is written out by \<open>le_bytes\<close>.

  Loops. Loops over data are structural recursion or have a measure. A loop whose end depends on the state
  (the guard compares sequence numbers, the walk follows pointers, a merged packet holds merged packets) is a
  \<open>partial_function (option)\<close>, and a loop without end is \<^const>\<open>None\<close>; that these loops end in the states
  that can be reached is part of the theorems that the operations return \<^const>\<open>Some\<close>
  (\<open>logic_turn_safe\<close>, \<open>datagram_defined\<close>, \<open>logic_walk\<close>). No definition uses fuel.

  Parameters. The clocks, the results of \<open>sendto\<close>, the datagrams of \<open>recvfrom\<close>, \<open>getaddrinfo\<close>, \<open>vsnprintf\<close>
  and the listener of the application are arguments or fields of the world; a step of \<open>net_step\<close> may
  change the environment in any way.

  Threads. A step of \<open>net_step\<close> is one whole operation: the handling of a datagram, a turn of the logic
  thread, or a call of the application; the loops in \<open>Net_Threads\<close> are runs of such steps. Interleavings inside an
  operation are modelled in two places only: the flag of a channel's place in the send queue, which the code
  updates without a lock, has the step relation \<open>race_step\<close> in \<open>Base_Channel\<close>, the union of the steps of any number of
  producers and of the sending thread, with the compare-and-swap and the push to the send queue as two steps; and \<open>thread_step\<close> in \<open>Net_Mutex\<close>
  runs threads that share a mutex through guards, call by call.

  Not modelled: the branches for Windows (the model is the program as built on Linux), that the
  operating system refuses a thread or memory, the destruction of the members of a manager behind the body of its destructor and the moment at which
  the last pointer to a peer goes (\<open>destroy_peer\<close> is the destructor of a peer, which no operation calls), a change of \<open>packet_pool_size\<close>
  at run time (it keeps its value of 1000), subscriptions made by a handler while its delegate is being called, datagrams that are
  more than 15800 packets late, interleavings inside an operation apart from the two above
  (some code, such as the walk of the logic thread over the peers, runs without the lock it would need),
  and the tests. No theorem says that a merged datagram, whose packets are handled one after another, is without
  undefined behaviour.
\<close>

end
